(* ===== verification/Prelude.thy ===== *)
theory Prelude
  imports Main "HOL-Library.Word"
begin

text \<open>
  Shared vocabulary of the SparrowOS development: the machine integer types of
  \<^verbatim>\<open>lib/stdint.h\<close>, the reasons for which a kernel routine does not return to its
  caller (\<open>stop\<close>), the result type \<open>'a res\<close> with its sequencing operator, and the
  generic facts on words, lists and results that the component theories use.

  Every kernel routine that can hit an \<^verbatim>\<open>ASSERT\<close> or \<^verbatim>\<open>PANIC\<close>, read or write
  outside the object it works on, put its caller to sleep or loop forever is a function into
  \<open>'a res\<close>: \<open>Inl\<close> of a \<open>stop\<close> for these cases, \<open>Inr\<close> of the result otherwise.
\<close>

unbundle bit_operations_syntax

section \<open>Collections of simplification rules\<close>

named_theorems res_simps \<open>how results of kernel routines are taken apart\<close>
named_theorems unat_simps \<open>unsigned readings of word expressions\<close>
named_theorems layout_simps \<open>constants of the source (macros and sizeof values)\<close>

section \<open>Types\<close>

type_synonym u8 = "8 word"
type_synonym u16 = "16 word"
type_synonym u32 = "32 word"

text \<open>
  \<open>Panic c\<close>: \<^verbatim>\<open>panic_spin\<close> was entered with condition text \<open>c\<close> (the machine spins
  with interrupts off). \<open>Bad_Access\<close>: a load or store outside the object, among them a
  \<^verbatim>\<open>NULL\<close> dereference. \<open>Blocks\<close>: the calling thread was switched out before the
  routine could finish. \<open>Diverges\<close>: the routine loops without leaving.
\<close>

datatype stop = Panic string | Bad_Access | Blocks | Diverges

type_synonym 'a res = "stop + 'a"

definition bind_res :: "'a res \<Rightarrow> ('a \<Rightarrow> 'b res) \<Rightarrow> 'b res" where
  "bind_res m f = (case m of Inl e \<Rightarrow> Inl e | Inr x \<Rightarrow> f x)"

text \<open>The \<^verbatim>\<open>ASSERT\<close> macro of \<^verbatim>\<open>kernel/debug.h\<close>: nothing, or \<^verbatim>\<open>PANIC(#CONDITION)\<close>.\<close>

definition ASSERT :: "bool \<Rightarrow> string \<Rightarrow> unit res" where
  "ASSERT c txt = (if c then Inr () else Inl (Panic txt))"

text \<open>Indexed load and store on an array; out of range is \<open>Bad_Access\<close>.\<close>

definition load :: "'a list \<Rightarrow> nat \<Rightarrow> 'a res" where
  "load xs i = (if i < length xs then Inr (xs ! i) else Inl Bad_Access)"

definition store :: "'a list \<Rightarrow> nat \<Rightarrow> 'a \<Rightarrow> 'a list res" where
  "store xs i v = (if i < length xs then Inr (xs[i := v]) else Inl Bad_Access)"

text \<open>A loop that may not end is \<open>None\<close> if it does not.\<close>

definition loop_end :: "'a res option \<Rightarrow> 'a res" where
  "loop_end m = (case m of None \<Rightarrow> Inl Diverges | Some r \<Rightarrow> r)"

text \<open>The macro \<^verbatim>\<open>DIV_ROUND_UP(X, STEP)\<close> of \<^verbatim>\<open>kernel/global.h\<close>, on 32-bit operands.\<close>

definition DIV_ROUND_UP :: "u32 \<Rightarrow> u32 \<Rightarrow> u32" where
  "DIV_ROUND_UP x step = (x + step - 1) div step"

definition PG_SIZE :: u32 where [layout_simps]: "PG_SIZE = 4096"

section \<open>Results\<close>

lemma bind_res_Inr [simp]: "bind_res (Inr x) f = f x"
  and bind_res_Inl [simp]: "bind_res (Inl e) f = Inl e"
  by (simp_all add: bind_res_def)

lemma bind_res_eq_Inr [res_simps]: "bind_res m f = Inr y \<longleftrightarrow> (\<exists>x. m = Inr x \<and> f x = Inr y)"
  by (cases m) auto

lemma bind_res_eq_Inl [res_simps]:
  "bind_res m f = Inl e \<longleftrightarrow> m = Inl e \<or> (\<exists>x. m = Inr x \<and> f x = Inl e)"
  by (cases m) auto

lemma bind_res_assoc: "bind_res (bind_res m f) g = bind_res m (\<lambda>x. bind_res (f x) g)"
  by (cases m) auto

lemma bind_res_cong [fundef_cong]:
  assumes "m = m'" and "\<And>x. m' = Inr x \<Longrightarrow> f x = g x"
  shows "bind_res m f = bind_res m' g"
  using assms by (cases m') (auto simp: bind_res_def)

lemma ASSERT_True [simp]: "ASSERT True txt = Inr ()"
  and ASSERT_False [simp]: "ASSERT False txt = Inl (Panic txt)"
  by (simp_all add: ASSERT_def)

lemma ASSERT_eq_Inr [res_simps]: "ASSERT c txt = Inr u \<longleftrightarrow> c"
  by (simp add: ASSERT_def)

lemma load_eq_Inr [res_simps]: "load xs i = Inr v \<longleftrightarrow> i < length xs \<and> v = xs ! i"
  by (auto simp: load_def)

lemma store_eq_Inr [res_simps]: "store xs i v = Inr ys \<longleftrightarrow> i < length xs \<and> ys = xs[i := v]"
  by (auto simp: store_def)

lemma load_in [simp]: "i < length xs \<Longrightarrow> load xs i = Inr (xs ! i)"
  and store_in [simp]: "i < length xs \<Longrightarrow> store xs i v = Inr (xs[i := v])"
  by (simp_all add: load_def store_def)

section \<open>Words\<close>

lemma unat_u32_lt [simp]: "unat (x :: u32) < 4294967296"
  using unsigned_less [of x] by simp

lemma unat_u8_lt [simp]: "unat (x :: u8) < 256"
  using unsigned_less [of x] by simp

lemma unat_add_small:
  fixes x y :: u32
  assumes "unat x + unat y < 4294967296"
  shows "unat (x + y) = unat x + unat y"
  using assms by (simp add: unat_word_ariths)

lemma unat_Suc_small:
  fixes x :: u32
  assumes "unat x < 4294967295"
  shows "unat (x + 1) = Suc (unat x)"
  using assms by (simp add: unat_word_ariths)

lemma unat_mult_small:
  fixes x y :: u32
  assumes "unat x * unat y < 4294967296"
  shows "unat (x * y) = unat x * unat y"
  using assms by (simp add: unat_word_ariths)

lemma unat_sub_small:
  fixes x y :: u32
  assumes "unat y \<le> unat x"
  shows "unat (x - y) = unat x - unat y"
  using assms by (simp add: unat_sub word_le_nat_alt)

lemma unat_of_nat_u32 [simp]: "n < 4294967296 \<Longrightarrow> unat (of_nat n :: u32) = n"
  by (simp add: unat_of_nat)

lemma u32_less_iff: "(x :: u32) < y \<longleftrightarrow> unat x < unat y"
  by (simp add: word_less_nat_alt)

lemma unat_less_Suc: "(x :: u32) < y \<Longrightarrow> unat (x + 1) = Suc (unat x)"
  using unat_u32_lt [of y] unat_Suc_small [of x] by (simp add: u32_less_iff del: unat_u32_lt)

lemmas u32_small [unat_simps] =
  unat_add_small unat_Suc_small unat_mult_small unat_sub_small unat_div_distrib unat_mod_distrib

text \<open>A bit mask with one bit set selects that bit.\<close>

lemma mask_test_bit: "(w AND push_bit n 1 \<noteq> 0) = bit (w :: 'a :: len word) n"
  by (simp add: and_exp_eq_0_iff_not_bit)

lemmas exp_test_bit = and_exp_eq_0_iff_not_bit

lemma bit_small_word:
  fixes w :: "'a :: len word"
  assumes "unat w < 2 ^ k" and "bit w n"
  shows "n < k"
proof -
  have "take_bit k (unat w) = unat w" using assms(1) by (simp add: take_bit_nat_eq_self)
  moreover have "bit (unat w) n" using assms(2) by (simp add: bit_unsigned_iff bit_imp_le_length)
  ultimately show ?thesis by (metis bit_take_bit_iff)
qed

text \<open>A 32-bit value below \<open>2\<^sup>3\<^sup>1\<close> keeps its value when read as \<^verbatim>\<open>int\<close>.\<close>

lemma sint_of_small:
  fixes x :: u32
  assumes "unat x < 2147483648"
  shows "sint x = int (unat x)"
proof -
  have u: "uint x = int (unat x)" by simp
  have "uint x < 2147483648" and "- 2147483648 \<le> uint x"
    using assms u by linarith+
  then have "signed_take_bit 31 (uint x) = uint x"
    by (intro signed_take_bit_int_eq_self) auto
  moreover have "sint x = signed_take_bit 31 (uint x)"
    by (simp add: sint_uint)
  ultimately show ?thesis using u by (simp only:)
qed

end
