(* ===== verification/Bitmap.thy ===== *)
theory Bitmap
  imports Prelude
begin

text \<open>
  The bitmap of \<^verbatim>\<open>lib/kernel/bitmap.c\<close>, which every allocator of the kernel uses (page
  frames, virtual pages, pids, inodes and disk blocks).

  The field \<open>bits\<close> is the memory from the pointer \<^verbatim>\<open>btmp->bits\<close> on, as far as it can be
  accessed; it may be longer than \<open>btmp_bytes_len\<close>, because the kernel places bitmaps
  behind each other (\<^verbatim>\<open>mem_pool_init\<close>), and the scan reads one byte further than the
  bitmap reaches.
\<close>

section \<open>The code\<close>

record bitmap =
  btmp_bytes_len :: u32
  bits :: "u8 list"

definition bitmap_init :: "bitmap \<Rightarrow> bitmap res" where
  "bitmap_init btmp =
     (let n = unat (btmp_bytes_len btmp) in
      if n \<le> length (bits btmp)
      then Inr (btmp\<lparr>bits := replicate n 0 @ drop n (bits btmp)\<rparr>)
      else Inl Bad_Access)"

definition bitmap_scan_test :: "bitmap \<Rightarrow> u32 \<Rightarrow> bool res" where
  "bitmap_scan_test btmp bit_idx =
     (let byte_idx = bit_idx div 8;
          bit_odd = bit_idx mod 8
      in bind_res (load (bits btmp) (unat byte_idx)) (\<lambda>byte.
         Inr (byte AND push_bit (unat bit_odd) 1 \<noteq> 0)))"

text \<open>
  The three loops of \<^verbatim>\<open>bitmap_scan\<close>: over full bytes (the byte is read before the length
  is tested, as the source's condition does), over the bits of the byte found, and over the
  bits that may continue the run.
\<close>

function scan_byte :: "bitmap \<Rightarrow> u32 \<Rightarrow> u32 res" where
  "scan_byte btmp idx_byte =
     bind_res (load (bits btmp) (unat idx_byte)) (\<lambda>byte.
       if byte = 0xff \<and> idx_byte < btmp_bytes_len btmp
       then scan_byte btmp (idx_byte + 1)
       else Inr idx_byte)"
  by pat_completeness auto
termination
  by (relation "measure (\<lambda>(btmp, i). unat (btmp_bytes_len btmp) - unat i)")
     (auto simp: unat_less_Suc u32_less_iff)

function scan_bit :: "u8 \<Rightarrow> nat \<Rightarrow> nat" where
  "scan_bit byte idx_bit =
     (if byte AND push_bit idx_bit 1 \<noteq> 0 then scan_bit byte (Suc idx_bit) else idx_bit)"
  by pat_completeness auto
termination
  by (relation "measure (\<lambda>(byte, i). 8 - i)")
     (auto simp: exp_test_bit dest: bit_imp_le_length)

fun scan_run :: "bitmap \<Rightarrow> u32 \<Rightarrow> nat \<Rightarrow> u32 \<Rightarrow> u32 \<Rightarrow> int res" where
  "scan_run btmp cnt 0 next_bit count = Inr (- 1)"
| "scan_run btmp cnt (Suc bit_left) next_bit count =
     bind_res (bitmap_scan_test btmp next_bit) (\<lambda>used.
       let count = (if \<not> used then count + 1 else 0) in
       if count = cnt then Inr (sint (next_bit - cnt + 1))
       else scan_run btmp cnt bit_left (next_bit + 1) count)"

definition bitmap_scan :: "bitmap \<Rightarrow> u32 \<Rightarrow> int res" where
  "bitmap_scan btmp cnt =
     bind_res (scan_byte btmp 0) (\<lambda>idx_byte.
     bind_res (ASSERT (idx_byte < btmp_bytes_len btmp) ''idx_byte < btmp->btmp_bytes_len'') (\<lambda>_.
     if idx_byte = btmp_bytes_len btmp then Inr (- 1)
     else
       bind_res (load (bits btmp) (unat idx_byte)) (\<lambda>byte.
       let bit_idx_start = idx_byte * 8 + of_nat (scan_bit byte 0) in
       if cnt = 1 then Inr (sint bit_idx_start)
       else
         let bit_left = btmp_bytes_len btmp * 8 - bit_idx_start;
             next_bit = bit_idx_start + 1
         in scan_run btmp cnt (unat bit_left) next_bit 1)))"

definition bitmap_set :: "bitmap \<Rightarrow> u32 \<Rightarrow> int \<Rightarrow> bitmap res" where
  "bitmap_set btmp bit_idx value =
     bind_res (ASSERT (value = 0 \<or> value = 1) ''(value == 0) || (value == 1)'') (\<lambda>_.
     let byte_idx = unat (bit_idx div 8);
         bit_odd = unat (bit_idx mod 8)
     in bind_res (load (bits btmp) byte_idx) (\<lambda>byte.
        bind_res (store (bits btmp) byte_idx
                    (if value = 1 then byte OR push_bit bit_odd 1
                     else byte AND NOT (push_bit bit_odd 1))) (\<lambda>bs.
        Inr (btmp\<lparr>bits := bs\<rparr>))))"

section \<open>What the bits mean\<close>

definition bit_at :: "bitmap \<Rightarrow> nat \<Rightarrow> bool" where
  "bit_at btmp n = bit (bits btmp ! (n div 8)) (n mod 8)"

text \<open>\<open>nbits\<close> is the number of bits the bitmap has; a run is \<open>cnt\<close> clear bits from \<open>r\<close> on.\<close>

abbreviation nbits :: "bitmap \<Rightarrow> nat" where
  "nbits btmp \<equiv> 8 * unat (btmp_bytes_len btmp)"

definition free_run :: "bitmap \<Rightarrow> nat \<Rightarrow> nat \<Rightarrow> bool" where
  "free_run btmp r cnt \<longleftrightarrow> (\<forall>i < cnt. \<not> bit_at btmp (r + i))"

text \<open>
  The bitmap lies in accessible memory, and is small enough for a bit index to be a
  non-negative \<^verbatim>\<open>int\<close>.
\<close>

definition bitmap_wf :: "bitmap \<Rightarrow> bool" where
  "bitmap_wf btmp \<longleftrightarrow>
     unat (btmp_bytes_len btmp) \<le> length (bits btmp) \<and> nbits btmp < 2147483647"

text \<open>As before, and the byte behind the bitmap can be read.\<close>

definition bitmap_wf1 :: "bitmap \<Rightarrow> bool" where
  "bitmap_wf1 btmp \<longleftrightarrow>
     unat (btmp_bytes_len btmp) < length (bits btmp) \<and> nbits btmp < 2147483647"

lemma bitmap_wf1_wf [simp]: "bitmap_wf1 btmp \<Longrightarrow> bitmap_wf btmp"
  by (auto simp: bitmap_wf1_def bitmap_wf_def)

lemma free_run_Suc: "free_run btmp r (Suc n) \<longleftrightarrow> free_run btmp r n \<and> \<not> bit_at btmp (r + n)"
  by (auto simp: free_run_def less_Suc_eq)

lemma free_run_1 [simp]: "free_run btmp r (Suc 0) \<longleftrightarrow> \<not> bit_at btmp r"
  by (simp add: free_run_def)

lemma bitmap_scan_test_eq [simp]:
  "unat i div 8 < length (bits btmp) \<Longrightarrow> bitmap_scan_test btmp i = Inr (bit_at btmp (unat i))"
  by (simp add: bitmap_scan_test_def bit_at_def exp_test_bit unat_div_distrib unat_mod_distrib)

section \<open>The loops of the scan\<close>

declare scan_byte.simps [simp del] scan_bit.simps [simp del]

lemma byte_neq_ff: "(w :: u8) \<noteq> 0xff \<longleftrightarrow> (\<exists>j < 8. \<not> bit w j)"
proof -
  have "(0xff :: u8) = - 1" by (simp add: word_eq_iff_unsigned)
  then have "(w = 0xff) = (w = - 1)" by (simp only:)
  also have "\<dots> = (\<forall>j < 8. bit w j)"
    by (auto simp: bit_eq_iff)
  finally show ?thesis by blast
qed

lemma scan_byte_found:
  assumes "k < unat (btmp_bytes_len btmp)" and "unat (btmp_bytes_len btmp) \<le> length (bits btmp)"
    and "unat i \<le> k" and "\<And>j. unat i \<le> j \<Longrightarrow> j < k \<Longrightarrow> bits btmp ! j = 0xff"
    and "bits btmp ! k \<noteq> 0xff"
  shows "scan_byte btmp i = Inr (of_nat k)"
  using assms
proof (induction btmp i rule: scan_byte.induct)
  case (1 btmp i)
  show ?case
  proof (cases "unat i = k")
    case True
    then have "i = of_nat k" by auto
    with 1 True show ?thesis by (subst scan_byte.simps) simp
  next
    case False
    with "1.prems"(1,3) have lt: "unat i < k" and i: "i < btmp_bytes_len btmp"
      by (simp_all add: u32_less_iff)
    have ff: "bits btmp ! unat i = 0xff" using "1.prems"(4) lt by simp
    have ld: "load (bits btmp) (unat i) = Inr (bits btmp ! unat i)"
      using "1.prems"(1,2) lt by simp
    have "scan_byte btmp (i + 1) = Inr (of_nat k)"
      using "1.IH" i lt "1.prems" by (simp add: unat_less_Suc)
    with ff ld i show ?thesis by (subst scan_byte.simps) simp
  qed
qed

lemma scan_byte_full:
  assumes "unat (btmp_bytes_len btmp) < length (bits btmp)" and "unat i \<le> unat (btmp_bytes_len btmp)"
    and "\<And>j. j < unat (btmp_bytes_len btmp) \<Longrightarrow> bits btmp ! j = 0xff"
  shows "scan_byte btmp i = Inr (btmp_bytes_len btmp)"
  using assms
proof (induction btmp i rule: scan_byte.induct)
  case (1 btmp i)
  show ?case
  proof (cases "i < btmp_bytes_len btmp")
    case True
    with 1 have ld: "load (bits btmp) (unat i) = Inr 0xff"
      by (simp add: u32_less_iff)
    with 1 True have "scan_byte btmp (i + 1) = Inr (btmp_bytes_len btmp)"
      by (simp add: unat_less_Suc u32_less_iff Suc_le_eq)
    with ld True show ?thesis by (subst scan_byte.simps) simp
  next
    case False
    with "1.prems"(2) have "i = btmp_bytes_len btmp" by (simp add: u32_less_iff word_unat_eq_iff)
    with "1.prems"(1) show ?thesis by (subst scan_byte.simps) simp
  qed
qed

lemma scan_bit_found:
  assumes "i \<le> k" and "\<And>j. i \<le> j \<Longrightarrow> j < k \<Longrightarrow> bit byte j" and "\<not> bit byte k"
  shows "scan_bit byte i = k"
  using assms
proof (induction byte i rule: scan_bit.induct)
  case (1 byte i)
  show ?case
  proof (cases "i = k")
    case True
    with "1.prems"(3) show ?thesis by (subst scan_bit.simps) (simp add: exp_test_bit)
  next
    case False
    with "1.prems" have "bit byte i" by simp
    with 1 False have "scan_bit byte (Suc i) = k"
      by (simp add: exp_test_bit)
    with \<open>bit byte i\<close> show ?thesis by (subst scan_bit.simps) (simp add: exp_test_bit)
  qed
qed


text \<open>
  The state of the last loop: \<open>count\<close> clear bits end just before \<open>next\<close>, the run cannot be
  extended to the left, and no run of \<open>cnt\<close> bits ends at or before \<open>next\<close>.
\<close>

definition run_inv :: "bitmap \<Rightarrow> nat \<Rightarrow> nat \<Rightarrow> nat \<Rightarrow> bool" where
  "run_inv btmp cnt next count \<longleftrightarrow>
     count \<le> next \<and> count < cnt \<and> free_run btmp (next - count) count \<and>
     (next = count \<or> bit_at btmp (next - count - 1)) \<and>
     (\<forall>r. r + cnt \<le> next \<longrightarrow> \<not> free_run btmp r cnt)"

lemma run_inv_used:
  assumes inv: "run_inv btmp cnt next count" and used: "bit_at btmp next"
  shows "run_inv btmp cnt (Suc next) 0"
proof -
  have "\<not> free_run btmp r cnt" if "r + cnt \<le> Suc next" for r
  proof (cases "r + cnt = Suc next")
    case True
    with inv have "next - r < cnt" and "r + (next - r) = next" by (auto simp: run_inv_def)
    with used show ?thesis unfolding free_run_def by metis
  next
    case False
    with that inv show ?thesis by (simp add: run_inv_def)
  qed
  with inv used show ?thesis by (auto simp: run_inv_def free_run_def)
qed

lemma run_inv_free:
  assumes inv: "run_inv btmp cnt next count" and free: "\<not> bit_at btmp next"
    and more: "Suc count \<noteq> cnt"
  shows "run_inv btmp cnt (Suc next) (Suc count)"
proof -
  from inv have c: "count \<le> next" "count < cnt" by (simp_all add: run_inv_def)
  have "\<not> free_run btmp r cnt" if "r + cnt \<le> Suc next" for r
  proof (cases "r + cnt = Suc next")
    case True
    with c more have lt: "r \<le> next - count - 1" "next - count - 1 - r < cnt" "next \<noteq> count" by auto
    with inv have "bit_at btmp (r + (next - count - 1 - r))" by (auto simp: run_inv_def)
    with lt show ?thesis unfolding free_run_def by blast
  next
    case False
    with that inv show ?thesis by (simp add: run_inv_def)
  qed
  moreover have "free_run btmp (next - count) (Suc count)"
    using inv free c by (simp add: free_run_Suc run_inv_def)
  ultimately show ?thesis using inv c more by (auto simp: run_inv_def)
qed

lemma run_inv_hit:
  assumes inv: "run_inv btmp cnt next count" and free: "\<not> bit_at btmp next"
    and hit: "Suc count = cnt"
  shows "(LEAST r. free_run btmp r cnt) = Suc next - cnt" and "free_run btmp (Suc next - cnt) cnt"
proof -
  from inv hit have c: "count \<le> next" and e: "Suc next - cnt = next - count"
    by (auto simp: run_inv_def)
  show run: "free_run btmp (Suc next - cnt) cnt"
    unfolding e hit [symmetric] free_run_Suc using inv free c by (simp add: run_inv_def)
  have "Suc next - cnt \<le> r" if "free_run btmp r cnt" for r
  proof (rule ccontr)
    assume "\<not> ?thesis"
    then have "r + cnt \<le> next" by simp
    with inv that show False by (simp add: run_inv_def)
  qed
  with run show "(LEAST r. free_run btmp r cnt) = Suc next - cnt"
    by (intro Least_equality)
qed

lemma scan_run_correct:
  assumes "run_inv btmp (unat cnt) (unat next) (unat count)"
    and "unat next + left = N" and "(N - 1) div 8 < length (bits btmp)"
    and "N < 2147483648"
  shows "scan_run btmp cnt left next count =
     Inr (if \<exists>r. r + unat cnt \<le> N \<and> free_run btmp r (unat cnt)
          then int (LEAST r. free_run btmp r (unat cnt)) else - 1)"
  using assms
proof (induction left arbitrary: "next" count)
  case 0
  then show ?case by (auto simp: run_inv_def)
next
  case (Suc left)
  let ?c = "unat cnt" and ?n = "unat next"
  from Suc.prems have n: "?n < N" and rd: "?n div 8 < length (bits btmp)"
    by (auto intro: le_less_trans [OF div_le_mono])
  from n Suc.prems(4) have n1: "unat (next + 1) = Suc ?n" by (simp add: unat_Suc_small)
  from Suc.prems(1) have c: "unat count < ?c" "unat count \<le> ?n" by (simp_all add: run_inv_def)
  then have c1: "unat (count + 1) = Suc (unat count)"
    using unat_u32_lt [of cnt] by (simp add: unat_Suc_small del: unat_u32_lt)
  note IH = Suc.IH [of "next + 1", OF _ _ Suc.prems(3,4)]
  consider (used) "bit_at btmp ?n" | (hit) "\<not> bit_at btmp ?n" "Suc (unat count) = ?c"
    | (more) "\<not> bit_at btmp ?n" "Suc (unat count) \<noteq> ?c" by blast
  then show ?case
  proof cases
    case used
    with c(1) rd IH [of 0] run_inv_used [OF Suc.prems(1) used] n1 Suc.prems(2)
    show ?thesis by (auto simp: word_unat_eq_iff)
  next
    case hit
    with c1 have eq: "count + 1 = cnt" by (simp add: word_unat_eq_iff)
    have "unat (next - cnt + 1) = Suc ?n - ?c"
      using hit c n1 by (simp add: eq [symmetric] c1 unat_sub_small)
    with run_inv_hit [OF Suc.prems(1) hit] n Suc.prems(4)
    have "sint (next - cnt + 1) = int (LEAST r. free_run btmp r ?c)"
      by (simp add: sint_of_small)
    moreover have "\<exists>r. r + ?c \<le> N \<and> free_run btmp r ?c"
      using run_inv_hit(2) [OF Suc.prems(1) hit] n hit c
      by (intro exI [of _ "Suc ?n - ?c"]) simp
    ultimately show ?thesis using rd hit eq by simp
  next
    case more
    with c1 have "count + 1 \<noteq> cnt" by (auto simp: word_unat_eq_iff)
    with more rd IH [of "count + 1"] run_inv_free [OF Suc.prems(1) more] n1 c1 Suc.prems(2)
    show ?thesis by simp
  qed
qed


section \<open>The scan as a whole\<close>

lemma scan_start:
  assumes wf: "bitmap_wf btmp" and f: "f < nbits btmp" "\<not> bit_at btmp f"
    and used: "\<forall>j < f. bit_at btmp j"
  shows "scan_byte btmp 0 = Inr (of_nat (f div 8))"
    and "scan_bit (bits btmp ! (f div 8)) 0 = f mod 8"
    and "of_nat (f div 8) < btmp_bytes_len btmp"
    and "unat (of_nat (f div 8) * 8 + of_nat (f mod 8) :: u32) = f"
proof -
  let ?k = "f div 8"
  have k: "?k < unat (btmp_bytes_len btmp)" using f(1) by simp
  have lo: "bits btmp ! j = 0xff" if "j < ?k" for j
  proof (rule ccontr)
    assume "bits btmp ! j \<noteq> 0xff"
    then obtain i where i: "i < 8" "\<not> bit (bits btmp ! j) i" by (auto simp: byte_neq_ff)
    then have "\<not> bit_at btmp (8 * j + i)" by (simp add: bit_at_def)
    moreover have "8 * j + i < f" using that i by simp
    ultimately show False using used by blast
  qed
  have "bits btmp ! ?k \<noteq> 0xff"
    using f(2) by (auto simp: byte_neq_ff bit_at_def intro!: exI [of _ "f mod 8"])
  with k lo wf show "scan_byte btmp 0 = Inr (of_nat ?k)"
    by (intro scan_byte_found) (auto simp: bitmap_wf_def)
  have "bit (bits btmp ! ?k) j" if "j < f mod 8" for j
  proof -
    have "8 * ?k + j < f" using that by (metis mult_div_mod_eq nat_add_left_cancel_less)
    with used have "bit_at btmp (8 * ?k + j)" by blast
    with that show ?thesis by (simp add: bit_at_def less_trans [OF that])
  qed
  then show "scan_bit (bits btmp ! ?k) 0 = f mod 8"
    using f(2) by (intro scan_bit_found) (auto simp: bit_at_def)
  have fs: "f < 4294967296" using f(1) wf by (simp add: bitmap_wf_def)
  then have "unat (of_nat ?k :: u32) = ?k" by simp
  then show "of_nat ?k < btmp_bytes_len btmp" using k by (simp add: u32_less_iff)
  have "of_nat ?k * 8 + of_nat (f mod 8) = (of_nat (?k * 8 + f mod 8) :: u32)"
    by (simp only: of_nat_add of_nat_mult of_nat_numeral)
  then show "unat (of_nat ?k * 8 + of_nat (f mod 8) :: u32) = f"
    using fs by (simp only: div_mult_mod_eq) simp
qed

lemma first_free_bit:
  assumes "m < nbits btmp" and "\<not> bit_at btmp m"
  obtains f where "f < nbits btmp" and "\<not> bit_at btmp f" and "\<forall>j < f. bit_at btmp j"
    and "(LEAST n. \<not> bit_at btmp n) = f"
proof
  let ?f = "LEAST n. \<not> bit_at btmp n"
  show "\<not> bit_at btmp ?f" using assms(2) by (rule LeastI)
  show "?f < nbits btmp" using assms by (auto intro: le_less_trans [OF Least_le])
  show "\<forall>j < ?f. bit_at btmp j" using not_less_Least by blast
qed simp

lemma bitmap_scan_one:
  assumes wf: "bitmap_wf btmp" and m: "m < nbits btmp" "\<not> bit_at btmp m"
  shows "bitmap_scan btmp 1 = Inr (int (LEAST n. \<not> bit_at btmp n))"
proof -
  from m obtain f where f: "f < nbits btmp" "\<not> bit_at btmp f" "\<forall>j < f. bit_at btmp j"
    "(LEAST n. \<not> bit_at btmp n) = f" by (rule first_free_bit) blast
  note st = scan_start [OF wf f(1-3)]
  have k: "f div 8 < length (bits btmp)" "f div 8 < 4294967296" "f < 2147483648"
    using f(1) wf by (auto simp: bitmap_wf_def)
  from st(3) have ne: "of_nat (f div 8) \<noteq> btmp_bytes_len btmp" by (rule less_imp_neq)
  show ?thesis
    unfolding bitmap_scan_def
    using k ne by (simp add: st f(4) sint_of_small)
qed

lemma bitmap_scan_many:
  assumes wf: "bitmap_wf1 btmp" and m: "m < nbits btmp" "\<not> bit_at btmp m"
    and cnt: "2 \<le> unat cnt"
  shows "bitmap_scan btmp cnt =
     Inr (if \<exists>r. r + unat cnt \<le> Suc (nbits btmp) \<and> free_run btmp r (unat cnt)
          then int (LEAST r. free_run btmp r (unat cnt)) else - 1)"
proof -
  from m obtain f where f: "f < nbits btmp" "\<not> bit_at btmp f" "\<forall>j < f. bit_at btmp j"
    by (rule first_free_bit) blast
  from wf have wf0: "bitmap_wf btmp" by simp
  note st = scan_start [OF wf0 f]
  let ?s = "of_nat (f div 8) * 8 + of_nat (f mod 8) :: u32"
  let ?left = "btmp_bytes_len btmp * 8 - ?s"
  have k: "f div 8 < length (bits btmp)" "f div 8 < 4294967296" and N: "nbits btmp < 2147483647"
    using f(1) wf by (auto simp: bitmap_wf1_def)
  from st(3) have ne: "of_nat (f div 8) \<noteq> btmp_bytes_len btmp" by (rule less_imp_neq)
  from cnt have c1: "cnt \<noteq> 1" by auto
  have "unat (btmp_bytes_len btmp * 8) = nbits btmp" using N by (simp add: unat_mult_small)
  then have left: "unat ?left = nbits btmp - f"
    using f(1) by (simp add: unat_sub_small st(4))
  have nx: "unat (?s + 1) = Suc f" using N f(1) st(4) by (simp add: unat_Suc_small)
  have inv: "run_inv btmp (unat cnt) (unat (?s + 1)) (unat (1 :: u32))"
  proof -
    have "\<not> free_run btmp r (unat cnt)" if "r + unat cnt \<le> Suc f" for r
    proof -
      from that cnt have "r < f" by simp
      then show ?thesis using f(3) cnt by (force simp: free_run_def)
    qed
    moreover have "f = 0 \<or> bit_at btmp (f - 1)" using f(3) by (cases f) simp_all
    ultimately show ?thesis using f cnt unfolding nx by (auto simp: run_inv_def)
  qed
  have "scan_run btmp cnt (unat ?left) (?s + 1) 1 =
     Inr (if \<exists>r. r + unat cnt \<le> Suc (nbits btmp) \<and> free_run btmp r (unat cnt)
          then int (LEAST r. free_run btmp r (unat cnt)) else - 1)"
    using wf N f(1) by (intro scan_run_correct [OF inv]) (auto simp: nx left bitmap_wf1_def)
  then show ?thesis
    unfolding bitmap_scan_def using k ne c1 st(1-3) by (simp add: Let_def)
qed

lemma bitmap_scan_full:
  assumes wf: "bitmap_wf1 btmp" and full: "\<And>m. m < nbits btmp \<Longrightarrow> bit_at btmp m"
  shows "bitmap_scan btmp cnt = Inl (Panic ''idx_byte < btmp->btmp_bytes_len'')"
proof -
  have "bits btmp ! j = 0xff" if "j < unat (btmp_bytes_len btmp)" for j
  proof (rule ccontr)
    assume "bits btmp ! j \<noteq> 0xff"
    then obtain i where "i < 8" "\<not> bit (bits btmp ! j) i" by (auto simp: byte_neq_ff)
    then have "\<not> bit_at btmp (8 * j + i)" "8 * j + i < nbits btmp"
      using that by (simp_all add: bit_at_def)
    with full show False by blast
  qed
  with wf have "scan_byte btmp 0 = Inr (btmp_bytes_len btmp)"
    by (intro scan_byte_full) (auto simp: bitmap_wf1_def)
  then show ?thesis by (simp add: bitmap_scan_def)
qed

section \<open>Setting and clearing\<close>

lemma bitmap_set_eq:
  assumes "unat i div 8 < length (bits btmp)" and "v = 0 \<or> v = 1"
  shows "\<exists>btmp'. bitmap_set btmp i v = Inr btmp' \<and> btmp_bytes_len btmp' = btmp_bytes_len btmp \<and>
     length (bits btmp') = length (bits btmp) \<and>
     (\<forall>n. n div 8 < length (bits btmp) \<longrightarrow>
        bit_at btmp' n = (if n = unat i then v = 1 else bit_at btmp n))"
proof -
  let ?w = "bits btmp ! (unat i div 8)" and ?o = "unat i mod 8"
  let ?w' = "if v = 1 then ?w OR push_bit ?o 1 else ?w AND NOT (push_bit ?o 1)"
  let ?b' = "btmp\<lparr>bits := (bits btmp)[unat i div 8 := ?w']\<rparr>"
  have set: "bitmap_set btmp i v = Inr ?b'"
    using assms by (auto simp: bitmap_set_def unat_div_distrib unat_mod_distrib Let_def)
  have new: "bit ?w' j = (if j = ?o then v = 1 else bit ?w j)" if "j < 8" for j
    using that assms(2) by (auto simp: bit_simps)
  have "bit_at ?b' n =
      (if n = unat i then v = 1 else bit_at btmp n)" if "n div 8 < length (bits btmp)" for n
  proof (cases "n div 8 = unat i div 8")
    case True
    then have "(n mod 8 = ?o) = (n = unat i)" by (metis mult_div_mod_eq)
    with True assms(1) new show ?thesis by (simp add: bit_at_def)
  next
    case False
    then show ?thesis by (auto simp: bit_at_def)
  qed
  with set show ?thesis by (intro exI [of _ ?b'] conjI allI impI) simp_all
qed

lemma bitmap_init_eq:
  assumes "bitmap_wf btmp"
  shows "\<exists>btmp'. bitmap_init btmp = Inr btmp' \<and> bitmap_wf btmp' \<and>
     (\<forall>n < nbits btmp. \<not> bit_at btmp' n)"
  using assms by (auto simp: bitmap_init_def bitmap_wf_def bit_at_def nth_append Let_def)


section \<open>The allocator interface\<close>

text \<open>
  What the allocators built on the bitmap rely on: a scan for one bit returns the lowest clear
  one when there is one, and setting a bit changes that bit alone. The clients
  (\<^verbatim>\<open>palloc\<close>, \<^verbatim>\<open>allocate_pid\<close>, \<^verbatim>\<open>inode_bitmap_alloc\<close>, \<^verbatim>\<open>block_bitmap_alloc\<close>) all
  scan and then set.
\<close>

locale bit_allocator =
  fixes inv :: "'b \<Rightarrow> bool"
    and cap :: "'b \<Rightarrow> nat"
    and used :: "'b \<Rightarrow> nat \<Rightarrow> bool"
    and scan :: "'b \<Rightarrow> u32 \<Rightarrow> int res"
    and put :: "'b \<Rightarrow> u32 \<Rightarrow> int \<Rightarrow> 'b res"
  assumes cap_small: "inv b \<Longrightarrow> cap b < 2147483647"
    and scan_first: "inv b \<Longrightarrow> m < cap b \<Longrightarrow> \<not> used b m \<Longrightarrow>
      \<exists>f. f \<le> m \<and> \<not> used b f \<and> (\<forall>j < f. used b j) \<and> scan b 1 = Inr (int f)"
    and put_one: "inv b \<Longrightarrow> n < cap b \<Longrightarrow> v = 0 \<or> v = 1 \<Longrightarrow>
      \<exists>b'. put b (of_nat n) v = Inr b' \<and> inv b' \<and> cap b' = cap b \<and>
           (\<forall>k < cap b. used b' k = (if k = n then v = 1 else used b k))"
begin

definition used_set :: "'b \<Rightarrow> nat set" where
  "used_set b = {n. n < cap b \<and> used b n}"

lemma finite_used_set [simp]: "finite (used_set b)"
  by (simp add: used_set_def)

lemma put_used_set:
  assumes "inv b" and "n < cap b"
  shows "\<exists>b'. put b (of_nat n) 1 = Inr b' \<and> inv b' \<and> cap b' = cap b \<and>
            used_set b' = insert n (used_set b)"
    and "\<exists>b'. put b (of_nat n) 0 = Inr b' \<and> inv b' \<and> cap b' = cap b \<and>
            used_set b' = used_set b - {n}"
proof -
  from put_one [OF assms, of 1] obtain b' where "put b (of_nat n) 1 = Inr b'" "inv b'"
    "cap b' = cap b" "\<forall>k < cap b. used b' k = (if k = n then True else used b k)" by auto
  with assms(2) show "\<exists>b'. put b (of_nat n) 1 = Inr b' \<and> inv b' \<and> cap b' = cap b \<and>
            used_set b' = insert n (used_set b)"
    by (intro exI [of _ b']) (auto simp: used_set_def)
  from put_one [OF assms, of 0] obtain b' where "put b (of_nat n) 0 = Inr b'" "inv b'"
    "cap b' = cap b" "\<forall>k < cap b. used b' k = (if k = n then False else used b k)" by auto
  with assms(2) show "\<exists>b'. put b (of_nat n) 0 = Inr b' \<and> inv b' \<and> cap b' = cap b \<and>
            used_set b' = used_set b - {n}"
    by (intro exI [of _ b']) (auto simp: used_set_def split: if_splits)
qed

text \<open>Scan, then set: the index handed out was clear, is the lowest such, and is set afterwards.\<close>

lemma take_bit_spec:
  assumes "inv b" and "used_set b \<noteq> {..< cap b}"
  shows "\<exists>f b'. scan b 1 = Inr (int f) \<and> f < cap b \<and> f \<notin> used_set b \<and>
     {..< f} \<subseteq> used_set b \<and> put b (of_nat f) 1 = Inr b' \<and> inv b' \<and> cap b' = cap b \<and>
     used_set b' = insert f (used_set b)"
proof -
  from assms(2) obtain m where "m < cap b" "\<not> used b m"
    by (auto simp: used_set_def)
  with scan_first [OF assms(1)] obtain f where f: "f \<le> m" "\<not> used b f" "\<forall>j < f. used b j"
    "scan b 1 = Inr (int f)" by blast
  with \<open>m < cap b\<close> have "f < cap b" by simp
  with put_used_set(1) [OF assms(1)] obtain b' where "put b (of_nat f) 1 = Inr b'" "inv b'"
    "cap b' = cap b" "used_set b' = insert f (used_set b)" by blast
  with f \<open>f < cap b\<close> show ?thesis by (fastforce simp: used_set_def)
qed

text \<open>Giving the index back restores the set of indices in use.\<close>

lemma take_release:
  assumes "inv b" and "f < cap b" and "f \<notin> used_set b" and "put b (of_nat f) 1 = Inr b'"
  shows "\<exists>b''. put b' (of_nat f) 0 = Inr b'' \<and> inv b'' \<and> cap b'' = cap b \<and>
     used_set b'' = used_set b"
proof -
  from put_used_set(1) [OF assms(1,2)] assms(4) have "inv b'" "cap b' = cap b"
    "used_set b' = insert f (used_set b)" by auto
  with put_used_set(2) [of b' f] assms(2,3) show ?thesis by auto
qed

end

text \<open>The bitmap keeps the contract.\<close>

interpretation bm: bit_allocator bitmap_wf nbits bit_at bitmap_scan bitmap_set
proof
  show "bitmap_wf b \<Longrightarrow> nbits b < 2147483647" for b
    by (simp add: bitmap_wf_def)
next
  fix b m assume a: "bitmap_wf b" "m < nbits b" "\<not> bit_at b m"
  from a(2,3) obtain f where "\<not> bit_at b f" "\<forall>j < f. bit_at b j"
    "(LEAST n. \<not> bit_at b n) = f" by (rule first_free_bit) blast
  with bitmap_scan_one [OF a] a(3) show
    "\<exists>f \<le> m. \<not> bit_at b f \<and> (\<forall>j < f. bit_at b j) \<and> bitmap_scan b 1 = Inr (int f)"
    by (metis Least_le)
next
  fix b n and v :: int assume a: "bitmap_wf b" "n < nbits b" "v = 0 \<or> v = 1"
  then have n: "unat (of_nat n :: u32) = n" by (simp add: bitmap_wf_def)
  from a(1,2) have "n div 8 < length (bits b)"
    by (auto simp: bitmap_wf_def intro: less_le_trans [OF less_mult_imp_div_less])
  with n have "unat (of_nat n :: u32) div 8 < length (bits b)" by simp
  from bitmap_set_eq [OF this a(3)] n a(1) show
    "\<exists>b'. bitmap_set b (of_nat n) v = Inr b' \<and> bitmap_wf b' \<and> nbits b' = nbits b \<and>
       (\<forall>k < nbits b. bit_at b' k = (if k = n then v = 1 else bit_at b k))"
    by (auto simp: bitmap_wf_def less_mult_imp_div_less mult.commute)
qed

lemma bm_used_set: "bm.used_set btmp = {n. n < nbits btmp \<and> bit_at btmp n}"
  by (simp add: bm.used_set_def)

section \<open>Properties\<close>

text \<open>A scan for a single bit returns the lowest clear bit of the bitmap, whenever one is
  clear.\<close>

theorem bitmap_scan_finds_first:
  assumes "bitmap_wf btmp" and "m < nbits btmp" and "\<not> bit_at btmp m"
  shows "\<exists>f \<le> m. bitmap_scan btmp 1 = Inr (int f) \<and> \<not> bit_at btmp f \<and> (\<forall>j < f. bit_at btmp j)"
  using bm.scan_first [OF assms] by blast

theorem bitmap_scan_finds_first_witness:
  "\<exists>f \<le> 10. bitmap_scan \<lparr>btmp_bytes_len = 2, bits = [0xff, 0x03]\<rparr> 1 = Inr (int f) \<and>
     \<not> bit_at \<lparr>btmp_bytes_len = 2, bits = [0xff, 0x03]\<rparr> f \<and>
     (\<forall>j < f. bit_at \<lparr>btmp_bytes_len = 2, bits = [0xff, 0x03]\<rparr> j)"
  by (rule bitmap_scan_finds_first) (simp_all add: bitmap_wf_def bit_at_def)

text \<open>C39: A scan for \<open>cnt \<ge> 2\<close> bits returns the lowest start of a run of \<open>cnt\<close> clear bits
  that fits into the bitmap extended by one bit, and \<open>-1\<close> when there is no such run.
  The one extra bit is the bit behind the bitmap, which the last iteration of the loop
  reads.\<close>

theorem bitmap_scan_finds_run:
  assumes "bitmap_wf1 btmp" and "m < nbits btmp" and "\<not> bit_at btmp m" and "2 \<le> unat cnt"
  shows "bitmap_scan btmp cnt =
     Inr (if \<exists>r. r + unat cnt \<le> nbits btmp + 1 \<and> free_run btmp r (unat cnt)
          then int (LEAST r. free_run btmp r (unat cnt)) else - 1)"
  using bitmap_scan_many [OF assms] by simp

theorem bitmap_scan_finds_run_witness:
  "bitmap_scan \<lparr>btmp_bytes_len = 1, bits = [0xfe, 0xff]\<rparr> 2 =
     Inr (if \<exists>r. r + 2 \<le> (8 :: nat) + 1 \<and> free_run \<lparr>btmp_bytes_len = 1, bits = [0xfe, 0xff]\<rparr> r 2
          then int (LEAST r. free_run \<lparr>btmp_bytes_len = 1, bits = [0xfe, 0xff]\<rparr> r 2) else - 1)"
  using bitmap_scan_finds_run [of "\<lparr>btmp_bytes_len = 1, bits = [0xfe, 0xff]\<rparr>" 0 2]
  by (simp add: bitmap_wf1_def bit_at_def)

text \<open>The scan can hand out a run that ends behind the bitmap: with one byte whose last bit
  is clear and a clear bit behind it, a request for two bits returns bit 7, although the
  bitmap has bits 0 to 7 only.\<close>

theorem bitmap_scan_past_end:
  "bitmap_scan \<lparr>btmp_bytes_len = 1, bits = [0x7f, 0x00]\<rparr> 2 = Inr 7 \<and>
   nbits \<lparr>btmp_bytes_len = 1, bits = [0x7f, 0x00]\<rparr> = 8 \<and> (7 :: nat) + 2 > 8"
  by code_simp

text \<open>On a bitmap with no clear bit every scan stops the kernel in the assertion behind the
  first loop, so the documented result \<open>-1\<close> for "nothing free" is not returned there.\<close>

theorem bitmap_scan_full_panics:
  assumes "bitmap_wf1 btmp" and "\<And>m. m < nbits btmp \<Longrightarrow> bit_at btmp m"
  shows "bitmap_scan btmp cnt = Inl (Panic ''idx_byte < btmp->btmp_bytes_len'')"
  using assms by (rule bitmap_scan_full)

theorem bitmap_scan_full_panics_witness:
  "bitmap_scan \<lparr>btmp_bytes_len = 1, bits = [0xff, 0x00]\<rparr> 1 =
     Inl (Panic ''idx_byte < btmp->btmp_bytes_len'')"
proof (rule bitmap_scan_full_panics)
  fix m :: nat assume "m < nbits \<lparr>btmp_bytes_len = 1, bits = [0xff, 0x00]\<rparr>"
  then have "m div 8 = 0" "m mod 8 < 8" by simp_all
  then show "bit_at \<lparr>btmp_bytes_len = 1, bits = [0xff, 0x00]\<rparr> m"
    using byte_neq_ff [where w = "0xff"] by (auto simp: bit_at_def)
qed (simp add: bitmap_wf1_def)

end
