(* ===== verification/Interrupts.thy ===== *)
theory Interrupts
  imports Prelude
begin

text \<open>
  Interrupt control and descriptor tables: \<^verbatim>\<open>kernel/interrupt.c\<close> and the descriptor
  construction of \<^verbatim>\<open>userprog/tss.c\<close>.

  The record \<open>cpu\<close> holds the flags register; the routines that disable and restore
  interrupts are defined on every extension of it, so the states of the list, scheduler and
  synchronisation theories, which extend \<open>cpu\<close>, share them. \<^verbatim>\<open>sti\<close> and \<^verbatim>\<open>cli\<close> set and
  clear the IF bit.
\<close>

section \<open>The interrupt flag\<close>

datatype intr_status = INTR_OFF | INTR_ON

record cpu =
  eflags :: u32

definition EFLAGS_IF :: u32 where [layout_simps]: "EFLAGS_IF = 0x200"

definition intr_get_status :: "'a cpu_scheme \<Rightarrow> intr_status" where
  "intr_get_status s = (if EFLAGS_IF AND eflags s \<noteq> 0 then INTR_ON else INTR_OFF)"

definition intr_enable :: "'a cpu_scheme \<Rightarrow> intr_status \<times> 'a cpu_scheme" where
  "intr_enable s =
     (if intr_get_status s = INTR_ON then (INTR_ON, s)
      else (INTR_OFF, s\<lparr>eflags := eflags s OR EFLAGS_IF\<rparr>))"

definition intr_disable :: "'a cpu_scheme \<Rightarrow> intr_status \<times> 'a cpu_scheme" where
  "intr_disable s =
     (if intr_get_status s = INTR_ON then (INTR_ON, s\<lparr>eflags := eflags s AND NOT EFLAGS_IF\<rparr>)
      else (INTR_OFF, s))"

definition intr_set_status :: "intr_status \<Rightarrow> 'a cpu_scheme \<Rightarrow> intr_status \<times> 'a cpu_scheme" where
  "intr_set_status status s = (if status = INTR_ON then intr_enable s else intr_disable s)"

section \<open>Descriptors\<close>

record gate_desc =
  func_offset_low_word :: u16
  selector :: u16
  dcount :: u8
  attribute :: u8
  func_offset_high_word :: u16

definition SELECTOR_K_CODE :: u16 where [layout_simps]: "SELECTOR_K_CODE = 8"

definition make_idt_desc :: "u8 \<Rightarrow> u32 \<Rightarrow> gate_desc" where
  "make_idt_desc attr function =
     \<lparr>func_offset_low_word = ucast (function AND 0x0000FFFF),
      selector = SELECTOR_K_CODE,
      dcount = 0,
      attribute = attr,
      func_offset_high_word = ucast (drop_bit 16 (function AND 0xFFFF0000))\<rparr>"

record gdt_desc =
  limit_low_word :: u16
  base_low_word :: u16
  base_mid_byte :: u8
  attr_low_byte :: u8
  limit_high_attr_high :: u8
  base_high_byte :: u8

definition make_gdt_desc :: "u32 \<Rightarrow> u32 \<Rightarrow> u8 \<Rightarrow> u8 \<Rightarrow> gdt_desc" where
  "make_gdt_desc desc_base limit attr_low attr_high =
     \<lparr>limit_low_word = ucast (limit AND 0x0000ffff),
      base_low_word = ucast (desc_base AND 0x0000ffff),
      base_mid_byte = ucast (drop_bit 16 (desc_base AND 0x00ff0000)),
      attr_low_byte = attr_low,
      limit_high_attr_high = ucast (drop_bit 16 (limit AND 0x000f0000)) + attr_high,
      base_high_byte = ucast (drop_bit 24 desc_base)\<rparr>"

section \<open>The interrupt descriptor table\<close>

text \<open>\<^verbatim>\<open>idt_table\<close> maps a vector number to the address of its C handler.\<close>

definition IDT_DESC_CNT :: nat where [layout_simps]: "IDT_DESC_CNT = 0x81"

definition idt_desc_init :: "u32 list \<Rightarrow> u32 \<Rightarrow> gate_desc list res" where
  "idt_desc_init intr_entry_table syscall_handler =
     (if length intr_entry_table < IDT_DESC_CNT then Inl Bad_Access
      else Inr ((map (make_idt_desc 0x8E) (take IDT_DESC_CNT intr_entry_table))
             [IDT_DESC_CNT - 1 := make_idt_desc 0xEE syscall_handler]))"

definition register_handler :: "u8 \<Rightarrow> u32 \<Rightarrow> u32 list \<Rightarrow> u32 list res" where
  "register_handler vector_no function idt_table = store idt_table (unat vector_no) function"

section \<open>Lemmas\<close>

lemma EFLAGS_IF_exp: "EFLAGS_IF = 2 ^ 9"
  by (simp add: EFLAGS_IF_def)

lemma and_IF: "(EFLAGS_IF AND x \<noteq> 0) = bit x 9"
  unfolding EFLAGS_IF_exp and.commute [of "2 ^ 9 :: u32"] exp_test_bit not_not ..

lemma bit_IF: "bit EFLAGS_IF n \<longleftrightarrow> n = 9"
  unfolding EFLAGS_IF_exp bit_exp_iff by auto

lemma intr_get_status_bit: "intr_get_status s = (if bit (eflags s) 9 then INTR_ON else INTR_OFF)"
  by (simp add: intr_get_status_def and_IF)

lemma intr_enable_on [simp]: "intr_get_status (snd (intr_enable s)) = INTR_ON"
  and intr_disable_off [simp]: "intr_get_status (snd (intr_disable s)) = INTR_OFF"
  and intr_enable_old [simp]: "fst (intr_enable s) = intr_get_status s"
  and intr_disable_old [simp]: "fst (intr_disable s) = intr_get_status s"
  and intr_set_status_is [simp]: "intr_get_status (snd (intr_set_status st s)) = st"
  by (auto simp: intr_enable_def intr_disable_def intr_set_status_def intr_get_status_bit
      bit_simps bit_IF intr_status.exhaust [of st] split: if_splits)
     (metis intr_status.exhaust)+

text \<open>Disabling and then restoring the old status leaves the flags register as it was, whatever
  happened in between, as long as the flags were not touched.\<close>

lemma intr_restore:
  assumes "intr_disable s = (old, s1)" and "eflags s2 = eflags s1"
  shows "eflags (snd (intr_set_status old s2)) = eflags s"
proof (cases "bit (eflags s) 9")
  case True
  with assms have "old = INTR_ON" and e: "eflags s2 = eflags s AND NOT EFLAGS_IF"
    by (auto simp: intr_disable_def intr_get_status_bit)
  then have "eflags (snd (intr_set_status old s2)) = (eflags s AND NOT EFLAGS_IF) OR EFLAGS_IF"
    by (auto simp: intr_set_status_def intr_enable_def intr_get_status_bit e bit_simps bit_IF)
  also have "\<dots> = eflags s"
    using True by (intro bit_word_eqI) (auto simp: bit_simps bit_IF)
  finally show ?thesis .
next
  case False
  with assms show ?thesis
    by (auto simp: intr_disable_def intr_set_status_def intr_get_status_bit)
qed


lemma bit_255: "bit (255 :: 'a :: len word) n \<longleftrightarrow> n < 8 \<and> n < LENGTH('a)"
  and bit_65535: "bit (65535 :: 'a :: len word) n \<longleftrightarrow> n < 16 \<and> n < LENGTH('a)"
proof -
  have "(255 :: 'a word) = mask 8" and "(65535 :: 'a word) = mask 16"
    by (simp_all add: mask_eq_exp_minus_1)
  then show "bit (255 :: 'a :: len word) n \<longleftrightarrow> n < 8 \<and> n < LENGTH('a)"
    and "bit (65535 :: 'a :: len word) n \<longleftrightarrow> n < 16 \<and> n < LENGTH('a)"
    by (auto simp only: bit_mask_iff possible_bit_word)
qed

lemma bit_255_int: "bit (255 :: int) n \<longleftrightarrow> n < 8"
  and bit_65535_int: "bit (65535 :: int) n \<longleftrightarrow> n < 16"
proof -
  have "(255 :: int) = mask 8" and "(65535 :: int) = mask 16"
    by (simp_all add: mask_eq_exp_minus_1)
  then show "bit (255 :: int) n \<longleftrightarrow> n < 8" and "bit (65535 :: int) n \<longleftrightarrow> n < 16"
    by (auto simp only: bit_mask_iff possible_bit_int)
qed

lemmas mask_bits = bit_255 bit_65535 bit_255_int bit_65535_int

text \<open>The address the processor assembles from an interrupt gate, and the base and limit it
  assembles from a segment descriptor.\<close>

definition gate_target :: "gate_desc \<Rightarrow> u32" where
  "gate_target g =
     push_bit 16 (ucast (func_offset_high_word g)) OR ucast (func_offset_low_word g)"

definition desc_base_of :: "gdt_desc \<Rightarrow> u32" where
  "desc_base_of d = push_bit 24 (ucast (base_high_byte d)) OR
     push_bit 16 (ucast (base_mid_byte d)) OR ucast (base_low_word d)"

definition desc_limit_of :: "gdt_desc \<Rightarrow> u32" where
  "desc_limit_of d = push_bit 16 (ucast (limit_high_attr_high d AND 0x0f)) OR
     ucast (limit_low_word d)"

lemma gate_target_make: "gate_target (make_idt_desc attr f) = f"
  unfolding gate_target_def make_idt_desc_def
  by (rule bit_word_eqI) (auto simp: bit_simps mask_bits)

lemma desc_base_make: "desc_base_of (make_gdt_desc base limit al ah) = base"
  unfolding desc_base_of_def make_gdt_desc_def
  apply (rule bit_word_eqI)
  subgoal for n by (cases "24 \<le> n") (auto simp: bit_simps mask_bits)
  done

lemma bit_15: "bit (15 :: 'a :: len word) n \<longleftrightarrow> n < 4 \<and> n < LENGTH('a)"
proof -
  have "(15 :: 'a word) = mask 4" by (simp add: mask_eq_exp_minus_1)
  then show ?thesis by (auto simp only: bit_mask_iff possible_bit_word)
qed

lemma bit_15_int: "bit (15 :: int) n \<longleftrightarrow> n < 4"
proof -
  have "(15 :: int) = mask 4" by (simp add: mask_eq_exp_minus_1)
  then show ?thesis by (auto simp only: bit_mask_iff possible_bit_int)
qed

lemma desc_limit_make:
  assumes "limit < 0x100000" and "ah AND 0x0f = 0"
  shows "desc_limit_of (make_gdt_desc base limit al ah) = limit"
proof -
  let ?hi = "ucast (drop_bit 16 (limit AND 0x000f0000)) :: u8"
  have "unat limit < 2 ^ 20" using assms(1) by (simp add: u32_less_iff)
  then have l: "n < 20" if "bit limit n" for n using that by (rule bit_small_word)
  have ah: "\<not> bit ah n" if "n < 4" for n
  proof -
    have "bit (ah AND 0x0f) n = bit ah n" using that by (simp add: bit_and_iff bit_15 bit_15_int)
    with assms(2) show ?thesis by simp
  qed
  have sum: "?hi + ah = ?hi OR ah"
    by (rule disjunctive_add) (use ah in \<open>auto simp: bit_simps bit_15 bit_15_int\<close>)
  show ?thesis
    unfolding desc_limit_of_def make_gdt_desc_def gdt_desc.simps sum
    apply (rule bit_word_eqI)
    subgoal for n
      using ah [of "n - 16"] l [of n]
      by (cases "16 \<le> n") (auto simp: bit_simps bit_15 bit_15_int mask_bits)
    done
qed

section \<open>Properties\<close>

text \<open>A critical section of the form \<^verbatim>\<open>old = intr_disable(); ...; intr_set_status(old)\<close> runs
  with interrupts off and gives back the flags register it was entered with, bit by bit, also
  when it is nested in another one.\<close>

theorem intr_critical_section:
  assumes "intr_disable s = (old, s1)" and "eflags s2 = eflags s1"
  shows "intr_get_status s1 = INTR_OFF \<and> old = intr_get_status s \<and>
     eflags (snd (intr_set_status old s2)) = eflags s"
  using intr_restore [OF assms] intr_disable_off [of s] intr_disable_old [of s] assms(1) by simp

theorem intr_critical_section_witness:
  "intr_get_status \<lparr>eflags = 0x3002\<rparr> = INTR_OFF \<and> INTR_ON = intr_get_status \<lparr>eflags = 0x3202\<rparr> \<and>
   eflags (snd (intr_set_status INTR_ON \<lparr>eflags = 0x3002\<rparr>)) = eflags \<lparr>eflags = 0x3202\<rparr>"
  by (rule intr_critical_section)
     (simp_all add: intr_disable_def intr_get_status_def EFLAGS_IF_def)

text \<open>The descriptors the kernel builds say what they were built from: the processor reads
  the handler address back from an interrupt gate, and base and limit back from a segment
  descriptor, for every base, every 20-bit limit and every attribute byte with its low half
  free.\<close>

theorem descriptors_round_trip:
  assumes "limit < 0x100000" and "ah AND 0x0f = 0"
  shows "gate_target (make_idt_desc attr f) = f \<and>
     desc_base_of (make_gdt_desc base limit al ah) = base \<and>
     desc_limit_of (make_gdt_desc base limit al ah) = limit"
  using desc_limit_make [OF assms] by (simp add: gate_target_make desc_base_make)

theorem descriptors_round_trip_witness:
  "gate_target (make_idt_desc 0x8E 0xC0001500) = 0xC0001500 \<and>
   desc_base_of (make_gdt_desc 0xC0006000 0xfffff 0xF8 0xC0) = 0xC0006000 \<and>
   desc_limit_of (make_gdt_desc 0xC0006000 0xfffff 0xF8 0xC0) = 0xfffff"
  by (rule descriptors_round_trip) simp_all

text \<open>After \<^verbatim>\<open>idt_desc_init\<close> every vector below \<open>0x80\<close> is a ring-0 gate to its entry of
  \<^verbatim>\<open>intr_entry_table\<close> and vector \<open>0x80\<close> is a ring-3 gate to \<^verbatim>\<open>syscall_handler\<close>.\<close>

theorem idt_desc_init_gates:
  assumes "length tbl = IDT_DESC_CNT"
  shows "\<exists>idt. idt_desc_init tbl h = Inr idt \<and> length idt = IDT_DESC_CNT \<and>
     (\<forall>i < 0x80. gate_target (idt ! i) = tbl ! i \<and> attribute (idt ! i) = 0x8E) \<and>
     gate_target (idt ! 0x80) = h \<and> attribute (idt ! 0x80) = 0xEE"
  using assms
  by (simp add: idt_desc_init_def IDT_DESC_CNT_def gate_target_make) (simp add: make_idt_desc_def)

theorem idt_desc_init_gates_witness:
  "\<exists>idt. idt_desc_init (replicate IDT_DESC_CNT 0xC0002000) 0xC0001000 = Inr idt \<and>
     length idt = IDT_DESC_CNT \<and>
     (\<forall>i < 0x80. gate_target (idt ! i) = replicate IDT_DESC_CNT 0xC0002000 ! i \<and>
        attribute (idt ! i) = 0x8E) \<and>
     gate_target (idt ! 0x80) = 0xC0001000 \<and> attribute (idt ! 0x80) = 0xEE"
  by (rule idt_desc_init_gates) simp

end
