(* ===== verification/KList.thy ===== *)
theory KList
  imports Interrupts
begin

text \<open>
  The intrusive doubly linked list of \<^verbatim>\<open>lib/kernel/list.c\<close> on an explicit store.

  A \<^verbatim>\<open>struct list_elem\<close> at address \<open>p\<close> is the pair \<open>prev_of m p\<close>, \<open>next_of m p\<close>; a
  \<^verbatim>\<open>struct list\<close> at address \<open>l\<close> holds its \<^verbatim>\<open>head\<close> element at \<open>l\<close> and its \<^verbatim>\<open>tail\<close> element
  at \<open>l + 8\<close> (an element is two 4-byte pointers). Address 0 is \<^verbatim>\<open>NULL\<close>, and going through
  it is \<open>Bad_Access\<close>. The loops are partial functions: \<open>None\<close> is a walk that never
  ends, which happens on a cyclic structure.

  The second half shows that the operations are the operations on HOL lists, as long as the
  store holds a well-formed list (\<open>dll\<close>), and states the contract the other parts of the
  kernel use as the locale \<open>kernel_list\<close>.
\<close>

section \<open>The code\<close>

type_synonym ptr = u32

abbreviation NULL :: ptr where "NULL \<equiv> 0"

record lmem = cpu +
  prev_of :: "ptr \<Rightarrow> ptr"
  next_of :: "ptr \<Rightarrow> ptr"

definition head_of :: "ptr \<Rightarrow> ptr" where "head_of l = l"
definition tail_of :: "ptr \<Rightarrow> ptr" where "tail_of l = l + 8"

definition get_prev :: "lmem \<Rightarrow> ptr \<Rightarrow> ptr res" where
  "get_prev m p = (if p = NULL then Inl Bad_Access else Inr (prev_of m p))"

definition get_next :: "lmem \<Rightarrow> ptr \<Rightarrow> ptr res" where
  "get_next m p = (if p = NULL then Inl Bad_Access else Inr (next_of m p))"

definition set_prev :: "lmem \<Rightarrow> ptr \<Rightarrow> ptr \<Rightarrow> lmem res" where
  "set_prev m p v =
     (if p = NULL then Inl Bad_Access else Inr (m\<lparr>prev_of := (prev_of m)(p := v)\<rparr>))"

definition set_next :: "lmem \<Rightarrow> ptr \<Rightarrow> ptr \<Rightarrow> lmem res" where
  "set_next m p v =
     (if p = NULL then Inl Bad_Access else Inr (m\<lparr>next_of := (next_of m)(p := v)\<rparr>))"

definition list_init :: "lmem \<Rightarrow> ptr \<Rightarrow> lmem res" where
  "list_init m l =
     bind_res (set_prev m (head_of l) NULL) (\<lambda>m.
     bind_res (set_next m (head_of l) (tail_of l)) (\<lambda>m.
     bind_res (set_prev m (tail_of l) (head_of l)) (\<lambda>m.
     set_next m (tail_of l) NULL)))"

definition list_insert_before :: "lmem \<Rightarrow> ptr \<Rightarrow> ptr \<Rightarrow> lmem res" where
  "list_insert_before m before elem =
     (let (old_status, m) = intr_disable m in
      bind_res (get_prev m before) (\<lambda>p.
      bind_res (set_next m p elem) (\<lambda>m.
      bind_res (get_prev m before) (\<lambda>p.
      bind_res (set_prev m elem p) (\<lambda>m.
      bind_res (set_next m elem before) (\<lambda>m.
      bind_res (set_prev m before elem) (\<lambda>m.
      Inr (snd (intr_set_status old_status m)))))))))"

definition list_push :: "lmem \<Rightarrow> ptr \<Rightarrow> ptr \<Rightarrow> lmem res" where
  "list_push m plist elem =
     bind_res (get_next m (head_of plist)) (\<lambda>first. list_insert_before m first elem)"

definition list_append :: "lmem \<Rightarrow> ptr \<Rightarrow> ptr \<Rightarrow> lmem res" where
  "list_append m plist elem = list_insert_before m (tail_of plist) elem"

definition list_remove :: "lmem \<Rightarrow> ptr \<Rightarrow> lmem res" where
  "list_remove m pelem =
     (let (old_status, m) = intr_disable m in
      bind_res (get_prev m pelem) (\<lambda>p.
      bind_res (get_next m pelem) (\<lambda>n.
      bind_res (set_next m p n) (\<lambda>m.
      bind_res (get_next m pelem) (\<lambda>n.
      bind_res (get_prev m pelem) (\<lambda>p.
      bind_res (set_prev m n p) (\<lambda>m.
      Inr (snd (intr_set_status old_status m)))))))))"

definition list_pop :: "lmem \<Rightarrow> ptr \<Rightarrow> (ptr \<times> lmem) res" where
  "list_pop m plist =
     bind_res (get_next m (head_of plist)) (\<lambda>elem.
     bind_res (list_remove m elem) (\<lambda>m. Inr (elem, m)))"

definition list_empty :: "lmem \<Rightarrow> ptr \<Rightarrow> bool res" where
  "list_empty m plist =
     bind_res (get_next m (head_of plist)) (\<lambda>n. Inr (n = tail_of plist))"

partial_function (option) elem_find_loop ::
  "lmem \<Rightarrow> ptr \<Rightarrow> ptr \<Rightarrow> ptr \<Rightarrow> bool res option" where
  "elem_find_loop m tail obj_elem elem =
     (if elem = tail then Some (Inr False)
      else if elem = obj_elem then Some (Inr True)
      else if elem = NULL then Some (Inl Bad_Access)
      else elem_find_loop m tail obj_elem (next_of m elem))"

definition elem_find :: "lmem \<Rightarrow> ptr \<Rightarrow> ptr \<Rightarrow> bool res" where
  "elem_find m plist obj_elem =
     bind_res (get_next m (head_of plist)) (\<lambda>elem.
     case elem_find_loop m (tail_of plist) obj_elem elem of
       None \<Rightarrow> Inl Diverges | Some r \<Rightarrow> r)"

text \<open>
  The callback of \<^verbatim>\<open>list_traversal\<close> may change state of its own (\<open>'s\<close>); it does not change
  the links.
\<close>

partial_function (option) list_traversal_loop ::
  "lmem \<Rightarrow> ptr \<Rightarrow> ('s \<Rightarrow> ptr \<Rightarrow> int \<Rightarrow> bool \<times> 's) \<Rightarrow> int \<Rightarrow> 's \<Rightarrow> ptr \<Rightarrow> (ptr \<times> 's) res option" where
  "list_traversal_loop m tail func arg s elem =
     (if elem = tail then Some (Inr (NULL, s))
      else if elem = NULL then Some (Inl Bad_Access)
      else (case func s elem arg of (found, s) \<Rightarrow>
              if found then Some (Inr (elem, s))
              else list_traversal_loop m tail func arg s (next_of m elem)))"

definition list_traversal ::
  "lmem \<Rightarrow> ptr \<Rightarrow> ('s \<Rightarrow> ptr \<Rightarrow> int \<Rightarrow> bool \<times> 's) \<Rightarrow> int \<Rightarrow> 's \<Rightarrow> (ptr \<times> 's) res" where
  "list_traversal m plist func arg s =
     bind_res (get_next m (head_of plist)) (\<lambda>elem.
     bind_res (list_empty m plist) (\<lambda>e.
     if e then Inr (NULL, s)
     else (case list_traversal_loop m (tail_of plist) func arg s elem of
             None \<Rightarrow> Inl Diverges | Some r \<Rightarrow> r)))"

partial_function (option) list_len_loop :: "lmem \<Rightarrow> ptr \<Rightarrow> ptr \<Rightarrow> u32 \<Rightarrow> u32 res option" where
  "list_len_loop m tail elem len =
     (if elem = tail then Some (Inr len)
      else if elem = NULL then Some (Inl Bad_Access)
      else list_len_loop m tail (next_of m elem) (len + 1))"

definition list_len :: "lmem \<Rightarrow> ptr \<Rightarrow> u32 res" where
  "list_len m plist =
     bind_res (get_next m (head_of plist)) (\<lambda>elem.
     case list_len_loop m (tail_of plist) elem 0 of None \<Rightarrow> Inl Diverges | Some r \<Rightarrow> r)"

section \<open>Well-formed lists\<close>

text \<open>\<open>linked m ps\<close>: consecutive addresses of \<open>ps\<close> point at each other.\<close>

fun linked :: "lmem \<Rightarrow> ptr list \<Rightarrow> bool" where
  "linked m [] = True"
| "linked m [p] = True"
| "linked m (p # q # ps) = (next_of m p = q \<and> prev_of m q = p \<and> linked m (q # ps))"

abbreviation nodes :: "ptr \<Rightarrow> ptr list \<Rightarrow> ptr list" where
  "nodes l xs \<equiv> head_of l # xs @ [tail_of l]"

definition dll :: "lmem \<Rightarrow> ptr \<Rightarrow> ptr list \<Rightarrow> bool" where
  "dll m l xs \<longleftrightarrow> distinct (nodes l xs) \<and> NULL \<notin> set (nodes l xs) \<and> linked m (nodes l xs) \<and>
     prev_of m (head_of l) = NULL \<and> next_of m (tail_of l) = NULL"

lemma linked_append:
  "linked m (xs @ y # ys) \<longleftrightarrow> linked m (xs @ [y]) \<and> linked m (y # ys)"
  by (induction m xs rule: linked.induct) auto

lemma linked_cong:
  assumes "\<And>p. p \<in> set ps \<Longrightarrow> next_of m' p = next_of m p"
    and "\<And>p. p \<in> set ps \<Longrightarrow> prev_of m' p = prev_of m p"
  shows "linked m' ps = linked m ps"
  using assms by (induction m ps rule: linked.induct) auto

lemma linked_upd_next_last:
  "distinct (ps @ [p]) \<Longrightarrow> linked (m\<lparr>next_of := (next_of m)(p := v)\<rparr>) (ps @ [p]) = linked m (ps @ [p])"
  by (induction m ps rule: linked.induct) (auto split: if_splits)

lemma linked_upd_prev_first:
  "distinct (p # ps) \<Longrightarrow> linked (m\<lparr>prev_of := (prev_of m)(p := v)\<rparr>) (p # ps) = linked m (p # ps)"
proof (cases ps)
  case (Cons q qs)
  let ?m = "m\<lparr>prev_of := (prev_of m)(p := v)\<rparr>"
  assume d: "distinct (p # ps)"
  with Cons have "linked ?m (q # qs) = linked m (q # qs)" by (intro linked_cong) auto
  with Cons d show ?thesis by auto
qed simp

text \<open>The middle of a linked chain: its two halves and the link between them.\<close>

lemma linked_mid:
  "linked m (us @ p # q # vs) \<longleftrightarrow>
     linked m (us @ [p]) \<and> next_of m p = q \<and> prev_of m q = p \<and> linked m (q # vs)"
  by (subst linked_append) auto


section \<open>Effect of the operations on the links\<close>

lemma intr_disable_lmem:
  assumes "intr_disable m = (old, m1)"
  shows "prev_of m1 = prev_of m" and "next_of m1 = next_of m"
  using assms by (auto simp: intr_disable_def split: if_splits)

lemma intr_set_status_lmem [simp]:
  "prev_of (snd (intr_set_status st m)) = prev_of m"
  "next_of (snd (intr_set_status st m)) = next_of m"
  by (auto simp: intr_set_status_def intr_enable_def intr_disable_def)

lemma list_insert_before_eq:
  assumes "before \<noteq> NULL" and "elem \<noteq> NULL" and "prev_of m before \<noteq> NULL"
  shows "\<exists>m'. list_insert_before m before elem = Inr m' \<and> eflags m' = eflags m \<and>
     next_of m' = (next_of m)(prev_of m before := elem, elem := before) \<and>
     prev_of m' = (prev_of m)(elem := prev_of m before, before := elem)"
proof -
  obtain old m1 where d: "intr_disable m = (old, m1)" by fastforce
  note p = intr_disable_lmem [OF d]
  let ?m2 = "m1\<lparr>next_of := (next_of m)(prev_of m before := elem, elem := before),
                 prev_of := (prev_of m)(elem := prev_of m before, before := elem)\<rparr>"
  have "list_insert_before m before elem = Inr (snd (intr_set_status old ?m2))"
    using assms by (simp add: list_insert_before_def d get_prev_def set_next_def set_prev_def p)
  moreover have "eflags (snd (intr_set_status old ?m2)) = eflags m"
    by (rule intr_restore [OF d]) simp
  ultimately show ?thesis by simp
qed

lemma list_remove_eq:
  assumes "pelem \<noteq> NULL" and "prev_of m pelem \<noteq> NULL" and "next_of m pelem \<noteq> NULL"
    and "prev_of m pelem \<noteq> pelem"
  shows "\<exists>m'. list_remove m pelem = Inr m' \<and> eflags m' = eflags m \<and>
     next_of m' = (next_of m)(prev_of m pelem := next_of m pelem) \<and>
     prev_of m' = (prev_of m)(next_of m pelem := prev_of m pelem)"
proof -
  obtain old m1 where d: "intr_disable m = (old, m1)" by fastforce
  note p = intr_disable_lmem [OF d]
  let ?m2 = "m1\<lparr>next_of := (next_of m)(prev_of m pelem := next_of m pelem),
                 prev_of := (prev_of m)(next_of m pelem := prev_of m pelem)\<rparr>"
  have "list_remove m pelem = Inr (snd (intr_set_status old ?m2))"
    using assms by (simp add: list_remove_def d get_prev_def get_next_def set_next_def set_prev_def p)
  moreover have "eflags (snd (intr_set_status old ?m2)) = eflags m"
    by (rule intr_restore [OF d]) simp
  ultimately show ?thesis by simp
qed

text \<open>Splicing an element into a chain, and out of it.\<close>

lemma linked_splice_in:
  assumes "linked m (us @ p # q # vs)" and "distinct (us @ p # q # vs)"
    and "e \<notin> set (us @ p # q # vs)"
    and "next_of m' = (next_of m)(p := e, e := q)" and "prev_of m' = (prev_of m)(e := p, q := e)"
  shows "linked m' (us @ p # e # q # vs)"
proof -
  from assms(1) have l: "linked m (us @ [p])" and r: "linked m (q # vs)"
    by (simp_all add: linked_mid)
  have "linked m' (us @ [p]) = linked (m\<lparr>next_of := (next_of m)(p := e)\<rparr>) (us @ [p])"
    using assms(2-) by (intro linked_cong) auto
  also have "\<dots>" using l assms(2) by (simp add: linked_upd_next_last)
  finally have L: "linked m' (us @ [p])" .
  have "linked m' (q # vs) = linked (m\<lparr>prev_of := (prev_of m)(q := e)\<rparr>) (q # vs)"
    using assms(2-) by (intro linked_cong) auto
  also have "\<dots>" using r assms(2) by (simp add: linked_upd_prev_first)
  finally have "linked m' (q # vs)" .
  with L assms(2-) show ?thesis by (auto simp: linked_mid)
qed

lemma linked_splice_out:
  assumes "linked m (us @ p # e # q # vs)" and "distinct (us @ p # e # q # vs)"
    and "next_of m' = (next_of m)(p := q)" and "prev_of m' = (prev_of m)(q := p)"
  shows "linked m' (us @ p # q # vs)"
proof -
  from assms(1) have l: "linked m (us @ [p])" and r: "linked m (q # vs)"
    by (simp_all add: linked_mid)
  have "linked m' (us @ [p]) = linked (m\<lparr>next_of := (next_of m)(p := q)\<rparr>) (us @ [p])"
    using assms(2-) by (intro linked_cong) auto
  also have "\<dots>" using l assms(2) by (simp add: linked_upd_next_last)
  finally have L: "linked m' (us @ [p])" .
  have "linked m' (q # vs) = linked (m\<lparr>prev_of := (prev_of m)(q := p)\<rparr>) (q # vs)"
    using assms(2-) by (intro linked_cong) auto
  also have "\<dots>" using r assms(2) by (simp add: linked_upd_prev_first)
  finally have "linked m' (q # vs)" .
  with L assms(2-) show ?thesis by (auto simp: linked_mid)
qed


section \<open>The operations on well-formed lists\<close>

text \<open>\<open>frame S m m'\<close>: outside \<open>S\<close> the links are the same, and so are the CPU flags.\<close>

definition frame :: "ptr set \<Rightarrow> lmem \<Rightarrow> lmem \<Rightarrow> bool" where
  "frame S m m' \<longleftrightarrow> eflags m' = eflags m \<and>
     (\<forall>p. p \<notin> S \<longrightarrow> next_of m' p = next_of m p \<and> prev_of m' p = prev_of m p)"

lemma dll_frame:
  assumes "dll m k ys" and "frame S m m'" and "S \<inter> set (nodes k ys) = {}"
  shows "dll m' k ys"
proof -
  have out: "next_of m' p = next_of m p \<and> prev_of m' p = prev_of m p" if "p \<in> set (nodes k ys)" for p
    using that assms(2,3) by (auto simp: frame_def)
  then have "linked m' (nodes k ys) = linked m (nodes k ys)" by (intro linked_cong) auto
  with assms(1) out show ?thesis by (auto simp: dll_def)
qed

lemma dll_list_init:
  assumes "head_of l \<noteq> NULL" and "tail_of l \<noteq> NULL"
  shows "\<exists>m'. list_init m l = Inr m' \<and> dll m' l [] \<and> frame {head_of l, tail_of l} m m'"
proof -
  have "l \<noteq> l + 8" by simp
  then show ?thesis
    using assms
    by (auto simp: list_init_def set_prev_def set_next_def dll_def frame_def head_of_def tail_of_def)
qed

lemma split_snoc: "ys \<noteq> [] \<Longrightarrow> \<exists>us p. ys = us @ [p]"
  by (cases ys rule: rev_cases) auto

lemma dll_insert:
  assumes d: "dll m l (as @ bs)" and e: "e \<notin> set (nodes l (as @ bs))" "e \<noteq> NULL"
    and q: "bs @ [tail_of l] = q # vs"
  shows "\<exists>m'. list_insert_before m q e = Inr m' \<and> dll m' l (as @ e # bs) \<and>
     frame (insert e (set (nodes l (as @ bs)))) m m'"
proof -
  obtain us p where p: "head_of l # as = us @ [p]" using split_snoc [of "head_of l # as"] by blast
  have n: "nodes l (as @ bs) = us @ p # q # vs" using p q by simp
  have n': "nodes l (as @ e # bs) = us @ p # e # q # vs" using p q by simp
  from d have lk: "linked m (us @ p # q # vs)" and ds: "distinct (us @ p # q # vs)"
    and nn: "NULL \<notin> set (us @ p # q # vs)"
    and ends: "prev_of m (head_of l) = NULL" "next_of m (tail_of l) = NULL"
    unfolding dll_def n by auto
  from lk have pq: "prev_of m q = p" by (simp add: linked_mid)
  have pn: "p \<noteq> NULL" "q \<noteq> NULL" using nn by auto
  obtain m' where m': "list_insert_before m q e = Inr m'" "eflags m' = eflags m"
    "next_of m' = (next_of m)(p := e, e := q)" "prev_of m' = (prev_of m)(e := p, q := e)"
    using list_insert_before_eq [of q e m] pn e(2) pq by auto
  have e': "e \<notin> set (us @ p # q # vs)" using e(1) unfolding n .
  from linked_splice_in [OF lk ds e' m'(3,4)] have lk': "linked m' (us @ p # e # q # vs)" .
  have ht: "head_of l \<noteq> q" "head_of l \<noteq> e" "tail_of l \<noteq> p" "tail_of l \<noteq> e"
    using d e(1) q p unfolding dll_def by (auto simp: Cons_eq_append_conv append_eq_Cons_conv)
  have "dll m' l (as @ e # bs)"
    unfolding dll_def n' using ds e' nn e(2) lk' ends ht m'(3,4) by auto
  moreover have "frame (insert e (set (us @ p # q # vs))) m m'"
    using m' by (auto simp: frame_def)
  ultimately show ?thesis using m'(1) n by simp
qed

lemma dll_remove:
  assumes d: "dll m l (as @ e # bs)"
  shows "\<exists>m'. list_remove m e = Inr m' \<and> dll m' l (as @ bs) \<and>
     frame (set (nodes l (as @ bs))) m m'"
proof -
  obtain us p where p: "head_of l # as = us @ [p]" using split_snoc [of "head_of l # as"] by blast
  obtain q vs where q: "bs @ [tail_of l] = q # vs" by (cases bs) auto
  have n: "nodes l (as @ bs) = us @ p # q # vs" using p q by simp
  have n': "nodes l (as @ e # bs) = us @ p # e # q # vs" using p q by simp
  from d have lk: "linked m (us @ p # e # q # vs)" and ds: "distinct (us @ p # e # q # vs)"
    and nn: "NULL \<notin> set (us @ p # e # q # vs)"
    and ends: "prev_of m (head_of l) = NULL" "next_of m (tail_of l) = NULL"
    unfolding dll_def n' by auto
  from lk have pq: "prev_of m e = p" "next_of m e = q"
    using linked_mid [of m us p e "q # vs"] by simp_all
  obtain m' where m': "list_remove m e = Inr m'" "eflags m' = eflags m"
    "next_of m' = (next_of m)(p := q)" "prev_of m' = (prev_of m)(q := p)"
    using list_remove_eq [of e m] nn ds pq by auto
  from linked_splice_out [OF lk ds m'(3,4)] have lk': "linked m' (us @ p # q # vs)" .
  have ht: "head_of l \<noteq> q" "tail_of l \<noteq> p"
    using d q p unfolding dll_def by (auto simp: Cons_eq_append_conv append_eq_Cons_conv)
  have "dll m' l (as @ bs)"
    unfolding dll_def n using ds nn lk' ends ht m'(3,4) by auto
  moreover have "frame (set (us @ p # q # vs)) m m'"
    using m' by (auto simp: frame_def)
  ultimately show ?thesis using m'(1) n by simp
qed

lemma dll_first:
  assumes "dll m l xs"
  shows "get_next m (head_of l) = Inr (hd (xs @ [tail_of l]))"
  using assms by (cases xs) (auto simp: dll_def get_next_def)

lemma dll_push:
  assumes "dll m l xs" and "e \<notin> set (nodes l xs)" and "e \<noteq> NULL"
  shows "\<exists>m'. list_push m l e = Inr m' \<and> dll m' l (e # xs) \<and> frame (insert e (set (nodes l xs))) m m'"
proof -
  obtain q vs where "xs @ [tail_of l] = q # vs" by (cases xs) auto
  with dll_insert [of m l "[]" xs e] assms dll_first [OF assms(1)] show ?thesis
    by (simp add: list_push_def)
qed

lemma dll_append:
  assumes "dll m l xs" and "e \<notin> set (nodes l xs)" and "e \<noteq> NULL"
  shows "\<exists>m'. list_append m l e = Inr m' \<and> dll m' l (xs @ [e]) \<and>
     frame (insert e (set (nodes l xs))) m m'"
  using dll_insert [of m l xs "[]" e "tail_of l" "[]"] assms by (simp add: list_append_def)

lemma dll_pop:
  assumes "dll m l (x # xs)"
  shows "\<exists>m'. list_pop m l = Inr (x, m') \<and> dll m' l xs \<and> frame (set (nodes l xs)) m m'"
  using dll_remove [of m l "[]" x xs] dll_first [OF assms] assms
  by (auto simp: list_pop_def)

lemma dll_pop_empty:
  assumes "dll m l []"
  shows "list_pop m l = Inl Bad_Access"
proof -
  obtain old m1 where d: "intr_disable m = (old, m1)" by fastforce
  note p = intr_disable_lmem [OF d]
  from assms have "next_of m (tail_of l) = NULL" "prev_of m (tail_of l) = head_of l"
    "head_of l \<noteq> NULL" "tail_of l \<noteq> NULL" "head_of l \<noteq> tail_of l" by (auto simp: dll_def)
  then have "list_remove m (tail_of l) = Inl Bad_Access"
    by (simp add: list_remove_def d get_prev_def get_next_def set_next_def set_prev_def p)
  with dll_first [OF assms] show ?thesis by (simp add: list_pop_def)
qed

lemma dll_empty: "dll m l xs \<Longrightarrow> list_empty m l = Inr (xs = [])"
  using dll_first [of m l xs] by (cases xs) (auto simp: list_empty_def dll_def)


section \<open>The loops return on well-formed lists\<close>

lemma elem_find_loop_chain:
  assumes "linked m (ys @ [t])" and "distinct (ys @ [t])" and "NULL \<notin> set ys"
  shows "elem_find_loop m t obj (hd (ys @ [t])) = Some (Inr (obj \<in> set ys))"
  using assms
proof (induction ys)
  case Nil
  then show ?case by (simp add: elem_find_loop.simps)
next
  case (Cons y ys)
  then have "next_of m y = hd (ys @ [t])" and "linked m (ys @ [t])" by (cases ys; simp)+
  with Cons show ?case by (subst elem_find_loop.simps) auto
qed

fun traverse :: "('s \<Rightarrow> ptr \<Rightarrow> int \<Rightarrow> bool \<times> 's) \<Rightarrow> int \<Rightarrow> 's \<Rightarrow> ptr list \<Rightarrow> ptr \<times> 's" where
  "traverse func arg s [] = (NULL, s)"
| "traverse func arg s (y # ys) =
     (case func s y arg of (found, s) \<Rightarrow> if found then (y, s) else traverse func arg s ys)"

lemma list_traversal_loop_chain:
  assumes "linked m (ys @ [t])" and "distinct (ys @ [t])" and "NULL \<notin> set ys"
  shows "list_traversal_loop m t func arg s (hd (ys @ [t])) = Some (Inr (traverse func arg s ys))"
  using assms
proof (induction ys arbitrary: s)
  case Nil
  then show ?case by (simp add: list_traversal_loop.simps)
next
  case (Cons y ys)
  then have "next_of m y = hd (ys @ [t])" and "linked m (ys @ [t])" by (cases ys; simp)+
  with Cons show ?case by (subst list_traversal_loop.simps) (auto split: prod.splits)
qed

lemma list_len_loop_chain:
  assumes "linked m (ys @ [t])" and "distinct (ys @ [t])" and "NULL \<notin> set ys"
  shows "list_len_loop m t (hd (ys @ [t])) n = Some (Inr (n + of_nat (length ys)))"
  using assms
proof (induction ys arbitrary: n)
  case Nil
  then show ?case by (simp add: list_len_loop.simps)
next
  case (Cons y ys)
  then have "next_of m y = hd (ys @ [t])" and "linked m (ys @ [t])" by (cases ys; simp)+
  with Cons show ?case by (subst list_len_loop.simps) (auto simp: add.assoc add.commute)
qed

lemma dll_chain:
  assumes "dll m l xs"
  shows "linked m (xs @ [tail_of l])" and "distinct (xs @ [tail_of l])" and "NULL \<notin> set xs"
  using assms by (cases xs; auto simp: dll_def)+

lemma dll_elem_find:
  assumes "dll m l xs"
  shows "elem_find m l obj = Inr (obj \<in> set xs)"
  using elem_find_loop_chain [OF dll_chain [OF assms]] by (simp add: elem_find_def dll_first [OF assms])

lemma dll_traversal:
  assumes "dll m l xs"
  shows "list_traversal m l func arg s = Inr (traverse func arg s xs)"
  unfolding list_traversal_def dll_first [OF assms] dll_empty [OF assms] bind_res_Inr
    list_traversal_loop_chain [OF dll_chain [OF assms]]
  by simp

lemma dll_len:
  assumes "dll m l xs"
  shows "list_len m l = Inr (of_nat (length xs))"
  unfolding list_len_def dll_first [OF assms] bind_res_Inr
    list_len_loop_chain [OF dll_chain [OF assms]]
  by simp

text \<open>A search with a callback that only tests is the search for the first match.\<close>

lemma traverse_find:
  "fst (traverse (\<lambda>s p a. (test p a, s)) arg s ys) =
     (case find (\<lambda>p. test p arg) ys of None \<Rightarrow> NULL | Some p \<Rightarrow> p)"
  by (induction ys) auto

section \<open>The contract of the list module\<close>

text \<open>
  What the scheduler, the semaphores and the allocator rely on. \<open>rep m l xs\<close> says that the
  store \<open>m\<close> holds the list \<open>xs\<close> at \<open>l\<close>; \<open>foot l xs\<close> is the set of elements that list
  occupies; every operation leaves lists with another footprint alone.
\<close>

locale kernel_list =
  fixes rep :: "'m \<Rightarrow> 'l \<Rightarrow> 'e list \<Rightarrow> bool"
    and foot :: "'l \<Rightarrow> 'e list \<Rightarrow> 'e set"
    and valid :: "'e \<Rightarrow> bool"
    and push :: "'m \<Rightarrow> 'l \<Rightarrow> 'e \<Rightarrow> 'm res"
    and append :: "'m \<Rightarrow> 'l \<Rightarrow> 'e \<Rightarrow> 'm res"
    and remove :: "'m \<Rightarrow> 'e \<Rightarrow> 'm res"
    and pop :: "'m \<Rightarrow> 'l \<Rightarrow> ('e \<times> 'm) res"
    and find :: "'m \<Rightarrow> 'l \<Rightarrow> 'e \<Rightarrow> bool res"
  assumes rep_elem: "rep m l xs \<Longrightarrow> x \<in> set xs \<Longrightarrow> valid x"
    and rep_dist: "rep m l xs \<Longrightarrow> distinct xs"
    and foot_elems: "foot l xs = set xs \<union> foot l []"
    and rep_foot: "rep m l xs \<Longrightarrow> set xs \<inter> foot l [] = {}"
    and push_rep: "rep m l xs \<Longrightarrow> valid e \<Longrightarrow> e \<notin> foot l xs \<Longrightarrow>
      \<exists>m'. push m l e = Inr m' \<and> rep m' l (e # xs) \<and>
        (\<forall>k ys. rep m k ys \<longrightarrow> foot k ys \<inter> insert e (foot l xs) = {} \<longrightarrow> rep m' k ys)"
    and append_rep: "rep m l xs \<Longrightarrow> valid e \<Longrightarrow> e \<notin> foot l xs \<Longrightarrow>
      \<exists>m'. append m l e = Inr m' \<and> rep m' l (xs @ [e]) \<and>
        (\<forall>k ys. rep m k ys \<longrightarrow> foot k ys \<inter> insert e (foot l xs) = {} \<longrightarrow> rep m' k ys)"
    and remove_rep: "rep m l (as @ e # bs) \<Longrightarrow>
      \<exists>m'. remove m e = Inr m' \<and> rep m' l (as @ bs) \<and>
        (\<forall>k ys. rep m k ys \<longrightarrow> foot k ys \<inter> foot l (as @ bs) = {} \<longrightarrow> rep m' k ys)"
    and pop_rep: "rep m l (x # xs) \<Longrightarrow>
      \<exists>m'. pop m l = Inr (x, m') \<and> rep m' l xs \<and>
        (\<forall>k ys. rep m k ys \<longrightarrow> foot k ys \<inter> foot l xs = {} \<longrightarrow> rep m' k ys)"
    and find_rep: "rep m l xs \<Longrightarrow> find m l x = Inr (x \<in> set xs)"
begin

text \<open>Waking a thread: the first element of one list becomes the first of another.\<close>

lemma pop_push:
  assumes a: "rep m a (x # xs)" and b: "rep m b ys" and sep: "foot a (x # xs) \<inter> foot b ys = {}"
  shows "\<exists>m1 m2. pop m a = Inr (x, m1) \<and> push m1 b x = Inr m2 \<and>
     rep m2 a xs \<and> rep m2 b (x # ys)"
proof -
  have sep1: "x \<notin> foot b ys" "foot a xs \<inter> foot b ys = {}" "x \<notin> foot a xs"
    using sep rep_dist [OF a] rep_foot [OF a] foot_elems [of a "x # xs"] foot_elems [of a xs] by auto
  obtain m1 where m1: "pop m a = Inr (x, m1)" "rep m1 a xs"
    "\<And>k ys. rep m k ys \<Longrightarrow> foot k ys \<inter> foot a xs = {} \<Longrightarrow> rep m1 k ys"
    using pop_rep [OF a] by blast
  have b1: "rep m1 b ys" using m1(3) [OF b] sep1 by auto
  have "valid x" using rep_elem [OF a, of x] by simp
  from push_rep [OF b1 this sep1(1)] obtain m2 where
    m2: "push m1 b x = Inr m2" "rep m2 b (x # ys)"
    "\<And>k zs. rep m1 k zs \<Longrightarrow> foot k zs \<inter> insert x (foot b ys) = {} \<Longrightarrow> rep m2 k zs"
    by blast
  have "rep m2 a xs" using m2(3) [OF m1(2)] sep1 by auto
  with m1(1) m2(1,2) show ?thesis by blast
qed

text \<open>Elements appended one after the other leave in the same order.\<close>

lemma append_pop:
  assumes "rep m l xs" and "valid e" and "e \<notin> foot l xs" and "append m l e = Inr m'"
  shows "\<exists>m''. pop m' l = Inr (hd (xs @ [e]), m'') \<and> rep m'' l (tl (xs @ [e]))"
proof -
  from append_rep [OF assms(1-3)] assms(4) have "rep m' l (xs @ [e])" by auto
  moreover have "xs @ [e] = hd (xs @ [e]) # tl (xs @ [e])" by simp
  ultimately show ?thesis using pop_rep by metis
qed

text \<open>An element is found after it was appended, and not found after it was removed.\<close>

lemma append_find:
  assumes "rep m l xs" and "valid e" and "e \<notin> foot l xs" and "append m l e = Inr m'"
  shows "find m' l x = Inr (x = e \<or> x \<in> set xs)"
  using append_rep [OF assms(1-3)] assms(4) find_rep [of m' l "xs @ [e]" x] by auto

lemma remove_find:
  assumes "rep m l xs" and "e \<in> set xs" and "remove m e = Inr m'"
  shows "find m' l e = Inr False"
proof -
  from assms(2) obtain as bs where xs: "xs = as @ e # bs" by (meson split_list)
  with remove_rep [of m l as e bs] assms have "rep m' l (as @ bs)" by auto
  moreover have "e \<notin> set (as @ bs)" using rep_dist [OF assms(1)] xs by simp
  ultimately show ?thesis using find_rep by auto
qed

end

interpretation kl: kernel_list dll "\<lambda>l xs. set (nodes l xs)" "\<lambda>e. e \<noteq> NULL"
  list_push list_append list_remove list_pop elem_find
proof
  show "dll m l xs \<Longrightarrow> x \<in> set xs \<Longrightarrow> x \<noteq> NULL" for m l xs x
    by (auto simp: dll_def)
  show "dll m l xs \<Longrightarrow> distinct xs" for m l xs
    by (simp add: dll_def)
  show "set (nodes l xs) = set xs \<union> set (nodes l [])" for l xs
    by auto
  show "dll m l xs \<Longrightarrow> set xs \<inter> set (nodes l []) = {}" for m l xs
    by (auto simp: dll_def)
  show "dll m l xs \<Longrightarrow> e \<noteq> NULL \<Longrightarrow> e \<notin> set (nodes l xs) \<Longrightarrow>
      \<exists>m'. list_push m l e = Inr m' \<and> dll m' l (e # xs) \<and>
        (\<forall>k ys. dll m k ys \<longrightarrow> set (nodes k ys) \<inter> insert e (set (nodes l xs)) = {} \<longrightarrow> dll m' k ys)"
    for m l xs e
    using dll_push [of m l xs e] dll_frame by (metis Int_commute)
  show "dll m l xs \<Longrightarrow> e \<noteq> NULL \<Longrightarrow> e \<notin> set (nodes l xs) \<Longrightarrow>
      \<exists>m'. list_append m l e = Inr m' \<and> dll m' l (xs @ [e]) \<and>
        (\<forall>k ys. dll m k ys \<longrightarrow> set (nodes k ys) \<inter> insert e (set (nodes l xs)) = {} \<longrightarrow> dll m' k ys)"
    for m l xs e
    using dll_append [of m l xs e] dll_frame by (metis Int_commute)
  show "dll m l (as @ e # bs) \<Longrightarrow>
      \<exists>m'. list_remove m e = Inr m' \<and> dll m' l (as @ bs) \<and>
        (\<forall>k ys. dll m k ys \<longrightarrow> set (nodes k ys) \<inter> set (nodes l (as @ bs)) = {} \<longrightarrow> dll m' k ys)"
    for m l as e bs
    using dll_remove [of m l as e bs] dll_frame by (metis Int_commute)
  show "dll m l (x # xs) \<Longrightarrow>
      \<exists>m'. list_pop m l = Inr (x, m') \<and> dll m' l xs \<and>
        (\<forall>k ys. dll m k ys \<longrightarrow> set (nodes k ys) \<inter> set (nodes l xs) = {} \<longrightarrow> dll m' k ys)"
    for m l x xs
    using dll_pop [of m l x xs] dll_frame by (metis Int_commute)
  show "dll m l xs \<Longrightarrow> elem_find m l x = Inr (x \<in> set xs)" for m l xs x
    by (rule dll_elem_find)
qed

section \<open>Properties\<close>

text \<open>A store that holds two lists: one at 100 with the elements 300, 310 and one at 200 with
  the element 400.\<close>

definition sample_store :: lmem where
  "sample_store = \<lparr>eflags = 0x202,
     prev_of = (\<lambda>_. 0)(300 := 100, 310 := 300, 108 := 310, 400 := 200, 208 := 400),
     next_of = (\<lambda>_. 0)(100 := 300, 300 := 310, 310 := 108, 200 := 400, 400 := 208)\<rparr>"

lemma sample_dll:
  "dll sample_store 100 [300, 310]" "dll sample_store 200 [400]"
  by (simp_all add: sample_store_def dll_def head_of_def tail_of_def)

text \<open>C35: On a store that holds the list \<open>xs\<close>, every update of \<^verbatim>\<open>list.c\<close> returns and is the
  update of a HOL list: \<^verbatim>\<open>list_append\<close> adds at the end, \<^verbatim>\<open>list_push\<close> at the front, and both
  change only the links of this list and of the new element and leave the flags register as
  it was.\<close>

theorem list_insert_refines:
  assumes "dll m l xs" and "e \<notin> set (nodes l xs)" and "e \<noteq> NULL"
  shows "(\<exists>m'. list_append m l e = Inr m' \<and> dll m' l (xs @ [e]) \<and>
            frame (insert e (set (nodes l xs))) m m') \<and>
         (\<exists>m'. list_push m l e = Inr m' \<and> dll m' l (e # xs) \<and>
            frame (insert e (set (nodes l xs))) m m')"
  using dll_append [OF assms] dll_push [OF assms] by blast

theorem list_insert_refines_witness:
  "(\<exists>m'. list_append sample_store 100 500 = Inr m' \<and> dll m' 100 ([300, 310] @ [500]) \<and>
      frame (insert 500 (set (nodes 100 [300, 310]))) sample_store m') \<and>
   (\<exists>m'. list_push sample_store 100 500 = Inr m' \<and> dll m' 100 (500 # [300, 310]) \<and>
      frame (insert 500 (set (nodes 100 [300, 310]))) sample_store m')"
  by (rule list_insert_refines [OF sample_dll(1)]) (simp_all add: head_of_def tail_of_def)

text \<open>C36: \<^verbatim>\<open>list_remove\<close> of any element of a list takes exactly that element out, keeps the
  order of the others and every other list of the store, restores the flags register, and
  afterwards \<^verbatim>\<open>elem_find\<close> does not find the element.\<close>

theorem list_remove_refines:
  assumes "dll m l (as @ e # bs)"
  shows "\<exists>m'. list_remove m e = Inr m' \<and> dll m' l (as @ bs) \<and> eflags m' = eflags m \<and>
     elem_find m' l e = Inr False \<and>
     (\<forall>k ys. dll m k ys \<longrightarrow> set (nodes k ys) \<inter> set (nodes l (as @ bs)) = {} \<longrightarrow> dll m' k ys)"
proof -
  obtain m' where m': "list_remove m e = Inr m'" "dll m' l (as @ bs)"
    and fr: "frame (set (nodes l (as @ bs))) m m'" using dll_remove [OF assms] by blast
  have "elem_find m' l e = Inr False"
    using kl.remove_find [OF assms _ m'(1)] by simp
  moreover have "eflags m' = eflags m" using fr by (simp add: frame_def)
  moreover have "dll m' k ys" if "dll m k ys" "set (nodes k ys) \<inter> set (nodes l (as @ bs)) = {}" for k ys
    using dll_frame [OF that(1) fr] that(2) by (simp add: Int_commute)
  ultimately show ?thesis using m' by blast
qed

theorem list_remove_refines_witness:
  "\<exists>m'. list_remove sample_store 310 = Inr m' \<and> dll m' 100 ([300] @ []) \<and>
     eflags m' = eflags sample_store \<and> elem_find m' 100 310 = Inr False \<and>
     (\<forall>k ys. dll sample_store k ys \<longrightarrow>
        set (nodes k ys) \<inter> set (nodes 100 ([300] @ [])) = {} \<longrightarrow> dll m' k ys)"
  by (rule list_remove_refines) (use sample_dll(1) in simp)

text \<open>The wake-up of \<^verbatim>\<open>sema_up\<close> at the level of the links: popping the first waiter of one
  list and pushing it onto another returns, takes it from the front of the first list and puts
  it at the front of the second.\<close>

theorem list_pop_push_moves:
  assumes "dll m a (x # xs)" and "dll m b ys"
    and "set (nodes a (x # xs)) \<inter> set (nodes b ys) = {}"
  shows "\<exists>m1 m2. list_pop m a = Inr (x, m1) \<and> list_push m1 b x = Inr m2 \<and>
     dll m2 a xs \<and> dll m2 b (x # ys)"
  using assms by (rule kl.pop_push)

theorem list_pop_push_moves_witness:
  "\<exists>m1 m2. list_pop sample_store 100 = Inr (300, m1) \<and> list_push m1 200 300 = Inr m2 \<and>
     dll m2 100 [310] \<and> dll m2 200 (300 # [400])"
  by (rule list_pop_push_moves [OF sample_dll]) (simp add: head_of_def tail_of_def)

text \<open>C37: The walks of \<^verbatim>\<open>list.c\<close> end on every well-formed list: \<^verbatim>\<open>elem_find\<close> decides
  membership, \<^verbatim>\<open>list_len\<close> counts the elements (modulo \<open>2\<^sup>3\<^sup>2\<close>), \<^verbatim>\<open>list_empty\<close> tests for none, and
  \<^verbatim>\<open>list_traversal\<close> with a testing callback returns the first element that passes, or
  \<^verbatim>\<open>NULL\<close>.\<close>

theorem list_walks_return:
  assumes "dll m l xs"
  shows "elem_find m l e = Inr (e \<in> set xs) \<and>
     list_len m l = Inr (of_nat (length xs)) \<and>
     list_empty m l = Inr (xs = []) \<and>
     list_traversal m l (\<lambda>s p a. (test p a, s)) arg () =
       Inr (case find (\<lambda>p. test p arg) xs of None \<Rightarrow> NULL | Some p \<Rightarrow> p, ())"
  using traverse_find [of test arg "()" xs] dll_elem_find [OF assms] dll_len [OF assms]
    dll_empty [OF assms] dll_traversal [OF assms, of "\<lambda>s p a. (test p a, s)" arg "()"]
  by (cases "traverse (\<lambda>s p a. (test p a, s)) arg () xs") simp

theorem list_walks_return_witness:
  "elem_find sample_store 100 310 = Inr (310 \<in> set [300, 310 :: ptr]) \<and>
   list_len sample_store 100 = Inr (of_nat (length [300, 310 :: ptr])) \<and>
   list_empty sample_store 100 = Inr ([300, 310 :: ptr] = []) \<and>
   list_traversal sample_store 100 (\<lambda>s p a. (uint p = a, s)) 310 () =
     Inr (case find (\<lambda>p. uint p = 310) [300, 310 :: ptr] of None \<Rightarrow> NULL | Some p \<Rightarrow> p, ())"
  by (rule list_walks_return [OF sample_dll(1)])

text \<open>\<^verbatim>\<open>list_pop\<close> on an empty list takes the tail sentinel for an element and goes through
  its \<^verbatim>\<open>NULL\<close> \<^verbatim>\<open>next\<close> pointer: a caller has to test \<^verbatim>\<open>list_empty\<close> first.\<close>

theorem list_pop_empty_faults:
  assumes "dll m l []"
  shows "list_pop m l = Inl Bad_Access"
  using assms by (rule dll_pop_empty)

theorem list_pop_empty_faults_witness:
  "list_pop (sample_store\<lparr>prev_of := (\<lambda>_. 0)(108 := 100), next_of := (\<lambda>_. 0)(100 := 108)\<rparr>) 100 =
     Inl Bad_Access"
  by (rule list_pop_empty_faults) (simp add: dll_def head_of_def tail_of_def)

end
