(* ===== verification/Paging.thy ===== *)
theory Paging
  imports Prelude
begin

text \<open>
  Address translation: the helpers of \<^verbatim>\<open>kernel/memory.c\<close> that reach page tables through the
  recursive mapping (\<^verbatim>\<open>pte_ptr\<close>, \<^verbatim>\<open>pde_ptr\<close>, \<^verbatim>\<open>addr_v2p\<close>), next to a model of the page walk
  of the processor, so that the two can be compared.

  Physical memory is a function from 4-byte aligned physical addresses to words.
\<close>

section \<open>The page walk of the processor\<close>

type_synonym phys_mem = "u32 \<Rightarrow> u32"

definition PDE_IDX :: "u32 \<Rightarrow> u32" where
  "PDE_IDX addr = drop_bit 22 (addr AND 0xffc00000)"

definition PTE_IDX :: "u32 \<Rightarrow> u32" where
  "PTE_IDX addr = drop_bit 12 (addr AND 0x003ff000)"

definition PG_P_1 :: u32 where [layout_simps]: "PG_P_1 = 1"
definition PG_RW_W :: u32 where [layout_simps]: "PG_RW_W = 2"
definition PG_US_U :: u32 where [layout_simps]: "PG_US_U = 4"

text \<open>
  \<open>walk phys cr3 v\<close>: the processor takes the page directory from \<open>cr3\<close>, the page table from
  the directory entry and the frame from the table entry; \<open>None\<close> is a page fault.
\<close>

definition walk :: "phys_mem \<Rightarrow> u32 \<Rightarrow> u32 \<Rightarrow> u32 option" where
  "walk phys cr3 v =
     (let pde = phys ((cr3 AND 0xfffff000) + PDE_IDX v * 4) in
      if pde AND PG_P_1 = 0 then None
      else let pte = phys ((pde AND 0xfffff000) + PTE_IDX v * 4) in
        if pte AND PG_P_1 = 0 then None
        else Some ((pte AND 0xfffff000) + (v AND 0xfff)))"

text \<open>A word load through the address space of \<open>cr3\<close>.\<close>

definition vload :: "phys_mem \<Rightarrow> u32 \<Rightarrow> u32 \<Rightarrow> u32 res" where
  "vload phys cr3 v = (case walk phys cr3 v of None \<Rightarrow> Inl Bad_Access | Some p \<Rightarrow> Inr (phys p))"

section \<open>The helpers of the kernel\<close>

definition pte_ptr :: "u32 \<Rightarrow> u32" where
  "pte_ptr vaddr = 0xffc00000 + drop_bit 10 (vaddr AND 0xffc00000) + PTE_IDX vaddr * 4"

definition pde_ptr :: "u32 \<Rightarrow> u32" where
  "pde_ptr vaddr = 0xfffff000 + PDE_IDX vaddr * 4"

definition addr_v2p :: "phys_mem \<Rightarrow> u32 \<Rightarrow> u32 \<Rightarrow> u32 res" where
  "addr_v2p phys cr3 vaddr =
     bind_res (vload phys cr3 (pte_ptr vaddr)) (\<lambda>pte.
     Inr ((pte AND 0xfffff000) + (vaddr AND 0x00000fff)))"

section \<open>Index and offset arithmetic\<close>

lemma mask_consts:
  "(0xfff :: u32) = mask 12" "(0xfffff000 :: u32) = push_bit 12 (mask 20)"
  "(0xffc00000 :: u32) = push_bit 22 (mask 10)" "(0x003ff000 :: u32) = push_bit 12 (mask 10)"
  by (simp_all add: mask_eq_exp_minus_1)

lemma and_fff: "x AND 0xfff = take_bit 12 (x :: u32)"
  unfolding mask_consts(1) take_bit_eq_mask ..

lemma and_fffff000: "x AND 0xfffff000 = push_bit 12 (drop_bit 12 (x :: u32))"
  unfolding mask_consts(2) by (rule bit_word_eqI) (auto simp: bit_simps)

lemma and_ffc00000: "x AND 0xffc00000 = push_bit 22 (drop_bit 22 (x :: u32))"
  unfolding mask_consts(3) by (rule bit_word_eqI) (auto simp: bit_simps)

lemma PDE_IDX_drop: "PDE_IDX v = drop_bit 22 v"
  unfolding PDE_IDX_def mask_consts(3)
  by (rule bit_word_eqI) (auto simp: bit_simps dest: bit_imp_le_length)

lemma PTE_IDX_drop: "PTE_IDX v = take_bit 10 (drop_bit 12 v)"
  unfolding PTE_IDX_def mask_consts(4) by (rule bit_word_eqI) (auto simp: bit_simps)

lemma unat_drop: "unat (drop_bit n (x :: u32)) = unat x div 2 ^ n"
  unfolding unat_drop_bit_eq by (rule drop_bit_eq_div)

lemma unat_take: "unat (take_bit n (x :: u32)) = unat x mod 2 ^ n"
  unfolding unsigned_take_bit_eq by (rule take_bit_eq_mod)

lemma unat_push: "unat x * 2 ^ n < 4294967296 \<Longrightarrow> unat (push_bit n (x :: u32)) = unat x * 2 ^ n"
  unfolding unsigned_push_bit_eq
  by (subst push_bit_eq_mult) (simp add: take_bit_nat_eq_self)

lemma unat_PDE_IDX: "unat (PDE_IDX v) = unat v div 4194304"
  by (simp add: PDE_IDX_drop unat_drop)

lemma unat_PTE_IDX: "unat (PTE_IDX v) = unat v div 4096 mod 1024"
  by (simp add: PTE_IDX_drop unat_drop unat_take)

lemma unat_offset: "unat (v AND 0xfff) = unat v mod 4096" for v :: u32
  by (simp add: and_fff unat_take)

lemma unat_page: "unat (v AND 0xfffff000) = unat v div 4096 * 4096" for v :: u32
proof -
  have "unat v div 4096 * 4096 < 4294967296"
    using unat_u32_lt [of v] by linarith
  then show ?thesis by (simp add: and_fffff000 unat_push unat_drop)
qed

lemma PDE_IDX_lt: "unat (PDE_IDX v) < 1024"
  using unat_u32_lt [of v] unfolding unat_PDE_IDX by (simp add: div_less_iff_less_mult)

lemma PTE_IDX_lt: "unat (PTE_IDX v) < 1024"
  by (simp add: unat_PTE_IDX)

lemma top_mod:
  "b < 1024 \<Longrightarrow> (1047552 + b) mod 1024 = b" "b < 4096 \<Longrightarrow> (4294963200 + b) mod 4096 = b" for b :: nat
  using mod_mult_self1 [of b 1023 1024] mod_mult_self1 [of b 1048575 4096] by (simp_all add: add.commute)

lemma page_mod: "b < 4096 \<Longrightarrow> (a * 4096 + b) mod 4096 = b" for a b :: nat
  by simp

lemma page_div: "b < 4096 \<Longrightarrow> (a * 4096 + b) div 4096 = a" for a b :: nat
  by simp

text \<open>The address \<^verbatim>\<open>pte_ptr\<close> computes, as a number.\<close>

lemma unat_pte_ptr: "unat (pte_ptr v) = 4290772992 + unat (PDE_IDX v) * 4096 + unat (PTE_IDX v) * 4"
proof -
  have d: "drop_bit 10 (v AND 0xffc00000) = push_bit 12 (PDE_IDX v)"
    unfolding PDE_IDX_drop and_ffc00000
    by (rule bit_word_eqI) (auto simp: bit_simps dest: bit_imp_le_length)
  have p: "unat (push_bit 12 (PDE_IDX v)) = unat (PDE_IDX v) * 4096"
    using PDE_IDX_lt [of v] by (simp add: unat_push)
  have m: "unat (PTE_IDX v * 4) = unat (PTE_IDX v) * 4"
    using PTE_IDX_lt [of v] by (simp add: unat_mult_small)
  show ?thesis
    unfolding pte_ptr_def d using PDE_IDX_lt [of v] PTE_IDX_lt [of v]
    by (simp add: unat_add_small p m)
qed

lemma unat_pde_ptr: "unat (pde_ptr v) = 4294963200 + unat (PDE_IDX v) * 4"
proof -
  have m: "unat (PDE_IDX v * 4) = unat (PDE_IDX v) * 4"
    using PDE_IDX_lt [of v] by (simp add: unat_mult_small)
  then show ?thesis
    unfolding pde_ptr_def using PDE_IDX_lt [of v] by (simp add: unat_add_small)
qed

lemma pte_ptr_indices:
  "PDE_IDX (pte_ptr v) = 1023" "PTE_IDX (pte_ptr v) = PDE_IDX v"
  "pte_ptr v AND 0xfff = PTE_IDX v * 4"
proof -
  note lt = PDE_IDX_lt [of v] PTE_IDX_lt [of v]
  have "unat (PDE_IDX (pte_ptr v)) = unat (1023 :: u32)"
    unfolding unat_PDE_IDX [of "pte_ptr v"] unat_pte_ptr using lt by simp
  then show "PDE_IDX (pte_ptr v) = 1023" by (rule unsigned_word_eqI)
  have "unat (PTE_IDX (pte_ptr v)) = unat (PDE_IDX v)"
    unfolding unat_PTE_IDX [of "pte_ptr v"] unat_pte_ptr
    using page_div [of "unat (PTE_IDX v) * 4" "1047552 + unat (PDE_IDX v)"] lt by (simp add: top_mod)
  then show "PTE_IDX (pte_ptr v) = PDE_IDX v" by (rule unsigned_word_eqI)
  have "unat (pte_ptr v AND 0xfff) = unat (PTE_IDX v * 4)"
    unfolding unat_offset unat_pte_ptr
    using page_mod [of "unat (PTE_IDX v) * 4" "1047552 + unat (PDE_IDX v)"] lt
    by (simp add: unat_mult_small)
  then show "pte_ptr v AND 0xfff = PTE_IDX v * 4" by (rule unsigned_word_eqI)
qed

lemma pde_ptr_indices:
  "PDE_IDX (pde_ptr v) = 1023" "PTE_IDX (pde_ptr v) = 1023"
  "pde_ptr v AND 0xfff = PDE_IDX v * 4"
proof -
  note lt = PDE_IDX_lt [of v]
  have "unat (PDE_IDX (pde_ptr v)) = unat (1023 :: u32)"
    unfolding unat_PDE_IDX [of "pde_ptr v"] unat_pde_ptr using lt by simp
  then show "PDE_IDX (pde_ptr v) = 1023" by (rule unsigned_word_eqI)
  have "unat (PTE_IDX (pde_ptr v)) = unat (1023 :: u32)"
    unfolding unat_PTE_IDX [of "pde_ptr v"] unat_pde_ptr
    using page_div [of "unat (PDE_IDX v) * 4" "1048575"] lt by simp
  then show "PTE_IDX (pde_ptr v) = 1023" by (rule unsigned_word_eqI)
  have "unat (pde_ptr v AND 0xfff) = unat (PDE_IDX v * 4)"
    unfolding unat_offset unat_pde_ptr using lt by (simp add: unat_mult_small top_mod)
  then show "pde_ptr v AND 0xfff = PDE_IDX v * 4" by (rule unsigned_word_eqI)
qed

section \<open>The recursive mapping\<close>

text \<open>The last directory entry points at the directory itself, as \<^verbatim>\<open>create_page_dir\<close> and the
  loader set it up.\<close>

definition pd_base :: "u32 \<Rightarrow> u32" where "pd_base cr3 = cr3 AND 0xfffff000"

definition pde_of :: "phys_mem \<Rightarrow> u32 \<Rightarrow> u32 \<Rightarrow> u32" where
  "pde_of phys cr3 v = phys (pd_base cr3 + PDE_IDX v * 4)"

definition pte_addr :: "phys_mem \<Rightarrow> u32 \<Rightarrow> u32 \<Rightarrow> u32" where
  "pte_addr phys cr3 v = (pde_of phys cr3 v AND 0xfffff000) + PTE_IDX v * 4"

definition self_mapped :: "phys_mem \<Rightarrow> u32 \<Rightarrow> bool" where
  "self_mapped phys cr3 \<longleftrightarrow>
     phys (pd_base cr3 + 0xffc) AND PG_P_1 \<noteq> 0 \<and> phys (pd_base cr3 + 0xffc) AND 0xfffff000 = pd_base cr3"

lemma walk_alt:
  "walk phys cr3 v =
     (if pde_of phys cr3 v AND PG_P_1 = 0 then None
      else if phys (pte_addr phys cr3 v) AND PG_P_1 = 0 then None
      else Some ((phys (pte_addr phys cr3 v) AND 0xfffff000) + (v AND 0xfff)))"
  by (simp add: walk_def Let_def pde_of_def pte_addr_def pd_base_def)

lemma walk_pte_ptr:
  assumes "self_mapped phys cr3"
  shows "walk phys cr3 (pte_ptr v) =
     (if pde_of phys cr3 v AND PG_P_1 = 0 then None else Some (pte_addr phys cr3 v))"
  using assms
  by (simp add: walk_def Let_def pte_ptr_indices self_mapped_def pde_of_def pte_addr_def pd_base_def)

lemma walk_pde_ptr:
  assumes "self_mapped phys cr3"
  shows "walk phys cr3 (pde_ptr v) = Some (pd_base cr3 + PDE_IDX v * 4)"
  using assms
  by (simp add: walk_def Let_def pde_ptr_indices self_mapped_def pde_of_def pte_addr_def pd_base_def)

section \<open>Properties\<close>

text \<open>C22: \<^verbatim>\<open>addr_v2p\<close> is the page walk of the processor: with the directory mapped into its own
  last entry, for every mapped virtual address the kernel computes the physical address the
  processor would use.\<close>

theorem addr_v2p_is_walk:
  assumes "self_mapped phys cr3" and "walk phys cr3 v = Some p"
  shows "addr_v2p phys cr3 v = Inr p"
  using assms(2) walk_pte_ptr [OF assms(1), of v]
  by (auto simp: addr_v2p_def vload_def walk_alt [of phys cr3 v] split: if_splits)

definition sample_phys :: phys_mem where
  "sample_phys = (\<lambda>_. 0)(0x100ffc := 0x100007, 0x100c00 := 0x101007, 0x101400 := 0x200007)"

theorem addr_v2p_is_walk_witness:
  "addr_v2p sample_phys 0x100000 0xc0100123 = Inr 0x200123"
proof (rule addr_v2p_is_walk)
  show "self_mapped sample_phys 0x100000"
    by (simp add: self_mapped_def sample_phys_def pd_base_def PG_P_1_def)
  show "walk sample_phys 0x100000 0xc0100123 = Some 0x200123"
    by (simp add: walk_def sample_phys_def PG_P_1_def PDE_IDX_def PTE_IDX_def)
qed

text \<open>The two pointers of the recursive mapping reach what they are named after: a load
  through \<^verbatim>\<open>pde_ptr\<close> reads the directory entry of the address, a load through \<^verbatim>\<open>pte_ptr\<close> reads
  its table entry and faults exactly when there is no table, and \<^verbatim>\<open>pde_ptr\<close> is \<^verbatim>\<open>pte_ptr\<close>
  applied twice.\<close>

theorem recursive_mapping_loads:
  assumes "self_mapped phys cr3"
  shows "vload phys cr3 (pde_ptr v) = Inr (pde_of phys cr3 v) \<and>
     vload phys cr3 (pte_ptr v) =
       (if pde_of phys cr3 v AND PG_P_1 = 0 then Inl Bad_Access else Inr (phys (pte_addr phys cr3 v))) \<and>
     pde_ptr v = pte_ptr (pte_ptr v)"
proof -
  have "unat (pde_ptr v) = unat (pte_ptr (pte_ptr v))"
    unfolding unat_pde_ptr unat_pte_ptr [of "pte_ptr v"] pte_ptr_indices by simp
  then have "pde_ptr v = pte_ptr (pte_ptr v)" by (rule unsigned_word_eqI)
  then show ?thesis
    using walk_pte_ptr [OF assms, of v] walk_pde_ptr [OF assms, of v]
    by (simp add: vload_def pde_of_def)
qed

theorem recursive_mapping_loads_witness:
  "vload sample_phys 0x100000 (pde_ptr 0xc0100123) = Inr (pde_of sample_phys 0x100000 0xc0100123) \<and>
   vload sample_phys 0x100000 (pte_ptr 0xc0100123) =
     (if pde_of sample_phys 0x100000 0xc0100123 AND PG_P_1 = 0 then Inl Bad_Access
      else Inr (sample_phys (pte_addr sample_phys 0x100000 0xc0100123))) \<and>
   pde_ptr 0xc0100123 = pte_ptr (pte_ptr 0xc0100123)"
  by (rule recursive_mapping_loads)
     (simp add: self_mapped_def sample_phys_def pd_base_def PG_P_1_def)

end
