(* ===== verification/Memory.thy ===== *)
theory Memory
  imports Bitmap Paging
begin

text \<open>
  Memory management: \<^verbatim>\<open>kernel/memory.c\<close>. Physical pools and virtual address pools on bitmaps,
  page-table updates through the recursive mapping, page allocation and release, and the arenas
  of \<^verbatim>\<open>sys_malloc\<close> and \<^verbatim>\<open>sys_free\<close>.

  The state \<open>mem\<close> holds physical memory (for the page tables), \<open>cr3\<close>, the translations the processor has
  cached (\<open>mtlb\<close>; accesses are modelled by the walk through the tables), both pools, the kernel's
  virtual pool and that of the running process, whether the running task is a process
  (\<open>cur_pgdir\<close> is its \<^verbatim>\<open>pgdir\<close>), the page of its kernel stack, where local variables lie
  (\<open>cur_stack\<close>), and the heap: arena headers by page address and the free lists
  of both descriptor arrays. The data inside allocated blocks is not part of the state, so the
  \<^verbatim>\<open>memset\<close> calls on them have no counterpart. The lock of a pool is a flag: taking a lock that
  is held is \<open>Inl Blocks\<close> (\<open>Sync\<close> treats the waiting).
\<close>

section \<open>Data\<close>

datatype pool_flags = PF_KERNEL | PF_USER

record pool =
  pool_bitmap :: bitmap
  phy_addr_start :: u32
  pool_size :: u32
  pool_locked :: bool

record virtual_addr =
  vaddr_bitmap :: bitmap
  vaddr_start :: u32

text \<open>\<open>desc\<close> is \<^verbatim>\<open>NULL\<close> (\<open>None\<close>) or a pointer to one of the descriptors.\<close>

record arena =
  desc :: "(pool_flags \<times> nat) option"
  large :: bool
  cnt :: u32

record mem_block_desc =
  block_size :: u32
  blocks_per_arena :: u32
  free_list :: "u32 list"

definition DESC_CNT :: nat where [layout_simps]: "DESC_CNT = 7"
definition sizeof_arena :: u32 where [layout_simps]: "sizeof_arena = 12"
definition K_HEAP_START :: u32 where [layout_simps]: "K_HEAP_START = 0xc0100000"

record mem =
  mphys :: phys_mem
  mcr3 :: u32
  mtlb :: "u32 \<rightharpoonup> u32"
  kernel_pool :: pool
  user_pool :: pool
  kernel_vaddr :: virtual_addr
  userprog_vaddr :: virtual_addr
  cur_pgdir :: u32
  cur_stack :: u32
  arenas :: "u32 \<Rightarrow> arena"
  k_block_descs :: "mem_block_desc list"
  u_block_desc :: "mem_block_desc list"

abbreviation the_pool :: "pool_flags \<Rightarrow> mem \<Rightarrow> pool" where
  "the_pool pf m \<equiv> (case pf of PF_KERNEL \<Rightarrow> kernel_pool m | PF_USER \<Rightarrow> user_pool m)"

definition set_pool :: "pool_flags \<Rightarrow> pool \<Rightarrow> mem \<Rightarrow> mem" where
  "set_pool pf p m = (case pf of PF_KERNEL \<Rightarrow> m\<lparr>kernel_pool := p\<rparr> | PF_USER \<Rightarrow> m\<lparr>user_pool := p\<rparr>)"

abbreviation the_vaddr :: "pool_flags \<Rightarrow> mem \<Rightarrow> virtual_addr" where
  "the_vaddr pf m \<equiv> (case pf of PF_KERNEL \<Rightarrow> kernel_vaddr m | PF_USER \<Rightarrow> userprog_vaddr m)"

definition set_vaddr :: "pool_flags \<Rightarrow> virtual_addr \<Rightarrow> mem \<Rightarrow> mem" where
  "set_vaddr pf v m = (case pf of PF_KERNEL \<Rightarrow> m\<lparr>kernel_vaddr := v\<rparr> | PF_USER \<Rightarrow> m\<lparr>userprog_vaddr := v\<rparr>)"

abbreviation the_descs :: "pool_flags \<Rightarrow> mem \<Rightarrow> mem_block_desc list" where
  "the_descs pf m \<equiv> (case pf of PF_KERNEL \<Rightarrow> k_block_descs m | PF_USER \<Rightarrow> u_block_desc m)"

definition set_descs :: "pool_flags \<Rightarrow> mem_block_desc list \<Rightarrow> mem \<Rightarrow> mem" where
  "set_descs pf ds m = (case pf of PF_KERNEL \<Rightarrow> m\<lparr>k_block_descs := ds\<rparr> | PF_USER \<Rightarrow> m\<lparr>u_block_desc := ds\<rparr>)"

definition pool_acquire :: "pool_flags \<Rightarrow> mem \<Rightarrow> mem res" where
  "pool_acquire pf m =
     (if pool_locked (the_pool pf m) then Inl Blocks
      else Inr (set_pool pf ((the_pool pf m)\<lparr>pool_locked := True\<rparr>) m))"

definition pool_release :: "pool_flags \<Rightarrow> mem \<Rightarrow> mem" where
  "pool_release pf m = set_pool pf ((the_pool pf m)\<lparr>pool_locked := False\<rparr>) m"

section \<open>Virtual address pools\<close>

primrec set_bits :: "nat \<Rightarrow> bitmap \<Rightarrow> u32 \<Rightarrow> int \<Rightarrow> bitmap res" where
  "set_bits 0 b i v = Inr b"
| "set_bits (Suc n) b i v = bind_res (bitmap_set b i v) (\<lambda>b. set_bits n b (i + 1) v)"

text \<open>\<open>NULL\<close> is the result 0.\<close>

definition vaddr_get :: "pool_flags \<Rightarrow> u32 \<Rightarrow> mem \<Rightarrow> (u32 \<times> mem) res" where
  "vaddr_get pf pg_cnt m =
     (let va = the_vaddr pf m in
      bind_res (bitmap_scan (vaddr_bitmap va) pg_cnt) (\<lambda>bit_idx_start.
      if bit_idx_start = -1 then Inr (0, m)
      else
        bind_res (set_bits (unat pg_cnt) (vaddr_bitmap va) (of_int bit_idx_start) 1) (\<lambda>b.
        let m = set_vaddr pf (va\<lparr>vaddr_bitmap := b\<rparr>) m;
            start = vaddr_start va + of_int bit_idx_start * PG_SIZE
        in if pf = PF_KERNEL then Inr (start, m)
           else bind_res (ASSERT (start < 0xc0000000 - PG_SIZE)
                  ''(uint32_t)vaddr_start < (0xc0000000 - PG_SIZE)'') (\<lambda>_. Inr (start, m)))))"

definition vaddr_remove :: "pool_flags \<Rightarrow> u32 \<Rightarrow> u32 \<Rightarrow> mem \<Rightarrow> mem res" where
  "vaddr_remove pf vaddr pg_cnt m =
     (let va = the_vaddr pf m;
          bit_idx_start = (vaddr - vaddr_start va) div PG_SIZE
      in bind_res (set_bits (unat pg_cnt) (vaddr_bitmap va) bit_idx_start 0) (\<lambda>b.
         Inr (set_vaddr pf (va\<lparr>vaddr_bitmap := b\<rparr>) m)))"

section \<open>Physical pools\<close>

definition palloc :: "pool_flags \<Rightarrow> mem \<Rightarrow> (u32 \<times> mem) res" where
  "palloc pf m =
     (let p = the_pool pf m in
      bind_res (bitmap_scan (pool_bitmap p) 1) (\<lambda>bit_idx.
      if bit_idx = -1 then Inr (0, m)
      else
        bind_res (bitmap_set (pool_bitmap p) (of_int bit_idx) 1) (\<lambda>b.
        Inr (phy_addr_start p + of_int bit_idx * PG_SIZE, set_pool pf (p\<lparr>pool_bitmap := b\<rparr>) m))))"

definition pfree :: "u32 \<Rightarrow> mem \<Rightarrow> mem res" where
  "pfree pg_phy_addr m =
     (let pf = (if pg_phy_addr \<ge> phy_addr_start (user_pool m) then PF_USER else PF_KERNEL);
          p = the_pool pf m;
          bit_idx = (pg_phy_addr - phy_addr_start p) div PG_SIZE
      in bind_res (bitmap_set (pool_bitmap p) bit_idx 0) (\<lambda>b.
         Inr (set_pool pf (p\<lparr>pool_bitmap := b\<rparr>) m)))"

text \<open>\<^verbatim>\<open>free_a_phy_page\<close> has the same body as \<^verbatim>\<open>pfree\<close>.\<close>

definition free_a_phy_page :: "u32 \<Rightarrow> mem \<Rightarrow> mem res" where
  "free_a_phy_page pg_phy_addr m =
     (let pf = (if pg_phy_addr \<ge> phy_addr_start (user_pool m) then PF_USER else PF_KERNEL);
          p = the_pool pf m;
          bit_idx = (pg_phy_addr - phy_addr_start p) div PG_SIZE
      in bind_res (bitmap_set (pool_bitmap p) bit_idx 0) (\<lambda>b.
         Inr (set_pool pf (p\<lparr>pool_bitmap := b\<rparr>) m)))"

section \<open>Page tables\<close>

definition vstore :: "phys_mem \<Rightarrow> u32 \<Rightarrow> u32 \<Rightarrow> u32 \<Rightarrow> phys_mem res" where
  "vstore phys cr3 v x = (case walk phys cr3 v of None \<Rightarrow> Inl Bad_Access | Some p \<Rightarrow> Inr (phys(p := x)))"

text \<open>\<^verbatim>\<open>memset\<close> of the page that holds \<open>v\<close>.\<close>

definition vzero_page :: "phys_mem \<Rightarrow> u32 \<Rightarrow> u32 \<Rightarrow> phys_mem res" where
  "vzero_page phys cr3 v =
     (case walk phys cr3 (v AND 0xfffff000) of None \<Rightarrow> Inl Bad_Access
      | Some p \<Rightarrow> Inr (\<lambda>a. if a AND 0xfffff000 = p AND 0xfffff000 then 0 else phys a))"

definition page_table_add :: "u32 \<Rightarrow> u32 \<Rightarrow> mem \<Rightarrow> mem res" where
  "page_table_add vaddr page_phyaddr m =
     (let pde = pde_ptr vaddr;
          pte = pte_ptr vaddr;
          entry = page_phyaddr OR PG_US_U OR PG_RW_W OR PG_P_1
      in bind_res (vload (mphys m) (mcr3 m) pde) (\<lambda>pde_val.
         if pde_val AND 0x00000001 \<noteq> 0 then
           bind_res (vload (mphys m) (mcr3 m) pte) (\<lambda>pte_val.
           bind_res (ASSERT (pte_val AND 0x00000001 = 0) ''!(*pte & 0x00000001)'') (\<lambda>_.
           bind_res (vstore (mphys m) (mcr3 m) pte entry) (\<lambda>ph. Inr (m\<lparr>mphys := ph\<rparr>))))
         else
           bind_res (palloc PF_KERNEL m) (\<lambda>(pde_phyaddr, m).
           bind_res (vstore (mphys m) (mcr3 m) pde (pde_phyaddr OR PG_US_U OR PG_RW_W OR PG_P_1)) (\<lambda>ph.
           bind_res (vzero_page ph (mcr3 m) pte) (\<lambda>ph.
           bind_res (vload ph (mcr3 m) pte) (\<lambda>pte_val.
           bind_res (ASSERT (pte_val AND 0x00000001 = 0) ''!(*pte & 0x00000001)'') (\<lambda>_.
           bind_res (vstore ph (mcr3 m) pte entry) (\<lambda>ph. Inr (m\<lparr>mphys := ph\<rparr>)))))))))"

text \<open>\<^verbatim>\<open>invlpg\<close> drops the cached translation of the page that holds its operand. In
  \<^verbatim>\<open>page_table_pte_remove\<close> the operand is the parameter \<^verbatim>\<open>vaddr\<close> itself, which lies on the stack, not the page it
  is the address of.\<close>

definition invlpg :: "u32 \<Rightarrow> mem \<Rightarrow> mem" where
  "invlpg a m = m\<lparr>mtlb := (mtlb m)(a AND 0xfffff000 := None)\<rparr>"

definition page_table_pte_remove :: "u32 \<Rightarrow> mem \<Rightarrow> mem res" where
  "page_table_pte_remove vaddr m =
     (let pte = pte_ptr vaddr in
      bind_res (vload (mphys m) (mcr3 m) pte) (\<lambda>pte_val.
      bind_res (vstore (mphys m) (mcr3 m) pte (pte_val AND NOT PG_P_1)) (\<lambda>ph.
      Inr (invlpg (cur_stack m) (m\<lparr>mphys := ph\<rparr>)))))"

section \<open>Pages\<close>

primrec map_pages :: "nat \<Rightarrow> pool_flags \<Rightarrow> u32 \<Rightarrow> mem \<Rightarrow> (bool \<times> mem) res" where
  "map_pages 0 pf vaddr m = Inr (True, m)"
| "map_pages (Suc n) pf vaddr m =
     bind_res (palloc pf m) (\<lambda>(page_phyaddr, m).
     if page_phyaddr = 0 then Inr (False, m)
     else bind_res (page_table_add vaddr page_phyaddr m) (map_pages n pf (vaddr + PG_SIZE)))"

definition malloc_page :: "pool_flags \<Rightarrow> u32 \<Rightarrow> mem \<Rightarrow> (u32 \<times> mem) res" where
  "malloc_page pf pg_cnt m =
     bind_res (ASSERT (pg_cnt > 0 \<and> pg_cnt < 3840) ''pg_cnt > 0 && pg_cnt < 3840'') (\<lambda>_.
     bind_res (vaddr_get pf pg_cnt m) (\<lambda>(vaddr_start, m).
     if vaddr_start = 0 then Inr (0, m)
     else bind_res (map_pages (unat pg_cnt) pf vaddr_start m) (\<lambda>(ok, m).
          Inr (if ok then vaddr_start else 0, m))))"

text \<open>\<^verbatim>\<open>memset(vaddr, 0, pg_cnt * PG_SIZE)\<close>, page by page.\<close>

primrec zero_pages :: "nat \<Rightarrow> u32 \<Rightarrow> mem \<Rightarrow> mem res" where
  "zero_pages 0 vaddr m = Inr m"
| "zero_pages (Suc n) vaddr m =
     bind_res (vzero_page (mphys m) (mcr3 m) vaddr) (\<lambda>ph. zero_pages n (vaddr + PG_SIZE) (m\<lparr>mphys := ph\<rparr>))"

definition get_kernel_pages :: "u32 \<Rightarrow> mem \<Rightarrow> (u32 \<times> mem) res" where
  "get_kernel_pages pg_cnt m =
     bind_res (pool_acquire PF_KERNEL m) (\<lambda>m.
     bind_res (malloc_page PF_KERNEL pg_cnt m) (\<lambda>(vaddr, m).
     bind_res (if vaddr \<noteq> 0 then zero_pages (unat pg_cnt) vaddr m else Inr m) (\<lambda>m.
     Inr (vaddr, pool_release PF_KERNEL m))))"

definition get_user_pages :: "u32 \<Rightarrow> mem \<Rightarrow> (u32 \<times> mem) res" where
  "get_user_pages pg_cnt m =
     bind_res (pool_acquire PF_USER m) (\<lambda>m.
     bind_res (malloc_page PF_USER pg_cnt m) (\<lambda>(vaddr, m).
     bind_res (if vaddr \<noteq> 0 then zero_pages (unat pg_cnt) vaddr m else Inr m) (\<lambda>m.
     Inr (vaddr, pool_release PF_USER m))))"

definition map_one :: "pool_flags \<Rightarrow> u32 \<Rightarrow> mem \<Rightarrow> (u32 \<times> mem) res" where
  "map_one pf vaddr m =
     bind_res (palloc pf m) (\<lambda>(page_phyaddr, m).
     if page_phyaddr = 0 then Inr (0, pool_release pf m)
     else bind_res (page_table_add vaddr page_phyaddr m) (\<lambda>m. Inr (vaddr, pool_release pf m)))"

definition get_a_page :: "pool_flags \<Rightarrow> u32 \<Rightarrow> mem \<Rightarrow> (u32 \<times> mem) res" where
  "get_a_page pf vaddr m =
     bind_res (pool_acquire pf m) (\<lambda>m.
     if cur_pgdir m \<noteq> 0 \<and> pf = PF_USER then
       let va = userprog_vaddr m; bit_idx = (vaddr - vaddr_start va) div PG_SIZE in
       bind_res (ASSERT (sint bit_idx \<ge> 0) ''bit_idx >= 0'') (\<lambda>_.
       bind_res (bitmap_set (vaddr_bitmap va) bit_idx 1) (\<lambda>b.
       map_one pf vaddr (m\<lparr>userprog_vaddr := va\<lparr>vaddr_bitmap := b\<rparr>\<rparr>)))
     else if cur_pgdir m = 0 \<and> pf = PF_KERNEL then
       let va = kernel_vaddr m; bit_idx = (vaddr - vaddr_start va) div PG_SIZE in
       bind_res (ASSERT (sint bit_idx > 0) ''bit_idx > 0'') (\<lambda>_.
       bind_res (bitmap_set (vaddr_bitmap va) bit_idx 1) (\<lambda>b.
       map_one pf vaddr (m\<lparr>kernel_vaddr := va\<lparr>vaddr_bitmap := b\<rparr>\<rparr>)))
     else Inl (Panic ''get_a_page: not allow kernel alloc userspace or user alloc kernelspace by get_a_page''))"

definition get_a_page_without_opvaddrbitmap :: "pool_flags \<Rightarrow> u32 \<Rightarrow> mem \<Rightarrow> (u32 \<times> mem) res" where
  "get_a_page_without_opvaddrbitmap pf vaddr m = bind_res (pool_acquire pf m) (map_one pf vaddr)"

primrec unmap_pages :: "nat \<Rightarrow> (u32 \<Rightarrow> bool) \<Rightarrow> string \<Rightarrow> u32 \<Rightarrow> mem \<Rightarrow> mem res" where
  "unmap_pages 0 ok txt vaddr m = Inr m"
| "unmap_pages (Suc n) ok txt vaddr m =
     bind_res (addr_v2p (mphys m) (mcr3 m) vaddr) (\<lambda>pg_phy_addr.
     bind_res (ASSERT (pg_phy_addr mod PG_SIZE = 0 \<and> ok pg_phy_addr) txt) (\<lambda>_.
     bind_res (pfree pg_phy_addr m) (\<lambda>m.
     bind_res (page_table_pte_remove vaddr m) (\<lambda>m.
     unmap_pages n ok txt (vaddr + PG_SIZE) m))))"

definition mfree_page :: "pool_flags \<Rightarrow> u32 \<Rightarrow> u32 \<Rightarrow> mem \<Rightarrow> mem res" where
  "mfree_page pf vaddr pg_cnt m =
     bind_res (ASSERT (pg_cnt \<ge> 1 \<and> vaddr mod PG_SIZE = 0) ''pg_cnt >= 1 && vaddr % PG_SIZE == 0'') (\<lambda>_.
     bind_res (addr_v2p (mphys m) (mcr3 m) vaddr) (\<lambda>pg_phy_addr.
     bind_res (ASSERT (pg_phy_addr mod PG_SIZE = 0 \<and> pg_phy_addr \<ge> 0x102000)
       ''(pg_phy_addr % PG_SIZE) == 0 && pg_phy_addr >= 0x102000'') (\<lambda>_.
     bind_res
       (if pg_phy_addr \<ge> phy_addr_start (user_pool m) then
          unmap_pages (unat pg_cnt) (\<lambda>a. a \<ge> phy_addr_start (user_pool m))
            ''(pg_phy_addr % PG_SIZE) == 0 && pg_phy_addr >= user_pool.phy_addr_start'' vaddr m
        else
          unmap_pages (unat pg_cnt)
            (\<lambda>a. a \<ge> phy_addr_start (kernel_pool m) \<and> a < phy_addr_start (user_pool m))
            ''(pg_phy_addr % PG_SIZE == 0) && pg_phy_addr >= kernel_pool.phy_addr_start && pg_phy_addr < user_pool.phy_addr_start''
            vaddr m)
       (vaddr_remove pf vaddr pg_cnt))))"

section \<open>Initialisation\<close>

text \<open>The counts of pages are \<^verbatim>\<open>uint16_t\<close> in the code. The bitmaps lie behind each other from
  \<^verbatim>\<open>MEM_BITMAP_BASE\<close> on; here \<open>bits\<close> of each is the memory it is placed in, which must be long
  enough. The messages are left out.\<close>

definition mem_pool_init :: "u32 \<Rightarrow> mem \<Rightarrow> mem res" where
  "mem_pool_init all_mem m =
     (let page_table_size = PG_SIZE * 256;
          used_mem = page_table_size + 0x100000;
          free_mem = all_mem - used_mem;
          all_free_pages = (ucast (free_mem div PG_SIZE) :: u16);
          kernel_free_pages = all_free_pages div 2;
          user_free_pages = all_free_pages - kernel_free_pages;
          kbm_length = (ucast (kernel_free_pages div 8) :: u32);
          ubm_length = (ucast (user_free_pages div 8) :: u32);
          kp_start = used_mem;
          up_start = kp_start + ucast kernel_free_pages * PG_SIZE
      in bind_res (bitmap_init ((pool_bitmap (kernel_pool m))\<lparr>btmp_bytes_len := kbm_length\<rparr>)) (\<lambda>kb.
         bind_res (bitmap_init ((pool_bitmap (user_pool m))\<lparr>btmp_bytes_len := ubm_length\<rparr>)) (\<lambda>ub.
         bind_res (bitmap_init ((vaddr_bitmap (kernel_vaddr m))\<lparr>btmp_bytes_len := kbm_length\<rparr>)) (\<lambda>vb.
         Inr (m\<lparr>kernel_pool := \<lparr>pool_bitmap = kb, phy_addr_start = kp_start,
                   pool_size = ucast kernel_free_pages * PG_SIZE, pool_locked = False\<rparr>,
                user_pool := \<lparr>pool_bitmap = ub, phy_addr_start = up_start,
                   pool_size = ucast user_free_pages * PG_SIZE, pool_locked = False\<rparr>,
                kernel_vaddr := \<lparr>vaddr_bitmap = vb, vaddr_start = K_HEAP_START\<rparr>\<rparr>)))))"

primrec block_desc_loop :: "nat \<Rightarrow> u16 \<Rightarrow> mem_block_desc list" where
  "block_desc_loop 0 bsize = []"
| "block_desc_loop (Suc n) bsize =
     \<lparr>block_size = ucast bsize, blocks_per_arena = (PG_SIZE - sizeof_arena) div ucast bsize, free_list = []\<rparr>
       # block_desc_loop n (bsize * 2)"

definition block_desc_init :: "mem_block_desc list" where
  "block_desc_init = block_desc_loop DESC_CNT 16"

section \<open>The heap\<close>

text \<open>\<open>arena2block a sz idx\<close>: \<open>sz\<close> is \<^verbatim>\<open>a->desc->block_size\<close>.\<close>

definition arena2block :: "u32 \<Rightarrow> u32 \<Rightarrow> u32 \<Rightarrow> u32" where
  "arena2block a sz idx = a + sizeof_arena + idx * sz"

definition block2arena :: "u32 \<Rightarrow> u32" where
  "block2arena b = b AND 0xfffff000"

primrec desc_search :: "nat \<Rightarrow> mem_block_desc list \<Rightarrow> u32 \<Rightarrow> nat \<Rightarrow> nat" where
  "desc_search 0 descs sz desc_idx = desc_idx"
| "desc_search (Suc n) descs sz desc_idx =
     (if sz \<le> block_size (descs ! desc_idx) then desc_idx else desc_search n descs sz (desc_idx + 1))"

text \<open>Cutting a new arena into blocks.\<close>

primrec split_arena :: "nat \<Rightarrow> u32 \<Rightarrow> u32 \<Rightarrow> u32 \<Rightarrow> u32 list \<Rightarrow> u32 list res" where
  "split_arena 0 a sz block_idx fl = Inr fl"
| "split_arena (Suc n) a sz block_idx fl =
     (let b = arena2block a sz block_idx in
      bind_res (ASSERT (b \<notin> set fl) ''!elem_find(&a->desc->free_list, &b->free_elem)'') (\<lambda>_.
      split_arena n a sz (block_idx + 1) (fl @ [b])))"

definition sys_malloc :: "u32 \<Rightarrow> mem \<Rightarrow> (u32 \<times> mem) res" where
  "sys_malloc sz m =
     (let pf = (if cur_pgdir m = 0 then PF_KERNEL else PF_USER) in
      if sz \<le> 0 \<or> sz \<ge> pool_size (the_pool pf m) then Inr (0, m)
      else
        bind_res (pool_acquire pf m) (\<lambda>m.
        if sz > 1024 then
          let page_cnt = DIV_ROUND_UP (sz + sizeof_arena) PG_SIZE in
          bind_res (malloc_page pf page_cnt m) (\<lambda>(a, m).
          if a \<noteq> 0 then
            let m = m\<lparr>arenas := (arenas m)(a := \<lparr>desc = None, large = True, cnt = page_cnt\<rparr>)\<rparr>
            in Inr (a + sizeof_arena, pool_release pf m)
          else Inr (0, pool_release pf m))
        else
          let desc_idx = desc_search DESC_CNT (the_descs pf m) sz 0 in
          bind_res
            (if free_list (the_descs pf m ! desc_idx) = [] then
               bind_res (malloc_page pf 1 m) (\<lambda>(a, m).
               if a = 0 then Inr (False, m)
               else
                 let d = the_descs pf m ! desc_idx;
                     m = m\<lparr>arenas := (arenas m)(a :=
                       \<lparr>desc = Some (pf, desc_idx), large = False, cnt = blocks_per_arena d\<rparr>)\<rparr>
                 in bind_res (split_arena (unat (blocks_per_arena d)) a (block_size d) 0 (free_list d)) (\<lambda>fl.
                    Inr (True, set_descs pf ((the_descs pf m)[desc_idx := d\<lparr>free_list := fl\<rparr>]) m)))
             else Inr (True, m)) (\<lambda>(ok, m).
          if \<not> ok then Inr (0, pool_release pf m)
          else
            let d = the_descs pf m ! desc_idx;
                b = hd (free_list d);
                m = set_descs pf ((the_descs pf m)[desc_idx := d\<lparr>free_list := tl (free_list d)\<rparr>]) m;
                a = block2arena b;
                m = m\<lparr>arenas := (arenas m)(a := (arenas m a)\<lparr>cnt := cnt (arenas m a) - 1\<rparr>)\<rparr>
            in Inr (b, pool_release pf m))))"

text \<open>Taking the blocks of a free arena out of the free list.\<close>

primrec unsplit_arena :: "nat \<Rightarrow> u32 \<Rightarrow> u32 \<Rightarrow> u32 \<Rightarrow> u32 list \<Rightarrow> u32 list res" where
  "unsplit_arena 0 a sz block_idx fl = Inr fl"
| "unsplit_arena (Suc n) a sz block_idx fl =
     (let b = arena2block a sz block_idx in
      bind_res (ASSERT (b \<in> set fl) ''elem_find(&a->desc->free_list, &b->free_elem)'') (\<lambda>_.
      unsplit_arena n a sz (block_idx + 1) (remove1 b fl)))"

definition sys_free :: "u32 \<Rightarrow> mem \<Rightarrow> mem res" where
  "sys_free ptr m =
     bind_res (ASSERT (ptr \<noteq> 0) ''ptr != NULL'') (\<lambda>_.
     bind_res
       (if cur_pgdir m = 0 then
          bind_res (ASSERT (ptr \<ge> K_HEAP_START) ''(uint32_t)ptr >= K_HEAP_START'') (\<lambda>_. Inr PF_KERNEL)
        else Inr PF_USER) (\<lambda>pf.
     bind_res (pool_acquire pf m) (\<lambda>m.
     let a = block2arena ptr in
     bind_res
       (case desc (arenas m a) of
          None \<Rightarrow>
            if large (arenas m a) then mfree_page pf a (cnt (arenas m a)) m else Inl Bad_Access
        | Some (df, di) \<Rightarrow>
            let d = (the_descs df m ! di)\<lparr>free_list := free_list (the_descs df m ! di) @ [ptr]\<rparr>;
                m = set_descs df ((the_descs df m)[di := d]) m;
                m = m\<lparr>arenas := (arenas m)(a := (arenas m a)\<lparr>cnt := cnt (arenas m a) + 1\<rparr>)\<rparr>
            in if cnt (arenas m a) = blocks_per_arena d then
                 bind_res (unsplit_arena (unat (blocks_per_arena d)) a (block_size d) 0 (free_list d)) (\<lambda>fl.
                 mfree_page pf a 1 (set_descs df ((the_descs df m)[di := d\<lparr>free_list := fl\<rparr>]) m))
               else Inr m)
       (\<lambda>m. Inr (pool_release pf m)))))"

definition mem_init :: "u32 \<Rightarrow> mem \<Rightarrow> mem res" where
  "mem_init mem_bytes_total m =
     bind_res (mem_pool_init mem_bytes_total m) (\<lambda>m. Inr (m\<lparr>k_block_descs := block_desc_init\<rparr>))"

end
