(* ===== verification/MemPages.thy ===== *)
theory MemPages
  imports Memory
begin

text \<open>
  Page allocation: what the page-table updates of \<^verbatim>\<open>kernel/memory.c\<close> do to the address space.
  \<open>pte_write\<close> and \<open>table_new\<close> treat the two writes (a table entry; a directory entry with a fresh,
  zeroed table), \<open>palloc_spec\<close> the frames handed out, \<open>page_table_add_spec\<close> one mapping,
  \<open>map_pages_spec\<close> the loop of \<^verbatim>\<open>malloc_page\<close>. The invariant is \<open>mem_wf\<close>.
\<close>

lemma page_aligned_le:
  assumes "unat (a :: u32) mod 4096 = 0"
  shows "unat a + 4096 \<le> 4294967296"
proof -
  obtain k where k: "unat a = k * 4096" using assms by (metis mod_0_imp_dvd dvd_def mult.commute)
  then have "k < 1048576" using unat_u32_lt [of a] by (simp del: unat_u32_lt)
  then show ?thesis using k by simp
qed

section \<open>Frames\<close>

text \<open>Addresses of table entries: two entries are the same word only if they are the same entry of
  the same frame.\<close>

lemma entry_addr:
  fixes f i :: u32
  assumes "unat i < 1024"
  shows "unat ((f AND 0xfffff000) + i * 4) = unat f div 4096 * 4096 + unat i * 4"
proof -
  have m: "unat (i * 4) = unat i * 4" using assms by (simp add: unat_mult_small)
  have "unat f div 4096 * 4096 + 4096 \<le> 4294967296"
    using page_aligned_le [of "f AND 0xfffff000"] by (simp add: unat_page)
  then show ?thesis using assms by (subst unat_add_small) (simp_all add: unat_page m)
qed

lemma entry_inj:
  fixes f g i j :: u32
  assumes "unat i < 1024" and "unat j < 1024"
  shows "(f AND 0xfffff000) + i * 4 = (g AND 0xfffff000) + j * 4 \<longleftrightarrow>
     f AND 0xfffff000 = g AND 0xfffff000 \<and> i = j"
proof
  assume "(f AND 0xfffff000) + i * 4 = (g AND 0xfffff000) + j * 4"
  then have e: "unat f div 4096 * 4096 + unat i * 4 = unat g div 4096 * 4096 + unat j * 4"
    using entry_addr [OF assms(1), of f] entry_addr [OF assms(2), of g] by simp
  have "unat f div 4096 = unat g div 4096"
    using arg_cong [OF e, of "\<lambda>x. x div 4096"] page_div [of "unat i * 4" "unat f div 4096"]
      page_div [of "unat j * 4" "unat g div 4096"] assms by simp
  moreover from this e have "unat i = unat j" by simp
  moreover have "unat (f AND 0xfffff000) = unat (g AND 0xfffff000)"
    using calculation(1) by (simp only: unat_page)
  ultimately show "f AND 0xfffff000 = g AND 0xfffff000 \<and> i = j"
    by (blast intro: unsigned_word_eqI)
qed simp

lemma entry_page:
  fixes f i :: u32
  assumes "unat i < 1024"
  shows "((f AND 0xfffff000) + i * 4) AND 0xfffff000 = f AND 0xfffff000"
proof (rule unsigned_word_eqI)
  show "unat (((f AND 0xfffff000) + i * 4) AND 0xfffff000) = unat (f AND 0xfffff000)"
    unfolding unat_page entry_addr [OF assms] using assms by (subst page_div) (simp_all add: unat_page)
qed

section \<open>Page table updates\<close>

text \<open>The attribute bits do not disturb a page-aligned address.\<close>

lemma aligned_bits: "x AND 0xfff = 0 \<Longrightarrow> n < 12 \<Longrightarrow> \<not> bit (x :: u32) n"
proof -
  assume "x AND 0xfff = 0" "n < 12"
  then have "bit (take_bit 12 x) n = False" by (simp add: and_fff)
  with \<open>n < 12\<close> show ?thesis by (simp add: bit_take_bit_iff)
qed

lemma attr_bits: "(PG_US_U OR PG_RW_W OR PG_P_1 :: u32) = mask 3"
  by (simp add: PG_US_U_def PG_RW_W_def PG_P_1_def mask_eq_exp_minus_1)

lemma entry_frame:
  assumes "x AND 0xfff = 0"
  shows "(x OR PG_US_U OR PG_RW_W OR PG_P_1) AND 0xfffff000 = x"
    and "(x OR PG_US_U OR PG_RW_W OR PG_P_1) AND PG_P_1 \<noteq> 0"
    and "x AND 0xfffff000 = x"
proof -
  note b = aligned_bits [OF assms]
  have e: "x OR PG_US_U OR PG_RW_W OR PG_P_1 = x OR mask 3"
    unfolding attr_bits [symmetric] by (simp add: or.assoc)
  show "x AND 0xfffff000 = x"
    unfolding and_fffff000
  proof (rule bit_word_eqI)
    fix n
    show "bit (push_bit 12 (drop_bit 12 x)) n = bit x n"
      using b [of n] by (cases "n < 12") (auto simp: bit_simps dest: bit_imp_le_length)
  qed
  show "(x OR PG_US_U OR PG_RW_W OR PG_P_1) AND 0xfffff000 = x"
    unfolding e and_fffff000
  proof (rule bit_word_eqI)
    fix n
    show "bit (push_bit 12 (drop_bit 12 (x OR mask 3))) n = bit x n"
      using b [of n] by (cases "n < 12") (auto simp: bit_simps dest: bit_imp_le_length)
  qed
  have "bit ((x OR PG_US_U OR PG_RW_W OR PG_P_1) AND PG_P_1) 0"
    unfolding e PG_P_1_def by (simp add: bit_simps)
  then show "(x OR PG_US_U OR PG_RW_W OR PG_P_1) AND PG_P_1 \<noteq> 0" by (metis bit_0_eq bot_apply bot_bool_def)
qed

text \<open>
  \<open>tables_ok\<close>: the directory maps itself in its last entry; no other entry points at the
  directory, and no two of them at the same table, except that entries 0 and 768 may share one. The
  loader sets up the kernel's own directory in that way, so that the first megabyte is visible at address 0
  and at 0xc0000000; in the directory of a process entry 0 is its own.
\<close>

definition pd_entry :: "phys_mem \<Rightarrow> u32 \<Rightarrow> u32 \<Rightarrow> u32" where
  "pd_entry phys cr3 i = phys (pd_base cr3 + i * 4)"

definition pd_present :: "phys_mem \<Rightarrow> u32 \<Rightarrow> u32 \<Rightarrow> bool" where
  "pd_present phys cr3 i \<longleftrightarrow> unat i < 1023 \<and> pd_entry phys cr3 i AND PG_P_1 \<noteq> 0"

definition tables_ok :: "phys_mem \<Rightarrow> u32 \<Rightarrow> bool" where
  "tables_ok phys cr3 \<longleftrightarrow> self_mapped phys cr3 \<and>
     (\<forall>i. pd_present phys cr3 i \<longrightarrow> pd_entry phys cr3 i AND 0xfffff000 \<noteq> pd_base cr3) \<and>
     (\<forall>i j. pd_present phys cr3 i \<longrightarrow> pd_present phys cr3 j \<longrightarrow>
        pd_entry phys cr3 i AND 0xfffff000 = pd_entry phys cr3 j AND 0xfffff000 \<longrightarrow>
        i = j \<or> i = 0 \<and> j = 768 \<or> i = 768 \<and> j = 0)"

definition low_shared :: "phys_mem \<Rightarrow> u32 \<Rightarrow> bool" where
  "low_shared phys cr3 \<longleftrightarrow> pd_present phys cr3 0 \<and> pd_present phys cr3 768 \<and>
     pd_entry phys cr3 0 AND 0xfffff000 = pd_entry phys cr3 768 AND 0xfffff000"

text \<open>The page of an address, where the lowest 4 MB count as those from 0xc0000000 on if they share
  a table: two addresses have the same page if they use the same table entry.\<close>

definition vpage :: "bool \<Rightarrow> u32 \<Rightarrow> u32" where
  "vpage sh w = (if sh \<and> PDE_IDX w = 0 then w + 0xc0000000 else w) AND 0xfffff000"

lemma pde_of_entry: "pde_of phys cr3 v = pd_entry phys cr3 (PDE_IDX v)"
  by (simp add: pde_of_def pd_entry_def)

lemma pd_base_page: "pd_base cr3 AND 0xfffff000 = pd_base cr3"
  by (simp add: pd_base_def and.assoc)

lemma PDE_IDX_lt': "PDE_IDX v \<noteq> 1023 \<Longrightarrow> unat (PDE_IDX v) < 1023"
proof -
  assume n: "PDE_IDX v \<noteq> 1023"
  have "unat (PDE_IDX v) \<noteq> 1023"
  proof
    assume "unat (PDE_IDX v) = 1023"
    then have "unat (PDE_IDX v) = unat (1023 :: u32)" by simp
    then have "PDE_IDX v = 1023" by (rule unsigned_word_eqI)
    with n show False by simp
  qed
  then show ?thesis using PDE_IDX_lt [of v] by simp
qed

lemma pd_addr_inj: "unat i < 1024 \<Longrightarrow> unat j < 1024 \<Longrightarrow> pd_base cr3 + i * 4 = pd_base cr3 + j * 4 \<longleftrightarrow> i = j"
  using entry_inj [of i j cr3 cr3] by (simp add: pd_base_def)

lemma page_eq: "w AND 0xfffff000 = v AND 0xfffff000 \<longleftrightarrow> PDE_IDX w = PDE_IDX v \<and> PTE_IDX w = PTE_IDX v"
  for v w :: u32
proof -
  have d: "unat x div 4194304 = unat x div 4096 div 1024" for x :: u32 by (simp add: div_mult2_eq [symmetric])
  have "w AND 0xfffff000 = v AND 0xfffff000 \<longleftrightarrow> unat w div 4096 = unat v div 4096"
    by (metis unat_page unsigned_word_eqI nat_mult_eq_cancel_disj mult.commute zero_neq_numeral)
  also have "\<dots> \<longleftrightarrow> unat (PDE_IDX w) = unat (PDE_IDX v) \<and> unat (PTE_IDX w) = unat (PTE_IDX v)"
    unfolding unat_PDE_IDX unat_PTE_IDX d by (metis mult_div_mod_eq)
  finally show ?thesis by (metis unsigned_word_eqI)
qed

lemma low_alias:
  assumes "PDE_IDX w = 0"
  shows "PDE_IDX (w + 0xc0000000) = 768" and "PTE_IDX (w + 0xc0000000) = PTE_IDX w" and "(w + 0xc0000000) AND 0xfff = w AND 0xfff"
proof -
  have "unat w div 4194304 = 0" using arg_cong [OF assms, of unat] by (simp add: unat_PDE_IDX)
  then have l: "unat w < 4194304" by simp
  then have u: "unat (w + 0xc0000000) = unat w + 3221225472" by (subst unat_add_small) simp_all
  have "unat (PDE_IDX (w + 0xc0000000)) = unat (768 :: u32)" unfolding unat_PDE_IDX u using l by simp
  then show "PDE_IDX (w + 0xc0000000) = 768" by (rule unsigned_word_eqI)
  have "(unat w + 3221225472) div 4096 = unat w div 4096 + 786432" by simp
  then have "unat (PTE_IDX (w + 0xc0000000)) = unat (PTE_IDX w)" unfolding unat_PTE_IDX u by (simp add: mod_add_eq [symmetric, of _ 786432])
  then show "PTE_IDX (w + 0xc0000000) = PTE_IDX w" by (rule unsigned_word_eqI)
  have "unat ((w + 0xc0000000) AND 0xfff) = unat (w AND 0xfff)" unfolding unat_offset u by (simp add: mod_add_eq [symmetric, of _ 3221225472])
  then show "(w + 0xc0000000) AND 0xfff = w AND 0xfff" by (rule unsigned_word_eqI)
qed

lemma vpage_eq:
  "vpage sh w = vpage sh v \<longleftrightarrow> PTE_IDX w = PTE_IDX v \<and>
     (PDE_IDX w = PDE_IDX v \<or> sh \<and> (PDE_IDX w = 0 \<and> PDE_IDX v = 768 \<or> PDE_IDX w = 768 \<and> PDE_IDX v = 0))"
  unfolding vpage_def page_eq using low_alias [of w] low_alias [of v] by auto

lemma vpage_high: "PDE_IDX v \<noteq> 0 \<Longrightarrow> vpage sh v = v AND 0xfffff000"
  by (simp add: vpage_def)

lemma vpage_unshared: "vpage False v = v AND 0xfffff000"
  by (simp add: vpage_def)

text \<open>Addresses of the same page use the same entry, and with well-formed tables only they do.\<close>

lemma vpage_pte:
  assumes "vpage (low_shared phys cr3) w = vpage (low_shared phys cr3) v"
  shows "pde_of phys cr3 w AND PG_P_1 = 0 \<longleftrightarrow> pde_of phys cr3 v AND PG_P_1 = 0" and "pte_addr phys cr3 w = pte_addr phys cr3 v"
proof -
  have e: "PTE_IDX w = PTE_IDX v" "PDE_IDX w = PDE_IDX v \<or> low_shared phys cr3 \<and>
      (PDE_IDX w = 0 \<and> PDE_IDX v = 768 \<or> PDE_IDX w = 768 \<and> PDE_IDX v = 0)"
    using assms unfolding vpage_eq by blast+
  show "pde_of phys cr3 w AND PG_P_1 = 0 \<longleftrightarrow> pde_of phys cr3 v AND PG_P_1 = 0" "pte_addr phys cr3 w = pte_addr phys cr3 v"
    using e by (auto simp: low_shared_def pd_present_def pde_of_entry pte_addr_def)
qed

lemma pte_vpage:
  assumes ok: "tables_ok phys cr3" and v: "PDE_IDX v \<noteq> 1023" "pde_of phys cr3 v AND PG_P_1 \<noteq> 0"
    and w: "PDE_IDX w \<noteq> 1023" "pde_of phys cr3 w AND PG_P_1 \<noteq> 0"
  shows "pte_addr phys cr3 w = pte_addr phys cr3 v \<longleftrightarrow> vpage (low_shared phys cr3) w = vpage (low_shared phys cr3) v"
proof
  assume "pte_addr phys cr3 w = pte_addr phys cr3 v"
  then have e: "pd_entry phys cr3 (PDE_IDX w) AND 0xfffff000 = pd_entry phys cr3 (PDE_IDX v) AND 0xfffff000" "PTE_IDX w = PTE_IDX v"
    unfolding pte_addr_def pde_of_entry using entry_inj [OF PTE_IDX_lt PTE_IDX_lt] by blast+
  have p: "pd_present phys cr3 (PDE_IDX w)" "pd_present phys cr3 (PDE_IDX v)"
    using PDE_IDX_lt' [OF v(1)] PDE_IDX_lt' [OF w(1)] v(2) w(2) by (simp_all add: pd_present_def pde_of_entry)
  then have "PDE_IDX w = PDE_IDX v \<or> PDE_IDX w = 0 \<and> PDE_IDX v = 768 \<or> PDE_IDX w = 768 \<and> PDE_IDX v = 0"
    using ok e(1) unfolding tables_ok_def by blast
  then show "vpage (low_shared phys cr3) w = vpage (low_shared phys cr3) v"
    unfolding vpage_eq using e p by (auto simp: low_shared_def)
qed (rule vpage_pte(2))

text \<open>Writing a table entry.\<close>

lemma pte_write:
  fixes phys :: phys_mem and cr3 v x :: u32
  assumes ok: "tables_ok phys cr3" and v: "PDE_IDX v \<noteq> 1023" and pr: "pde_of phys cr3 v AND PG_P_1 \<noteq> 0"
  defines "phys' \<equiv> phys(pte_addr phys cr3 v := x)"
  shows "tables_ok phys' cr3" and "pde_of phys' cr3 w = pde_of phys cr3 w"
    and "pte_addr phys' cr3 w = pte_addr phys cr3 w"
    and "PDE_IDX w \<noteq> 1023 \<Longrightarrow> pde_of phys cr3 w AND PG_P_1 \<noteq> 0 \<Longrightarrow>
      phys' (pte_addr phys cr3 w) =
        (if vpage (low_shared phys cr3) w = vpage (low_shared phys cr3) v then x else phys (pte_addr phys cr3 w))"
    and "low_shared phys' cr3 = low_shared phys cr3"
proof -
  let ?f = "pd_entry phys cr3 (PDE_IDX v)"
  have fr: "?f AND 0xfffff000 \<noteq> pd_base cr3"
    using ok PDE_IDX_lt' [OF v] pr by (auto simp: tables_ok_def pd_present_def pde_of_entry)
  have pd: "phys' (pd_base cr3 + i * 4) = phys (pd_base cr3 + i * 4)" if "unat i < 1024" for i
    using entry_inj [OF that PTE_IDX_lt [of v], of cr3 ?f] fr
    by (auto simp: phys'_def pte_addr_def pde_of_entry pd_base_def)
  have en: "pd_entry phys' cr3 i = pd_entry phys cr3 i" if "unat i < 1024" for i
    using pd [OF that] by (simp add: pd_entry_def)
  show pw: "pde_of phys' cr3 w = pde_of phys cr3 w" for w
    using en [OF PDE_IDX_lt] by (simp add: pde_of_entry)
  show pa: "pte_addr phys' cr3 w = pte_addr phys cr3 w" for w by (simp add: pte_addr_def pw)
  have "self_mapped phys' cr3 = self_mapped phys cr3" using pd [of 1023] by (simp add: self_mapped_def)
  moreover have "pd_present phys' cr3 i = pd_present phys cr3 i" for i
    using en [of i] by (auto simp: pd_present_def)
  moreover have "pd_present phys cr3 i \<Longrightarrow> pd_entry phys' cr3 i = pd_entry phys cr3 i" for i
    using en [of i] by (simp add: pd_present_def)
  ultimately show "tables_ok phys' cr3" using ok by (simp add: tables_ok_def)
  show "low_shared phys' cr3 = low_shared phys cr3"
    using en [of 0] en [of 768] by (simp add: low_shared_def pd_present_def)
  show "phys' (pte_addr phys cr3 w) =
      (if vpage (low_shared phys cr3) w = vpage (low_shared phys cr3) v then x else phys (pte_addr phys cr3 w))"
    if w: "PDE_IDX w \<noteq> 1023" "pde_of phys cr3 w AND PG_P_1 \<noteq> 0"
    using pte_vpage [OF ok v pr w] by (simp add: phys'_def)
qed

text \<open>The frames that hold the directory and the tables.\<close>

definition table_frames :: "phys_mem \<Rightarrow> u32 \<Rightarrow> u32 set" where
  "table_frames phys cr3 =
     insert (pd_base cr3) {pd_entry phys cr3 i AND 0xfffff000 |i. pd_present phys cr3 i}"

lemma table_frames_pte: "table_frames (phys(pte_addr phys cr3 v := x)) cr3 = table_frames phys cr3"
  if ok: "tables_ok phys cr3" and v: "PDE_IDX v \<noteq> 1023" and pr: "pde_of phys cr3 v AND PG_P_1 \<noteq> 0"
proof -
  let ?ph = "phys(pte_addr phys cr3 v := x)"
  have fr: "pd_entry phys cr3 (PDE_IDX v) AND 0xfffff000 \<noteq> pd_base cr3"
    using ok PDE_IDX_lt' [OF v] pr by (auto simp: tables_ok_def pd_present_def pde_of_entry)
  have en: "pd_entry ?ph cr3 i = pd_entry phys cr3 i" if "unat i < 1024" for i
    using entry_inj [OF that PTE_IDX_lt [of v], of cr3 "pd_entry phys cr3 (PDE_IDX v)"] fr
    by (auto simp: pd_entry_def pte_addr_def pde_of_def pd_base_def)
  have "(a = pd_entry ?ph cr3 i AND 0xfffff000 \<and> pd_present ?ph cr3 i) =
      (a = pd_entry phys cr3 i AND 0xfffff000 \<and> pd_present phys cr3 i)" for a i
    using en [of i] by (auto simp: pd_present_def)
  then show ?thesis by (simp only: table_frames_def)
qed

text \<open>Filling in a directory entry with a frame that is not in use (\<open>table_set\<close>), and zeroing the
  frame (\<open>table_new\<close>).\<close>

definition table_set :: "phys_mem \<Rightarrow> u32 \<Rightarrow> u32 \<Rightarrow> u32 \<Rightarrow> phys_mem" where
  "table_set phys cr3 v f = phys(pd_base cr3 + PDE_IDX v * 4 := f OR PG_US_U OR PG_RW_W OR PG_P_1)"

definition table_new :: "phys_mem \<Rightarrow> u32 \<Rightarrow> u32 \<Rightarrow> u32 \<Rightarrow> phys_mem" where
  "table_new phys cr3 v f = (\<lambda>a. if a AND 0xfffff000 = f then 0 else table_set phys cr3 v f a)"

definition table_free :: "phys_mem \<Rightarrow> u32 \<Rightarrow> u32 \<Rightarrow> u32 \<Rightarrow> bool" where
  "table_free phys cr3 v f \<longleftrightarrow> tables_ok phys cr3 \<and> PDE_IDX v \<noteq> 1023 \<and> pde_of phys cr3 v AND PG_P_1 = 0 \<and>
     f AND 0xfff = 0 \<and> f \<notin> table_frames phys cr3"

lemma pd_word_page: "unat i < 1024 \<Longrightarrow> (pd_base cr3 + i * 4) AND 0xfffff000 = pd_base cr3"
  using entry_page [of i cr3] by (simp add: pd_base_def)

lemma table_set_entries:
  assumes tf: "table_free phys cr3 v f"
  shows "unat i < 1024 \<Longrightarrow> pd_entry (table_set phys cr3 v f) cr3 i =
      (if i = PDE_IDX v then f OR PG_US_U OR PG_RW_W OR PG_P_1 else pd_entry phys cr3 i)"
    and "self_mapped (table_set phys cr3 v f) cr3"
proof -
  show e: "pd_entry (table_set phys cr3 v f) cr3 i =
      (if i = PDE_IDX v then f OR PG_US_U OR PG_RW_W OR PG_P_1 else pd_entry phys cr3 i)" if "unat i < 1024" for i
    using pd_addr_inj [OF that PDE_IDX_lt [of v], of cr3] by (simp add: table_set_def pd_entry_def)
  show "self_mapped (table_set phys cr3 v f) cr3"
    using e [of 1023] tf by (simp add: table_free_def self_mapped_def tables_ok_def pd_entry_def)
qed

lemma table_new_entry:
  assumes tf: "table_free phys cr3 v f" and i: "unat i < 1024"
  shows "pd_entry (table_new phys cr3 v f) cr3 i =
      (if i = PDE_IDX v then f OR PG_US_U OR PG_RW_W OR PG_P_1 else pd_entry phys cr3 i)"
proof -
  have "f \<noteq> pd_base cr3" using tf by (simp add: table_free_def table_frames_def)
  then show ?thesis
    using table_set_entries(1) [OF tf i] pd_word_page [OF i, of cr3] by (simp add: pd_entry_def table_new_def)
qed

lemma table_new_entries:
  assumes tf: "table_free phys cr3 v f"
  shows "pde_of (table_new phys cr3 v f) cr3 v = f OR PG_US_U OR PG_RW_W OR PG_P_1"
    and "pd_entry (table_new phys cr3 v f) cr3 (PDE_IDX v) AND 0xfffff000 = f"
    and "pd_present (table_new phys cr3 v f) cr3 i \<longleftrightarrow> i = PDE_IDX v \<or> pd_present phys cr3 i"
    and "pd_present phys cr3 i \<Longrightarrow> pd_entry (table_new phys cr3 v f) cr3 i = pd_entry phys cr3 i"
    and "pd_present phys cr3 i \<Longrightarrow> pd_entry phys cr3 i AND 0xfffff000 \<noteq> f"
proof -
  note e = table_new_entry [OF tf]
  have al: "f AND 0xfff = 0" and v: "PDE_IDX v \<noteq> 1023" and ab: "pde_of phys cr3 v AND PG_P_1 = 0"
    and fr: "f \<notin> table_frames phys cr3"
    using tf by (simp_all add: table_free_def)
  note fe = entry_frame [OF al]
  show "pde_of (table_new phys cr3 v f) cr3 v = f OR PG_US_U OR PG_RW_W OR PG_P_1"
    using e [OF PDE_IDX_lt] by (simp add: pde_of_entry)
  show "pd_entry (table_new phys cr3 v f) cr3 (PDE_IDX v) AND 0xfffff000 = f"
    using e [OF PDE_IDX_lt] fe(1) by simp
  show "pd_present (table_new phys cr3 v f) cr3 i \<longleftrightarrow> i = PDE_IDX v \<or> pd_present phys cr3 i"
    using e [of i] e [OF PDE_IDX_lt] PDE_IDX_lt' [OF v] fe(2) by (cases "i = PDE_IDX v") (auto simp: pd_present_def)
  show "pd_entry (table_new phys cr3 v f) cr3 i = pd_entry phys cr3 i" if "pd_present phys cr3 i"
    using e [of i] that ab by (auto simp: pd_present_def pde_of_entry)
  show "pd_entry phys cr3 i AND 0xfffff000 \<noteq> f" if "pd_present phys cr3 i"
    using fr that by (auto simp: table_frames_def)
qed

lemma table_new_ok:
  assumes tf: "table_free phys cr3 v f"
  shows "tables_ok (table_new phys cr3 v f) cr3"
    and "table_frames (table_new phys cr3 v f) cr3 = insert f (table_frames phys cr3)"
    and "low_shared (table_new phys cr3 v f) cr3 = low_shared phys cr3"
proof -
  let ?ph = "table_new phys cr3 v f"
  note te = table_new_entries [OF tf]
  have ok: "tables_ok phys cr3" and nb: "f \<noteq> pd_base cr3" using tf by (auto simp: table_free_def table_frames_def)
  show "tables_ok ?ph cr3"
    unfolding tables_ok_def
  proof (intro conjI allI impI)
    have "PDE_IDX v \<noteq> 1023" using tf by (simp add: table_free_def)
    then show "self_mapped ?ph cr3"
      using table_new_entry [OF tf, of 1023] ok by (simp add: self_mapped_def pd_entry_def tables_ok_def)
  next
    fix i assume "pd_present ?ph cr3 i"
    then show "pd_entry ?ph cr3 i AND 0xfffff000 \<noteq> pd_base cr3"
      using ok nb by (auto simp: te tables_ok_def)
  next
    fix i j assume a: "pd_present ?ph cr3 i" "pd_present ?ph cr3 j"
      "pd_entry ?ph cr3 i AND 0xfffff000 = pd_entry ?ph cr3 j AND 0xfffff000"
    from a(1,2) consider "i = j" | "i = PDE_IDX v" "pd_present phys cr3 j"
      | "j = PDE_IDX v" "pd_present phys cr3 i" | "pd_present phys cr3 i" "pd_present phys cr3 j"
      unfolding te(3) by blast
    then show "i = j \<or> i = 0 \<and> j = 768 \<or> i = 768 \<and> j = 0"
    proof cases
      case 2 then show ?thesis using a(3) te(5) [of j] by (simp add: te(2,4))
    next
      case 3 then show ?thesis using a(3) te(5) [of i] by (simp add: te(2,4))
    next
      case 4 then show ?thesis using a(3) ok by (simp add: te(4) tables_ok_def)
    qed simp
  qed
  have ab: "\<not> pd_present phys cr3 (PDE_IDX v)" using tf by (simp add: table_free_def pd_present_def pde_of_entry)
  show "low_shared ?ph cr3 = low_shared phys cr3"
    unfolding low_shared_def te(3) using te(2) te(4) [of 0] te(4) [of 768] te(5) [of 0] te(5) [of 768] ab by auto
  have "{pd_entry ?ph cr3 i AND 0xfffff000 |i. pd_present ?ph cr3 i} =
      insert f {pd_entry phys cr3 i AND 0xfffff000 |i. pd_present phys cr3 i}"
    unfolding setcompr_eq_image te(3) Collect_disj_eq image_Un
    using te(2) image_cong [of "{i. pd_present phys cr3 i}" "{i. pd_present phys cr3 i}"
      "\<lambda>i. pd_entry ?ph cr3 i AND 0xfffff000" "\<lambda>i. pd_entry phys cr3 i AND 0xfffff000"] by (simp add: te(4))
  then show "table_frames ?ph cr3 = insert f (table_frames phys cr3)"
    by (simp add: table_frames_def insert_commute)
qed

lemma table_new_walk:
  assumes tf: "table_free phys cr3 v f" and w: "PDE_IDX w \<noteq> 1023"
  shows "walk (table_new phys cr3 v f) cr3 w = walk phys cr3 w"
    and "PDE_IDX w = PDE_IDX v \<Longrightarrow> table_new phys cr3 v f (pte_addr (table_new phys cr3 v f) cr3 w) = 0"
proof -
  let ?ph = "table_new phys cr3 v f"
  note te = table_new_entries [OF tf]
  have pg: "pte_addr ph cr3 w AND 0xfffff000 = pd_entry ph cr3 (PDE_IDX w) AND 0xfffff000" for ph
    using entry_page [OF PTE_IDX_lt [of w], of "pd_entry ph cr3 (PDE_IDX w)"]
    by (simp add: pte_addr_def pde_of_entry)
  show z: "?ph (pte_addr ?ph cr3 w) = 0" if "PDE_IDX w = PDE_IDX v"
    using pg [of ?ph] te(2) that by (simp add: table_new_def)
  show "walk ?ph cr3 w = walk phys cr3 w"
  proof (cases "PDE_IDX w = PDE_IDX v")
    case True
    then show ?thesis using z [OF True] tf by (simp add: walk_alt pde_of_entry table_free_def)
  next
    case False
    then have pw: "pde_of ?ph cr3 w = pde_of phys cr3 w"
      using table_new_entry [OF tf PDE_IDX_lt] by (simp add: pde_of_entry)
    then have pa: "pte_addr ?ph cr3 w = pte_addr phys cr3 w" by (simp add: pte_addr_def)
    have "?ph (pte_addr phys cr3 w) = phys (pte_addr phys cr3 w)" if pr: "pd_present phys cr3 (PDE_IDX w)"
      using pg [of phys] te(5) [OF pr] pd_word_page [OF PDE_IDX_lt [of v], of cr3] tf pr
      by (auto simp: table_new_def table_set_def tables_ok_def table_free_def)
    then show ?thesis
      using PDE_IDX_lt' [OF w] by (simp add: walk_alt pw pa pd_present_def pde_of_entry [symmetric])
  qed
qed

section \<open>Pools\<close>

definition frame_of :: "pool \<Rightarrow> nat \<Rightarrow> u32" where
  "frame_of p n = phy_addr_start p + of_nat n * PG_SIZE"

definition pool_wf :: "pool \<Rightarrow> bool" where
  "pool_wf p \<longleftrightarrow> bitmap_wf (pool_bitmap p) \<and> unat (phy_addr_start p) mod 4096 = 0 \<and>
     0 < unat (phy_addr_start p) \<and> unat (phy_addr_start p) + nbits (pool_bitmap p) * 4096 \<le> 4294967296"

definition free_frames :: "pool \<Rightarrow> u32 set" where
  "free_frames p = frame_of p ` {n. n < nbits (pool_bitmap p) \<and> \<not> bit_at (pool_bitmap p) n}"

text \<open>What an allocation keeps of a pool.\<close>

definition pool_shape :: "pool \<Rightarrow> u32 \<times> nat" where
  "pool_shape p = (phy_addr_start p, nbits (pool_bitmap p))"

lemma unat_frame_of:
  assumes "pool_wf p" and "n < nbits (pool_bitmap p)"
  shows "unat (frame_of p n) = unat (phy_addr_start p) + n * 4096"
proof -
  have n: "n * 4096 + 4096 \<le> nbits (pool_bitmap p) * 4096" using assms(2) by simp
  have lt: "unat (phy_addr_start p) + n * 4096 < 4294967296" using n assms(1) by (simp add: pool_wf_def del: mult_le_cancel2)
  then have un: "unat (of_nat n :: u32) = n" by (simp add: unat_of_nat take_bit_nat_eq_self)
  have m: "unat (of_nat n * PG_SIZE :: u32) = n * 4096"
    using lt un by (subst unat_mult_small) (simp_all add: PG_SIZE_def)
  show ?thesis unfolding frame_of_def using lt m by (subst unat_add_small) simp_all
qed

lemma frame_of_aligned:
  assumes "pool_wf p" and "n < nbits (pool_bitmap p)"
  shows "frame_of p n AND 0xfff = 0" and "frame_of p n \<noteq> 0"
proof -
  note u = unat_frame_of [OF assms]
  have "unat (frame_of p n AND 0xfff) = unat (0 :: u32)"
    unfolding unat_offset u using assms(1) by (simp add: pool_wf_def)
  then show "frame_of p n AND 0xfff = 0" by (rule unsigned_word_eqI)
  show "frame_of p n \<noteq> 0" using u assms(1) by (auto simp: pool_wf_def)
qed

lemma frame_of_inj:
  assumes "pool_wf p" and "n < nbits (pool_bitmap p)" and "k < nbits (pool_bitmap p)" and "frame_of p n = frame_of p k"
  shows "n = k"
proof -
  have "unat (phy_addr_start p) + n * 4096 = unat (phy_addr_start p) + k * 4096"
    using unat_frame_of [OF assms(1,2)] unat_frame_of [OF assms(1,3)] arg_cong [OF assms(4), of unat] by linarith
  then show ?thesis by linarith
qed

text \<open>\<^verbatim>\<open>palloc\<close> hands out a free frame and takes exactly that one.\<close>

lemma palloc_spec:
  assumes wf: "pool_wf (the_pool pf m)" and fr: "free_frames (the_pool pf m) \<noteq> {}"
  shows "\<exists>f p'. palloc pf m = Inr (f, set_pool pf p' m) \<and> f \<in> free_frames (the_pool pf m) \<and>
     pool_wf p' \<and> free_frames p' = free_frames (the_pool pf m) - {f} \<and>
     phy_addr_start p' = phy_addr_start (the_pool pf m) \<and> pool_locked p' = pool_locked (the_pool pf m) \<and>
     nbits (pool_bitmap p') = nbits (pool_bitmap (the_pool pf m)) \<and> pool_size p' = pool_size (the_pool pf m)"
proof -
  let ?p = "the_pool pf m" and ?b = "pool_bitmap (the_pool pf m)"
  have bw: "bitmap_wf ?b" using wf by (simp add: pool_wf_def)
  have "bm.used_set ?b \<noteq> {..< nbits ?b}" using fr by (auto simp: free_frames_def bm_used_set)
  then obtain n b' where n: "bitmap_scan ?b 1 = Inr (int n)" "n < nbits ?b" "n \<notin> bm.used_set ?b"
    "bitmap_set ?b (of_nat n) 1 = Inr b'" "bitmap_wf b'" "nbits b' = nbits ?b"
    "bm.used_set b' = insert n (bm.used_set ?b)" using bm.take_bit_spec [OF bw] by blast
  let ?p' = "?p\<lparr>pool_bitmap := b'\<rparr>"
  have eq: "palloc pf m = Inr (frame_of ?p n, set_pool pf ?p' m)"
    using n(1,4) by (simp add: palloc_def frame_of_def Let_def)
  have fo: "frame_of ?p' = frame_of ?p" by (rule ext) (simp add: frame_of_def)
  have "{k. k < nbits b' \<and> \<not> bit_at b' k} = {k. k < nbits ?b \<and> \<not> bit_at ?b k} - {n}"
    using n(2,6,7) by (auto simp: bm_used_set set_eq_iff)
  then have ff: "free_frames ?p' = free_frames ?p - {frame_of ?p n}"
    unfolding free_frames_def fo using frame_of_inj [OF wf _ n(2)] by auto
  show ?thesis
    using n wf by (intro exI [of _ "frame_of ?p n"] exI [of _ ?p'] conjI eq ff)
      (auto simp: free_frames_def bm_used_set pool_wf_def)
qed

section \<open>Mapping a page\<close>

lemma pte_write_walk:
  assumes ok: "tables_ok phys cr3" and v: "PDE_IDX v \<noteq> 1023" and pr: "pde_of phys cr3 v AND PG_P_1 \<noteq> 0"
    and w: "PDE_IDX w \<noteq> 1023"
  shows "walk (phys(pte_addr phys cr3 v := x)) cr3 w =
     (if vpage (low_shared phys cr3) w = vpage (low_shared phys cr3) v
      then (if x AND PG_P_1 = 0 then None else Some ((x AND 0xfffff000) + (w AND 0xfff)))
      else walk phys cr3 w)"
proof -
  note pw = pte_write [OF ok v pr]
  show ?thesis
  proof (cases "pde_of phys cr3 w AND PG_P_1 = 0")
    case True
    then have "vpage (low_shared phys cr3) w \<noteq> vpage (low_shared phys cr3) v" using pr vpage_pte(1) [of phys cr3 w v] by auto
    with True show ?thesis by (simp add: walk_alt pw)
  next
    case False
    then show ?thesis unfolding walk_alt pw(2,3) using pw(4) [OF w False, of x] by (simp del: fun_upd_apply)
  qed
qed

lemma walk_None_pte:
  "walk phys cr3 v = None \<Longrightarrow> pde_of phys cr3 v AND PG_P_1 \<noteq> 0 \<Longrightarrow> phys (pte_addr phys cr3 v) AND PG_P_1 = 0"
  by (auto simp: walk_alt split: if_splits)

lemma present_bit: "x AND 0x00000001 = x AND PG_P_1" for x :: u32
  by (simp add: PG_P_1_def)

lemma page_table_add_present:
  assumes ok: "tables_ok (mphys m) (mcr3 m)" and v: "PDE_IDX v \<noteq> 1023"
    and pr: "pde_of (mphys m) (mcr3 m) v AND PG_P_1 \<noteq> 0" and un: "walk (mphys m) (mcr3 m) v = None"
  shows "page_table_add v pa m = Inr (m\<lparr>mphys := (mphys m)(pte_addr (mphys m) (mcr3 m) v :=
     pa OR PG_US_U OR PG_RW_W OR PG_P_1)\<rparr>)"
proof -
  have sm: "self_mapped (mphys m) (mcr3 m)" using ok by (simp add: tables_ok_def)
  show ?thesis
    unfolding page_table_add_def Let_def vload_def vstore_def walk_pde_ptr [OF sm] walk_pte_ptr [OF sm] present_bit
    using pr walk_None_pte [OF un pr] by (simp add: pde_of_def ASSERT_def)
qed

lemma pte_ptr_page:
  assumes "self_mapped phys cr3" and "pde_of phys cr3 v AND PG_P_1 \<noteq> 0"
  shows "walk phys cr3 (pte_ptr v AND 0xfffff000) = Some (pde_of phys cr3 v AND 0xfffff000)"
proof -
  let ?w = "v AND 0xffc00000"
  have i: "PDE_IDX ?w = PDE_IDX v" "PTE_IDX ?w = 0"
    by (simp_all add: PDE_IDX_def PTE_IDX_def and.assoc)
  have "unat (pte_ptr v AND 0xfffff000) = unat (pte_ptr ?w)"
    unfolding unat_page unat_pte_ptr i
    using page_div [of "unat (PTE_IDX v) * 4" "1047552 + unat (PDE_IDX v)"] PTE_IDX_lt [of v] by simp
  then have "pte_ptr v AND 0xfffff000 = pte_ptr ?w" by (rule unsigned_word_eqI)
  then show ?thesis
    using walk_pte_ptr [OF assms(1), of ?w] assms(2) i by (simp add: pde_of_entry pte_addr_def)
qed

lemma page_table_add_absent:
  assumes ok: "tables_ok (mphys m) (mcr3 m)" and v: "PDE_IDX v \<noteq> 1023"
    and ab: "pde_of (mphys m) (mcr3 m) v AND PG_P_1 = 0"
    and wf: "pool_wf (kernel_pool m)" and fr: "free_frames (kernel_pool m) \<noteq> {}"
    and di: "free_frames (kernel_pool m) \<inter> table_frames (mphys m) (mcr3 m) = {}"
  shows "\<exists>f p'. page_table_add v pa m = Inr (m\<lparr>kernel_pool := p',
        mphys := (table_new (mphys m) (mcr3 m) v f)(pte_addr (table_new (mphys m) (mcr3 m) v f) (mcr3 m) v :=
          pa OR PG_US_U OR PG_RW_W OR PG_P_1)\<rparr>) \<and>
     table_free (mphys m) (mcr3 m) v f \<and> f \<in> free_frames (kernel_pool m) \<and>
     pool_wf p' \<and> free_frames p' = free_frames (kernel_pool m) - {f} \<and>
     pool_shape p' = pool_shape (kernel_pool m) \<and> pool_locked p' = pool_locked (kernel_pool m)"
proof -
  let ?ph = "mphys m" and ?c = "mcr3 m"
  from palloc_spec [where pf = PF_KERNEL and m = m] wf fr obtain f p' where
    f: "palloc PF_KERNEL m = Inr (f, set_pool PF_KERNEL p' m)" "f \<in> free_frames (kernel_pool m)" and
    p': "pool_wf p'" "free_frames p' = free_frames (kernel_pool m) - {f}"
      "pool_shape p' = pool_shape (kernel_pool m)" "pool_locked p' = pool_locked (kernel_pool m)" by (auto simp: pool_shape_def)
  have al: "f AND 0xfff = 0" using f(2) frame_of_aligned(1) [OF wf] by (auto simp: free_frames_def)
  have tf: "table_free ?ph ?c v f" using ok v ab al f(2) di by (auto simp: table_free_def)
  let ?ph1 = "table_set ?ph ?c v f" and ?ph2 = "table_new ?ph ?c v f"
  note te = table_set_entries [OF tf] and fe = entry_frame [OF al]
  have sm: "self_mapped ?ph ?c" using ok by (simp add: tables_ok_def)
  have p1: "pde_of ?ph1 ?c v = f OR PG_US_U OR PG_RW_W OR PG_P_1" using te(1) [OF PDE_IDX_lt] by (simp add: pde_of_entry)
  have z: "vzero_page ?ph1 ?c (pte_ptr v) = Inr ?ph2"
    unfolding vzero_page_def using pte_ptr_page [OF te(2), of v] p1 fe by (simp add: table_new_def)
  have s2: "self_mapped ?ph2 ?c" using table_new_ok(1) [OF tf] by (simp add: tables_ok_def)
  have w2: "walk ?ph2 ?c (pte_ptr v) = Some (pte_addr ?ph2 ?c v)"
    using walk_pte_ptr [OF s2, of v] table_new_entries(1) [OF tf] fe(2) by simp
  have "page_table_add v pa m = Inr (m\<lparr>kernel_pool := p',
      mphys := ?ph2(pte_addr ?ph2 ?c v := pa OR PG_US_U OR PG_RW_W OR PG_P_1)\<rparr>)"
    unfolding page_table_add_def Let_def present_bit
    using ab f(1) z w2 table_new_walk(2) [OF tf v]
    by (simp add: vload_def vstore_def walk_pde_ptr [OF sm] pde_of_def set_pool_def table_set_def [symmetric] ASSERT_def)
  then show ?thesis using tf f(2) p' by blast
qed

text \<open>Both cases together. \<open>f\<close> is the frame of a new table, if one was needed.\<close>

abbreviation shared :: "mem \<Rightarrow> bool" where
  "shared m \<equiv> low_shared (mphys m) (mcr3 m)"

definition map_post :: "u32 \<Rightarrow> u32 \<Rightarrow> mem \<Rightarrow> mem \<Rightarrow> bool" where
  "map_post v pa m m' \<longleftrightarrow> tables_ok (mphys m') (mcr3 m') \<and> mcr3 m' = mcr3 m \<and> user_pool m' = user_pool m \<and>
     (\<forall>w. PDE_IDX w \<noteq> 1023 \<longrightarrow> walk (mphys m') (mcr3 m) w =
        (if vpage (shared m) w = vpage (shared m) v then Some (pa + (w AND 0xfff)) else walk (mphys m) (mcr3 m) w)) \<and>
     low_shared (mphys m') (mcr3 m) = shared m \<and> pool_wf (kernel_pool m') \<and> pool_shape (kernel_pool m') = pool_shape (kernel_pool m) \<and> kernel_vaddr m' = kernel_vaddr m \<and>
     pool_locked (kernel_pool m') = pool_locked (kernel_pool m) \<and>
     (\<exists>f. free_frames (kernel_pool m') = free_frames (kernel_pool m) - f \<and> f \<subseteq> free_frames (kernel_pool m) \<and>
        card f \<le> 1 \<and> finite f \<and> table_frames (mphys m') (mcr3 m) = table_frames (mphys m) (mcr3 m) \<union> f)"

lemma page_table_add_spec:
  assumes ok: "tables_ok (mphys m) (mcr3 m)" and v: "PDE_IDX v \<noteq> 1023"
    and un: "walk (mphys m) (mcr3 m) v = None" and al: "pa AND 0xfff = 0"
    and wf: "pool_wf (kernel_pool m)" and fr: "free_frames (kernel_pool m) \<noteq> {}"
    and di: "free_frames (kernel_pool m) \<inter> table_frames (mphys m) (mcr3 m) = {}"
  shows "\<exists>ph p'. page_table_add v pa m = Inr (m\<lparr>kernel_pool := p', mphys := ph\<rparr>) \<and>
     map_post v pa m (m\<lparr>kernel_pool := p', mphys := ph\<rparr>)"
proof (cases "pde_of (mphys m) (mcr3 m) v AND PG_P_1 = 0")
  case True
  let ?ph = "mphys m" and ?c = "mcr3 m" and ?e = "pa OR PG_US_U OR PG_RW_W OR PG_P_1"
  from page_table_add_absent [OF ok v True wf fr di, of pa] obtain f p' where
    e: "page_table_add v pa m = Inr (m\<lparr>kernel_pool := p',
        mphys := (table_new ?ph ?c v f)(pte_addr (table_new ?ph ?c v f) ?c v := ?e)\<rparr>)" and
    tf: "table_free ?ph ?c v f" and f: "f \<in> free_frames (kernel_pool m)" and
    p': "pool_wf p'" "free_frames p' = free_frames (kernel_pool m) - {f}"
      "pool_shape p' = pool_shape (kernel_pool m)" "pool_locked p' = pool_locked (kernel_pool m)" by blast
  note tn = table_new_ok [OF tf]
  have pr: "pde_of (table_new ?ph ?c v f) ?c v AND PG_P_1 \<noteq> 0"
    using table_new_entries(1) [OF tf] entry_frame(2) [of f] tf by (simp add: table_free_def)
  have "map_post v pa m (m\<lparr>kernel_pool := p',
        mphys := (table_new ?ph ?c v f)(pte_addr (table_new ?ph ?c v f) ?c v := ?e)\<rparr>)"
    unfolding map_post_def
    using pte_write(1,5) [OF tn(1) v pr] pte_write_walk [OF tn(1) v pr] tn(3) table_new_walk(1) [OF tf] entry_frame [OF al] p' f
      table_frames_pte [OF tn(1) v pr] tn(2)
    by (simp add: exI [of _ "{f}"] del: fun_upd_apply)
  with e show ?thesis by blast
next
  case False
  then have "page_table_add v pa m = Inr (m\<lparr>mphys := (mphys m)(pte_addr (mphys m) (mcr3 m) v :=
     pa OR PG_US_U OR PG_RW_W OR PG_P_1)\<rparr>)" by (intro page_table_add_present ok v un)
  then show ?thesis
    using pte_write(1,5) [OF ok v False] pte_write_walk [OF ok v False] entry_frame [OF al] wf table_frames_pte [OF ok v False]
    by (intro exI [of _ "(mphys m)(pte_addr (mphys m) (mcr3 m) v := pa OR PG_US_U OR PG_RW_W OR PG_P_1)"]
          exI [of _ "kernel_pool m"])
       (simp add: map_post_def exI [of _ "{}"] del: fun_upd_apply)
qed

section \<open>Allocating pages\<close>

text \<open>The frames a mapped address below the tables leads to.\<close>

definition mapped_frames :: "phys_mem \<Rightarrow> u32 \<Rightarrow> u32 set" where
  "mapped_frames phys cr3 = {p AND 0xfffff000 |w p. PDE_IDX w \<noteq> 1023 \<and> walk phys cr3 w = Some p}"

text \<open>The invariant: no frame is free in both pools, and no free frame holds a table or is mapped.\<close>

definition mem_wf :: "mem \<Rightarrow> bool" where
  "mem_wf m \<longleftrightarrow> tables_ok (mphys m) (mcr3 m) \<and> pool_wf (kernel_pool m) \<and> pool_wf (user_pool m) \<and>
     free_frames (kernel_pool m) \<inter> free_frames (user_pool m) = {} \<and>
     (free_frames (kernel_pool m) \<union> free_frames (user_pool m)) \<inter>
       (table_frames (mphys m) (mcr3 m) \<union> mapped_frames (mphys m) (mcr3 m)) = {}"

lemma finite_free_frames [simp]: "finite (free_frames p)"
  by (simp add: free_frames_def)

lemma page_plus_offset:
  fixes f w :: u32
  assumes "f AND 0xfff = 0"
  shows "(f + (w AND 0xfff)) AND 0xfffff000 = f"
proof (rule unsigned_word_eqI)
  have m: "unat f mod 4096 = 0" using arg_cong [OF assms, of unat] by (simp add: unat_offset)
  have o: "unat (w AND 0xfff) < 4096" by (simp add: unat_offset)
  have "unat f + unat (w AND 0xfff) < 4294967296" using page_aligned_le [OF m] o by linarith
  then have "unat (f + (w AND 0xfff)) = unat f div 4096 * 4096 + unat (w AND 0xfff)"
    using m by (subst unat_add_small) auto
  then show "unat ((f + (w AND 0xfff)) AND 0xfffff000) = unat f"
    unfolding unat_page using page_div [OF o] m by auto
qed

lemma mapped_frames_map:
  assumes "map_post v pa m m'" and "pa AND 0xfff = 0"
  shows "mapped_frames (mphys m') (mcr3 m) \<subseteq> insert pa (mapped_frames (mphys m) (mcr3 m))"
proof
  fix g assume "g \<in> mapped_frames (mphys m') (mcr3 m)"
  then obtain w p where g: "g = p AND 0xfffff000" "PDE_IDX w \<noteq> 1023" "walk (mphys m') (mcr3 m) w = Some p"
    by (auto simp: mapped_frames_def)
  have w: "walk (mphys m') (mcr3 m) w =
      (if vpage (shared m) w = vpage (shared m) v then Some (pa + (w AND 0xfff)) else walk (mphys m) (mcr3 m) w)"
    using assms(1) g(2) by (simp add: map_post_def)
  show "g \<in> insert pa (mapped_frames (mphys m) (mcr3 m))"
  proof (cases "vpage (shared m) w = vpage (shared m) v")
    case True
    then show ?thesis using w g page_plus_offset [OF assms(2), of w] by simp
  next
    case False
    then have "walk (mphys m) (mcr3 m) w = Some p" using w g(3) by simp
    then show ?thesis unfolding mapped_frames_def using g(1,2) by blast
  qed
qed

definition same_shape :: "mem \<Rightarrow> mem \<Rightarrow> bool" where
  "same_shape m m' \<longleftrightarrow> pool_shape (kernel_pool m') = pool_shape (kernel_pool m) \<and>
     pool_shape (user_pool m') = pool_shape (user_pool m)"

lemma palloc_mem_wf:
  assumes wf: "mem_wf m" and ne: "free_frames (the_pool pf m) \<noteq> {}"
  shows "\<exists>f m1. palloc pf m = Inr (f, m1) \<and> f \<noteq> 0 \<and> f AND 0xfff = 0 \<and> f \<in> free_frames (the_pool pf m) \<and> mem_wf m1 \<and>
     mphys m1 = mphys m \<and> mcr3 m1 = mcr3 m \<and>
     free_frames (kernel_pool m1) = free_frames (kernel_pool m) - {f} \<and>
     free_frames (user_pool m1) = free_frames (user_pool m) - {f} \<and> same_shape m m1"
proof -
  have pw: "pool_wf (the_pool pf m)" using wf by (cases pf) (simp_all add: mem_wf_def)
  from palloc_spec [OF pw ne] obtain f p' where
    f: "palloc pf m = Inr (f, set_pool pf p' m)" "f \<in> free_frames (the_pool pf m)" "pool_wf p'"
      "free_frames p' = free_frames (the_pool pf m) - {f}" "pool_shape p' = pool_shape (the_pool pf m)"
    unfolding pool_shape_def by auto
  have sh: "same_shape m (set_pool pf p' m)" using f(5) by (cases pf) (simp_all add: same_shape_def set_pool_def)
  have a: "f \<noteq> 0" "f AND 0xfff = 0"
    using f(2) frame_of_aligned [OF pw] by (auto simp: free_frames_def)
  have o: "free_frames (kernel_pool (set_pool pf p' m)) = free_frames (kernel_pool m) - {f}"
    "free_frames (user_pool (set_pool pf p' m)) = free_frames (user_pool m) - {f}"
    using f(2,4) wf by (cases pf; auto simp: set_pool_def mem_wf_def)+
  have c: "mphys (set_pool pf p' m) = mphys m" "mcr3 (set_pool pf p' m) = mcr3 m"
    by (cases pf; simp add: set_pool_def)+
  have "pool_wf (kernel_pool (set_pool pf p' m))" "pool_wf (user_pool (set_pool pf p' m))"
    using f(3) wf by (cases pf; simp add: set_pool_def mem_wf_def)+
  then have "mem_wf (set_pool pf p' m)" using wf unfolding mem_wf_def o c by blast
  then show ?thesis using f(1,2) a o c sh by (intro exI [of _ f] exI [of _ "set_pool pf p' m"]) simp
qed

lemma page_table_add_mem_wf:
  assumes wf: "mem_wf m" and v: "PDE_IDX v \<noteq> 1023" and un: "walk (mphys m) (mcr3 m) v = None"
    and al: "pa AND 0xfff = 0" and pa: "pa \<notin> free_frames (kernel_pool m)" "pa \<notin> free_frames (user_pool m)"
    and ne: "free_frames (kernel_pool m) \<noteq> {}"
  shows "\<exists>m'. page_table_add v pa m = Inr m' \<and> map_post v pa m m' \<and> mem_wf m'"
proof -
  have a: "tables_ok (mphys m) (mcr3 m)" "pool_wf (kernel_pool m)"
    "free_frames (kernel_pool m) \<inter> table_frames (mphys m) (mcr3 m) = {}" using wf by (auto simp: mem_wf_def)
  from page_table_add_spec [OF a(1) v un al a(2) ne a(3)] obtain m' where
    m': "page_table_add v pa m = Inr m'" and mp: "map_post v pa m m'" by blast
  from mp obtain T where T: "free_frames (kernel_pool m') = free_frames (kernel_pool m) - T"
    "T \<subseteq> free_frames (kernel_pool m)" "table_frames (mphys m') (mcr3 m) = table_frames (mphys m) (mcr3 m) \<union> T"
    by (auto simp: map_post_def)
  have "mem_wf m'"
    unfolding mem_wf_def
  proof (intro conjI)
    show "tables_ok (mphys m') (mcr3 m')" "pool_wf (kernel_pool m')" using mp unfolding map_post_def by blast+
    have u: "user_pool m' = user_pool m" "mcr3 m' = mcr3 m" using mp by (simp_all add: map_post_def)
    show "pool_wf (user_pool m')" using wf u by (simp add: mem_wf_def)
    show "free_frames (kernel_pool m') \<inter> free_frames (user_pool m') = {}"
      using wf u T(1) by (auto simp: mem_wf_def)
    show "(free_frames (kernel_pool m') \<union> free_frames (user_pool m')) \<inter>
       (table_frames (mphys m') (mcr3 m') \<union> mapped_frames (mphys m') (mcr3 m')) = {}"
      unfolding u T using mapped_frames_map [OF mp al] pa wf T(2) unfolding mem_wf_def by blast
  qed
  with m' mp show ?thesis by blast
qed

lemma page_step_high:
  assumes "4194304 \<le> unat v" and "unat (v + of_nat k * PG_SIZE) = unat v + k * 4096"
  shows "PDE_IDX (v + of_nat k * PG_SIZE) \<noteq> 0"
proof
  assume "PDE_IDX (v + of_nat k * PG_SIZE) = 0"
  then have "unat (v + of_nat k * PG_SIZE) div 4194304 = 0" by (metis unat_PDE_IDX unat_0)
  then show False using assms by simp
qed

lemma page_step:
  assumes al: "unat v mod 4096 = 0" and le: "unat v + Suc n * 4096 \<le> 4290772992" and k: "k \<le> n"
  shows "unat (v + of_nat k * PG_SIZE) = unat v + k * 4096" and "PDE_IDX (v + of_nat k * PG_SIZE) \<noteq> 1023"
    and "(v + of_nat k * PG_SIZE) AND 0xfffff000 = v + of_nat k * PG_SIZE" and "(v + of_nat k * PG_SIZE) AND 0xfff = 0"
proof -
  let ?w = "v + of_nat k * PG_SIZE"
  have kk: "k * 4096 \<le> n * 4096" using k by simp
  have lt: "unat v + k * 4096 < 4290772992" using kk le by simp
  then have m: "unat (of_nat k * PG_SIZE :: u32) = k * 4096"
    by (subst unat_mult_small) (simp_all add: PG_SIZE_def)
  show u: "unat ?w = unat v + k * 4096" using lt m by (subst unat_add_small) simp_all
  have "unat (PDE_IDX ?w) < 1023" unfolding unat_PDE_IDX u using lt by (simp add: div_less_iff_less_mult)
  then show "PDE_IDX ?w \<noteq> 1023" by auto
  have md: "(unat v + k * 4096) mod 4096 = 0" using al by simp
  have "unat (?w AND 0xfffff000) = unat ?w" unfolding unat_page u using md by auto
  then show "?w AND 0xfffff000 = ?w" by (rule unsigned_word_eqI)
  have "unat (?w AND 0xfff) = unat (0 :: u32)" unfolding unat_offset u using md by simp
  then show "?w AND 0xfff = 0" by (rule unsigned_word_eqI)
qed

text \<open>What a successful \<open>map_pages\<close> leaves behind: \<open>fs\<close> are the frames it took; other frames that are no
  longer free hold new tables.\<close>

definition pages_mapped :: "nat \<Rightarrow> pool_flags \<Rightarrow> u32 \<Rightarrow> mem \<Rightarrow> mem \<Rightarrow> u32 list \<Rightarrow> bool" where
  "pages_mapped n pf v m m' fs \<longleftrightarrow> length fs = n \<and> distinct fs \<and> set fs \<subseteq> free_frames (the_pool pf m) \<and> mcr3 m' = mcr3 m \<and>
     (\<forall>k < n. walk (mphys m') (mcr3 m) (v + of_nat k * PG_SIZE) = Some (fs ! k)) \<and>
     (\<forall>w. PDE_IDX w \<noteq> 1023 \<and> (\<forall>k < n. vpage (shared m) w \<noteq> v + of_nat k * PG_SIZE) \<longrightarrow>
        walk (mphys m') (mcr3 m) w = walk (mphys m) (mcr3 m) w) \<and>
     low_shared (mphys m') (mcr3 m) = shared m \<and> same_shape m m' \<and>
     table_frames (mphys m') (mcr3 m) \<union> free_frames (kernel_pool m') =
       (table_frames (mphys m) (mcr3 m) \<union> free_frames (kernel_pool m)) - set fs"

lemma map_step:
  assumes wf: "mem_wf m" and v: "PDE_IDX v \<noteq> 1023" and un: "walk (mphys m) (mcr3 m) v = None"
    and ne: "free_frames (the_pool pf m) \<noteq> {}" and tw: "2 \<le> card (free_frames (kernel_pool m))"
  shows "\<exists>f m1 m2. palloc pf m = Inr (f, m1) \<and> f \<noteq> 0 \<and> f AND 0xfff = 0 \<and> page_table_add v f m1 = Inr m2 \<and> mem_wf m2 \<and>
     f \<in> free_frames (the_pool pf m) - free_frames (the_pool pf m2) \<and>
     free_frames (the_pool pf m2) \<subseteq> free_frames (the_pool pf m) \<and>
     card (free_frames (kernel_pool m)) \<le> card (free_frames (kernel_pool m2)) + 2 \<and>
     card (free_frames (user_pool m)) \<le> card (free_frames (user_pool m2)) + 1 \<and> mcr3 m2 = mcr3 m \<and>
     same_shape m m2 \<and> low_shared (mphys m2) (mcr3 m) = shared m \<and>
     table_frames (mphys m2) (mcr3 m) \<union> free_frames (kernel_pool m2) =
       (table_frames (mphys m) (mcr3 m) \<union> free_frames (kernel_pool m)) - {f} \<and>
     (\<forall>w. PDE_IDX w \<noteq> 1023 \<longrightarrow> walk (mphys m2) (mcr3 m) w =
        (if vpage (shared m) w = vpage (shared m) v then Some (f + (w AND 0xfff)) else walk (mphys m) (mcr3 m) w))"
proof -
  from palloc_mem_wf [OF wf ne] obtain f m1 where
    f: "palloc pf m = Inr (f, m1)" "f \<noteq> 0" "f AND 0xfff = 0" "f \<in> free_frames (the_pool pf m)" "mem_wf m1"
      "mphys m1 = mphys m" "mcr3 m1 = mcr3 m" "free_frames (kernel_pool m1) = free_frames (kernel_pool m) - {f}"
      "free_frames (user_pool m1) = free_frames (user_pool m) - {f}" "same_shape m m1" by blast
  have k1: "card (free_frames (kernel_pool m)) \<le> card (free_frames (kernel_pool m1)) + 1"
    "card (free_frames (user_pool m)) \<le> card (free_frames (user_pool m1)) + 1"
    unfolding f(8,9) by (auto simp: card_Diff_singleton_if)
  then have ne1: "free_frames (kernel_pool m1) \<noteq> {}" using tw by auto
  from page_table_add_mem_wf [of m1 v f] f v un ne1 obtain m2 where
    m2: "page_table_add v f m1 = Inr m2" "map_post v f m1 m2" "mem_wf m2" by auto
  from m2(2) obtain T where T: "free_frames (kernel_pool m2) = free_frames (kernel_pool m1) - T" "card T \<le> 1" "finite T"
    "user_pool m2 = user_pool m1" "mcr3 m2 = mcr3 m1" "T \<subseteq> free_frames (kernel_pool m1)"
    "table_frames (mphys m2) (mcr3 m1) = table_frames (mphys m1) (mcr3 m1) \<union> T"
    unfolding map_post_def by blast
  have sh: "same_shape m m2" "low_shared (mphys m2) (mcr3 m) = shared m" using m2(2) f(6,7,10) by (simp_all add: same_shape_def map_post_def)
  have nt: "f \<notin> table_frames (mphys m) (mcr3 m)" using f(4) wf by (cases pf) (auto simp: mem_wf_def)
  have tb: "table_frames (mphys m2) (mcr3 m) \<union> free_frames (kernel_pool m2) =
      (table_frames (mphys m) (mcr3 m) \<union> free_frames (kernel_pool m)) - {f}"
    using T(1,6,7) f(6,7,8) nt by auto
  have "card (free_frames (kernel_pool m1)) \<le> card (free_frames (kernel_pool m2)) + 1"
    using T(2) card_mono [of "free_frames (kernel_pool m2) \<union> T" "free_frames (kernel_pool m1)"]
      card_Un_le [of "free_frames (kernel_pool m2)" T] T(1,3) by auto
  moreover have "free_frames (the_pool pf m2) \<subseteq> free_frames (the_pool pf m) - {f}"
    using T(1,4) f(8,9) by (cases pf) auto
  moreover have "\<forall>w. PDE_IDX w \<noteq> 1023 \<longrightarrow> walk (mphys m2) (mcr3 m) w =
        (if vpage (shared m) w = vpage (shared m) v then Some (f + (w AND 0xfff)) else walk (mphys m) (mcr3 m) w)"
    using m2(2) f(6,7) by (simp add: map_post_def)
  moreover have "mcr3 m2 = mcr3 m" "user_pool m2 = user_pool m1" using T(4,5) f(7) by simp_all
  moreover have "f \<in> free_frames (the_pool pf m) - free_frames (the_pool pf m2)"
    using f(4) calculation(2) by blast
  moreover have "free_frames (the_pool pf m2) \<subseteq> free_frames (the_pool pf m)" using calculation(2) by blast
  moreover have "card (free_frames (kernel_pool m)) \<le> card (free_frames (kernel_pool m2)) + 2"
    "card (free_frames (user_pool m)) \<le> card (free_frames (user_pool m2)) + 1"
    using k1 calculation(1,5) by simp_all
  ultimately show ?thesis
    using f(1-3) m2(1,3) sh tb by (intro exI [of _ f] exI [of _ m1] exI [of _ m2] conjI) assumption+
qed

lemma next_page: "v + PG_SIZE + of_nat k * PG_SIZE = v + of_nat (Suc k) * PG_SIZE" for v :: u32
  by (simp add: algebra_simps)

lemma pages_mapped_Cons:
  assumes v0: "PDE_IDX v \<noteq> 1023" "vpage (shared m) v = v" "v AND 0xfff = 0"
    and nv: "\<And>k. k < n \<Longrightarrow> v + of_nat (Suc k) * PG_SIZE \<noteq> v" and c3: "mcr3 m2 = mcr3 m"
    and fr: "f \<in> free_frames (the_pool pf m) - free_frames (the_pool pf m2)"
      "free_frames (the_pool pf m2) \<subseteq> free_frames (the_pool pf m)"
    and wk: "\<And>w. PDE_IDX w \<noteq> 1023 \<Longrightarrow> walk (mphys m2) (mcr3 m) w =
        (if vpage (shared m) w = v then Some (f + (w AND 0xfff)) else walk (mphys m) (mcr3 m) w)"
    and sh: "same_shape m m2" "low_shared (mphys m2) (mcr3 m) = shared m" and tb: "table_frames (mphys m2) (mcr3 m) \<union> free_frames (kernel_pool m2) =
       (table_frames (mphys m) (mcr3 m) \<union> free_frames (kernel_pool m)) - {f}"
    and r: "pages_mapped n pf (v + PG_SIZE) m2 m' fs"
  shows "pages_mapped (Suc n) pf v m m' (f # fs)"
  unfolding pages_mapped_def
proof (intro conjI allI impI)
  show "length (f # fs) = Suc n" "distinct (f # fs)" "set (f # fs) \<subseteq> free_frames (the_pool pf m)" "mcr3 m' = mcr3 m"
    using r fr c3 by (auto simp: pages_mapped_def)
  show "same_shape m m'" "low_shared (mphys m') (mcr3 m) = shared m" using r sh c3 by (simp_all add: pages_mapped_def same_shape_def)
  have "table_frames (mphys m') (mcr3 m) \<union> free_frames (kernel_pool m') =
      (table_frames (mphys m2) (mcr3 m) \<union> free_frames (kernel_pool m2)) - set fs" using r c3 by (simp add: pages_mapped_def same_shape_def)
  then show "table_frames (mphys m') (mcr3 m) \<union> free_frames (kernel_pool m') =
      (table_frames (mphys m) (mcr3 m) \<union> free_frames (kernel_pool m)) - set (f # fs)" unfolding tb by auto
next
  fix k assume k: "k < Suc n"
  show "walk (mphys m') (mcr3 m) (v + of_nat k * PG_SIZE) = Some ((f # fs) ! k)"
  proof (cases k)
    case 0
    have "walk (mphys m') (mcr3 m) v = walk (mphys m2) (mcr3 m) v"
      using r v0 nv unfolding pages_mapped_def c3 sh(2) next_page by auto
    then show ?thesis using 0 wk [OF v0(1)] v0 by simp
  next
    case (Suc j)
    then show ?thesis using r k unfolding pages_mapped_def c3 next_page by (simp del: of_nat_Suc)
  qed
next
  fix w assume "PDE_IDX w \<noteq> 1023 \<and> (\<forall>k < Suc n. vpage (shared m) w \<noteq> v + of_nat k * PG_SIZE)"
  then have w: "PDE_IDX w \<noteq> 1023" "vpage (shared m) w \<noteq> v" "\<And>k. k < n \<Longrightarrow> vpage (shared m) w \<noteq> v + of_nat (Suc k) * PG_SIZE"
    by (auto dest: spec [of _ 0])
  then have "walk (mphys m') (mcr3 m) w = walk (mphys m2) (mcr3 m) w"
    using r unfolding pages_mapped_def c3 sh(2) next_page by blast
  then show "walk (mphys m') (mcr3 m) w = walk (mphys m) (mcr3 m) w" using wk [OF w(1)] w(2) by simp
qed

lemma map_pages_spec:
  assumes "mem_wf m" and "unat v mod 4096 = 0" and "unat v + n * 4096 \<le> 4290772992" and "4194304 \<le> unat v"
    and "\<And>k. k < n \<Longrightarrow> walk (mphys m) (mcr3 m) (v + of_nat k * PG_SIZE) = None"
    and "2 * n \<le> card (free_frames (kernel_pool m))" and "n \<le> card (free_frames (the_pool pf m))"
  shows "\<exists>m' fs. map_pages n pf v m = Inr (True, m') \<and> mem_wf m' \<and> pages_mapped n pf v m m' fs"
  using assms
proof (induction n arbitrary: v m)
  case 0
  then show ?case by (intro exI [of _ m] exI [of _ "[]"]) (simp add: pages_mapped_def same_shape_def)
next
  case (Suc n)
  note st = page_step [OF Suc.prems(2,3)]
  have hi: "vpage sh (v + of_nat k * PG_SIZE) = v + of_nat k * PG_SIZE" if "k \<le> n" for k sh
    using page_step_high [OF Suc.prems(4) st(1) [OF that]] st(3) [OF that] by (simp add: vpage_high)
  have v0: "PDE_IDX v \<noteq> 1023" "vpage (shared m) v = v" "v AND 0xfff = 0" "walk (mphys m) (mcr3 m) v = None"
    using st(2,4) [of 0] hi [of 0] Suc.prems(5) [of 0] by simp_all
  have ne: "free_frames (the_pool pf m) \<noteq> {}" "2 \<le> card (free_frames (kernel_pool m))"
    using Suc.prems(6,7) by auto
  from map_step [OF Suc.prems(1) v0(1,4) ne] obtain f m1 m2 where
    p: "palloc pf m = Inr (f, m1)" "f \<noteq> 0" "f AND 0xfff = 0" "page_table_add v f m1 = Inr m2" and wf2: "mem_wf m2" and
    fr: "f \<in> free_frames (the_pool pf m) - free_frames (the_pool pf m2)"
      "free_frames (the_pool pf m2) \<subseteq> free_frames (the_pool pf m)" and
    cd: "card (free_frames (kernel_pool m)) \<le> card (free_frames (kernel_pool m2)) + 2"
      "card (free_frames (user_pool m)) \<le> card (free_frames (user_pool m2)) + 1" and c3: "mcr3 m2 = mcr3 m" and
    wk: "\<And>w. PDE_IDX w \<noteq> 1023 \<Longrightarrow> walk (mphys m2) (mcr3 m) w =
        (if vpage (shared m) w = v then Some (f + (w AND 0xfff)) else walk (mphys m) (mcr3 m) w)"
    and sh: "same_shape m m2" "low_shared (mphys m2) (mcr3 m) = shared m" and tb: "table_frames (mphys m2) (mcr3 m) \<union> free_frames (kernel_pool m2) =
       (table_frames (mphys m) (mcr3 m) \<union> free_frames (kernel_pool m)) - {f}"
    unfolding v0(2) by blast
  have nv: "v + of_nat (Suc k) * PG_SIZE \<noteq> v" if "k < n" for k
    using st(1) [of "Suc k"] that by (metis Suc_leI add_cancel_right_right mult_is_0 nat.distinct(1) zero_neq_numeral)
  have "\<exists>m' fs. map_pages n pf (v + PG_SIZE) m2 = Inr (True, m') \<and> mem_wf m' \<and> pages_mapped n pf (v + PG_SIZE) m2 m' fs"
  proof (cases "n = 0")
    case True
    then show ?thesis using wf2 by (intro exI [of _ m2] exI [of _ "[]"]) (simp add: pages_mapped_def same_shape_def)
  next
    case False
    then have u: "unat (v + PG_SIZE) = unat v + 4096" using st(1) [of 1] by simp
    show ?thesis
    proof (rule Suc.IH [OF wf2])
      show "unat (v + PG_SIZE) mod 4096 = 0" "unat (v + PG_SIZE) + n * 4096 \<le> 4290772992" "4194304 \<le> unat (v + PG_SIZE)"
        using u Suc.prems(2,3,4) by simp_all
      show "2 * n \<le> card (free_frames (kernel_pool m2))" "n \<le> card (free_frames (the_pool pf m2))"
        using cd Suc.prems(6,7) by (auto split: pool_flags.splits)
      show "walk (mphys m2) (mcr3 m2) (v + PG_SIZE + of_nat k * PG_SIZE) = None" if "k < n" for k
        unfolding next_page c3 using wk [OF st(2) [of "Suc k"]] hi [of "Suc k"] nv [OF that] Suc.prems(5) [of "Suc k"] that
        by (simp del: of_nat_Suc)
    qed
  qed
  then obtain m' fs where r: "map_pages n pf (v + PG_SIZE) m2 = Inr (True, m')" "mem_wf m'"
    "pages_mapped n pf (v + PG_SIZE) m2 m' fs" by blast
  have e: "map_pages (Suc n) pf v m = Inr (True, m')" using p r(1) by simp
  have "pages_mapped (Suc n) pf v m m' (f # fs)"
    using v0 nv c3 fr wk sh tb r(3) by (intro pages_mapped_Cons) auto
  with e r(2) show ?case by blast
qed

text \<open>Taking a run of virtual pages.\<close>

lemma set_bits_spec:
  assumes "bitmap_wf b" and "r + n \<le> nbits b" and "v = 0 \<or> v = 1"
  shows "\<exists>b'. set_bits n b (of_nat r) v = Inr b' \<and> bitmap_wf b' \<and> nbits b' = nbits b \<and>
     (\<forall>k < nbits b. bit_at b' k = (if r \<le> k \<and> k < r + n then v = 1 else bit_at b k))"
  using assms
proof (induction n arbitrary: b r)
  case (Suc n)
  from bm.put_one [OF Suc.prems(1) _ Suc.prems(3), of r] Suc.prems(2) obtain b1 where
    b1: "bitmap_set b (of_nat r) v = Inr b1" "bitmap_wf b1" "nbits b1 = nbits b"
      "\<forall>k < nbits b. bit_at b1 k = (if k = r then v = 1 else bit_at b k)" by auto
  from Suc.IH [of b1 "Suc r"] b1(2,3) Suc.prems obtain b2 where
    b2: "set_bits n b1 (of_nat (Suc r)) v = Inr b2" "bitmap_wf b2" "nbits b2 = nbits b"
      "\<forall>k < nbits b. bit_at b2 k = (if Suc r \<le> k \<and> k < Suc r + n then v = 1 else bit_at b1 k)" by auto
  have "set_bits (Suc n) b (of_nat r) v = Inr b2" using b1(1) b2(1) by (simp add: add.commute)
  then show ?case using b1(4) b2 by (intro exI [of _ b2]) auto
qed auto

text \<open>\<open>va_run va r n\<close>: the pages \<open>r .. r + n - 1\<close> of a virtual pool, below the tables and above the first 4 MB.\<close>

definition va_run :: "virtual_addr \<Rightarrow> nat \<Rightarrow> nat \<Rightarrow> bool" where
  "va_run va r n \<longleftrightarrow> bitmap_wf (vaddr_bitmap va) \<and> r + n \<le> nbits (vaddr_bitmap va) \<and> 4194304 \<le> unat (vaddr_start va) \<and>
     unat (vaddr_start va) mod 4096 = 0 \<and> unat (vaddr_start va) + nbits (vaddr_bitmap va) * 4096 \<le> 4290772992"

lemma va_run_start:
  assumes "va_run va r n" and "0 < n"
  defines "v \<equiv> vaddr_start va + of_nat r * PG_SIZE"
  shows "unat v = unat (vaddr_start va) + r * 4096" and "v \<noteq> 0" and "unat v mod 4096 = 0"
    and "unat v + n * 4096 \<le> 4290772992" and "4194304 \<le> unat v"
proof -
  have rn: "(r + n) * 4096 \<le> nbits (vaddr_bitmap va) * 4096" using assms(1) unfolding va_run_def by (intro mult_le_mono1) blast
  have s: "unat (vaddr_start va) + Suc r * 4096 \<le> 4290772992" using rn assms(1,2) by (simp add: va_run_def algebra_simps)
  show u: "unat v = unat (vaddr_start va) + r * 4096"
    unfolding v_def using assms(1) by (intro page_step(1) [OF _ s]) (simp_all add: va_run_def)
  show "v \<noteq> 0" "unat v mod 4096 = 0" "4194304 \<le> unat v" using u assms(1) by (auto simp: va_run_def)
  show "unat v + n * 4096 \<le> 4290772992" unfolding u using rn assms(1) by (simp add: va_run_def algebra_simps)
qed

lemma vaddr_get_kernel:
  assumes run: "va_run (kernel_vaddr m) r n" and n: "0 < n" "unat pg_cnt = n"
    and sc: "bitmap_scan (vaddr_bitmap (kernel_vaddr m)) pg_cnt = Inr (int r)"
  shows "\<exists>b. vaddr_get PF_KERNEL pg_cnt m = Inr (vaddr_start (kernel_vaddr m) + of_nat r * PG_SIZE,
        m\<lparr>kernel_vaddr := (kernel_vaddr m)\<lparr>vaddr_bitmap := b\<rparr>\<rparr>) \<and>
     bitmap_wf b \<and> nbits b = nbits (vaddr_bitmap (kernel_vaddr m)) \<and>
     (\<forall>k < nbits b. bit_at b k \<longleftrightarrow> r \<le> k \<and> k < r + n \<or> bit_at (vaddr_bitmap (kernel_vaddr m)) k)"
proof -
  from set_bits_spec [of "vaddr_bitmap (kernel_vaddr m)" r n 1] run obtain b where
    b: "set_bits n (vaddr_bitmap (kernel_vaddr m)) (of_nat r) 1 = Inr b" "bitmap_wf b"
      "nbits b = nbits (vaddr_bitmap (kernel_vaddr m))"
      "\<forall>k < nbits b. bit_at b k = (if r \<le> k \<and> k < r + n then True else bit_at (vaddr_bitmap (kernel_vaddr m)) k)"
    by (auto simp: va_run_def)
  have "vaddr_get PF_KERNEL pg_cnt m = Inr (vaddr_start (kernel_vaddr m) + of_nat r * PG_SIZE,
        m\<lparr>kernel_vaddr := (kernel_vaddr m)\<lparr>vaddr_bitmap := b\<rparr>\<rparr>)"
    using sc b(1) n(2) by (simp add: vaddr_get_def set_vaddr_def Let_def)
  then show ?thesis using b by (intro exI [of _ b]) auto
qed

lemma mem_wf_lock [simp]:
  "mem_wf (set_pool pf ((the_pool pf m)\<lparr>pool_locked := l\<rparr>) m) = mem_wf m"
  "mem_wf (m\<lparr>kernel_vaddr := va\<rparr>) = mem_wf m" "mem_wf (m\<lparr>userprog_vaddr := va\<rparr>) = mem_wf m"
  "free_frames (p\<lparr>pool_locked := l\<rparr>) = free_frames p"
proof -
  have fo: "frame_of (p\<lparr>pool_locked := l\<rparr>) = frame_of p" for p l by (rule ext) (simp add: frame_of_def)
  show ff: "free_frames (p\<lparr>pool_locked := l\<rparr>) = free_frames p" for p by (simp add: free_frames_def fo)
  have "pool_wf (p\<lparr>pool_locked := l\<rparr>) = pool_wf p" for p by (simp add: pool_wf_def)
  then show "mem_wf (set_pool pf ((the_pool pf m)\<lparr>pool_locked := l\<rparr>) m) = mem_wf m"
    using ff by (cases pf) (simp_all add: mem_wf_def set_pool_def)
qed (simp_all add: mem_wf_def)

text \<open>\<^verbatim>\<open>malloc_page\<close> when the virtual pool has the run: as many distinct free frames as pages, each
  mapped, and nothing else changed.\<close>

lemma malloc_page_kernel:
  fixes v :: u32
  assumes wf: "mem_wf m" and run: "va_run (kernel_vaddr m) r n" and n: "unat pg_cnt = n" "0 < n" "n < 3840"
    and sc: "bitmap_scan (vaddr_bitmap (kernel_vaddr m)) pg_cnt = Inr (int r)"
    and fr: "2 * n \<le> card (free_frames (kernel_pool m))"
  defines "v \<equiv> vaddr_start (kernel_vaddr m) + of_nat r * PG_SIZE"
  assumes un: "\<And>k. k < n \<Longrightarrow> walk (mphys m) (mcr3 m) (v + of_nat k * PG_SIZE) = None"
  shows "\<exists>m' fs. malloc_page PF_KERNEL pg_cnt m = Inr (v, m') \<and> mem_wf m' \<and> pages_mapped n PF_KERNEL v m m' fs"
proof -
  from vaddr_get_kernel [OF run n(2,1) sc] obtain b where
    b: "vaddr_get PF_KERNEL pg_cnt m = Inr (v, m\<lparr>kernel_vaddr := (kernel_vaddr m)\<lparr>vaddr_bitmap := b\<rparr>\<rparr>)"
    unfolding v_def by blast
  let ?m = "m\<lparr>kernel_vaddr := (kernel_vaddr m)\<lparr>vaddr_bitmap := b\<rparr>\<rparr>"
  note vs = va_run_start [OF run n(2), folded v_def]
  from map_pages_spec [of ?m v n PF_KERNEL] wf vs(3-5) un fr obtain m' fs where
    r: "map_pages n PF_KERNEL v ?m = Inr (True, m')" "mem_wf m'" "pages_mapped n PF_KERNEL v ?m m' fs" by auto
  have "pg_cnt > 0 \<and> pg_cnt < 3840" using n by (simp add: word_less_nat_alt)
  then have "malloc_page PF_KERNEL pg_cnt m = Inr (v, m')"
    using b r(1) vs(2) n(1) by (simp add: malloc_page_def ASSERT_def)
  moreover have "pages_mapped n PF_KERNEL v m m' fs" using r(3) by (simp add: pages_mapped_def same_shape_def)
  ultimately show ?thesis using r(2) by blast
qed

lemma pool_release_same [simp]:
  "mphys (pool_release pf m) = mphys m" "mcr3 (pool_release pf m) = mcr3 m" "mem_wf (pool_release pf m) = mem_wf m"
proof -
  show "mphys (pool_release pf m) = mphys m" "mcr3 (pool_release pf m) = mcr3 m"
    by (cases pf; simp add: pool_release_def set_pool_def)+
  show "mem_wf (pool_release pf m) = mem_wf m" unfolding pool_release_def by (rule mem_wf_lock)
qed

lemma pool_lock_shape:
  "pool_shape (kernel_pool (set_pool pf ((the_pool pf m)\<lparr>pool_locked := l\<rparr>) m)) = pool_shape (kernel_pool m)"
  "pool_shape (user_pool (set_pool pf ((the_pool pf m)\<lparr>pool_locked := l\<rparr>) m)) = pool_shape (user_pool m)"
  "free_frames (kernel_pool (set_pool pf ((the_pool pf m)\<lparr>pool_locked := l\<rparr>) m)) = free_frames (kernel_pool m)"
  by (cases pf; simp add: set_pool_def pool_shape_def)+

lemmas pool_release_shape = pool_lock_shape [where l = False, folded pool_release_def]

lemma frame_page: "pool_wf p \<Longrightarrow> f \<in> free_frames p \<Longrightarrow> f AND 0xfffff000 = f"
  using frame_of_aligned(1) [of p] page_plus_offset [of _ 0] by (auto simp: free_frames_def)

section \<open>Clearing pages\<close>

text \<open>Writing to frames that hold no table changes no translation.\<close>

lemma frame_writes:
  assumes ok: "tables_ok phys cr3" and nt: "F \<inter> table_frames phys cr3 = {}"
    and eq: "\<And>a. a AND 0xfffff000 \<notin> F \<Longrightarrow> phys' a = phys a"
  shows "tables_ok phys' cr3" and "table_frames phys' cr3 = table_frames phys cr3" and "walk phys' cr3 w = walk phys cr3 w"
    and "low_shared phys' cr3 = low_shared phys cr3"
proof -
  have b: "pd_base cr3 \<notin> F" using nt by (auto simp: table_frames_def)
  have en: "pd_entry phys' cr3 i = pd_entry phys cr3 i" if "unat i < 1024" for i
    using eq [of "pd_base cr3 + i * 4"] pd_word_page [OF that, of cr3] b by (simp add: pd_entry_def)
  have pr: "pd_present phys' cr3 i \<longleftrightarrow> pd_present phys cr3 i" for i using en [of i] by (auto simp: pd_present_def)
  have e': "pd_present phys cr3 i \<Longrightarrow> pd_entry phys' cr3 i = pd_entry phys cr3 i" for i using en [of i] by (auto simp: pd_present_def)
  have sm: "self_mapped phys' cr3 = self_mapped phys cr3" using en [of 1023] by (simp add: self_mapped_def pd_entry_def)
  show "tables_ok phys' cr3" using ok unfolding tables_ok_def sm pr by (simp add: e' cong: imp_cong)
  show "low_shared phys' cr3 = low_shared phys cr3" using e' [of 0] e' [of 768] by (auto simp: low_shared_def pr)
  have "(a = pd_entry phys' cr3 i AND 0xfffff000 \<and> pd_present phys' cr3 i) =
      (a = pd_entry phys cr3 i AND 0xfffff000 \<and> pd_present phys cr3 i)" for a i
    using e' [of i] pr [of i] by auto
  then show "table_frames phys' cr3 = table_frames phys cr3" by (simp only: table_frames_def)
  have pd: "pde_of phys' cr3 w = pde_of phys cr3 w" using en [OF PDE_IDX_lt [of w]] by (simp add: pde_of_entry)
  then have pa: "pte_addr phys' cr3 w = pte_addr phys cr3 w" by (simp add: pte_addr_def)
  have pg: "pte_addr phys cr3 w AND 0xfffff000 = pd_entry phys cr3 (PDE_IDX w) AND 0xfffff000"
    using entry_page [OF PTE_IDX_lt [of w], of "pd_entry phys cr3 (PDE_IDX w)"] by (simp add: pte_addr_def pde_of_entry)
  have nf: "pd_entry phys cr3 (PDE_IDX w) AND 0xfffff000 \<notin> F" if p: "pde_of phys cr3 w AND PG_P_1 \<noteq> 0"
  proof (cases "PDE_IDX w = 1023")
    case True
    then show ?thesis using ok b by (simp add: tables_ok_def self_mapped_def pd_entry_def)
  next
    case False
    then have "pd_present phys cr3 (PDE_IDX w)" using p PDE_IDX_lt' [of w] by (simp add: pd_present_def pde_of_entry)
    then show ?thesis using nt by (auto simp: table_frames_def)
  qed
  show "walk phys' cr3 w = walk phys cr3 w"
    unfolding walk_alt pd pa using eq [of "pte_addr phys cr3 w"] nf pg by auto
qed

lemma zero_pages_spec:
  assumes "tables_ok (mphys m) (mcr3 m)" and "set fs \<inter> table_frames (mphys m) (mcr3 m) = {}"
    and "\<And>k. k < length fs \<Longrightarrow> walk (mphys m) (mcr3 m) (v + of_nat k * PG_SIZE) = Some (fs ! k)"
    and "\<And>f. f \<in> set fs \<Longrightarrow> f AND 0xfffff000 = f"
    and "unat v mod 4096 = 0" and "unat v + length fs * 4096 \<le> 4290772992"
  shows "zero_pages (length fs) v m = Inr (m\<lparr>mphys := \<lambda>a. if a AND 0xfffff000 \<in> set fs then 0 else mphys m a\<rparr>)"
  using assms
proof (induction fs arbitrary: v m)
  case (Cons f fs)
  have le: "unat v + Suc (length fs) * 4096 \<le> 4290772992" using Cons.prems(6) by simp
  note st = page_step [OF Cons.prems(5) le]
  let ?ph = "\<lambda>a. if a AND 0xfffff000 = f then 0 else mphys m a"
  have w0: "walk (mphys m) (mcr3 m) (v AND 0xfffff000) = Some f" using Cons.prems(3) [of 0] st(3) [of 0] by simp
  have z: "vzero_page (mphys m) (mcr3 m) v = Inr ?ph" using w0 Cons.prems(4) [of f] by (simp add: vzero_page_def)
  have fw: "tables_ok ?ph (mcr3 m)" "table_frames ?ph (mcr3 m) = table_frames (mphys m) (mcr3 m)"
    "walk ?ph (mcr3 m) w = walk (mphys m) (mcr3 m) w" for w
    using Cons.prems(2) by (intro frame_writes [OF Cons.prems(1), of "{f}"]; simp)+
  have "zero_pages (length fs) (v + PG_SIZE) (m\<lparr>mphys := ?ph\<rparr>) =
      Inr (m\<lparr>mphys := ?ph\<rparr>\<lparr>mphys := \<lambda>a. if a AND 0xfffff000 \<in> set fs then 0 else ?ph a\<rparr>)"
  proof (cases "fs = []")
    case False
    then have u: "unat (v + PG_SIZE) = unat v + 4096" using st(1) [of 1] by (simp add: Suc_le_eq)
    have "walk (mphys m) (mcr3 m) (v + PG_SIZE + of_nat k * PG_SIZE) = Some (fs ! k)" if "k < length fs" for k
      unfolding next_page using Cons.prems(3) [of "Suc k"] that by (simp del: of_nat_Suc)
    then show ?thesis
      using Cons.prems(2,4,5) le fw by (subst Cons.IH) (simp_all add: u cong: if_cong)
  qed simp
  moreover have "(\<lambda>a. if a AND 0xfffff000 \<in> set fs then 0 else ?ph a) =
      (\<lambda>a. if a AND 0xfffff000 \<in> set (f # fs) then 0 else mphys m a)" by auto
  ultimately show ?case using z by simp
qed simp

text \<open>The pages just mapped are cleared without disturbing the mapping.\<close>

lemma zero_mapped:
  assumes wf: "mem_wf m" "mem_wf m'" and pm: "pages_mapped n PF_KERNEL v m m' fs"
    and v: "unat v mod 4096 = 0" "unat v + n * 4096 \<le> 4290772992"
  shows "\<exists>ph. zero_pages n v m' = Inr (m'\<lparr>mphys := ph\<rparr>) \<and> mem_wf (m'\<lparr>mphys := ph\<rparr>) \<and>
     pages_mapped n PF_KERNEL v m (m'\<lparr>mphys := ph\<rparr>) fs \<and> (\<forall>a. a AND 0xfffff000 \<in> set fs \<longrightarrow> ph a = 0)"
proof -
  let ?ph = "\<lambda>a. if a AND 0xfffff000 \<in> set fs then 0 else mphys m' a"
  have fs: "set fs \<subseteq> free_frames (kernel_pool m)" "length fs = n" "mcr3 m' = mcr3 m" using pm by (simp_all add: pages_mapped_def)
  have nt: "set fs \<inter> table_frames (mphys m') (mcr3 m') = {}"
    using pm unfolding pages_mapped_def fs(3) by blast
  have pw: "pool_wf (kernel_pool m)" "tables_ok (mphys m') (mcr3 m')" using wf by (simp_all add: mem_wf_def)
  have al: "f AND 0xfffff000 = f" if "f \<in> set fs" for f using that fs(1) frame_page [OF pw(1)] by blast
  have z: "zero_pages n v m' = Inr (m'\<lparr>mphys := ?ph\<rparr>)"
    using pm fs zero_pages_spec [OF pw(2) nt _ al v(1)] v by (simp add: pages_mapped_def)
  have fw: "tables_ok ?ph (mcr3 m')" "table_frames ?ph (mcr3 m') = table_frames (mphys m') (mcr3 m')"
    "walk ?ph (mcr3 m') w = walk (mphys m') (mcr3 m') w" "low_shared ?ph (mcr3 m') = shared m'" for w
    by (rule frame_writes [OF pw(2) nt]; simp)+
  have "mem_wf (m'\<lparr>mphys := ?ph\<rparr>)" using wf(2) fw by (simp add: mem_wf_def mapped_frames_def)
  moreover have "pages_mapped n PF_KERNEL v m (m'\<lparr>mphys := ?ph\<rparr>) fs"
    using pm fw unfolding fs(3) by (simp add: pages_mapped_def same_shape_def)
  ultimately show ?thesis using z by (intro exI [of _ ?ph]) simp
qed

lemma get_kernel_pages_spec:
  fixes v :: u32
  assumes wf: "mem_wf m" and run: "va_run (kernel_vaddr m) r n" and n: "unat pg_cnt = n" "0 < n" "n < 3840"
    and sc: "bitmap_scan (vaddr_bitmap (kernel_vaddr m)) pg_cnt = Inr (int r)"
    and fr: "2 * n \<le> card (free_frames (kernel_pool m))" and ul: "\<not> pool_locked (kernel_pool m)"
    and v: "v = vaddr_start (kernel_vaddr m) + of_nat r * PG_SIZE"
    and un: "\<And>k. k < n \<Longrightarrow> walk (mphys m) (mcr3 m) (v + of_nat k * PG_SIZE) = None"
  shows "\<exists>m' fs. get_kernel_pages pg_cnt m = Inr (v, m') \<and> mem_wf m' \<and> pages_mapped n PF_KERNEL v m m' fs \<and>
     \<not> pool_locked (kernel_pool m') \<and> (\<forall>a. a AND 0xfffff000 \<in> set fs \<longrightarrow> mphys m' a = 0)"
proof -
  let ?m = "set_pool PF_KERNEL ((kernel_pool m)\<lparr>pool_locked := True\<rparr>) m"
  have aq: "pool_acquire PF_KERNEL m = Inr ?m" using ul by (simp add: pool_acquire_def)
  have s: "mem_wf ?m" using wf mem_wf_lock(1) [where pf = PF_KERNEL and m = m and l = True] by simp
  have e: "mphys ?m = mphys m" "mcr3 ?m = mcr3 m" "kernel_vaddr ?m = kernel_vaddr m"
    "free_frames (kernel_pool ?m) = free_frames (kernel_pool m)"
    "pool_shape (kernel_pool ?m) = pool_shape (kernel_pool m)" "pool_shape (user_pool ?m) = pool_shape (user_pool m)"
    by (simp_all add: set_pool_def pool_shape_def)
  note vs = va_run_start [OF run n(2), folded v]
  have "\<exists>m' fs. malloc_page PF_KERNEL pg_cnt ?m = Inr (v, m') \<and> mem_wf m' \<and> pages_mapped n PF_KERNEL v ?m m' fs"
    unfolding v e(3) [symmetric]
    by (rule malloc_page_kernel [OF s]) (use run n sc fr un v in \<open>simp_all only: e\<close>)
  then obtain m1 fs where r: "malloc_page PF_KERNEL pg_cnt ?m = Inr (v, m1)" "mem_wf m1"
    "pages_mapped n PF_KERNEL v ?m m1 fs" by blast
  from zero_mapped [OF s r(2,3) vs(3,4)] obtain ph where
    z: "zero_pages n v m1 = Inr (m1\<lparr>mphys := ph\<rparr>)" "mem_wf (m1\<lparr>mphys := ph\<rparr>)"
      "pages_mapped n PF_KERNEL v ?m (m1\<lparr>mphys := ph\<rparr>) fs" "\<forall>a. a AND 0xfffff000 \<in> set fs \<longrightarrow> ph a = 0" by blast
  let ?m' = "pool_release PF_KERNEL (m1\<lparr>mphys := ph\<rparr>)"
  have "get_kernel_pages pg_cnt m = Inr (v, ?m')" using aq r(1) z(1) vs(2) n(1) by (simp add: get_kernel_pages_def)
  moreover have "pages_mapped n PF_KERNEL v m ?m' fs"
    using z(3) e by (simp add: pages_mapped_def same_shape_def pool_release_shape)
  moreover have "\<not> pool_locked (kernel_pool ?m')" by (simp add: pool_release_def set_pool_def)
  ultimately show ?thesis using z(2,4) by (intro exI [of _ ?m'] exI [of _ fs]) simp
qed

lemma low_shared_walk: "low_shared phys cr3 \<Longrightarrow> PDE_IDX w = 0 \<Longrightarrow> walk phys cr3 w = walk phys cr3 (w + 0xc0000000)"
proof -
  assume a: "low_shared phys cr3" "PDE_IDX w = 0"
  have "vpage (low_shared phys cr3) w = vpage (low_shared phys cr3) (w + 0xc0000000)"
    unfolding vpage_eq using a low_alias [OF a(2)] by simp
  from vpage_pte [OF this] show ?thesis unfolding walk_alt low_alias(3) [OF a(2)] by auto
qed

section \<open>The kernel's directory\<close>

lemma word_in_page:
  fixes v i :: u32
  assumes "v AND 0xfffff000 = v" and "unat i < 1024"
  shows "(v + i * 4) AND 0xfffff000 = v" and "(v + i * 4) AND 0xfff = i * 4"
proof -
  have m: "unat (i * 4) = unat i * 4" using assms(2) by (simp add: unat_mult_small)
  have u: "unat (v + i * 4) = unat v div 4096 * 4096 + unat i * 4" using entry_addr [OF assms(2), of v] assms(1) by simp
  show "(v + i * 4) AND 0xfffff000 = v" using entry_page [OF assms(2), of v] assms(1) by simp
  have "unat ((v + i * 4) AND 0xfff) = unat (i * 4)"
    unfolding unat_offset u m using page_mod [of "unat i * 4" "unat v div 4096"] assms(2) by simp
  then show "(v + i * 4) AND 0xfff = i * 4" by (rule unsigned_word_eqI)
qed

text \<open>What \<^verbatim>\<open>setup_page\<close> of \<^verbatim>\<open>loader.S\<close> writes: the directory at 1 MB, with the table behind it in entries
  0 and 768, the next 254 frames as tables in the entries up to 1022, and itself in the last; in the first
  table the first megabyte. The other tables, and the rest of the first, are left as they are.\<close>

definition boot_dir :: "u32 \<Rightarrow> u32" where
  "boot_dir i = (if i = 0 then 0x101007 else if 768 \<le> i \<and> i < 1023 then 0x101007 + (i - 768) * 0x1000
     else if i = 1023 then 0x100007 else 0)"

definition setup_page :: "phys_mem \<Rightarrow> phys_mem" where
  "setup_page ph = (\<lambda>a.
     if a AND 0xfffff000 = 0x100000 then boot_dir (drop_bit 2 (a AND 0xfff))
     else if a AND 0xfffff000 = 0x101000 \<and> drop_bit 2 (a AND 0xfff) < 256 then drop_bit 2 (a AND 0xfff) * 0x1000 + 7
     else ph a)"

lemma drop_bit_4: "unat i < 1024 \<Longrightarrow> drop_bit 2 (i * 4) = i" for i :: u32
proof -
  assume "unat i < 1024"
  then have "unat (i * 4) = unat i * 4" by (simp add: unat_mult_small)
  then have "unat (drop_bit 2 (i * 4)) = unat i" unfolding unat_drop_bit_eq by (simp add: drop_bit_eq_div)
  then show ?thesis by (rule unsigned_word_eqI)
qed

lemma setup_page_word:
  assumes "f AND 0xfffff000 = f" and "unat i < 1024"
  shows "setup_page ph (f + i * 4) =
     (if f = 0x100000 then boot_dir i else if f = 0x101000 \<and> i < 256 then i * 0x1000 + 7 else ph (f + i * 4))"
  unfolding setup_page_def word_in_page [OF assms] drop_bit_4 [OF assms(2)] by simp

lemma boot_pd: "unat i < 1024 \<Longrightarrow> pd_entry (setup_page ph) 0x100000 i = boot_dir i"
  using setup_page_word [of "0x100000" i ph] by (simp add: pd_entry_def pd_base_def)

lemma boot_frame:
  assumes "unat i < 1023" and "boot_dir i AND PG_P_1 \<noteq> 0"
  shows "i = 0 \<or> 768 \<le> unat i"
    and "unat (boot_dir i AND 0xfffff000) = 0x101000 + (if i = 0 then 0 else unat i - 768) * 0x1000"
proof -
  show c: "i = 0 \<or> 768 \<le> unat i"
  proof (rule ccontr)
    assume "\<not> (i = 0 \<or> 768 \<le> unat i)"
    then have "\<not> 768 \<le> i" "i \<noteq> 0" "i \<noteq> 1023" using assms(1) by (auto simp: word_le_nat_alt)
    then show False using assms(2) by (simp add: boot_dir_def)
  qed
  show "unat (boot_dir i AND 0xfffff000) = 0x101000 + (if i = 0 then 0 else unat i - 768) * 0x1000"
  proof (cases "i = 0")
    case False
    then have i: "768 \<le> unat i" "768 \<le> i" "i < 1023" using c assms(1) by (auto simp: word_le_nat_alt word_less_nat_alt)
    have s: "unat (i - 768) = unat i - 768" using i(1) by (subst unat_sub_small) simp_all
    have m: "unat ((i - 768) * 0x1000) = (unat i - 768) * 4096" using s assms(1) by (subst unat_mult_small) simp_all
    have b: "unat (0x101007 + (i - 768) * 0x1000) = 1052679 + (unat i - 768) * 4096"
      using m assms(1) by (subst unat_add_small) simp_all
    have e: "boot_dir i = 0x101007 + (i - 768) * 0x1000" using False i by (simp add: boot_dir_def)
    show ?thesis unfolding unat_page e b using False by simp
  qed (simp add: boot_dir_def)
qed

lemma boot_present: "pd_present (setup_page ph) 0x100000 i \<longleftrightarrow> unat i < 1023 \<and> boot_dir i AND PG_P_1 \<noteq> 0"
  using boot_pd [of i ph] by (auto simp: pd_present_def)

lemma boot_tables_ok: "tables_ok (setup_page ph) 0x100000"
  unfolding tables_ok_def
proof (intro conjI allI impI)
  show "self_mapped (setup_page ph) 0x100000"
    using boot_pd [of 1023 ph] by (simp add: self_mapped_def pd_entry_def pd_base_def boot_dir_def PG_P_1_def)
next
  fix i assume "pd_present (setup_page ph) 0x100000 i"
  then have i: "unat i < 1023" "boot_dir i AND PG_P_1 \<noteq> 0" unfolding boot_present by simp_all
  then show "pd_entry (setup_page ph) 0x100000 i AND 0xfffff000 \<noteq> pd_base 0x100000"
    using boot_pd [of i ph] boot_frame(2) [OF i] by (auto simp: pd_base_def)
next
  fix i j assume "pd_present (setup_page ph) 0x100000 i" "pd_present (setup_page ph) 0x100000 j"
    and e: "pd_entry (setup_page ph) 0x100000 i AND 0xfffff000 = pd_entry (setup_page ph) 0x100000 j AND 0xfffff000"
  then have i: "unat i < 1023" "boot_dir i AND PG_P_1 \<noteq> 0" and j: "unat j < 1023" "boot_dir j AND PG_P_1 \<noteq> 0"
    unfolding boot_present by simp_all
  have "boot_dir i AND 0xfffff000 = boot_dir j AND 0xfffff000" using e boot_pd [of i ph] boot_pd [of j ph] i(1) j(1) by simp
  then have "(if i = 0 then 0 else unat i - 768) = (if j = 0 then 0 else unat j - 768)"
    using boot_frame(2) [OF i] boot_frame(2) [OF j] by simp
  moreover have "unat x = 768 \<Longrightarrow> x = 768" for x :: u32 by (rule unsigned_word_eqI) simp
  moreover have "i = j" if "768 \<le> unat i" "768 \<le> unat j" "unat i - 768 = unat j - 768"
  proof -
    have "unat i = unat j" using that by linarith
    then show ?thesis by (rule unsigned_word_eqI)
  qed
  ultimately show "i = j \<or> i = 0 \<and> j = 768 \<or> i = 768 \<and> j = 0"
    using boot_frame(1) [OF i] boot_frame(1) [OF j] by (auto split: if_splits)
qed

lemma boot_table_frames: "f \<in> table_frames (setup_page ph) 0x100000 \<Longrightarrow> unat f < 0x200000"
proof -
  assume f: "f \<in> table_frames (setup_page ph) 0x100000"
  have "unat (pd_entry (setup_page ph) 0x100000 i AND 0xfffff000) < 0x200000" if "pd_present (setup_page ph) 0x100000 i" for i
  proof -
    have i: "unat i < 1023" "boot_dir i AND PG_P_1 \<noteq> 0" using that unfolding boot_present by simp_all
    then show ?thesis using boot_pd [of i ph] boot_frame(2) [OF i] by auto
  qed
  then show ?thesis using f by (auto simp: table_frames_def pd_base_def)
qed

text \<open>Where memory was clear, only the first megabyte is mapped.\<close>

lemma boot_walk:
  assumes "PDE_IDX w \<noteq> 1023" and "walk (setup_page (\<lambda>_. 0)) 0x100000 w = Some p"
  shows "(PDE_IDX w = 0 \<or> PDE_IDX w = 768) \<and> unat (PTE_IDX w) < 256 \<and> p AND 0xfffff000 = PTE_IDX w * 0x1000"
proof -
  let ?ph = "setup_page (\<lambda>_. 0)" and ?f = "boot_dir (PDE_IDX w) AND 0xfffff000"
  have pd: "pde_of ?ph 0x100000 w = boot_dir (PDE_IDX w)" using boot_pd [OF PDE_IDX_lt] by (simp add: pde_of_entry)
  have pr: "boot_dir (PDE_IDX w) AND PG_P_1 \<noteq> 0" and p: "?ph (?f + PTE_IDX w * 4) AND PG_P_1 \<noteq> 0"
    "p = (?ph (?f + PTE_IDX w * 4) AND 0xfffff000) + (w AND 0xfff)"
    using assms(2) pd by (auto simp: walk_alt pte_addr_def split: if_splits)
  note i = PDE_IDX_lt' [OF assms(1)]
  have fp: "?f AND 0xfffff000 = ?f" by (simp add: and.assoc)
  note sw = setup_page_word [OF fp PTE_IDX_lt [of w], of "\<lambda>_. 0"] and bf = boot_frame [OF i pr]
  have nf: "?f \<noteq> 0x100000" using bf(2) by auto
  have t: "?f = 0x101000" "PTE_IDX w < 256" using p(1) nf sw by (auto split: if_splits)
  then have "PDE_IDX w = 0 \<or> unat (PDE_IDX w) = 768" using bf by (auto split: if_splits)
  then have d: "PDE_IDX w = 0 \<or> PDE_IDX w = 768" by (auto intro: unsigned_word_eqI)
  have l: "unat (PTE_IDX w) < 256" using t(2) by (simp add: word_less_nat_alt)
  have m: "unat (PTE_IDX w * 0x1000) = unat (PTE_IDX w) * 4096" using l by (subst unat_mult_small) simp_all
  have al: "PTE_IDX w * 0x1000 AND 0xfff = 0"
  proof (rule unsigned_word_eqI)
    show "unat (PTE_IDX w * 0x1000 AND 0xfff) = unat (0 :: u32)" unfolding unat_offset m by simp
  qed
  have "?ph (?f + PTE_IDX w * 4) AND 0xfffff000 = PTE_IDX w * 0x1000"
    using sw t nf page_plus_offset [OF al, of 7] by simp
  then have "p AND 0xfffff000 = PTE_IDX w * 0x1000" unfolding p(2) using page_plus_offset [OF al] by simp
  with d l show ?thesis by simp
qed

section \<open>Properties\<close>

text \<open>C6: Allocating kernel pages: when the kernel's virtual pool has the run of pages the scan returns
  and the kernel pool has a frame for every page and every table, \<^verbatim>\<open>get_kernel_pages\<close> returns
  the address of the run; each of its pages is mapped to a frame of its own that was free and is
  cleared, and the invariant (no free frame holds a table or is mapped) is kept. No other page is
  remapped. In the kernel's own directory, where the first 4 MB share their table with the 4 MB from
  0xc0000000 on, a page of the latter is also visible 3 GB below (\<open>vpage\<close> takes the two for one page), before
  and after.\<close>

theorem get_kernel_pages_maps:
  fixes v :: u32
  assumes "mem_wf m" and "va_run (kernel_vaddr m) r n" and "unat pg_cnt = n" and "0 < n" and "n < 3840"
    and "bitmap_scan (vaddr_bitmap (kernel_vaddr m)) pg_cnt = Inr (int r)"
    and "2 * n \<le> card (free_frames (kernel_pool m))" and "\<not> pool_locked (kernel_pool m)"
    and "v = vaddr_start (kernel_vaddr m) + of_nat r * PG_SIZE"
    and "\<And>k. k < n \<Longrightarrow> walk (mphys m) (mcr3 m) (v + of_nat k * PG_SIZE) = None"
  shows "\<exists>m' fs. get_kernel_pages pg_cnt m = Inr (v, m') \<and> mem_wf m' \<and> pages_mapped n PF_KERNEL v m m' fs \<and>
     \<not> pool_locked (kernel_pool m') \<and> (\<forall>a. a AND 0xfffff000 \<in> set fs \<longrightarrow> mphys m' a = 0) \<and>
     (\<forall>w. shared m \<and> PDE_IDX w = 0 \<longrightarrow> walk (mphys m') (mcr3 m') w = walk (mphys m') (mcr3 m') (w + 0xc0000000))"
proof -
  from get_kernel_pages_spec [OF assms] obtain m' fs where
    r: "get_kernel_pages pg_cnt m = Inr (v, m')" "mem_wf m'" "pages_mapped n PF_KERNEL v m m' fs" "\<not> pool_locked (kernel_pool m')"
      "\<forall>a. a AND 0xfffff000 \<in> set fs \<longrightarrow> mphys m' a = 0" by blast
  have "shared m' = shared m" using r(3) by (simp add: pages_mapped_def)
  then show ?thesis using r low_shared_walk [of "mphys m'" "mcr3 m'"] by blast
qed

text \<open>The machine at start-up, with the loader's directory, clear memory behind it, and eight free frames in
  each pool.\<close>

definition sample_pt :: phys_mem where
  "sample_pt = setup_page (\<lambda>_. 0)"

definition sample_pool :: "u32 \<Rightarrow> pool" where
  "sample_pool s = \<lparr>pool_bitmap = \<lparr>btmp_bytes_len = 1, bits = [0]\<rparr>, phy_addr_start = s, pool_size = 0x8000, pool_locked = False\<rparr>"

definition sample_mem :: mem where
  "sample_mem = \<lparr>mphys = sample_pt, mcr3 = 0x100000, mtlb = Map.empty, kernel_pool = sample_pool 0x200000, user_pool = sample_pool 0x300000,
     kernel_vaddr = \<lparr>vaddr_bitmap = \<lparr>btmp_bytes_len = 1, bits = [1]\<rparr>, vaddr_start = K_HEAP_START\<rparr>,
     userprog_vaddr = \<lparr>vaddr_bitmap = \<lparr>btmp_bytes_len = 1, bits = [0]\<rparr>, vaddr_start = 0x8048000\<rparr>, cur_pgdir = 0, cur_stack = 0xc009e000,
     arenas = (\<lambda>_. \<lparr>desc = None, large = False, cnt = 0\<rparr>), k_block_descs = block_desc_init, u_block_desc = block_desc_init\<rparr>"

lemma sample_unmapped: "walk sample_pt 0x100000 0xc0101000 = None"
proof (cases "walk sample_pt 0x100000 0xc0101000")
  case (Some p)
  then show ?thesis using boot_walk [of "0xc0101000" p] by (simp add: sample_pt_def PDE_IDX_def PTE_IDX_def)
qed

lemma sample_pool_wf: "unat s mod 4096 = 0 \<Longrightarrow> 0 < unat s \<Longrightarrow> unat s + 32768 \<le> 4294967296 \<Longrightarrow> pool_wf (sample_pool s)"
  by (simp add: pool_wf_def sample_pool_def bitmap_wf_def)

lemma free_frames_bounds:
  assumes "pool_wf p" and "f \<in> free_frames p"
  shows "unat (phy_addr_start p) \<le> unat f" and "unat f < unat (phy_addr_start p) + nbits (pool_bitmap p) * 4096"
  using assms unat_frame_of [OF assms(1)] by (auto simp: free_frames_def)

lemma card_free_frames:
  "pool_wf p \<Longrightarrow> card (free_frames p) = card {n. n < nbits (pool_bitmap p) \<and> \<not> bit_at (pool_bitmap p) n}"
  unfolding free_frames_def by (intro card_image inj_onI) (use frame_of_inj in blast)

lemma sample_mem_wf: "mem_wf sample_mem"
proof -
  have pw: "pool_wf (sample_pool 0x200000)" "pool_wf (sample_pool 0x300000)" by (rule sample_pool_wf; simp)+
  have b: "unat s \<le> unat f \<and> unat f < unat s + 32768" if "pool_wf (sample_pool s)" "f \<in> free_frames (sample_pool s)" for s f
    using free_frames_bounds [OF that] by (simp add: sample_pool_def)
  have lo: "0x200000 \<le> unat f" if "f \<in> free_frames (sample_pool 0x200000) \<union> free_frames (sample_pool 0x300000)" for f
    using that b [OF pw(1), of f] b [OF pw(2), of f] by auto
  have mf: "unat f < 0x100000" if "f \<in> mapped_frames sample_pt 0x100000" for f
  proof -
    from that obtain w p where w: "f = p AND 0xfffff000" "PDE_IDX w \<noteq> 1023" "walk sample_pt 0x100000 w = Some p"
      by (auto simp: mapped_frames_def)
    then have "unat (PTE_IDX w) < 256" "f = PTE_IDX w * 0x1000" using boot_walk [of w p] by (simp_all add: sample_pt_def)
    then show ?thesis by (simp add: unat_mult_small)
  qed
  have tf: "unat f < 0x200000" if "f \<in> table_frames sample_pt 0x100000" for f
    using boot_table_frames that by (simp add: sample_pt_def)
  have "free_frames (sample_pool 0x200000) \<inter> free_frames (sample_pool 0x300000) = {}"
    using b [OF pw(1)] b [OF pw(2)] by fastforce
  moreover have "(free_frames (sample_pool 0x200000) \<union> free_frames (sample_pool 0x300000)) \<inter>
      (table_frames sample_pt 0x100000 \<union> mapped_frames sample_pt 0x100000) = {}"
    using lo tf mf by force
  moreover have "tables_ok sample_pt 0x100000" unfolding sample_pt_def by (rule boot_tables_ok)
  ultimately show ?thesis using pw by (simp add: mem_wf_def sample_mem_def)
qed

lemma sample_card: "card (free_frames (kernel_pool sample_mem)) = 8"
proof -
  have "{n :: nat. n < 8 \<and> \<not> bit ([0 :: u8] ! (n div 8)) (n mod 8)} = {..< 8}" by auto
  then show ?thesis
    using card_free_frames [of "sample_pool 0x200000"] sample_mem_wf
    by (simp add: mem_wf_def sample_mem_def sample_pool_def bit_at_def)
qed

theorem get_kernel_pages_maps_witness:
  "\<exists>m' fs. get_kernel_pages 1 sample_mem = Inr (0xc0101000, m') \<and> mem_wf m' \<and>
     pages_mapped 1 PF_KERNEL 0xc0101000 sample_mem m' fs \<and> \<not> pool_locked (kernel_pool m') \<and>
     (\<forall>a. a AND 0xfffff000 \<in> set fs \<longrightarrow> mphys m' a = 0) \<and>
     (\<forall>w. shared sample_mem \<and> PDE_IDX w = 0 \<longrightarrow> walk (mphys m') (mcr3 m') w = walk (mphys m') (mcr3 m') (w + 0xc0000000))"
proof (rule get_kernel_pages_maps [where r = 1])
  let ?b = "\<lparr>btmp_bytes_len = 1, bits = [1]\<rparr>"
  show "mem_wf sample_mem" by (rule sample_mem_wf)
  show "va_run (kernel_vaddr sample_mem) 1 1" by (simp add: va_run_def sample_mem_def bitmap_wf_def K_HEAP_START_def)
  have "(LEAST n. \<not> bit_at ?b n) = 1" by (rule Least_equality) (auto simp: bit_at_def Suc_le_eq intro: ccontr)
  then have "bitmap_scan ?b 1 = Inr (int 1)"
    using bitmap_scan_one [of ?b 1] by (simp add: bitmap_wf_def bit_at_def)
  then show "bitmap_scan (vaddr_bitmap (kernel_vaddr sample_mem)) 1 = Inr (int 1)" by (simp add: sample_mem_def)
  show "2 * 1 \<le> card (free_frames (kernel_pool sample_mem))" by (simp add: sample_card)
  show "\<not> pool_locked (kernel_pool sample_mem)" by (simp add: sample_mem_def sample_pool_def)
  show "(0xc0101000 :: u32) = vaddr_start (kernel_vaddr sample_mem) + of_nat 1 * PG_SIZE"
    by (simp add: sample_mem_def K_HEAP_START_def PG_SIZE_def)
  show "walk (mphys sample_mem) (mcr3 sample_mem) (0xc0101000 + of_nat k * PG_SIZE) = None" if "k < 1" for k
    using that sample_unmapped by (simp add: sample_mem_def)
qed simp_all

end
