(* ===== verification/MemHeap.thy ===== *)
theory MemHeap
  imports MemPages
begin

text \<open>
  The heap and the start-up of \<^verbatim>\<open>kernel/memory.c\<close>: the layout of an arena, the choice of the block
  size, \<^verbatim>\<open>sys_malloc\<close> and \<^verbatim>\<open>sys_free\<close> on small blocks, and the pools \<^verbatim>\<open>mem_pool_init\<close> builds.
\<close>

section \<open>Arenas\<close>

lemma block_descs:
  "block_desc_init = map (\<lambda>(s, n). \<lparr>block_size = s, blocks_per_arena = n, free_list = []\<rparr>)
     [(16, 255), (32, 127), (64, 63), (128, 31), (256, 15), (512, 7), (1024, 3)]"
proof -
  have "DESC_CNT = Suc (Suc (Suc (Suc (Suc (Suc (Suc 0))))))" by (simp add: DESC_CNT_def)
  then have "block_desc_init = block_desc_loop (Suc (Suc (Suc (Suc (Suc (Suc (Suc 0))))))) 16"
    by (simp only: block_desc_init_def)
  then show ?thesis unfolding block_desc_loop.simps by (simp add: PG_SIZE_def sizeof_arena_def)
qed

lemma unat_arena2block:
  assumes al: "unat a mod 4096 = 0" and n: "n * unat sz \<le> 4084" and i: "unat idx < n" and sz: "0 < unat sz"
  shows "unat (arena2block a sz idx) = unat a + 12 + unat idx * unat sz"
    and "12 + unat idx * unat sz + unat sz \<le> 4096"
proof -
  have le: "unat idx * unat sz + unat sz \<le> n * unat sz"
    using i by (metis Suc_leI add.commute mult_Suc mult_le_mono1)
  then show b: "12 + unat idx * unat sz + unat sz \<le> 4096" using n by linarith
  have m: "unat (idx * sz) = unat idx * unat sz" using le n by (intro unat_mult_small) linarith
  have a12: "unat (a + 12) = unat a + 12"
    using page_aligned_le [OF al] by (subst unat_add_small) simp_all
  have "unat (a + 12 + idx * sz) = unat (a + 12) + unat (idx * sz)"
    using page_aligned_le [OF al] b sz by (intro unat_add_small) (simp add: a12 m del: word_neq_0_conv unat_gt_0)
  then show "unat (arena2block a sz idx) = unat a + 12 + unat idx * unat sz"
    by (simp add: arena2block_def sizeof_arena_def a12 m)
qed

lemma block2arena_block:
  assumes "unat a mod 4096 = 0" and "n * unat sz \<le> 4084" and "unat idx < n" and "0 < unat sz"
  shows "block2arena (arena2block a sz idx) = a"
proof (rule unsigned_word_eqI)
  note u = unat_arena2block [OF assms]
  obtain k where k: "unat a = k * 4096" using assms(1) by (metis mod_0_imp_dvd dvd_def mult.commute)
  have "unat (block2arena (arena2block a sz idx)) = (k * 4096 + (12 + unat idx * unat sz)) div 4096 * 4096"
    by (simp add: block2arena_def unat_page u(1) k add.assoc)
  also have "\<dots> = k * 4096" using u(2) assms(4) by (subst page_div) simp_all
  finally show "unat (block2arena (arena2block a sz idx)) = unat a" using k by simp
qed

lemma descs_fit:
  assumes "d \<in> set block_desc_init"
  shows "unat (blocks_per_arena d) * unat (block_size d) \<le> 4084" and "0 < unat (block_size d)"
  using assms by (auto simp: block_descs)

section \<open>Small blocks\<close>

lemma desc_sizes: "map block_size block_desc_init = [16, 32, 64, 128, 256, 512, 1024]"
  by (simp add: block_descs)

text \<open>The search of \<^verbatim>\<open>sys_malloc\<close> returns the first class that is large enough.\<close>

lemma desc_search_first:
  assumes "i + n = length ds" and "\<exists>j. i \<le> j \<and> j < length ds \<and> sz \<le> block_size (ds ! j)"
  shows "desc_search n ds sz i < length ds \<and> sz \<le> block_size (ds ! desc_search n ds sz i) \<and>
     (\<forall>j. i \<le> j \<and> j < desc_search n ds sz i \<longrightarrow> \<not> sz \<le> block_size (ds ! j))"
  using assms
proof (induction n arbitrary: i)
  case (Suc n)
  show ?case
  proof (cases "sz \<le> block_size (ds ! i)")
    case False
    then have "\<exists>j. Suc i \<le> j \<and> j < length ds \<and> sz \<le> block_size (ds ! j)"
      using Suc.prems(2) by (metis Suc_leI le_neq_implies_less)
    with Suc.IH [of "Suc i"] Suc.prems(1) have ih: "desc_search n ds sz (Suc i) < length ds"
      "sz \<le> block_size (ds ! desc_search n ds sz (Suc i))"
      "\<And>j. Suc i \<le> j \<Longrightarrow> j < desc_search n ds sz (Suc i) \<Longrightarrow> \<not> sz \<le> block_size (ds ! j)" by simp_all
    have "\<not> sz \<le> block_size (ds ! j)" if "i \<le> j" "j < desc_search n ds sz (Suc i)" for j
      using that ih(3) [of j] False by (cases "j = i") simp_all
    then show ?thesis using ih(1,2) False by simp
  qed (use Suc.prems in auto)
qed auto

lemma desc_search_class:
  assumes ds: "map block_size ds = [16, 32, 64, 128, 256, 512, 1024]" and sz: "sz \<le> 1024"
  shows "desc_search DESC_CNT ds sz 0 < 7" and "sz \<le> block_size (ds ! desc_search DESC_CNT ds sz 0)"
    and "j < desc_search DESC_CNT ds sz 0 \<Longrightarrow> block_size (ds ! j) < sz"
proof -
  have l: "length ds = 7" using arg_cong [OF ds, of length] by simp
  have "block_size (ds ! 6) = 1024" using nth_map [of 6 ds block_size] ds l by simp
  then have "\<exists>j. 0 \<le> j \<and> j < length ds \<and> sz \<le> block_size (ds ! j)" using sz l by (intro exI [of _ 6]) simp
  from desc_search_first [OF _ this, of 7] l show "desc_search DESC_CNT ds sz 0 < 7"
    "sz \<le> block_size (ds ! desc_search DESC_CNT ds sz 0)"
    "j < desc_search DESC_CNT ds sz 0 \<Longrightarrow> block_size (ds ! j) < sz"
    by (simp_all add: DESC_CNT_def not_le)
qed

lemma unlocked_id: "\<not> pool_locked p \<Longrightarrow> p\<lparr>pool_locked := False\<rparr> = (p :: pool)"
  by (cases p) simp

lemma mem_pool_id [simp]: "m\<lparr>kernel_pool := kernel_pool m\<rparr> = m" "m\<lparr>user_pool := user_pool m\<rparr> = (m :: mem)"
  by (cases m; simp)+

text \<open>\<open>cur_pf m\<close>: the pool the running task allocates from.\<close>

definition cur_pf :: "mem \<Rightarrow> pool_flags" where
  "cur_pf m = (if cur_pgdir m = 0 then PF_KERNEL else PF_USER)"

definition put_free :: "pool_flags \<Rightarrow> nat \<Rightarrow> u32 list \<Rightarrow> mem \<Rightarrow> mem" where
  "put_free pf i fl m = set_descs pf ((the_descs pf m)[i := (the_descs pf m ! i)\<lparr>free_list := fl\<rparr>]) m"

definition put_cnt :: "u32 \<Rightarrow> u32 \<Rightarrow> mem \<Rightarrow> mem" where
  "put_cnt a n m = m\<lparr>arenas := (arenas m)(a := (arenas m a)\<lparr>cnt := n\<rparr>)\<rparr>"

lemma sys_malloc_small:
  assumes "cur_pf m = pf" and "\<not> pool_locked (the_pool pf m)" and "0 < sz" and "sz \<le> 1024"
    and "sz < pool_size (the_pool pf m)" and "i = desc_search DESC_CNT (the_descs pf m) sz 0"
    and "free_list (the_descs pf m ! i) = b # fl"
  shows "sys_malloc sz m =
     Inr (b, put_cnt (block2arena b) (cnt (arenas m (block2arena b)) - 1) (put_free pf i fl m))"
proof -
  have "sz \<noteq> 0" "\<not> 1024 < sz" "\<not> pool_size (the_pool pf m) \<le> sz" using assms(3-5) by auto
  then show ?thesis
    using assms(1,2,6,7)
    by (cases pf; simp add: sys_malloc_def cur_pf_def Let_def pool_acquire_def pool_release_def set_pool_def
        set_descs_def put_free_def put_cnt_def unlocked_id split: if_splits)
qed

lemma sys_free_small:
  assumes "cur_pf m = pf" and "\<not> pool_locked (the_pool pf m)" and "ptr \<noteq> 0"
    and "pf = PF_KERNEL \<Longrightarrow> ptr \<ge> K_HEAP_START"
    and "desc (arenas m (block2arena ptr)) = Some (pf, i)" and "i < length (the_descs pf m)"
    and "cnt (arenas m (block2arena ptr)) + 1 \<noteq> blocks_per_arena (the_descs pf m ! i)"
  shows "sys_free ptr m =
     Inr (put_cnt (block2arena ptr) (cnt (arenas m (block2arena ptr)) + 1)
       (put_free pf i (free_list (the_descs pf m ! i) @ [ptr]) m))"
  using assms
  by (cases pf; simp add: sys_free_def cur_pf_def Let_def pool_acquire_def pool_release_def set_pool_def set_descs_def
      put_free_def put_cnt_def unlocked_id ASSERT_def split: if_splits)

section \<open>Start-up\<close>

lemma unat_u16_lt: "unat (x :: u16) < 65536"
  using unsigned_less [of x] by simp

lemma unat_ucast_up [simp]: "unat (ucast (x :: u16) :: u32) = unat x"
  using unat_u16_lt [of x] by (simp add: unsigned_ucast_eq take_bit_nat_eq_self)

lemma unat_pages: "unat (ucast (x :: u16) * PG_SIZE :: u32) = unat x * 4096"
  using unat_u16_lt [of x] by (subst unat_mult_small) (simp_all add: PG_SIZE_def)

lemma clear_pool:
  assumes b: "bitmap_wf b" "unat (btmp_bytes_len b) = n div 8" and s: "unat s mod 4096 = 0" "0 < unat s"
    "unat s + n * 4096 \<le> 4294967296"
  shows "pool_wf \<lparr>pool_bitmap = b, phy_addr_start = s, pool_size = z, pool_locked = False\<rparr>"
proof -
  have "8 * (n div 8) * 4096 \<le> n * 4096" by simp
  then show ?thesis using b s by (simp add: pool_wf_def)
qed

text \<open>The two pools share the free pages; the counts fit into \<^verbatim>\<open>uint16_t\<close> below 258 MB.\<close>

lemma pool_counts:
  fixes all_mem :: u32
  assumes "0x200000 \<le> unat all_mem" and "unat all_mem < 0x10200000"
  defines "fp \<equiv> (ucast ((all_mem - 0x200000) div PG_SIZE) :: u16)"
  shows "unat fp = (unat all_mem - 0x200000) div 4096" and "unat (fp div 2) = unat fp div 2"
    and "unat (fp - fp div 2) = unat fp - unat fp div 2"
proof -
  have "unat ((all_mem - 0x200000) div PG_SIZE) = (unat all_mem - 0x200000) div 4096"
    using assms(1) by (simp add: unat_div_distrib unat_sub_small PG_SIZE_def)
  moreover have "(unat all_mem - 0x200000) div 4096 < 65536" using assms(2) by (simp add: div_less_iff_less_mult)
  ultimately show "unat fp = (unat all_mem - 0x200000) div 4096"
    unfolding fp_def by (simp add: unsigned_ucast_eq take_bit_nat_eq_self)
  show d: "unat (fp div 2) = unat fp div 2" by (simp add: unat_div_distrib)
  have "fp div 2 \<le> fp" by (simp add: word_le_nat_alt d)
  then show "unat (fp - fp div 2) = unat fp - unat fp div 2" by (simp add: unat_sub d)
qed

lemma bitmap_init_clear:
  assumes "unat n \<le> length (bits b)" and "8 * unat n < 2147483647"
  shows "\<exists>b'. bitmap_init (b\<lparr>btmp_bytes_len := n\<rparr>) = Inr b' \<and> bitmap_wf b' \<and> btmp_bytes_len b' = n \<and> (\<forall>k < 8 * unat n. \<not> bit_at b' k)"
  using assms by (auto simp: bitmap_init_def bitmap_wf_def bit_at_def nth_append Let_def)

lemma mem_pool_init_eq:
  fixes fp :: u16
  assumes lo: "0x200000 \<le> unat all_mem" and hi: "unat all_mem < 0x10200000"
    and k: "(unat all_mem - 0x200000) div 4096 div 2 div 8 \<le> length (bits (pool_bitmap (kernel_pool m)))"
    and u: "((unat all_mem - 0x200000) div 4096 - (unat all_mem - 0x200000) div 4096 div 2) div 8
        \<le> length (bits (pool_bitmap (user_pool m)))"
    and v: "(unat all_mem - 0x200000) div 4096 div 2 div 8 \<le> length (bits (vaddr_bitmap (kernel_vaddr m)))"
  defines "fp \<equiv> ucast ((all_mem - 0x200000) div PG_SIZE)"
  shows "\<exists>kb ub vb. mem_pool_init all_mem m =
     Inr (m\<lparr>kernel_pool := \<lparr>pool_bitmap = kb, phy_addr_start = 0x200000, pool_size = ucast (fp div 2) * PG_SIZE, pool_locked = False\<rparr>,
            user_pool := \<lparr>pool_bitmap = ub, phy_addr_start = 0x200000 + ucast (fp div 2) * PG_SIZE,
              pool_size = ucast (fp - fp div 2) * PG_SIZE, pool_locked = False\<rparr>,
            kernel_vaddr := \<lparr>vaddr_bitmap = vb, vaddr_start = K_HEAP_START\<rparr>\<rparr>) \<and>
     bitmap_wf kb \<and> bitmap_wf ub \<and> bitmap_wf vb \<and>
     unat (btmp_bytes_len kb) = unat (fp div 2) div 8 \<and> unat (btmp_bytes_len ub) = unat (fp - fp div 2) div 8 \<and>
     btmp_bytes_len vb = btmp_bytes_len kb \<and>
     (\<forall>n < nbits kb. \<not> bit_at kb n \<and> \<not> bit_at vb n) \<and> (\<forall>n < nbits ub. \<not> bit_at ub n)"
proof -
  note pc = pool_counts [OF lo hi, folded fp_def]
  let ?k = "ucast (fp div 2 div 8) :: u32" and ?u = "ucast ((fp - fp div 2) div 8) :: u32"
  have uk: "unat ?k = unat (fp div 2) div 8" and uu: "unat ?u = unat (fp - fp div 2) div 8"
    by (simp_all add: unat_div_distrib)
  have sm: "8 * unat ?k < 2147483647" "8 * unat ?u < 2147483647"
    using unat_u16_lt [of "fp div 2 div 8"] unat_u16_lt [of "(fp - fp div 2) div 8"] by simp_all
  from bitmap_init_clear [OF _ sm(1), of "pool_bitmap (kernel_pool m)"] k uk pc obtain kb where
    kb: "bitmap_init ((pool_bitmap (kernel_pool m))\<lparr>btmp_bytes_len := ?k\<rparr>) = Inr kb" "bitmap_wf kb" "btmp_bytes_len kb = ?k"
      "\<forall>n < 8 * unat ?k. \<not> bit_at kb n" by auto
  from bitmap_init_clear [OF _ sm(2), of "pool_bitmap (user_pool m)"] u uu pc obtain ub where
    ub: "bitmap_init ((pool_bitmap (user_pool m))\<lparr>btmp_bytes_len := ?u\<rparr>) = Inr ub" "bitmap_wf ub" "btmp_bytes_len ub = ?u"
      "\<forall>n < 8 * unat ?u. \<not> bit_at ub n" by auto
  from bitmap_init_clear [OF _ sm(1), of "vaddr_bitmap (kernel_vaddr m)"] v uk pc obtain vb where
    vb: "bitmap_init ((vaddr_bitmap (kernel_vaddr m))\<lparr>btmp_bytes_len := ?k\<rparr>) = Inr vb" "bitmap_wf vb" "btmp_bytes_len vb = ?k"
      "\<forall>n < 8 * unat ?k. \<not> bit_at vb n" by auto
  have um: "PG_SIZE * 256 + 0x100000 = (0x200000 :: u32)" by (simp add: PG_SIZE_def)
  have "mem_pool_init all_mem m =
     Inr (m\<lparr>kernel_pool := \<lparr>pool_bitmap = kb, phy_addr_start = 0x200000, pool_size = ucast (fp div 2) * PG_SIZE, pool_locked = False\<rparr>,
            user_pool := \<lparr>pool_bitmap = ub, phy_addr_start = 0x200000 + ucast (fp div 2) * PG_SIZE,
              pool_size = ucast (fp - fp div 2) * PG_SIZE, pool_locked = False\<rparr>,
            kernel_vaddr := \<lparr>vaddr_bitmap = vb, vaddr_start = K_HEAP_START\<rparr>\<rparr>)"
    unfolding mem_pool_init_def Let_def um fp_def [symmetric] using kb(1) ub(1) vb(1) by simp
  then show ?thesis using kb(2-4) ub(2-4) vb(2-4) uk uu by (intro exI [of _ kb] exI [of _ ub] exI [of _ vb]) simp
qed

lemma mem_pool_init_truncates:
  assumes "length (bits (pool_bitmap (kernel_pool m))) = 0" and "length (bits (pool_bitmap (user_pool m))) = 0"
    and "length (bits (vaddr_bitmap (kernel_vaddr m))) = 0"
  shows "\<exists>m'. mem_pool_init 0x10200000 m = Inr m' \<and> pool_size (kernel_pool m') = 0 \<and> pool_size (user_pool m') = 0"
  using assms by (simp add: mem_pool_init_def PG_SIZE_def bitmap_init_def Let_def)

section \<open>Properties\<close>

text \<open>C16: The blocks of an arena: for every size class, the blocks lie behind the arena header inside the
  page, do not overlap, and \<^verbatim>\<open>block2arena\<close> leads from each of them back to its arena.\<close>

theorem arena_blocks:
  assumes d: "d \<in> set block_desc_init" and a: "unat a mod 4096 = 0"
    and i: "unat i < unat (blocks_per_arena d)" and j: "unat j < unat (blocks_per_arena d)"
  shows "block2arena (arena2block a (block_size d) i) = a \<and>
     unat a + unat sizeof_arena \<le> unat (arena2block a (block_size d) i) \<and>
     unat (arena2block a (block_size d) i) + unat (block_size d) \<le> unat a + 4096 \<and>
     (unat i < unat j \<longrightarrow>
        unat (arena2block a (block_size d) i) + unat (block_size d) \<le> unat (arena2block a (block_size d) j))"
proof -
  note u = unat_arena2block [OF a descs_fit(1) [OF d] i descs_fit(2) [OF d]]
    and uj = unat_arena2block [OF a descs_fit(1) [OF d] j descs_fit(2) [OF d]]
  have "unat i * unat (block_size d) + unat (block_size d) \<le> unat j * unat (block_size d)" if "unat i < unat j"
    using mult_le_mono1 [of "Suc (unat i)" "unat j" "unat (block_size d)"] that by simp
  then show ?thesis
    using block2arena_block [OF a descs_fit(1) [OF d] i descs_fit(2) [OF d]] u uj by (simp add: sizeof_arena_def)
qed

theorem arena_blocks_witness:
  "block2arena (arena2block 0xc0101000 1024 0) = 0xc0101000 \<and>
     unat (0xc0101000 :: u32) + unat sizeof_arena \<le> unat (arena2block 0xc0101000 1024 0) \<and>
     unat (arena2block 0xc0101000 1024 0) + unat (1024 :: u32) \<le> unat (0xc0101000 :: u32) + 4096 \<and>
     unat (arena2block 0xc0101000 1024 0) + unat (1024 :: u32) \<le> unat (arena2block 0xc0101000 1024 2)"
  using arena_blocks [of "\<lparr>block_size = 1024, blocks_per_arena = 3, free_list = []\<rparr>" "0xc0101000" 0 2]
  by (simp add: block_descs)

text \<open>C15: Allocating and freeing a small block: \<^verbatim>\<open>sys_malloc\<close> takes the first free block of the
  smallest class that is large enough and counts it off its arena; \<^verbatim>\<open>sys_free\<close> of that block
  (while another block of the arena is in use) counts it back and puts it behind the other free
  blocks, so the class has the same free blocks as before and every arena header is unchanged.\<close>

theorem small_malloc_free:
  assumes pf: "cur_pf m = pf" and ul: "\<not> pool_locked (the_pool pf m)"
    and sz: "0 < sz" "sz \<le> 1024" "sz < pool_size (the_pool pf m)"
    and ds: "map block_size (the_descs pf m) = [16, 32, 64, 128, 256, 512, 1024]"
    and i: "i < 7" "sz \<le> block_size (the_descs pf m ! i)" "\<And>j. j < i \<Longrightarrow> block_size (the_descs pf m ! j) < sz"
    and fl: "free_list (the_descs pf m ! i) = b # fl" and b: "b \<noteq> 0"
    and bk: "pf = PF_KERNEL \<Longrightarrow> b \<ge> K_HEAP_START"
    and ar: "desc (arenas m (block2arena b)) = Some (pf, i)"
    and cn: "cnt (arenas m (block2arena b)) \<noteq> blocks_per_arena (the_descs pf m ! i)"
  shows "\<exists>m1. sys_malloc sz m = Inr (b, m1) \<and> cnt (arenas m1 (block2arena b)) = cnt (arenas m (block2arena b)) - 1 \<and>
     free_list (the_descs pf m1 ! i) = fl \<and> sys_free b m1 = Inr (put_free pf i (fl @ [b]) m)"
proof -
  let ?s = "desc_search DESC_CNT (the_descs pf m) sz 0"
  note dc = desc_search_class [OF ds sz(2)]
  have s: "i = ?s"
    using dc(2) dc(3) [of i] i(2) i(3) [of ?s] by (metis linorder_neqE_nat linorder_not_le)
  let ?m1 = "put_cnt (block2arena b) (cnt (arenas m (block2arena b)) - 1) (put_free pf i fl m)"
  have ln: "i < length (the_descs pf m)" using i(1) arg_cong [OF ds, of length] by simp
  have m1: "sys_malloc sz m = Inr (b, ?m1)" by (rule sys_malloc_small [OF pf ul sz(1,2,3) s fl])
  have g: "the_descs pf ?m1 ! i = (the_descs pf m ! i)\<lparr>free_list := fl\<rparr>" "length (the_descs pf ?m1) = length (the_descs pf m)"
    "cur_pf ?m1 = pf" "the_pool pf ?m1 = the_pool pf m"
    using ln pf by (cases pf; simp add: put_cnt_def put_free_def set_descs_def cur_pf_def)+
  have a: "arenas ?m1 (block2arena b) = (arenas m (block2arena b))\<lparr>cnt := cnt (arenas m (block2arena b)) - 1\<rparr>"
    by (cases pf; simp add: put_cnt_def put_free_def set_descs_def)
  have "sys_free b ?m1 = Inr (put_cnt (block2arena b) (cnt (arenas ?m1 (block2arena b)) + 1)
       (put_free pf i (free_list (the_descs pf ?m1 ! i) @ [b]) ?m1))"
    using g a ul b bk ar cn ln by (intro sys_free_small) simp_all
  also have "put_cnt (block2arena b) (cnt (arenas ?m1 (block2arena b)) + 1)
       (put_free pf i (free_list (the_descs pf ?m1 ! i) @ [b]) ?m1) = put_free pf i (fl @ [b]) m"
    unfolding g(1) a using ln by (cases pf; simp add: put_cnt_def put_free_def set_descs_def)
  finally show ?thesis using m1 a g(1) by (intro exI [of _ ?m1]) simp
qed

definition sample_heap :: mem where
  "sample_heap = sample_mem\<lparr>arenas := (arenas sample_mem)(0xc0101000 := \<lparr>desc = Some (PF_KERNEL, 1), large = False, cnt = 126\<rparr>),
     k_block_descs := block_desc_init[1 := \<lparr>block_size = 32, blocks_per_arena = 127, free_list = [0xc010102c, 0xc010104c]\<rparr>]\<rparr>"

theorem small_malloc_free_witness:
  "\<exists>m1. sys_malloc 20 sample_heap = Inr (0xc010102c, m1) \<and> cnt (arenas m1 (block2arena 0xc010102c)) =
       cnt (arenas sample_heap (block2arena 0xc010102c)) - 1 \<and>
     free_list (the_descs PF_KERNEL m1 ! 1) = [0xc010104c] \<and>
     sys_free 0xc010102c m1 = Inr (put_free PF_KERNEL 1 ([0xc010104c] @ [0xc010102c]) sample_heap)"
  by (rule small_malloc_free)
     (simp_all add: sample_heap_def sample_mem_def sample_pool_def block_descs cur_pf_def K_HEAP_START_def block2arena_def)

text \<open>C17: The pools after start-up: with between 2 MB and 258 MB of memory the kernel pool starts
  behind the low memory and the page tables, the user pool right behind it, both end inside the
  memory, every bit of the three bitmaps is clear, both pools are well formed and share no frame.\<close>

theorem mem_pool_init_pools:
  assumes lo: "0x200000 \<le> unat all_mem" and hi: "unat all_mem < 0x10200000"
    and k: "(unat all_mem - 0x200000) div 4096 div 2 div 8 \<le> length (bits (pool_bitmap (kernel_pool m)))"
    and u: "((unat all_mem - 0x200000) div 4096 - (unat all_mem - 0x200000) div 4096 div 2) div 8
        \<le> length (bits (pool_bitmap (user_pool m)))"
    and v: "(unat all_mem - 0x200000) div 4096 div 2 div 8 \<le> length (bits (vaddr_bitmap (kernel_vaddr m)))"
  shows "\<exists>m'. mem_pool_init all_mem m = Inr m' \<and> pool_wf (kernel_pool m') \<and> pool_wf (user_pool m') \<and>
     phy_addr_start (kernel_pool m') = 0x200000 \<and>
     unat (phy_addr_start (user_pool m')) = 0x200000 + unat (pool_size (kernel_pool m')) \<and>
     unat (phy_addr_start (user_pool m')) + unat (pool_size (user_pool m')) \<le> unat all_mem \<and>
     free_frames (kernel_pool m') \<inter> free_frames (user_pool m') = {} \<and>
     (\<forall>n < nbits (pool_bitmap (kernel_pool m')). \<not> bit_at (pool_bitmap (kernel_pool m')) n) \<and>
     (\<forall>n < nbits (pool_bitmap (user_pool m')). \<not> bit_at (pool_bitmap (user_pool m')) n) \<and>
     (\<forall>n < nbits (vaddr_bitmap (kernel_vaddr m')). \<not> bit_at (vaddr_bitmap (kernel_vaddr m')) n)"
proof -
  let ?fp = "ucast ((all_mem - 0x200000) div PG_SIZE) :: u16"
  note pc = pool_counts [OF lo hi]
  from mem_pool_init_eq [OF assms] obtain kb ub vb where
    e: "mem_pool_init all_mem m =
     Inr (m\<lparr>kernel_pool := \<lparr>pool_bitmap = kb, phy_addr_start = 0x200000, pool_size = ucast (?fp div 2) * PG_SIZE, pool_locked = False\<rparr>,
            user_pool := \<lparr>pool_bitmap = ub, phy_addr_start = 0x200000 + ucast (?fp div 2) * PG_SIZE,
              pool_size = ucast (?fp - ?fp div 2) * PG_SIZE, pool_locked = False\<rparr>,
            kernel_vaddr := \<lparr>vaddr_bitmap = vb, vaddr_start = K_HEAP_START\<rparr>\<rparr>)" (is "_ = Inr ?m") and
    b: "bitmap_wf kb" "bitmap_wf ub" "unat (btmp_bytes_len kb) = unat (?fp div 2) div 8"
      "unat (btmp_bytes_len ub) = unat (?fp - ?fp div 2) div 8" "btmp_bytes_len vb = btmp_bytes_len kb"
      "\<forall>n < nbits kb. \<not> bit_at kb n \<and> \<not> bit_at vb n" "\<forall>n < nbits ub. \<not> bit_at ub n" by blast
  have sum: "0x200000 + unat (?fp div 2) * 4096 + unat (?fp - ?fp div 2) * 4096 \<le> unat all_mem"
    unfolding pc using lo by linarith
  have us: "unat (0x200000 + ucast (?fp div 2) * PG_SIZE :: u32) = 0x200000 + unat (?fp div 2) * 4096"
    using unat_u16_lt [of "?fp div 2"] by (subst unat_add_small) (simp_all add: unat_pages)
  have kw: "pool_wf (kernel_pool ?m)"
    using b unat_u16_lt [of "?fp div 2"] by (simp add: clear_pool [where n = "unat (?fp div 2)"])
  have uw: "pool_wf (user_pool ?m)"
    using b us unat_u16_lt [of "?fp div 2"] unat_u16_lt [of "?fp - ?fp div 2"]
    by (simp add: clear_pool [where n = "unat (?fp - ?fp div 2)"])
  have "unat f < unat g" if "f \<in> free_frames (kernel_pool ?m)" "g \<in> free_frames (user_pool ?m)" for f g
    using free_frames_bounds(2) [OF kw that(1)] free_frames_bounds(1) [OF uw that(2)] us b(3) by simp
  then have "free_frames (kernel_pool ?m) \<inter> free_frames (user_pool ?m) = {}" by (auto simp del: pool.simps mem.simps)
  with kw uw e us sum b(5-7) show ?thesis by (intro exI [of _ ?m]) (simp add: unat_pages)
qed

definition sample_boot :: mem where
  "sample_boot = (let p = \<lparr>pool_bitmap = \<lparr>btmp_bytes_len = 0, bits = [0xff, 7]\<rparr>, phy_addr_start = 0, pool_size = 0, pool_locked = True\<rparr>
     in sample_mem\<lparr>kernel_pool := p, user_pool := p,
       kernel_vaddr := \<lparr>vaddr_bitmap = \<lparr>btmp_bytes_len = 0, bits = [3, 9]\<rparr>, vaddr_start = 0\<rparr>\<rparr>)"

theorem mem_pool_init_pools_witness:
  "\<exists>m'. mem_pool_init 0x220000 sample_boot = Inr m' \<and> pool_wf (kernel_pool m') \<and> pool_wf (user_pool m') \<and>
     phy_addr_start (kernel_pool m') = 0x200000 \<and>
     unat (phy_addr_start (user_pool m')) = 0x200000 + unat (pool_size (kernel_pool m')) \<and>
     unat (phy_addr_start (user_pool m')) + unat (pool_size (user_pool m')) \<le> unat (0x220000 :: u32) \<and>
     free_frames (kernel_pool m') \<inter> free_frames (user_pool m') = {} \<and>
     (\<forall>n < nbits (pool_bitmap (kernel_pool m')). \<not> bit_at (pool_bitmap (kernel_pool m')) n) \<and>
     (\<forall>n < nbits (pool_bitmap (user_pool m')). \<not> bit_at (pool_bitmap (user_pool m')) n) \<and>
     (\<forall>n < nbits (vaddr_bitmap (kernel_vaddr m')). \<not> bit_at (vaddr_bitmap (kernel_vaddr m')) n)"
  by (rule mem_pool_init_pools) (simp_all add: sample_boot_def Let_def)

end
