(* ===== verification/Sched.thy ===== *)
theory Sched
  imports KList Paging
begin

text \<open>
  The scheduler: \<^verbatim>\<open>schedule\<close>, \<^verbatim>\<open>thread_block\<close>, \<^verbatim>\<open>thread_unblock\<close>, \<^verbatim>\<open>thread_yield\<close> of
  \<^verbatim>\<open>thread/thread.c\<close>, the clock interrupt of \<^verbatim>\<open>device/timer.c\<close> and the activation of an
  address space of \<^verbatim>\<open>userprog/process.c\<close>.

  A task is named by the address of its PCB. The ready list and the list of all tasks are HOL
  lists of PCB addresses: \<open>KList\<close> shows that the linked lists of the code behave like that.

  A routine that switches to another task does not come back to its caller at once. What a
  task still has to do when it gets the processor back is recorded in \<open>kont\<close>: the rest of
  \<^verbatim>\<open>thread_block\<close> and \<^verbatim>\<open>thread_yield\<close> (restore the interrupt status), the return from the
  interrupt in which it was preempted, or \<^verbatim>\<open>kernel_thread\<close> for a task that never ran.
  \<open>resume\<close> runs that rest for the task that was switched to.
\<close>

section \<open>Tasks and the scheduler state\<close>

type_synonym pid_t = u16

datatype task_status =
  TASK_RUNNING | TASK_READY | TASK_BLOCKED | TASK_WAITING | TASK_HANGING | TASK_DIED

record task_struct =
  self_kstack :: u32
  pid :: pid_t
  status :: task_status
  task_name :: string
  priority :: u8
  ticks :: u8
  elapsed_ticks :: u32
  pgdir :: ptr
  fd_table :: "u32 list"
  cwd_inode_nr :: u32
  parent_pid :: pid_t
  exit_status :: u8
  stack_magic :: u32

datatype kont = First_Run | Intr_Return u32 | Set_Status intr_status

record sched = cpu +
  cur :: ptr
  tasks :: "ptr \<Rightarrow> task_struct"
  thread_ready_list :: "ptr list"
  thread_all_list :: "ptr list"
  main_thread :: ptr
  idle_thread :: ptr
  total_ticks :: u32
  kont :: "ptr \<Rightarrow> kont"
  phys :: phys_mem
  cr3 :: u32
  tlb :: "u32 \<rightharpoonup> u32"
  tss_esp0 :: u32

definition STACK_MAGIC :: u32 where [layout_simps]: "STACK_MAGIC = 0x19980924"

abbreviation stat_of :: "'a sched_scheme \<Rightarrow> ptr \<Rightarrow> task_status" where
  "stat_of s p \<equiv> status (tasks s p)"

definition upd_task :: "ptr \<Rightarrow> (task_struct \<Rightarrow> task_struct) \<Rightarrow> 'a sched_scheme \<Rightarrow> 'a sched_scheme" where
  "upd_task p f s = s\<lparr>tasks := (tasks s)(p := f (tasks s p))\<rparr>"

definition set_stat :: "ptr \<Rightarrow> task_status \<Rightarrow> 'a sched_scheme \<Rightarrow> 'a sched_scheme" where
  "set_stat p st s = upd_task p (\<lambda>t. t\<lparr>status := st\<rparr>) s"

definition set_kont :: "kont \<Rightarrow> 'a sched_scheme \<Rightarrow> 'a sched_scheme" where
  "set_kont k s = s\<lparr>kont := (kont s)(cur s := k)\<rparr>"

section \<open>Address spaces\<close>

text \<open>Loading \<open>cr3\<close> drops all cached translations.\<close>

definition page_dir_activate :: "ptr \<Rightarrow> 'a sched_scheme \<Rightarrow> 'a sched_scheme res" where
  "page_dir_activate p s =
     bind_res (if pgdir (tasks s p) \<noteq> NULL then addr_v2p (phys s) (cr3 s) (pgdir (tasks s p))
               else Inr 0x100000)
       (\<lambda>pagedir_phy_addr. Inr (s\<lparr>cr3 := pagedir_phy_addr, tlb := Map.empty\<rparr>))"

definition update_tss_esp :: "ptr \<Rightarrow> 'a sched_scheme \<Rightarrow> 'a sched_scheme" where
  "update_tss_esp p s = s\<lparr>tss_esp0 := p + PG_SIZE\<rparr>"

definition process_activate :: "ptr \<Rightarrow> 'a sched_scheme \<Rightarrow> 'a sched_scheme res" where
  "process_activate p s =
     bind_res (ASSERT (p \<noteq> NULL) ''p_thread != NULL'') (\<lambda>_.
     bind_res (page_dir_activate p s) (\<lambda>s.
     Inr (if pgdir (tasks s p) \<noteq> NULL then update_tss_esp p s else s)))"

section \<open>Blocking, waking and switching\<close>

definition thread_unblock :: "ptr \<Rightarrow> 'a sched_scheme \<Rightarrow> 'a sched_scheme res" where
  "thread_unblock p s =
     (let (old_status, s) = intr_disable s in
      bind_res (ASSERT (stat_of s p \<in> {TASK_BLOCKED, TASK_WAITING, TASK_HANGING})
        ''((pthread->status == TASK_BLOCKED) || (pthread->status == TASK_WAITING) || (pthread->status == TASK_HANGING))'') (\<lambda>_.
      bind_res
        (if stat_of s p \<noteq> TASK_READY then
           bind_res (ASSERT (p \<notin> set (thread_ready_list s))
             ''!elem_find(&thread_ready_list, &pthread->general_tag)'') (\<lambda>_.
           if p \<in> set (thread_ready_list s)
           then Inl (Panic ''thread_unblock: blocked thread in ready_list'')
           else Inr (set_stat p TASK_READY (s\<lparr>thread_ready_list := p # thread_ready_list s\<rparr>)))
         else Inr s) (\<lambda>s.
      Inr (snd (intr_set_status old_status s)))))"

definition switch_to :: "ptr \<Rightarrow> 'a sched_scheme \<Rightarrow> 'a sched_scheme" where
  "switch_to next s = s\<lparr>cur := next\<rparr>"

definition requeue_cur :: "'a sched_scheme \<Rightarrow> 'a sched_scheme res" where
  "requeue_cur s =
     (if stat_of s (cur s) = TASK_RUNNING then
        bind_res (ASSERT (cur s \<notin> set (thread_ready_list s))
          ''!elem_find(&thread_ready_list, &cur->general_tag)'') (\<lambda>_.
        Inr (upd_task (cur s) (\<lambda>t. t\<lparr>ticks := priority t, status := TASK_READY\<rparr>)
               (s\<lparr>thread_ready_list := thread_ready_list s @ [cur s]\<rparr>)))
      else Inr s)"

definition schedule :: "'a sched_scheme \<Rightarrow> 'a sched_scheme res" where
  "schedule s =
     bind_res (ASSERT (intr_get_status s = INTR_OFF) ''intr_get_status() == INTR_OFF'') (\<lambda>_.
     bind_res (requeue_cur s) (\<lambda>s.
     bind_res (if thread_ready_list s = [] then thread_unblock (idle_thread s) s else Inr s) (\<lambda>s.
     bind_res (ASSERT (thread_ready_list s \<noteq> []) ''!list_empty(&thread_ready_list)'') (\<lambda>_.
     let next = hd (thread_ready_list s);
         s = set_stat next TASK_RUNNING (s\<lparr>thread_ready_list := tl (thread_ready_list s)\<rparr>)
     in bind_res (process_activate next s) (\<lambda>s. Inr (switch_to next s))))))"

definition resume :: "'a sched_scheme \<Rightarrow> 'a sched_scheme" where
  "resume s = (case kont s (cur s) of
      First_Run \<Rightarrow> snd (intr_enable s)
    | Intr_Return e \<Rightarrow> s\<lparr>eflags := e\<rparr>
    | Set_Status st \<Rightarrow> snd (intr_set_status st s))"

definition thread_block :: "task_status \<Rightarrow> 'a sched_scheme \<Rightarrow> 'a sched_scheme res" where
  "thread_block stat s =
     bind_res (ASSERT (stat \<in> {TASK_BLOCKED, TASK_WAITING, TASK_HANGING})
       ''((stat == TASK_BLOCKED) || (stat == TASK_WAITING) || (stat == TASK_HANGING))'') (\<lambda>_.
     let (old_status, s) = intr_disable s;
         s = set_kont (Set_Status old_status) (set_stat (cur s) stat s)
     in bind_res (schedule s) (\<lambda>s. Inr (resume s)))"

definition thread_yield :: "'a sched_scheme \<Rightarrow> 'a sched_scheme res" where
  "thread_yield s =
     (let (old_status, s) = intr_disable s in
      bind_res (ASSERT (cur s \<notin> set (thread_ready_list s))
        ''!elem_find(&thread_ready_list, &cur->general_tag)'') (\<lambda>_.
      let s = set_stat (cur s) TASK_READY (s\<lparr>thread_ready_list := thread_ready_list s @ [cur s]\<rparr>);
          s = set_kont (Set_Status old_status) s
      in bind_res (schedule s) (\<lambda>s. Inr (resume s))))"

section \<open>The clock interrupt\<close>

definition intr_timer_handler :: "'a sched_scheme \<Rightarrow> 'a sched_scheme res" where
  "intr_timer_handler s =
     bind_res (ASSERT (stack_magic (tasks s (cur s)) = STACK_MAGIC)
       ''cur_thread->stack_magic == 0x19980924'') (\<lambda>_.
     let s = upd_task (cur s) (\<lambda>t. t\<lparr>elapsed_ticks := elapsed_ticks t + 1\<rparr>) s;
         s = s\<lparr>total_ticks := total_ticks s + 1\<rparr>
     in if ticks (tasks s (cur s)) = 0 then schedule s
        else Inr (upd_task (cur s) (\<lambda>t. t\<lparr>ticks := ticks t - 1\<rparr>) s))"

text \<open>The processor enters the handler through an interrupt gate, which saves the flags and
  clears IF; the \<^verbatim>\<open>iret\<close> at the end of the entry stub loads the saved flags.\<close>

definition timer_interrupt :: "'a sched_scheme \<Rightarrow> 'a sched_scheme res" where
  "timer_interrupt s =
     (let s = set_kont (Intr_Return (eflags s)) s;
          s = s\<lparr>eflags := eflags s AND NOT EFLAGS_IF\<rparr>
      in bind_res (intr_timer_handler s) (\<lambda>s. Inr (resume s)))"

text \<open>\<^verbatim>\<open>frequency_set\<close> as the sequence of its port writes. The shift of the last write is applied
  to the value after the cast to 8 bits.\<close>

definition frequency_set :: "u8 \<Rightarrow> u8 \<Rightarrow> u8 \<Rightarrow> u8 \<Rightarrow> u16 \<Rightarrow> (u16 \<times> u8) list" where
  "frequency_set counter_port counter_no rwl counter_mode counter_value =
     [(0x43, push_bit 6 counter_no OR push_bit 4 rwl OR push_bit 1 counter_mode),
      (ucast counter_port, ucast counter_value),
      (ucast counter_port, drop_bit 8 (ucast counter_value :: u8))]"

definition timer_init_writes :: "(u16 \<times> u8) list" where
  "timer_init_writes = frequency_set 0x40 0 3 2 (ucast ((1193180 :: u32) div 100))"

definition mil_seconds_per_intr :: u32 where [layout_simps]: "mil_seconds_per_intr = 1000 div 100"

text \<open>\<open>mtime_sleep\<close> up to its loop: the number of ticks to wait for. The loop of
  \<^verbatim>\<open>ticks_to_sleep\<close> yields until that many ticks have gone by: \<open>sleep_over\<close> is its exit test.\<close>

definition mtime_sleep_ticks :: "u32 \<Rightarrow> u32 res" where
  "mtime_sleep_ticks m_seconds =
     (let sleep_ticks = DIV_ROUND_UP m_seconds mil_seconds_per_intr in
      bind_res (ASSERT (sleep_ticks > 0) ''sleep_ticks > 0'') (\<lambda>_. Inr sleep_ticks))"

definition sleep_over :: "u32 \<Rightarrow> u32 \<Rightarrow> 'a sched_scheme \<Rightarrow> bool" where
  "sleep_over start_tick sleep_ticks s \<longleftrightarrow> \<not> (total_ticks s - start_tick < sleep_ticks)"

section \<open>Invariant\<close>

text \<open>
  The kernel half of every address space is the same: whichever page directory is loaded, the
  directory of every process is found at the same physical address.
\<close>

definition dir_of :: "'a sched_scheme \<Rightarrow> ptr \<Rightarrow> u32 res" where
  "dir_of s p = (if pgdir (tasks s p) = NULL then Inr 0x100000
     else addr_v2p (phys s) 0x100000 (pgdir (tasks s p)))"

definition kernel_dirs :: "'a sched_scheme \<Rightarrow> u32 set" where
  "kernel_dirs s = insert 0x100000 {c. \<exists>p \<in> set (thread_all_list s). dir_of s p = Inr c}"

definition kdir_ok :: "'a sched_scheme \<Rightarrow> bool" where
  "kdir_ok s \<longleftrightarrow> cr3 s \<in> kernel_dirs s \<and>
     (\<forall>p \<in> set (thread_all_list s). pgdir (tasks s p) \<noteq> NULL \<longrightarrow>
        (\<exists>a. dir_of s p = Inr a) \<and>
        (\<forall>c \<in> kernel_dirs s. addr_v2p (phys s) c (pgdir (tasks s p)) = dir_of s p))"

text \<open>
  \<open>ready_ok\<close>: the ready list has no duplicates and holds exactly the tasks whose status is
  \<^verbatim>\<open>TASK_READY\<close>. \<open>sched_pre\<close> is what \<^verbatim>\<open>schedule\<close> relies on (the current task may have set its
  status to something else already); \<open>sched_wf\<close> holds between kernel operations.
\<close>

definition ready_ok :: "'a sched_scheme \<Rightarrow> bool" where
  "ready_ok s \<longleftrightarrow> distinct (thread_ready_list s) \<and>
     set (thread_ready_list s) \<subseteq> set (thread_all_list s) \<and>
     (\<forall>p \<in> set (thread_all_list s). p \<in> set (thread_ready_list s) \<longleftrightarrow> stat_of s p = TASK_READY)"

definition tasks_ok :: "'a sched_scheme \<Rightarrow> bool" where
  "tasks_ok s \<longleftrightarrow> distinct (thread_all_list s) \<and> NULL \<notin> set (thread_all_list s) \<and>
     cur s \<in> set (thread_all_list s) \<and> idle_thread s \<in> set (thread_all_list s) \<and>
     (\<forall>p \<in> set (thread_all_list s). stack_magic (tasks s p) = STACK_MAGIC)"

definition sched_pre :: "'a sched_scheme \<Rightarrow> bool" where
  "sched_pre s \<longleftrightarrow> tasks_ok s \<and> kdir_ok s \<and> ready_ok s \<and>
     (\<forall>p \<in> set (thread_all_list s). stat_of s p = TASK_RUNNING \<longrightarrow> p = cur s) \<and>
     stat_of s (idle_thread s) \<in> {TASK_RUNNING, TASK_READY, TASK_BLOCKED}"

definition sched_wf :: "'a sched_scheme \<Rightarrow> bool" where
  "sched_wf s \<longleftrightarrow> sched_pre s \<and> stat_of s (cur s) = TASK_RUNNING"

section \<open>The effect of the operations\<close>

lemma upd_task_simps [simp]:
  "tasks (upd_task p f s) = (tasks s)(p := f (tasks s p))"
  "cur (upd_task p f s) = cur s" "thread_ready_list (upd_task p f s) = thread_ready_list s"
  "thread_all_list (upd_task p f s) = thread_all_list s" "idle_thread (upd_task p f s) = idle_thread s"
  "main_thread (upd_task p f s) = main_thread s" "total_ticks (upd_task p f s) = total_ticks s"
  "kont (upd_task p f s) = kont s" "phys (upd_task p f s) = phys s" "cr3 (upd_task p f s) = cr3 s"
  "tss_esp0 (upd_task p f s) = tss_esp0 s" "eflags (upd_task p f s) = eflags s"
  by (simp_all add: upd_task_def)

lemma set_stat_simps [simp]:
  "tasks (set_stat p st s) = (tasks s)(p := (tasks s p)\<lparr>status := st\<rparr>)"
  "cur (set_stat p st s) = cur s" "thread_ready_list (set_stat p st s) = thread_ready_list s"
  "thread_all_list (set_stat p st s) = thread_all_list s" "idle_thread (set_stat p st s) = idle_thread s"
  "main_thread (set_stat p st s) = main_thread s" "total_ticks (set_stat p st s) = total_ticks s"
  "kont (set_stat p st s) = kont s" "phys (set_stat p st s) = phys s" "cr3 (set_stat p st s) = cr3 s"
  "tss_esp0 (set_stat p st s) = tss_esp0 s" "eflags (set_stat p st s) = eflags s"
  by (simp_all add: set_stat_def)

lemma set_kont_simps [simp]:
  "tasks (set_kont k s) = tasks s" "cur (set_kont k s) = cur s"
  "thread_ready_list (set_kont k s) = thread_ready_list s"
  "thread_all_list (set_kont k s) = thread_all_list s" "idle_thread (set_kont k s) = idle_thread s"
  "main_thread (set_kont k s) = main_thread s" "total_ticks (set_kont k s) = total_ticks s"
  "kont (set_kont k s) = (kont s)(cur s := k)" "phys (set_kont k s) = phys s" "cr3 (set_kont k s) = cr3 s"
  "tss_esp0 (set_kont k s) = tss_esp0 s" "eflags (set_kont k s) = eflags s"
  by (simp_all add: set_kont_def)

text \<open>\<open>same_but_flags s s'\<close>: only the flags register differs.\<close>

definition same_but_flags :: "'a sched_scheme \<Rightarrow> 'a sched_scheme \<Rightarrow> bool" where
  "same_but_flags s s' \<longleftrightarrow> (\<exists>e. s' = s\<lparr>eflags := e\<rparr>)"

lemma same_but_flagsI [simp, intro]:
  "same_but_flags s s" "same_but_flags s (s\<lparr>eflags := e\<rparr>)"
  "same_but_flags s (snd (intr_disable s))" "same_but_flags s (snd (intr_enable s))"
  "same_but_flags s (snd (intr_set_status st s))" "same_but_flags s (resume s)"
proof -
  have id: "\<exists>e. s = s\<lparr>eflags := e\<rparr>" by (rule exI [of _ "eflags s"]) simp
  show "same_but_flags s s" "same_but_flags s (s\<lparr>eflags := e\<rparr>)"
    using id by (auto simp: same_but_flags_def)
  show d: "same_but_flags s (snd (intr_disable s))" and e: "same_but_flags s (snd (intr_enable s))"
    using id by (auto simp: same_but_flags_def intr_disable_def intr_enable_def)
  from d e show st: "same_but_flags s (snd (intr_set_status st s))" for st
    by (simp add: intr_set_status_def)
  show "same_but_flags s (resume s)"
    using st e by (auto simp: resume_def same_but_flags_def split: kont.splits)
qed

lemma same_but_flags_sel:
  assumes "same_but_flags s s'"
  shows "tasks s' = tasks s" "cur s' = cur s" "thread_ready_list s' = thread_ready_list s"
    "thread_all_list s' = thread_all_list s" "idle_thread s' = idle_thread s"
    "main_thread s' = main_thread s" "total_ticks s' = total_ticks s" "kont s' = kont s"
    "phys s' = phys s" "cr3 s' = cr3 s" "tss_esp0 s' = tss_esp0 s" "sched.more s' = sched.more s"
  using assms by (auto simp: same_but_flags_def)

lemmas resume_sel [simp] = same_but_flags_sel [OF same_but_flagsI(6)]
lemmas intr_set_status_sel [simp] = same_but_flags_sel [OF same_but_flagsI(5)]
lemmas intr_disable_sel [simp] = same_but_flags_sel [OF same_but_flagsI(3)]

text \<open>The invariant only looks at some fields.\<close>

lemma kdir_ok_cong:
  assumes "phys s' = phys s" and "cr3 s' = cr3 s" and "thread_all_list s' = thread_all_list s"
    and "\<And>p. pgdir (tasks s' p) = pgdir (tasks s p)"
  shows "kdir_ok s' = kdir_ok s"
  using assms by (simp add: kdir_ok_def kernel_dirs_def dir_of_def)

lemma sched_pre_flags:
  assumes "same_but_flags s s'"
  shows "sched_pre s' = sched_pre s" and "sched_wf s' = sched_wf s"
  using kdir_ok_cong [of s' s] same_but_flags_sel [OF assms]
  by (simp_all add: sched_pre_def sched_wf_def tasks_ok_def ready_ok_def)

lemma sched_pre_kont: "sched_pre (set_kont k s) = sched_pre s"
  using kdir_ok_cong [of "set_kont k s" s]
  by (simp add: sched_pre_def tasks_ok_def ready_ok_def)

lemma sched_preD:
  assumes "sched_pre s"
  shows "p \<in> set (thread_all_list s) \<Longrightarrow> p \<in> set (thread_ready_list s) \<longleftrightarrow> stat_of s p = TASK_READY"
    and "set (thread_ready_list s) \<subseteq> set (thread_all_list s)"
    and "distinct (thread_ready_list s)"
    and "p \<in> set (thread_all_list s) \<Longrightarrow> stat_of s p = TASK_RUNNING \<Longrightarrow> p = cur s"
    and "cur s \<in> set (thread_all_list s)" and "idle_thread s \<in> set (thread_all_list s)"
    and "stat_of s (idle_thread s) \<in> {TASK_RUNNING, TASK_READY, TASK_BLOCKED}"
    and "NULL \<notin> set (thread_all_list s)" and "tasks_ok s" and "kdir_ok s" and "ready_ok s"
  using assms by (simp_all add: sched_pre_def ready_ok_def tasks_ok_def)

lemma kdir_ok_activate:
  assumes "kdir_ok s" and "p \<in> set (thread_all_list s)" and "p \<noteq> NULL"
  shows "\<exists>c e. process_activate p s = Inr (s\<lparr>cr3 := c, tlb := Map.empty, tss_esp0 := e\<rparr>) \<and> dir_of s p = Inr c \<and>
     (pgdir (tasks s p) \<noteq> NULL \<longrightarrow> e = p + PG_SIZE) \<and> kdir_ok (s\<lparr>cr3 := c, tlb := Map.empty, tss_esp0 := e\<rparr>)"
proof -
  obtain c where c: "dir_of s p = Inr c"
    using assms(1,2) by (cases "pgdir (tasks s p) = NULL") (auto simp: kdir_ok_def dir_of_def)
  have pda: "page_dir_activate p s = Inr (s\<lparr>cr3 := c, tlb := Map.empty\<rparr>)"
    using assms(1,2) c by (auto simp: page_dir_activate_def kdir_ok_def dir_of_def)
  define e where "e = (if pgdir (tasks s p) \<noteq> NULL then p + PG_SIZE else tss_esp0 s)"
  have "process_activate p s = Inr (s\<lparr>cr3 := c, tlb := Map.empty, tss_esp0 := e\<rparr>)"
    using pda assms(3) by (simp add: process_activate_def update_tss_esp_def e_def)
  moreover have "kdir_ok (s\<lparr>cr3 := c, tlb := Map.empty, tss_esp0 := e\<rparr>)"
  proof -
    let ?t = "s\<lparr>cr3 := c, tlb := Map.empty, tss_esp0 := e\<rparr>"
    have d: "dir_of ?t q = dir_of s q" for q by (simp add: dir_of_def)
    then have k: "kernel_dirs ?t = kernel_dirs s" by (simp add: kernel_dirs_def)
    have "c \<in> kernel_dirs s" using c assms(2) by (auto simp: kernel_dirs_def)
    with assms(1) show ?thesis unfolding kdir_ok_def k d by simp
  qed
  ultimately show ?thesis using c by (intro exI [of _ c] exI [of _ e]) (auto simp: e_def)
qed

lemma intr_off_id:
  assumes "intr_get_status s = INTR_OFF"
  shows "intr_disable s = (INTR_OFF, s)" and "snd (intr_set_status INTR_OFF s) = s"
  using assms by (simp_all add: intr_disable_def intr_set_status_def)

lemma intr_get_status_cong: "eflags s' = eflags s \<Longrightarrow> intr_get_status s' = intr_get_status s"
  by (simp add: intr_get_status_def)

text \<open>Waking a task: it is put in front of the ready list.\<close>

definition woken :: "ptr \<Rightarrow> 'a sched_scheme \<Rightarrow> 'a sched_scheme" where
  "woken p s = set_stat p TASK_READY (s\<lparr>thread_ready_list := p # thread_ready_list s\<rparr>)"

lemma thread_unblock_eq:
  assumes "stat_of s p \<in> {TASK_BLOCKED, TASK_WAITING, TASK_HANGING}" and "p \<notin> set (thread_ready_list s)"
  shows "thread_unblock p s = Inr (woken p s)"
proof -
  obtain old s1 where d: "intr_disable s = (old, s1)" by fastforce
  have s1: "same_but_flags s s1" using d same_but_flagsI(3) [of s] by simp
  note sel = same_but_flags_sel [OF s1]
  let ?u = "woken p s1"
  have "thread_unblock p s = Inr (snd (intr_set_status old ?u))"
    using assms by (auto simp: thread_unblock_def d sel woken_def)
  moreover have "snd (intr_set_status old ?u) = woken p s"
  proof -
    have e: "eflags (snd (intr_set_status old ?u)) = eflags s"
      by (rule intr_restore [OF d]) (simp add: woken_def)
    obtain e' where e': "snd (intr_set_status old ?u) = ?u\<lparr>eflags := e'\<rparr>"
      using same_but_flagsI(5) [of ?u old] by (auto simp: same_but_flags_def)
    obtain e1 where e1: "s1 = s\<lparr>eflags := e1\<rparr>" using s1 by (auto simp: same_but_flags_def)
    have "e' = eflags s" using e e' by simp
    then show ?thesis using e' e1 by (simp add: woken_def set_stat_def upd_task_def)
  qed
  ultimately show ?thesis by simp
qed

section \<open>Scheduling\<close>

text \<open>The queue \<^verbatim>\<open>schedule\<close> pops from: the ready list, with the current task behind it when it
  is still running, and the idle task when there is nothing else.\<close>

definition sched_queue :: "'a sched_scheme \<Rightarrow> ptr list" where
  "sched_queue s =
     (let q = thread_ready_list s @ (if stat_of s (cur s) = TASK_RUNNING then [cur s] else [])
      in if q = [] then [idle_thread s] else q)"

definition sched_task :: "'a sched_scheme \<Rightarrow> ptr \<Rightarrow> task_struct" where
  "sched_task s p = (tasks s p)\<lparr>
     status := (if p = hd (sched_queue s) then TASK_RUNNING
                else if p = cur s \<and> stat_of s p = TASK_RUNNING then TASK_READY else stat_of s p),
     ticks := (if p = cur s \<and> stat_of s p = TASK_RUNNING then priority (tasks s p) else ticks (tasks s p))\<rparr>"

definition sched_result :: "u32 \<Rightarrow> u32 \<Rightarrow> 'a sched_scheme \<Rightarrow> 'a sched_scheme" where
  "sched_result c e s = s\<lparr>cur := hd (sched_queue s), tasks := sched_task s,
     thread_ready_list := tl (sched_queue s), cr3 := c, tlb := Map.empty, tss_esp0 := e\<rparr>"

lemma sched_queue_ne [simp]: "sched_queue s \<noteq> []"
  by (simp add: sched_queue_def Let_def)

lemma sched_queue_set:
  assumes "sched_pre s"
  shows "set (sched_queue s) \<subseteq> set (thread_all_list s)" and "distinct (sched_queue s)"
  using assms by (auto simp: sched_queue_def Let_def sched_pre_def ready_ok_def tasks_ok_def)

lemma sched_queue_hd:
  assumes "sched_pre s"
  shows "hd (sched_queue s) \<in> set (thread_all_list s)"
  using sched_queue_set(1) [OF assms] hd_in_set [of "sched_queue s"] by auto

lemma requeue_eq:
  assumes "sched_pre s"
  shows "\<exists>T. bind_res (requeue_cur s) (\<lambda>s. if thread_ready_list s = []
        then thread_unblock (idle_thread s) s else Inr s) =
       Inr (s\<lparr>tasks := T, thread_ready_list := sched_queue s\<rparr>) \<and>
     T(hd (sched_queue s) := (T (hd (sched_queue s)))\<lparr>status := TASK_RUNNING\<rparr>) = sched_task s"
proof (cases "stat_of s (cur s) = TASK_RUNNING")
  case True
  with assms have nr: "cur s \<notin> set (thread_ready_list s)"
    by (auto simp: sched_pre_def ready_ok_def tasks_ok_def)
  let ?T = "(tasks s)(cur s := (tasks s (cur s))\<lparr>ticks := priority (tasks s (cur s)), status := TASK_READY\<rparr>)"
  have q: "sched_queue s = thread_ready_list s @ [cur s]"
    using True by (simp add: sched_queue_def)
  have "requeue_cur s = Inr (s\<lparr>tasks := ?T, thread_ready_list := sched_queue s\<rparr>)"
    using True nr unfolding q by (simp add: requeue_cur_def upd_task_def)
  moreover have "?T(hd (sched_queue s) := (?T (hd (sched_queue s)))\<lparr>status := TASK_RUNNING\<rparr>) = sched_task s"
    using True by (auto simp: sched_task_def fun_eq_iff)
  ultimately show ?thesis by (intro exI [of _ ?T]) simp
next
  case nrun: False
  then have rq: "requeue_cur s = Inr s" by (simp add: requeue_cur_def)
  show ?thesis
  proof (cases "thread_ready_list s = []")
    case True
    let ?i = "idle_thread s"
    let ?T = "(tasks s)(?i := (tasks s ?i)\<lparr>status := TASK_READY\<rparr>)"
    have "stat_of s ?i = TASK_BLOCKED"
      using sched_preD(1,4) [OF assms sched_preD(6) [OF assms]] sched_preD(7) [OF assms] True nrun
      by auto
    with True have u: "thread_unblock ?i s = Inr (woken ?i s)"
      by (intro thread_unblock_eq) auto
    have q: "sched_queue s = [?i]" using True nrun by (simp add: sched_queue_def)
    have w: "woken ?i s = s\<lparr>tasks := ?T, thread_ready_list := sched_queue s\<rparr>"
      unfolding q using True by (simp add: woken_def set_stat_def upd_task_def)
    have "?T(?i := (?T ?i)\<lparr>status := TASK_RUNNING\<rparr>) = sched_task s"
      using nrun q by (auto simp: sched_task_def fun_eq_iff)
    with rq True u w q show ?thesis by (intro exI [of _ ?T]) simp
  next
    case False
    then have q: "sched_queue s = thread_ready_list s" using nrun by (simp add: sched_queue_def)
    have "(tasks s)(hd (sched_queue s) := (tasks s (hd (sched_queue s)))\<lparr>status := TASK_RUNNING\<rparr>) = sched_task s"
      using nrun by (auto simp: sched_task_def fun_eq_iff)
    then show ?thesis using rq False unfolding q by (intro exI [of _ "tasks s"]) simp
  qed
qed

lemma schedule_eq:
  assumes pre: "sched_pre s" and off: "intr_get_status s = INTR_OFF"
  shows "\<exists>c e. schedule s = Inr (sched_result c e s) \<and> dir_of s (hd (sched_queue s)) = Inr c \<and>
     (pgdir (tasks s (hd (sched_queue s))) \<noteq> NULL \<longrightarrow> e = hd (sched_queue s) + PG_SIZE) \<and>
     kdir_ok (sched_result c e s)"
proof -
  let ?n = "hd (sched_queue s)"
  obtain T where b: "bind_res (requeue_cur s) (\<lambda>s. if thread_ready_list s = []
        then thread_unblock (idle_thread s) s else Inr s) =
       Inr (s\<lparr>tasks := T, thread_ready_list := sched_queue s\<rparr>)"
    and T: "T(?n := (T ?n)\<lparr>status := TASK_RUNNING\<rparr>) = sched_task s"
    using requeue_eq [OF pre] by blast
  let ?s2 = "s\<lparr>thread_ready_list := tl (sched_queue s), tasks := sched_task s\<rparr>"
  have pg: "pgdir (sched_task s p) = pgdir (tasks s p)" for p by (simp add: sched_task_def)
  have n: "?n \<in> set (thread_all_list s)" by (rule sched_queue_hd [OF pre])
  have k2: "kdir_ok ?s2" using pre by (subst kdir_ok_cong [of ?s2 s]) (auto simp: sched_pre_def pg)
  have "?n \<noteq> NULL" using n pre by (auto simp: sched_pre_def tasks_ok_def)
  with kdir_ok_activate [OF k2, of ?n] n obtain c e where
    a: "process_activate ?n ?s2 = Inr (?s2\<lparr>cr3 := c, tlb := Map.empty, tss_esp0 := e\<rparr>)" "dir_of ?s2 ?n = Inr c"
      "pgdir (tasks ?s2 ?n) \<noteq> NULL \<longrightarrow> e = ?n + PG_SIZE" "kdir_ok (?s2\<lparr>cr3 := c, tlb := Map.empty, tss_esp0 := e\<rparr>)"
    by auto
  have "schedule s = bind_res (process_activate ?n ?s2) (\<lambda>s. Inr (switch_to ?n s))"
    unfolding schedule_def bind_res_assoc [symmetric] b
    using off T by (simp add: Let_def set_stat_def upd_task_def)
  then have "schedule s = Inr (sched_result c e s)"
    using a(1) by (simp add: switch_to_def sched_result_def)
  moreover have "kdir_ok (sched_result c e s)"
    using a(4) by (subst kdir_ok_cong [of _ "?s2\<lparr>cr3 := c, tlb := Map.empty, tss_esp0 := e\<rparr>"]) (simp_all add: sched_result_def)
  moreover have "dir_of ?s2 ?n = dir_of s ?n" unfolding dir_of_def by (simp add: pg)
  ultimately show ?thesis using a(2,3) pg by (intro exI [of _ c] exI [of _ e]) simp
qed

lemma sched_result_wf:
  assumes pre: "sched_pre s" and k: "kdir_ok (sched_result c e s)"
  shows "sched_wf (sched_result c e s)"
proof -
  let ?s' = "sched_result c e s" and ?q = "sched_queue s" and ?n = "hd (sched_queue s)"
  have n: "?n \<in> set (thread_all_list s)" by (rule sched_queue_hd [OF pre])
  note qs = sched_queue_set [OF pre]
  have tl: "p \<in> set (tl ?q) \<longleftrightarrow> p \<in> set ?q \<and> p \<noteq> ?n" for p
    using qs(2) by (cases ?q) auto
  have inq: "p \<in> set ?q \<longleftrightarrow> stat_of s p = TASK_READY \<or> (p = cur s \<and> stat_of s p = TASK_RUNNING)"
    if "p \<in> set (thread_all_list s)" "p \<noteq> ?n" for p
  proof -
    have "stat_of s p = TASK_READY \<longleftrightarrow> p \<in> set (thread_ready_list s)"
      using sched_preD(1) [OF pre that(1)] by simp
    then show ?thesis using that(2) by (auto simp: sched_queue_def Let_def split: if_splits)
  qed
  have "p \<in> set (tl ?q) \<longleftrightarrow> stat_of ?s' p = TASK_READY" if "p \<in> set (thread_all_list s)" for p
    using tl [of p] inq [OF that] by (auto simp: sched_result_def sched_task_def)
  moreover have "set (tl ?q) \<subseteq> set (thread_all_list s)" using qs(1) tl by blast
  ultimately have "ready_ok ?s'"
    using distinct_tl [OF qs(2)] by (simp add: ready_ok_def sched_result_def)
  moreover have "tasks_ok ?s'"
    using sched_preD(9) [OF pre] n by (simp add: tasks_ok_def sched_result_def sched_task_def)
  moreover have "p = ?n" if "p \<in> set (thread_all_list s)" "stat_of ?s' p = TASK_RUNNING" for p
    using sched_preD(4) [OF pre that(1)] that(2)
    by (auto simp: sched_result_def sched_task_def split: if_splits)
  moreover have "stat_of ?s' (idle_thread s) \<in> {TASK_RUNNING, TASK_READY, TASK_BLOCKED}"
    using sched_preD(7) [OF pre] by (auto simp: sched_result_def sched_task_def)
  moreover have "stat_of ?s' ?n = TASK_RUNNING" by (simp add: sched_result_def sched_task_def)
  ultimately show ?thesis
    using k unfolding sched_wf_def sched_pre_def by (simp add: sched_result_def)
qed

lemma schedule_wf:
  assumes "sched_pre s" and "intr_get_status s = INTR_OFF"
  shows "\<exists>c e. schedule s = Inr (sched_result c e s) \<and> sched_wf (sched_result c e s) \<and>
     dir_of s (hd (sched_queue s)) = Inr c"
  using schedule_eq [OF assms] sched_result_wf [OF assms(1)] by blast

lemma ready_okI:
  assumes "distinct (thread_ready_list s)" and "set (thread_ready_list s) \<subseteq> set (thread_all_list s)"
    and "\<And>p. p \<in> set (thread_all_list s) \<Longrightarrow> p \<in> set (thread_ready_list s) \<longleftrightarrow> stat_of s p = TASK_READY"
  shows "ready_ok s"
  using assms by (simp add: ready_ok_def)

lemma sched_preI:
  assumes "tasks_ok s" and "kdir_ok s" and "ready_ok s"
    and "\<And>p. p \<in> set (thread_all_list s) \<Longrightarrow> stat_of s p = TASK_RUNNING \<Longrightarrow> p = cur s"
    and "stat_of s (idle_thread s) \<in> {TASK_RUNNING, TASK_READY, TASK_BLOCKED}"
  shows "sched_pre s"
  unfolding sched_pre_def using assms by blast

text \<open>A change of the status of the current task keeps what \<^verbatim>\<open>schedule\<close> relies on.\<close>

lemma sched_pre_block:
  assumes wf: "sched_wf s" and st: "st \<in> {TASK_BLOCKED, TASK_WAITING, TASK_HANGING}"
    and idle: "cur s = idle_thread s \<Longrightarrow> st = TASK_BLOCKED"
  shows "sched_pre (set_stat (cur s) st s)"
proof -
  let ?t = "set_stat (cur s) st s"
  from wf have pre: "sched_pre s" and run: "stat_of s (cur s) = TASK_RUNNING" by (auto simp: sched_wf_def)
  have nr: "cur s \<notin> set (thread_ready_list s)"
    using sched_preD(1) [OF pre sched_preD(5) [OF pre]] run by simp
  show ?thesis
  proof (rule sched_preI)
    show "ready_ok ?t"
      using sched_preD(1) [OF pre] sched_preD(2,3) [OF pre] st nr by (intro ready_okI) auto
    show "kdir_ok ?t" using sched_preD(10) [OF pre] by (subst kdir_ok_cong [of _ s]) auto
    show "tasks_ok ?t" using sched_preD(9) [OF pre] by (auto simp: tasks_ok_def)
    show "p = cur ?t" if "p \<in> set (thread_all_list ?t)" "stat_of ?t p = TASK_RUNNING" for p
      using sched_preD(4) [OF pre, of p] that by (auto split: if_splits)
    show "stat_of ?t (idle_thread ?t) \<in> {TASK_RUNNING, TASK_READY, TASK_BLOCKED}"
      using sched_preD(7) [OF pre] idle by auto
  qed
qed

lemma sched_pre_yield:
  assumes wf: "sched_wf s"
  shows "sched_pre (set_stat (cur s) TASK_READY (s\<lparr>thread_ready_list := thread_ready_list s @ [cur s]\<rparr>))"
    and "cur s \<notin> set (thread_ready_list s)"
proof -
  let ?t = "set_stat (cur s) TASK_READY (s\<lparr>thread_ready_list := thread_ready_list s @ [cur s]\<rparr>)"
  from wf have pre: "sched_pre s" and run: "stat_of s (cur s) = TASK_RUNNING" by (auto simp: sched_wf_def)
  show nr: "cur s \<notin> set (thread_ready_list s)"
    using sched_preD(1) [OF pre sched_preD(5) [OF pre]] run by simp
  show "sched_pre ?t"
  proof (rule sched_preI)
    show "ready_ok ?t"
      using sched_preD(1) [OF pre] sched_preD(2,3,5) [OF pre] nr by (intro ready_okI) auto
    show "kdir_ok ?t" using sched_preD(10) [OF pre] by (subst kdir_ok_cong [of _ s]) auto
    show "tasks_ok ?t" using sched_preD(9) [OF pre] by (auto simp: tasks_ok_def)
    show "p = cur ?t" if "p \<in> set (thread_all_list ?t)" "stat_of ?t p = TASK_RUNNING" for p
      using sched_preD(4) [OF pre, of p] that by (auto split: if_splits)
    show "stat_of ?t (idle_thread ?t) \<in> {TASK_RUNNING, TASK_READY, TASK_BLOCKED}"
      using sched_preD(7) [OF pre] by auto
  qed
qed

lemma sched_wf_woken:
  assumes wf: "sched_wf s" and p: "p \<in> set (thread_all_list s)"
    and st: "stat_of s p \<in> {TASK_BLOCKED, TASK_WAITING, TASK_HANGING}"
  shows "sched_wf (woken p s)" and "thread_unblock p s = Inr (woken p s)"
proof -
  from wf have pre: "sched_pre s" and run: "stat_of s (cur s) = TASK_RUNNING" by (auto simp: sched_wf_def)
  have nr: "p \<notin> set (thread_ready_list s)" using sched_preD(1) [OF pre p] st by auto
  show "thread_unblock p s = Inr (woken p s)" by (rule thread_unblock_eq [OF st nr])
  have "sched_pre (woken p s)"
  proof (rule sched_preI)
    show "ready_ok (woken p s)"
      using sched_preD(1) [OF pre] sched_preD(2,3) [OF pre] nr p by (intro ready_okI) (auto simp: woken_def)
    show "kdir_ok (woken p s)"
      using sched_preD(10) [OF pre] by (subst kdir_ok_cong [of _ s]) (auto simp: woken_def)
    show "tasks_ok (woken p s)" using sched_preD(9) [OF pre] by (auto simp: tasks_ok_def woken_def)
    show "q = cur (woken p s)" if "q \<in> set (thread_all_list (woken p s))" "stat_of (woken p s) q = TASK_RUNNING" for q
      using sched_preD(4) [OF pre, of q] that by (auto simp: woken_def split: if_splits)
    show "stat_of (woken p s) (idle_thread (woken p s)) \<in> {TASK_RUNNING, TASK_READY, TASK_BLOCKED}"
      using sched_preD(7) [OF pre] by (auto simp: woken_def)
  qed
  moreover have "stat_of (woken p s) (cur (woken p s)) = TASK_RUNNING"
    using run st by (auto simp: woken_def)
  ultimately show "sched_wf (woken p s)" by (simp add: sched_wf_def)
qed

text \<open>A task that gives up the processor goes through \<^verbatim>\<open>schedule\<close> with interrupts off and the
  next task resumes.\<close>

lemma schedule_resume:
  assumes "sched_pre s" and "intr_get_status s = INTR_OFF"
  shows "\<exists>c e. bind_res (schedule s) (\<lambda>s. Inr (resume s)) = Inr (resume (sched_result c e s)) \<and>
     sched_wf (resume (sched_result c e s)) \<and> dir_of s (hd (sched_queue s)) = Inr c"
  using schedule_wf [OF assms] by (auto simp: sched_pre_flags [OF same_but_flagsI(6)])

definition block_entry :: "task_status \<Rightarrow> 'a sched_scheme \<Rightarrow> 'a sched_scheme" where
  "block_entry stat s = set_kont (Set_Status (intr_get_status s))
     (set_stat (cur s) stat (snd (intr_disable s)))"

lemma block_entry_pre:
  assumes wf: "sched_wf s" and st: "st \<in> {TASK_BLOCKED, TASK_WAITING, TASK_HANGING}"
    and idle: "cur s = idle_thread s \<Longrightarrow> st = TASK_BLOCKED"
  shows "sched_pre (block_entry st s)"
proof -
  have "sched_wf (snd (intr_disable s))" using wf by (simp add: sched_pre_flags(2) [OF same_but_flagsI(3)])
  from sched_pre_block [OF this st] idle show ?thesis by (simp add: block_entry_def sched_pre_kont)
qed

lemma thread_block_eq:
  assumes wf: "sched_wf s" and st: "st \<in> {TASK_BLOCKED, TASK_WAITING, TASK_HANGING}"
    and idle: "cur s = idle_thread s \<Longrightarrow> st = TASK_BLOCKED"
  shows "\<exists>c e. thread_block st s = Inr (resume (sched_result c e (block_entry st s))) \<and>
     sched_wf (resume (sched_result c e (block_entry st s)))"
proof -
  have "sched_pre (block_entry st s)" using block_entry_pre [OF wf st] idle by blast
  moreover have "intr_get_status (block_entry st s) = INTR_OFF"
    using intr_get_status_cong [of "block_entry st s" "snd (intr_disable s)"] by (simp add: block_entry_def)
  moreover have "thread_block st s = bind_res (schedule (block_entry st s)) (\<lambda>s. Inr (resume s))"
    using st by (auto simp: thread_block_def block_entry_def Let_def case_prod_unfold)
  ultimately show ?thesis using schedule_resume [of "block_entry st s"] by auto
qed

definition yield_entry :: "'a sched_scheme \<Rightarrow> 'a sched_scheme" where
  "yield_entry s = (let old = intr_get_status s; s = snd (intr_disable s) in
     set_kont (Set_Status old)
       (set_stat (cur s) TASK_READY (s\<lparr>thread_ready_list := thread_ready_list s @ [cur s]\<rparr>)))"

lemma yield_entry_pre:
  assumes "sched_wf s"
  shows "sched_pre (yield_entry s)"
proof -
  have "sched_wf (snd (intr_disable s))" using assms by (simp add: sched_pre_flags(2) [OF same_but_flagsI(3)])
  from sched_pre_yield(1) [OF this] show ?thesis by (simp add: yield_entry_def Let_def sched_pre_kont)
qed

lemma thread_yield_eq:
  assumes wf: "sched_wf s"
  shows "\<exists>c e. thread_yield s = Inr (resume (sched_result c e (yield_entry s))) \<and>
     sched_wf (resume (sched_result c e (yield_entry s)))"
proof -
  have "sched_pre (yield_entry s)" by (rule yield_entry_pre [OF wf])
  moreover have "intr_get_status (yield_entry s) = INTR_OFF"
    using intr_get_status_cong [of "yield_entry s" "snd (intr_disable s)"]
    by (simp add: yield_entry_def Let_def)
  moreover have "thread_yield s = bind_res (schedule (yield_entry s)) (\<lambda>s. Inr (resume s))"
    using sched_pre_yield(2) [OF wf]
    by (simp add: thread_yield_def yield_entry_def Let_def case_prod_unfold)
  ultimately show ?thesis using schedule_resume [of "yield_entry s"] by auto
qed

section \<open>The clock\<close>

lemma sched_pre_cong:
  assumes "cur s' = cur s" "thread_ready_list s' = thread_ready_list s"
    "thread_all_list s' = thread_all_list s" "idle_thread s' = idle_thread s"
    "phys s' = phys s" "cr3 s' = cr3 s"
    and "\<And>p. status (tasks s' p) = status (tasks s p)" "\<And>p. pgdir (tasks s' p) = pgdir (tasks s p)"
    "\<And>p. stack_magic (tasks s' p) = stack_magic (tasks s p)"
  shows "sched_pre s' = sched_pre s" and "sched_wf s' = sched_wf s"
  using assms kdir_ok_cong [of s' s]
  by (simp_all add: sched_pre_def sched_wf_def tasks_ok_def ready_ok_def)

definition tick_entry :: "'a sched_scheme \<Rightarrow> 'a sched_scheme" where
  "tick_entry s =
     (upd_task (cur s) (\<lambda>t. t\<lparr>elapsed_ticks := elapsed_ticks t + 1\<rparr>)
        ((set_kont (Intr_Return (eflags s)) s)\<lparr>eflags := eflags s AND NOT EFLAGS_IF\<rparr>))
     \<lparr>total_ticks := total_ticks s + 1\<rparr>"

lemma tick_entry_simps [simp]:
  "tasks (tick_entry s) = (tasks s)(cur s := (tasks s (cur s))\<lparr>elapsed_ticks := elapsed_ticks (tasks s (cur s)) + 1\<rparr>)"
  "cur (tick_entry s) = cur s" "thread_ready_list (tick_entry s) = thread_ready_list s"
  "thread_all_list (tick_entry s) = thread_all_list s" "idle_thread (tick_entry s) = idle_thread s"
  "main_thread (tick_entry s) = main_thread s" "total_ticks (tick_entry s) = total_ticks s + 1"
  "kont (tick_entry s) = (kont s)(cur s := Intr_Return (eflags s))" "phys (tick_entry s) = phys s"
  "cr3 (tick_entry s) = cr3 s" "tss_esp0 (tick_entry s) = tss_esp0 s"
  "eflags (tick_entry s) = eflags s AND NOT EFLAGS_IF"
  by (simp_all add: tick_entry_def)

lemma tick_entry_wf:
  assumes "sched_wf s"
  shows "sched_wf (tick_entry s)" and "intr_get_status (tick_entry s) = INTR_OFF"
  using assms sched_pre_cong(2) [of "tick_entry s" s]
  by (auto simp: intr_get_status_bit bit_simps bit_IF)

text \<open>A task whose slice is not used up keeps the processor.\<close>

lemma timer_keeps:
  assumes wf: "sched_wf s" and t: "ticks (tasks s (cur s)) \<noteq> 0"
  shows "\<exists>s'. timer_interrupt s = Inr s' \<and> sched_wf s' \<and> eflags s' = eflags s \<and>
     cur s' = cur s \<and> thread_ready_list s' = thread_ready_list s \<and>
     ticks (tasks s' (cur s)) = ticks (tasks s (cur s)) - 1 \<and>
     (\<forall>p. p \<noteq> cur s \<longrightarrow> tasks s' p = tasks s p)"
proof -
  let ?t = "upd_task (cur s) (\<lambda>t. t\<lparr>ticks := ticks t - 1\<rparr>) (tick_entry s)"
  have m: "stack_magic (tasks s (cur s)) = STACK_MAGIC"
    using wf by (auto simp: sched_wf_def sched_pre_def tasks_ok_def)
  have "timer_interrupt s = Inr (resume ?t)"
    using m t by (simp add: timer_interrupt_def intr_timer_handler_def Let_def tick_entry_def)
  moreover have "resume ?t = ?t\<lparr>eflags := eflags s\<rparr>" by (simp add: resume_def)
  moreover have "sched_wf ?t"
    using tick_entry_wf(1) [OF wf] sched_pre_cong(2) [of ?t "tick_entry s"] by simp
  then have "sched_wf (?t\<lparr>eflags := eflags s\<rparr>)"
    by (simp add: sched_pre_flags(2) [OF same_but_flagsI(2)])
  ultimately show ?thesis by simp
qed

text \<open>A task whose slice is used up goes to the end of the ready list.\<close>

lemma timer_switches:
  assumes wf: "sched_wf s" and t: "ticks (tasks s (cur s)) = 0"
  shows "\<exists>s'. timer_interrupt s = Inr s' \<and> sched_wf s' \<and>
     cur s' # thread_ready_list s' = thread_ready_list s @ [cur s] \<and>
     ticks (tasks s' (cur s)) = priority (tasks s (cur s)) \<and>
     (\<forall>p. p \<noteq> cur s \<longrightarrow> ticks (tasks s' p) = ticks (tasks s p))"
proof -
  let ?t = "tick_entry s"
  have m: "stack_magic (tasks s (cur s)) = STACK_MAGIC"
    using wf by (auto simp: sched_wf_def sched_pre_def tasks_ok_def)
  have "timer_interrupt s = bind_res (schedule ?t) (\<lambda>s. Inr (resume s))"
    using m t by (simp add: timer_interrupt_def intr_timer_handler_def Let_def tick_entry_def)
  moreover have "sched_pre ?t" using tick_entry_wf(1) [OF wf] by (simp add: sched_wf_def)
  ultimately obtain c e where r: "timer_interrupt s = Inr (resume (sched_result c e ?t))"
    and w: "sched_wf (resume (sched_result c e ?t))"
    using schedule_resume [OF _ tick_entry_wf(2) [OF wf]] by metis
  have "stat_of ?t (cur ?t) = TASK_RUNNING" using tick_entry_wf(1) [OF wf] by (simp add: sched_wf_def)
  then have "sched_queue ?t = thread_ready_list s @ [cur s]" by (simp add: sched_queue_def)
  moreover have "stat_of s (cur s) = TASK_RUNNING" using wf by (simp add: sched_wf_def)
  ultimately show ?thesis
    using r w by (intro exI [of _ "resume (sched_result c e ?t)"]) (auto simp: sched_result_def sched_task_def)
qed

lemma timer_cases:
  assumes wf: "sched_wf s"
  shows "\<exists>t. timer_interrupt s = Inr (resume t) \<and> sched_wf (resume t) \<and>
     (t = upd_task (cur s) (\<lambda>t. t\<lparr>ticks := ticks t - 1\<rparr>) (tick_entry s) \<or>
      (\<exists>c e. t = sched_result c e (tick_entry s)))"
proof (cases "ticks (tasks s (cur s)) = 0")
  have m: "stack_magic (tasks s (cur s)) = STACK_MAGIC"
    using wf by (auto simp: sched_wf_def sched_pre_def tasks_ok_def)
  case True
  then have "timer_interrupt s = bind_res (schedule (tick_entry s)) (\<lambda>s. Inr (resume s))"
    using m by (simp add: timer_interrupt_def intr_timer_handler_def Let_def tick_entry_def)
  moreover have "sched_pre (tick_entry s)" using tick_entry_wf(1) [OF wf] by (simp add: sched_wf_def)
  then obtain c e where
    "bind_res (schedule (tick_entry s)) (\<lambda>s. Inr (resume s)) = Inr (resume (sched_result c e (tick_entry s)))"
    "sched_wf (resume (sched_result c e (tick_entry s)))"
    using schedule_resume [OF _ tick_entry_wf(2) [OF wf]] by blast
  ultimately show ?thesis by (intro exI [of _ "sched_result c e (tick_entry s)"]) auto
next
  have m: "stack_magic (tasks s (cur s)) = STACK_MAGIC"
    using wf by (auto simp: sched_wf_def sched_pre_def tasks_ok_def)
  case False
  let ?t = "upd_task (cur s) (\<lambda>t. t\<lparr>ticks := ticks t - 1\<rparr>) (tick_entry s)"
  have "timer_interrupt s = Inr (resume ?t)"
    using m False by (simp add: timer_interrupt_def intr_timer_handler_def Let_def tick_entry_def)
  moreover have "sched_wf ?t"
    using tick_entry_wf(1) [OF wf] sched_pre_cong(2) [of ?t "tick_entry s"] by simp
  then have "sched_wf (resume ?t)" by (simp add: sched_pre_flags(2) [OF same_but_flagsI(6)])
  ultimately show ?thesis by (intro exI [of _ ?t]) simp
qed

fun timers :: "nat \<Rightarrow> 'a sched_scheme \<Rightarrow> 'a sched_scheme res" where
  "timers 0 s = Inr s"
| "timers (Suc n) s = bind_res (timer_interrupt s) (timers n)"

lemma timers_add: "timers (m + n) s = bind_res (timers m s) (timers n)"
proof (induction m arbitrary: s)
  case (Suc m)
  then show ?case by (cases "timer_interrupt s") simp_all
qed simp

lemma unat_u8_pred: "(x :: u8) \<noteq> 0 \<Longrightarrow> unat (x - 1) = unat x - 1"
  by (simp add: unat_minus_one)

lemma slice_ends:
  assumes "sched_wf s"
  shows "\<exists>s'. timers (Suc (unat (ticks (tasks s (cur s))))) s = Inr s' \<and> sched_wf s' \<and>
     cur s' # thread_ready_list s' = thread_ready_list s @ [cur s]"
  using assms
proof (induction "unat (ticks (tasks s (cur s)))" arbitrary: s)
  case 0
  then have "ticks (tasks s (cur s)) = 0" by (simp add: unat_eq_zero)
  with timer_switches [OF 0(2)] show ?case by auto
next
  case (Suc n)
  then have "ticks (tasks s (cur s)) \<noteq> 0" by auto
  with timer_keeps [OF Suc.prems] obtain s1 where
    s1: "timer_interrupt s = Inr s1" "sched_wf s1" "cur s1 = cur s"
      "thread_ready_list s1 = thread_ready_list s"
      "ticks (tasks s1 (cur s)) = ticks (tasks s (cur s)) - 1" by auto
  with Suc.hyps(2) have "n = unat (ticks (tasks s1 (cur s1)))"
    using \<open>ticks (tasks s (cur s)) \<noteq> 0\<close> unat_u8_pred by (metis diff_Suc_1)
  with Suc.hyps(1) [OF this s1(2)] have "\<exists>s'. timers (Suc n) s1 = Inr s' \<and> sched_wf s' \<and>
      cur s' # thread_ready_list s' = thread_ready_list s @ [cur s]" using s1(3,4) by simp
  then show ?case unfolding Suc.hyps(2) [symmetric] timers.simps(2) [of "Suc n" s] s1(1) by simp
qed

lemma round_robin:
  assumes "sched_wf s" and "i < length (thread_ready_list s)"
  shows "\<exists>n s'. n \<le> 256 * (i + 1) \<and> timers n s = Inr s' \<and> sched_wf s' \<and> cur s' = thread_ready_list s ! i"
  using assms
proof (induction i arbitrary: s)
  case 0
  let ?n = "Suc (unat (ticks (tasks s (cur s))))"
  obtain s' where s': "timers ?n s = Inr s'" "sched_wf s'"
    "cur s' # thread_ready_list s' = thread_ready_list s @ [cur s]" using slice_ends [OF 0(1)] by auto
  have "cur s' = thread_ready_list s ! 0" using s'(3) 0(2) by (cases "thread_ready_list s") auto
  moreover have "?n \<le> 256 * (0 + 1)"
    using unat_u8_lt [of "ticks (tasks s (cur s))"] by (simp del: unat_u8_lt)
  ultimately show ?case using s' by blast
next
  case (Suc i)
  let ?k = "Suc (unat (ticks (tasks s (cur s))))"
  obtain s1 where s1: "timers ?k s = Inr s1" "sched_wf s1"
    "cur s1 # thread_ready_list s1 = thread_ready_list s @ [cur s]" using slice_ends [OF Suc.prems(1)] by auto
  from s1(3) Suc.prems(2) obtain x xs where x: "thread_ready_list s = x # xs"
    by (cases "thread_ready_list s") auto
  with s1(3) Suc.prems(2) have i: "i < length (thread_ready_list s1)"
    "thread_ready_list s1 ! i = thread_ready_list s ! Suc i" by (auto simp: nth_append)
  from Suc.IH [OF s1(2) i(1)] obtain n s' where
    n: "n \<le> 256 * (i + 1)" "timers n s1 = Inr s'" "sched_wf s'" "cur s' = thread_ready_list s1 ! i" by auto
  have "timers (?k + n) s = Inr s'" using timers_add [of ?k n s] s1(1) n(2) by simp
  moreover have "?k + n \<le> 256 * (Suc i + 1)"
    using n(1) unat_u8_lt [of "ticks (tasks s (cur s))"] by (simp del: unat_u8_lt)
  ultimately show ?case using n(3,4) i(2) by (intro exI [of _ "?k + n"] exI [of _ s']) simp
qed

section \<open>Reachable states\<close>

text \<open>The operations a task can run and the clock interrupt, as steps.\<close>

inductive sched_step :: "'a sched_scheme \<Rightarrow> 'a sched_scheme \<Rightarrow> bool" where
  Block: "sched_step s s'"
    if "st \<in> {TASK_BLOCKED, TASK_WAITING, TASK_HANGING}" and "cur s = idle_thread s \<longrightarrow> st = TASK_BLOCKED"
      and "thread_block st s = Inr s'"
| Unblock: "sched_step s s'"
    if "p \<in> set (thread_all_list s)" and "stat_of s p \<in> {TASK_BLOCKED, TASK_WAITING, TASK_HANGING}"
      and "thread_unblock p s = Inr s'"
| Yield: "sched_step s s'" if "thread_yield s = Inr s'"
| Timer: "sched_step s s'" if "intr_get_status s = INTR_ON" and "timer_interrupt s = Inr s'"

lemma thread_block_wf:
  assumes "sched_wf s" and "st \<in> {TASK_BLOCKED, TASK_WAITING, TASK_HANGING}"
    and "cur s = idle_thread s \<longrightarrow> st = TASK_BLOCKED"
  shows "\<exists>s'. thread_block st s = Inr s' \<and> sched_wf s'"
  using thread_block_eq [OF assms(1,2)] assms(3) by blast

lemma timer_wf: "sched_wf s \<Longrightarrow> \<exists>s'. timer_interrupt s = Inr s' \<and> sched_wf s'"
  using timer_keeps [of s] timer_switches [of s] by blast

lemma sched_step_wf:
  assumes "sched_step s s'" and "sched_wf s"
  shows "sched_wf s'"
  using assms(1)
proof cases
  case Block
  then show ?thesis using thread_block_wf [OF assms(2)] by fastforce
next
  case Unblock
  then show ?thesis using sched_wf_woken [OF assms(2)] by fastforce
next
  case Yield
  then show ?thesis using thread_yield_eq [OF assms(2)] by fastforce
next
  case Timer
  then show ?thesis using timer_wf [OF assms(2)] by fastforce
qed

section \<open>Properties\<close>

text \<open>A machine with two kernel threads and the idle task; the idle task is blocked.\<close>

definition sample_task :: "task_status \<Rightarrow> task_struct" where
  "sample_task st = \<lparr>self_kstack = 0, pid = 1, status = st, task_name = ''t'', priority = 31, ticks = 2,
     elapsed_ticks = 0, pgdir = 0, fd_table = [0, 1, 2, -1, -1, -1, -1, -1], cwd_inode_nr = 0,
     parent_pid = -1, exit_status = 0, stack_magic = STACK_MAGIC\<rparr>"

definition sample_sched :: sched where
  "sample_sched = \<lparr>eflags = 0x202, cur = 0x1000,
     tasks = (\<lambda>_. sample_task TASK_DIED)(0x1000 := sample_task TASK_RUNNING,
        0x2000 := sample_task TASK_READY, 0x3000 := sample_task TASK_BLOCKED),
     thread_ready_list = [0x2000], thread_all_list = [0x1000, 0x2000, 0x3000],
     main_thread = 0x1000, idle_thread = 0x3000, total_ticks = 0, kont = (\<lambda>_. First_Run),
     phys = (\<lambda>_. 0), cr3 = 0x100000, tlb = Map.empty, tss_esp0 = 0\<rparr>"

lemma sample_sched_wf: "sched_wf sample_sched"
  by (simp add: sample_sched_def sample_task_def sched_wf_def sched_pre_def tasks_ok_def ready_ok_def
      kdir_ok_def kernel_dirs_def)

text \<open>C1: The scheduler invariant (the ready list has no duplicates and holds exactly the ready
  tasks, exactly the current task is running, the idle task is never waiting or hanging, the
  loaded page directory belongs to a task) holds in every state that blocking, waking, yielding
  and clock interrupts reach, in any order.\<close>

theorem sched_invariant:
  assumes "sched_step\<^sup>*\<^sup>* s s'" and "sched_wf s"
  shows "sched_wf s'"
  using assms by (induction rule: rtranclp_induct) (auto intro: sched_step_wf)

theorem sched_invariant_witness:
  "\<exists>s'. sched_step\<^sup>*\<^sup>* sample_sched s' \<and> s' \<noteq> sample_sched \<and> sched_wf s'"
proof -
  obtain s1 where s1: "timer_interrupt sample_sched = Inr s1" "ticks (tasks s1 0x1000) = 1"
    using timer_keeps [OF sample_sched_wf] by (auto simp: sample_sched_def sample_task_def)
  have "sched_step sample_sched s1"
    by (rule sched_step.Timer [OF _ s1(1)]) (simp add: sample_sched_def intr_get_status_def EFLAGS_IF_def)
  then have "sched_step\<^sup>*\<^sup>* sample_sched s1" by (rule r_into_rtranclp)
  moreover have "s1 \<noteq> sample_sched" using s1(2) by (auto simp: sample_sched_def sample_task_def)
  ultimately show ?thesis using sched_invariant [OF _ sample_sched_wf] by blast
qed

text \<open>C2: No operation of the scheduler hits one of its assertions or a bad page directory: from
  a state that satisfies the invariant, a clock interrupt, a yield, a block with one of the three
  legal states and the wake-up of a task in one of these states all return, in a state that
  satisfies it again. (The idle task only ever blocks with \<^verbatim>\<open>TASK_BLOCKED\<close>.)\<close>

theorem sched_never_panics:
  assumes "sched_wf s"
  shows "(\<exists>s'. timer_interrupt s = Inr s' \<and> sched_wf s') \<and>
     (\<exists>s'. thread_yield s = Inr s' \<and> sched_wf s') \<and>
     (\<forall>st \<in> {TASK_BLOCKED, TASK_WAITING, TASK_HANGING}.
        (cur s = idle_thread s \<longrightarrow> st = TASK_BLOCKED) \<longrightarrow> (\<exists>s'. thread_block st s = Inr s' \<and> sched_wf s')) \<and>
     (\<forall>p \<in> set (thread_all_list s). stat_of s p \<in> {TASK_BLOCKED, TASK_WAITING, TASK_HANGING} \<longrightarrow>
        (\<exists>s'. thread_unblock p s = Inr s' \<and> sched_wf s' \<and> hd (thread_ready_list s') = p))"
proof (intro conjI ballI impI)
  show "\<exists>s'. thread_yield s = Inr s' \<and> sched_wf s'" using thread_yield_eq [OF assms] by blast
  show "\<exists>s'. thread_unblock p s = Inr s' \<and> sched_wf s' \<and> hd (thread_ready_list s') = p"
    if "p \<in> set (thread_all_list s)" "stat_of s p \<in> {TASK_BLOCKED, TASK_WAITING, TASK_HANGING}" for p
    using sched_wf_woken [OF assms that]
    by (intro exI [of _ "woken p s"]) (simp add: woken_def)
qed (use timer_wf [OF assms] thread_block_wf [OF assms] in blast)+

theorem sched_never_panics_witness:
  "\<exists>s'. thread_block TASK_WAITING sample_sched = Inr s' \<and> sched_wf s'"
proof -
  have "cur sample_sched = idle_thread sample_sched \<longrightarrow> TASK_WAITING = TASK_BLOCKED"
    by (simp add: sample_sched_def)
  with sched_never_panics [OF sample_sched_wf] show ?thesis by blast
qed

text \<open>C18: \<^verbatim>\<open>schedule\<close> picks the front of the ready list, with the current task queued behind it
  when it is still running and the idle task when the list is empty; it loads the page directory
  of the chosen task, refills the time slice of the preempted one, and changes nothing else of
  any task.\<close>

theorem schedule_picks_front:
  assumes "sched_pre s" and "intr_get_status s = INTR_OFF"
  shows "\<exists>c e. schedule s = Inr (sched_result c e s) \<and> dir_of s (hd (sched_queue s)) = Inr c \<and>
     sched_wf (sched_result c e s)"
  using schedule_wf [OF assms] by blast

theorem schedule_picks_front_witness:
  "\<exists>c e. schedule (sample_sched\<lparr>eflags := 2\<rparr>) = Inr (sched_result c e (sample_sched\<lparr>eflags := 2\<rparr>)) \<and>
     dir_of (sample_sched\<lparr>eflags := 2\<rparr>) (hd (sched_queue (sample_sched\<lparr>eflags := 2\<rparr>))) = Inr c \<and>
     sched_wf (sched_result c e (sample_sched\<lparr>eflags := 2\<rparr>))"
proof (rule schedule_picks_front)
  show "sched_pre (sample_sched\<lparr>eflags := 2\<rparr>)"
    using sample_sched_wf by (simp add: sched_pre_flags(1) [OF same_but_flagsI(2)] sched_wf_def)
qed (simp add: intr_get_status_def EFLAGS_IF_def)

text \<open>C19: Round robin: as long as only clock interrupts happen, the task at position \<open>i\<close> of the
  ready list gets the processor after at most \<open>256 * (i + 1)\<close> of them, and no interrupt handler
  panics on the way.\<close>

theorem timer_round_robin:
  assumes "sched_wf s" and "i < length (thread_ready_list s)"
  shows "\<exists>n s'. n \<le> 256 * (i + 1) \<and> timers n s = Inr s' \<and> sched_wf s' \<and>
     cur s' = thread_ready_list s ! i"
  using assms by (rule round_robin)

theorem timer_round_robin_witness:
  "\<exists>n s'. n \<le> 256 * (0 + 1) \<and> timers n sample_sched = Inr s' \<and> sched_wf s' \<and>
     cur s' = thread_ready_list sample_sched ! 0"
  by (rule timer_round_robin [OF sample_sched_wf]) (simp add: sample_sched_def)

text \<open>The clock is not programmed to the 100 Hz of \<^verbatim>\<open>IRQ0_FREQUENCY\<close>: whatever the counter
  value, its high byte is written as 0, and for the value \<open>11931\<close> of \<^verbatim>\<open>timer_init\<close> the counter is
  loaded with \<open>155\<close>.\<close>

theorem frequency_set_drops_high_byte:
  "frequency_set port no rwl mode v ! 2 = (ucast port, 0) \<and>
   timer_init_writes = [(0x43, 0x34), (0x40, 155), (0x40, 0)]"
proof -
  have "drop_bit 8 (ucast v :: u8) = 0"
    by (rule bit_word_eqI) (auto simp: bit_simps)
  then show ?thesis by (simp add: frequency_set_def timer_init_writes_def)
qed

end
