(* ===== verification/Sync.thy ===== *)
theory Sync
  imports Sched
begin

text \<open>
  Semaphores and recursive locks: \<^verbatim>\<open>thread/sync.c\<close> on top of the scheduler.

  A semaphore or lock is named by its address. The operations are cut where another task can
  run: \<open>lock_enter\<close> is the test at the head of \<^verbatim>\<open>lock_acquire\<close>, \<open>sema_down\<close> and
  \<open>sema_down_try\<close> one pass of the loop of \<^verbatim>\<open>sema_down\<close> (it ends with the semaphore taken or with
  the task asleep), \<open>lock_got\<close> the rest of \<^verbatim>\<open>lock_acquire\<close>, \<open>lock_leave\<close> the part of
  \<^verbatim>\<open>lock_release\<close> before \<^verbatim>\<open>sema_up\<close>. Where a task stands between two of these parts is its
  \<open>pc\<close>. The relation \<open>sync_step\<close> interleaves the parts of all tasks with clock interrupts and
  with the blocking and waking that other parts of the kernel do.
\<close>

section \<open>Data\<close>

record semaphore =
  sema_value :: u8
  waiters :: "ptr list"

record lock =
  holder :: ptr
  holder_repeat_nr :: u32

text \<open>The semaphore of a lock lies behind its holder field.\<close>

definition sema_of :: "ptr \<Rightarrow> ptr" where "sema_of plock = plock + 4"

datatype lpc = Run | Acq ptr | Retry ptr intr_status | Got ptr | Rel ptr

record ksync = sched +
  semas :: "ptr \<Rightarrow> semaphore"
  locks :: "ptr \<Rightarrow> lock"
  pc :: "ptr \<Rightarrow> lpc"

definition set_pc :: "ptr \<Rightarrow> lpc \<Rightarrow> ksync \<Rightarrow> ksync" where
  "set_pc p k s = s\<lparr>pc := (pc s)(p := k)\<rparr>"

definition set_sema :: "ptr \<Rightarrow> semaphore \<Rightarrow> ksync \<Rightarrow> ksync" where
  "set_sema psem v s = s\<lparr>semas := (semas s)(psem := v)\<rparr>"

definition set_lock :: "ptr \<Rightarrow> lock \<Rightarrow> ksync \<Rightarrow> ksync" where
  "set_lock plock v s = s\<lparr>locks := (locks s)(plock := v)\<rparr>"

section \<open>The operations\<close>

definition sema_init :: "ptr \<Rightarrow> u8 \<Rightarrow> ksync \<Rightarrow> ksync" where
  "sema_init psem v s = set_sema psem \<lparr>sema_value = v, waiters = []\<rparr> s"

definition lock_init :: "ptr \<Rightarrow> ksync \<Rightarrow> ksync" where
  "lock_init plock s = sema_init (sema_of plock) 1 (set_lock plock \<lparr>holder = NULL, holder_repeat_nr = 0\<rparr> s)"

text \<open>One pass of the loop of \<^verbatim>\<open>sema_down\<close>, interrupts off: \<open>(True, s')\<close> when the semaphore was
  taken, \<open>(False, s')\<close> when the task went to sleep and another one runs in \<open>s'\<close>.\<close>

definition sema_down_try :: "ptr \<Rightarrow> intr_status \<Rightarrow> ksync \<Rightarrow> (bool \<times> ksync) res" where
  "sema_down_try psem old_status s =
     (let sm = semas s psem in
      if sema_value sm = 0 then
        bind_res (ASSERT (cur s \<notin> set (waiters sm))
          ''!elem_find(&psem->waiters, &running_thread()->general_tag)'') (\<lambda>_.
        if cur s \<in> set (waiters sm)
        then Inl (Panic ''sem_down: thread blocked has been in waiters_list'')
        else
          let s = set_sema psem (sm\<lparr>waiters := waiters sm @ [cur s]\<rparr>) s;
              s = set_pc (cur s) (Retry psem old_status) s
          in bind_res (thread_block TASK_BLOCKED s) (\<lambda>s. Inr (False, s)))
      else
        let sm = sm\<lparr>sema_value := sema_value sm - 1\<rparr>;
            s = set_sema psem sm s
        in bind_res (ASSERT (sema_value sm = 0) ''psem->value == 0'') (\<lambda>_.
           Inr (True, snd (intr_set_status old_status s))))"

definition sema_down :: "ptr \<Rightarrow> ksync \<Rightarrow> (bool \<times> ksync) res" where
  "sema_down psem s = (let (old_status, s) = intr_disable s in sema_down_try psem old_status s)"

definition sema_up :: "ptr \<Rightarrow> ksync \<Rightarrow> ksync res" where
  "sema_up psem s =
     (let (old_status, s) = intr_disable s in
      bind_res (ASSERT (sema_value (semas s psem) = 0) ''psem->value == 0'') (\<lambda>_.
      bind_res
        (if waiters (semas s psem) \<noteq> [] then
           let thread_blocked = hd (waiters (semas s psem));
               s = set_sema psem ((semas s psem)\<lparr>waiters := tl (waiters (semas s psem))\<rparr>) s
           in thread_unblock thread_blocked s
         else Inr s) (\<lambda>s.
      let s = set_sema psem ((semas s psem)\<lparr>sema_value := sema_value (semas s psem) + 1\<rparr>) s in
      bind_res (ASSERT (sema_value (semas s psem) = 1) ''psem->value == 1'') (\<lambda>_.
      Inr (snd (intr_set_status old_status s))))))"

definition lock_enter :: "ptr \<Rightarrow> ksync \<Rightarrow> ksync" where
  "lock_enter plock s =
     (if holder (locks s plock) \<noteq> cur s then set_pc (cur s) (Acq plock) s
      else set_lock plock ((locks s plock)\<lparr>holder_repeat_nr := holder_repeat_nr (locks s plock) + 1\<rparr>) s)"

definition lock_got :: "ptr \<Rightarrow> ksync \<Rightarrow> ksync res" where
  "lock_got plock s =
     (let s = set_lock plock ((locks s plock)\<lparr>holder := cur s\<rparr>) s in
      bind_res (ASSERT (holder_repeat_nr (locks s plock) = 0) ''plock->holder_repeat_nr == 0'') (\<lambda>_.
      Inr (set_pc (cur s) Run (set_lock plock ((locks s plock)\<lparr>holder_repeat_nr := 1\<rparr>) s))))"

definition lock_leave :: "ptr \<Rightarrow> ksync \<Rightarrow> ksync res" where
  "lock_leave plock s =
     bind_res (ASSERT (holder (locks s plock) = cur s) ''plock->holder == running_thread()'') (\<lambda>_.
     if holder_repeat_nr (locks s plock) > 1 then
       Inr (set_lock plock ((locks s plock)\<lparr>holder_repeat_nr := holder_repeat_nr (locks s plock) - 1\<rparr>) s)
     else
       bind_res (ASSERT (holder_repeat_nr (locks s plock) = 1) ''plock->holder_repeat_nr == 1'') (\<lambda>_.
       Inr (set_pc (cur s) (Rel plock)
              (set_lock plock ((locks s plock)\<lparr>holder := NULL, holder_repeat_nr := 0\<rparr>) s))))"

text \<open>The parts put together, for a task that is not interrupted and does not have to wait.\<close>

definition lock_acquire :: "ptr \<Rightarrow> ksync \<Rightarrow> ksync res" where
  "lock_acquire plock s =
     (let s = lock_enter plock s in
      if pc s (cur s) = Acq plock then
        bind_res (sema_down (sema_of plock) s) (\<lambda>(taken, s).
        if taken then lock_got plock s else Inl Blocks)
      else Inr s)"

definition lock_release :: "ptr \<Rightarrow> ksync \<Rightarrow> ksync res" where
  "lock_release plock s =
     bind_res (lock_leave plock s) (\<lambda>s.
     if pc s (cur s) = Rel plock then
       bind_res (sema_up (sema_of plock) s) (\<lambda>s. Inr (set_pc (cur s) Run s))
     else Inr s)"

section \<open>Interleaving\<close>

text \<open>
  A step of the current task on a lock of \<open>L\<close>, a clock interrupt, or a block, yield or wake-up
  that some other part of the kernel does. The idle task takes no locks, a task that waits for a
  semaphore is woken by \<^verbatim>\<open>sema_up\<close> only, and no task acquires a lock \<open>2\<^sup>3\<^sup>2\<close> times without
  releasing it.
\<close>

inductive sync_step :: "ptr set \<Rightarrow> ksync \<Rightarrow> ksync \<Rightarrow> bool" for L where
  Enter: "sync_step L s (lock_enter l s)"
    if "l \<in> L" "cur s \<noteq> idle_thread s" "pc s (cur s) = Run"
      "holder (locks s l) = cur s \<longrightarrow> holder_repeat_nr (locks s l) \<noteq> -1"
| Taken: "sync_step L s (set_pc (cur s) (Got l) s')"
    if "pc s (cur s) = Acq l" "sema_down (sema_of l) s = Inr (True, s')"
| Asleep: "sync_step L s s'"
    if "pc s (cur s) = Acq l" "sema_down (sema_of l) s = Inr (False, s')"
| Retry_taken: "sync_step L s (set_pc (cur s) (Got l) s')"
    if "pc s (cur s) = Retry (sema_of l) old" "sema_down_try (sema_of l) old s = Inr (True, s')"
| Retry_asleep: "sync_step L s s'"
    if "pc s (cur s) = Retry (sema_of l) old" "sema_down_try (sema_of l) old s = Inr (False, s')"
| Lock_got: "sync_step L s s'" if "pc s (cur s) = Got l" "lock_got l s = Inr s'"
| Leave: "sync_step L s s'"
    if "l \<in> L" "cur s \<noteq> idle_thread s" "pc s (cur s) = Run" "holder (locks s l) = cur s"
      "lock_leave l s = Inr s'"
| Up: "sync_step L s (set_pc (cur s) Run s')"
    if "pc s (cur s) = Rel l" "sema_up (sema_of l) s = Inr s'"
| Tick: "sync_step L s s'" if "intr_get_status s = INTR_ON" "timer_interrupt s = Inr s'"
| Yield: "sync_step L s s'" if "pc s (cur s) = Run" "thread_yield s = Inr s'"
| Block: "sync_step L s s'"
    if "pc s (cur s) = Run" "st \<in> {TASK_BLOCKED, TASK_WAITING, TASK_HANGING}"
      "cur s = idle_thread s \<longrightarrow> st = TASK_BLOCKED" "thread_block st s = Inr s'"
| Wake: "sync_step L s s'"
    if "p \<in> set (thread_all_list s)" "pc s p = Run"
      "stat_of s p \<in> {TASK_BLOCKED, TASK_WAITING, TASK_HANGING}" "thread_unblock p s = Inr s'"

section \<open>Invariant\<close>

definition asleep_on :: "ptr \<Rightarrow> lpc \<Rightarrow> bool" where
  "asleep_on l k \<longleftrightarrow> (\<exists>old. k = Retry (sema_of l) old)"

definition awake :: "task_status \<Rightarrow> bool" where
  "awake st \<longleftrightarrow> st = TASK_READY \<or> st = TASK_RUNNING"

text \<open>Who has the lock: the task that took the semaphore and is about to become the holder, the
  holder, and the task that cleared the holder and is about to give the semaphore back.\<close>

definition owns :: "(ptr \<Rightarrow> lpc) \<Rightarrow> lock \<Rightarrow> ptr \<Rightarrow> ptr \<Rightarrow> bool" where
  "owns pcs lk l p \<longleftrightarrow> pcs p = Got l \<or> pcs p = Rel l \<or> holder lk = p"

text \<open>
  \<open>lock_inv A pcs st lk sm l\<close> for the tasks \<open>A\<close>, their positions \<open>pcs\<close> and states \<open>st\<close>: the
  semaphore is 0 or 1; it is 1 when nobody has the lock and 0 when exactly one task has it; the
  recursion count is 0 exactly when there is no holder; the waiters are exactly the tasks asleep
  in \<^verbatim>\<open>sema_down\<close>, without duplicates; and when the semaphore is free while tasks wait, one of
  the tasks that were woken is about to try again.
\<close>

definition owner_inv :: "ptr set \<Rightarrow> (ptr \<Rightarrow> lpc) \<Rightarrow> lock \<Rightarrow> u8 \<Rightarrow> ptr \<Rightarrow> bool" where
  "owner_inv A pcs lk v l \<longleftrightarrow>
     (v = 0 \<and> (\<exists>p \<in> A. (\<forall>q \<in> A. owns pcs lk l q \<longleftrightarrow> q = p) \<and>
        (holder lk \<noteq> NULL \<longrightarrow> holder lk = p \<and> pcs p \<noteq> Got l \<and> pcs p \<noteq> Rel l)) \<or>
      v = 1 \<and> holder lk = NULL \<and> (\<forall>q \<in> A. \<not> owns pcs lk l q)) \<and>
     (holder_repeat_nr lk = 0 \<longleftrightarrow> holder lk = NULL)"

definition wait_inv :: "ptr set \<Rightarrow> (ptr \<Rightarrow> lpc) \<Rightarrow> (ptr \<Rightarrow> task_status) \<Rightarrow> semaphore \<Rightarrow> ptr \<Rightarrow> bool" where
  "wait_inv A pcs st sm l \<longleftrightarrow>
     distinct (waiters sm) \<and> set (waiters sm) = {p \<in> A. asleep_on l (pcs p) \<and> st p = TASK_BLOCKED} \<and>
     (sema_value sm \<noteq> 0 \<and> waiters sm \<noteq> [] \<longrightarrow> (\<exists>p \<in> A. asleep_on l (pcs p) \<and> awake (st p)))"

definition lock_inv :: "ptr set \<Rightarrow> (ptr \<Rightarrow> lpc) \<Rightarrow> (ptr \<Rightarrow> task_status) \<Rightarrow> lock \<Rightarrow> semaphore \<Rightarrow> ptr \<Rightarrow> bool" where
  "lock_inv A pcs st lk sm l \<longleftrightarrow> owner_inv A pcs lk (sema_value sm) l \<and> wait_inv A pcs st sm l"

definition pc_ok :: "ptr set \<Rightarrow> ptr set \<Rightarrow> ptr \<Rightarrow> (ptr \<Rightarrow> lpc) \<Rightarrow> (ptr \<Rightarrow> task_status) \<Rightarrow> bool" where
  "pc_ok L A idle pcs st \<longleftrightarrow> pcs idle = Run \<and>
     (\<forall>p \<in> A. case pcs p of Run \<Rightarrow> True
        | Acq l \<Rightarrow> l \<in> L \<and> awake (st p) | Got l \<Rightarrow> l \<in> L \<and> awake (st p) | Rel l \<Rightarrow> l \<in> L \<and> awake (st p)
        | Retry m old \<Rightarrow> (\<exists>l \<in> L. m = sema_of l) \<and> (awake (st p) \<or> st p = TASK_BLOCKED))"

definition core_inv :: "ptr set \<Rightarrow> ptr set \<Rightarrow> ptr \<Rightarrow> (ptr \<Rightarrow> lpc) \<Rightarrow> (ptr \<Rightarrow> task_status) \<Rightarrow>
    (ptr \<Rightarrow> lock) \<Rightarrow> (ptr \<Rightarrow> semaphore) \<Rightarrow> bool" where
  "core_inv L A idle pcs st lks sms \<longleftrightarrow> NULL \<notin> A \<and> pc_ok L A idle pcs st \<and>
     (\<forall>l \<in> L. lock_inv A pcs st (lks l) (sms (sema_of l)) l)"

definition sync_wf :: "ptr set \<Rightarrow> ksync \<Rightarrow> bool" where
  "sync_wf L s \<longleftrightarrow> sched_wf s \<and>
     core_inv L (set (thread_all_list s)) (idle_thread s) (pc s) (stat_of s) (locks s) (semas s)"

section \<open>Lemmas on the invariant\<close>

lemma sema_of_inj [simp]: "sema_of l = sema_of l' \<longleftrightarrow> l = l'"
  by (simp add: sema_of_def)

lemma asleep_on_simps [simp]:
  "\<not> asleep_on l Run" "\<not> asleep_on l (Acq l')" "\<not> asleep_on l (Got l')" "\<not> asleep_on l (Rel l')"
  "asleep_on l (Retry m old) \<longleftrightarrow> m = sema_of l"
  by (auto simp: asleep_on_def)

definition neutral :: "ptr \<Rightarrow> lpc \<Rightarrow> bool" where
  "neutral l k \<longleftrightarrow> k \<noteq> Got l \<and> k \<noteq> Rel l \<and> \<not> asleep_on l k"

text \<open>Steps that do not concern the lock \<open>l\<close>: they move tasks between positions that mean nothing
  for \<open>l\<close>, and change no task that sleeps on \<open>l\<close>.\<close>

lemma lock_inv_frame:
  assumes inv: "lock_inv A pcs st lk sm l"
    and pc: "\<And>q. q \<in> A \<Longrightarrow> pcs' q = pcs q \<or> neutral l (pcs q) \<and> neutral l (pcs' q)"
    and st: "\<And>q. q \<in> A \<Longrightarrow> asleep_on l (pcs q) \<Longrightarrow>
      (st' q = TASK_BLOCKED \<longleftrightarrow> st q = TASK_BLOCKED) \<and> (awake (st' q) \<longleftrightarrow> awake (st q))"
  shows "lock_inv A pcs' st' lk sm l"
proof -
  have as: "asleep_on l (pcs' q) \<longleftrightarrow> asleep_on l (pcs q)" if "q \<in> A" for q
    using pc [OF that] by (auto simp: neutral_def)
  have own: "owns pcs' lk l q \<longleftrightarrow> owns pcs lk l q" if "q \<in> A" for q
    using pc [OF that] by (auto simp: neutral_def owns_def)
  have gr: "pcs' q = Got l \<or> pcs' q = Rel l \<longleftrightarrow> pcs q = Got l \<or> pcs q = Rel l" if "q \<in> A" for q
    using pc [OF that] by (auto simp: neutral_def)
  have "owner_inv A pcs' lk (sema_value sm) l = owner_inv A pcs lk (sema_value sm) l"
  proof -
    have "(\<forall>q \<in> A. owns pcs' lk l q \<longleftrightarrow> q = p) \<longleftrightarrow> (\<forall>q \<in> A. owns pcs lk l q \<longleftrightarrow> q = p)" for p
      using own by auto
    moreover have "(\<forall>q \<in> A. \<not> owns pcs' lk l q) \<longleftrightarrow> (\<forall>q \<in> A. \<not> owns pcs lk l q)"
      using own by auto
    moreover have "(pcs' p \<noteq> Got l \<and> pcs' p \<noteq> Rel l) \<longleftrightarrow> (pcs p \<noteq> Got l \<and> pcs p \<noteq> Rel l)" if "p \<in> A" for p
      using gr [OF that] by auto
    ultimately show ?thesis by (simp add: owner_inv_def cong: bex_cong)
  qed
  moreover have "{p \<in> A. asleep_on l (pcs' p) \<and> st' p = TASK_BLOCKED} =
      {p \<in> A. asleep_on l (pcs p) \<and> st p = TASK_BLOCKED}"
    using as st by blast
  moreover have "(\<exists>p \<in> A. asleep_on l (pcs' p) \<and> awake (st' p)) = (\<exists>p \<in> A. asleep_on l (pcs p) \<and> awake (st p))"
    using as st by blast
  ultimately show ?thesis using inv by (simp add: lock_inv_def wait_inv_def)
qed

text \<open>Taking the semaphore.\<close>

lemma lock_inv_take:
  assumes inv: "lock_inv A pcs st lk sm l" and v: "sema_value sm \<noteq> 0" and p: "p \<in> A" "st p \<noteq> TASK_BLOCKED"
    and nn: "NULL \<notin> A"
  shows "lock_inv A (pcs(p := Got l)) st lk (sm\<lparr>sema_value := sema_value sm - 1\<rparr>) l"
    and "sema_value sm = 1"
proof -
  from inv v show v1: "sema_value sm = 1" by (auto simp: lock_inv_def owner_inv_def)
  have no: "\<not> owns pcs lk l q" if "q \<in> A" for q
    using inv v that by (auto simp: lock_inv_def owner_inv_def)
  have h: "holder lk = NULL" using inv v by (auto simp: lock_inv_def owner_inv_def)
  have own: "owns (pcs(p := Got l)) lk l q \<longleftrightarrow> q = p" if "q \<in> A" for q
    using no [OF that] h nn that by (auto simp: owns_def)
  have "owner_inv A (pcs(p := Got l)) lk 0 l"
    using inv own p(1) h by (auto simp: lock_inv_def owner_inv_def)
  moreover have "{q \<in> A. asleep_on l ((pcs(p := Got l)) q) \<and> st q = TASK_BLOCKED} =
      {q \<in> A. asleep_on l (pcs q) \<and> st q = TASK_BLOCKED}"
    using p(2) by auto
  ultimately show "lock_inv A (pcs(p := Got l)) st lk (sm\<lparr>sema_value := sema_value sm - 1\<rparr>) l"
    using inv v1 by (simp add: lock_inv_def wait_inv_def)
qed

text \<open>Going to sleep.\<close>

lemma lock_inv_sleep:
  assumes inv: "lock_inv A pcs st lk sm l" and v: "sema_value sm = 0"
    and p: "p \<in> A" "st p \<noteq> TASK_BLOCKED" "pcs p \<noteq> Got l" "pcs p \<noteq> Rel l"
  shows "lock_inv A (pcs(p := Retry (sema_of l) old)) (st(p := TASK_BLOCKED)) lk
           (sm\<lparr>waiters := waiters sm @ [p]\<rparr>) l"
    and "p \<notin> set (waiters sm)"
proof -
  from inv p show np: "p \<notin> set (waiters sm)" by (auto simp: lock_inv_def wait_inv_def)
  let ?pcs = "pcs(p := Retry (sema_of l) old)"
  have own: "owns ?pcs lk l q \<longleftrightarrow> owns pcs lk l q" for q
    using p(3,4) by (auto simp: owns_def)
  have "owner_inv A ?pcs lk 0 l"
    using inv v own p(3,4) unfolding lock_inv_def owner_inv_def by (auto split: if_splits)
  moreover have "{q \<in> A. asleep_on l (?pcs q) \<and> (st(p := TASK_BLOCKED)) q = TASK_BLOCKED} =
      insert p {q \<in> A. asleep_on l (pcs q) \<and> st q = TASK_BLOCKED}"
    using p(1) by auto
  ultimately show "lock_inv A ?pcs (st(p := TASK_BLOCKED)) lk (sm\<lparr>waiters := waiters sm @ [p]\<rparr>) l"
    using inv v np by (simp add: lock_inv_def wait_inv_def)
qed

lemma owner_invD:
  assumes inv: "lock_inv A pcs st lk sm l" and p: "p \<in> A" "owns pcs lk l p"
  shows "sema_value sm = 0" and "\<forall>q \<in> A. owns pcs lk l q \<longleftrightarrow> q = p"
    and "holder lk \<noteq> NULL \<Longrightarrow> holder lk = p \<and> pcs p \<noteq> Got l \<and> pcs p \<noteq> Rel l"
proof -
  have "\<exists>r \<in> A. (\<forall>q \<in> A. owns pcs lk l q \<longleftrightarrow> q = r) \<and>
        (holder lk \<noteq> NULL \<longrightarrow> holder lk = r \<and> pcs r \<noteq> Got l \<and> pcs r \<noteq> Rel l)" (is "\<exists>r \<in> A. ?P r")
    and "sema_value sm = 0"
    using inv p by (auto simp: lock_inv_def owner_inv_def)
  then obtain r where r: "r \<in> A" "?P r" by blast
  then have "p = r" using p by blast
  with r \<open>sema_value sm = 0\<close> show "sema_value sm = 0" and "\<forall>q \<in> A. owns pcs lk l q \<longleftrightarrow> q = p"
    and "holder lk \<noteq> NULL \<Longrightarrow> holder lk = p \<and> pcs p \<noteq> Got l \<and> pcs p \<noteq> Rel l" by simp_all
qed

text \<open>Becoming the holder, acquiring again, releasing once, and releasing for good.\<close>

lemma lock_inv_got:
  assumes inv: "lock_inv A pcs st lk sm l" and p: "p \<in> A" "pcs p = Got l" and nn: "NULL \<notin> A"
  shows "lock_inv A (pcs(p := Run)) st (lk\<lparr>holder := p, holder_repeat_nr := 1\<rparr>) sm l"
    and "holder_repeat_nr lk = 0"
proof -
  have o: "owns pcs lk l p" using p by (simp add: owns_def)
  note own = owner_invD(2) [OF inv p(1) o] and v = owner_invD(1) [OF inv p(1) o]
  have h: "holder lk = NULL" using owner_invD(3) [OF inv p(1) o] p(2) by auto
  from h inv show "holder_repeat_nr lk = 0" by (simp add: lock_inv_def owner_inv_def)
  have "owner_inv A (pcs(p := Run)) (lk\<lparr>holder := p, holder_repeat_nr := 1\<rparr>) 0 l"
    unfolding owner_inv_def using own p(1) nn by (auto simp: owns_def intro!: bexI [of _ p])
  moreover have "{q \<in> A. asleep_on l ((pcs(p := Run)) q) \<and> st q = TASK_BLOCKED} =
      {q \<in> A. asleep_on l (pcs q) \<and> st q = TASK_BLOCKED}"
    using p(2) by auto
  ultimately show "lock_inv A (pcs(p := Run)) st (lk\<lparr>holder := p, holder_repeat_nr := 1\<rparr>) sm l"
    using inv v by (simp add: lock_inv_def wait_inv_def)
qed

lemma owns_repeat [simp]: "owns pcs (lk\<lparr>holder_repeat_nr := n\<rparr>) l q = owns pcs lk l q"
  by (simp add: owns_def)

lemma lock_inv_repeat:
  assumes "lock_inv A pcs st lk sm l" and "holder lk \<noteq> NULL" and "n \<noteq> 0"
  shows "lock_inv A pcs st (lk\<lparr>holder_repeat_nr := n\<rparr>) sm l"
  using assms by (auto simp: lock_inv_def owner_inv_def)

lemma lock_inv_leave:
  assumes inv: "lock_inv A pcs st lk sm l" and p: "p \<in> A" "holder lk = p" "pcs p = Run" and nn: "NULL \<notin> A"
  shows "lock_inv A (pcs(p := Rel l)) st (lk\<lparr>holder := NULL, holder_repeat_nr := 0\<rparr>) sm l"
    and "holder_repeat_nr lk \<noteq> 0"
proof -
  have h: "holder lk \<noteq> NULL" using p nn by auto
  have o: "owns pcs lk l p" using p by (simp add: owns_def)
  note own = owner_invD(2) [OF inv p(1) o] and v = owner_invD(1) [OF inv p(1) o]
  from h inv show "holder_repeat_nr lk \<noteq> 0" by (simp add: lock_inv_def owner_inv_def)
  have "owner_inv A (pcs(p := Rel l)) (lk\<lparr>holder := NULL, holder_repeat_nr := 0\<rparr>) 0 l"
    unfolding owner_inv_def using own p(1) nn by (auto simp: owns_def intro!: bexI [of _ p])
  moreover have "{q \<in> A. asleep_on l ((pcs(p := Rel l)) q) \<and> st q = TASK_BLOCKED} =
      {q \<in> A. asleep_on l (pcs q) \<and> st q = TASK_BLOCKED}"
    using p(3) by auto
  ultimately show "lock_inv A (pcs(p := Rel l)) st (lk\<lparr>holder := NULL, holder_repeat_nr := 0\<rparr>) sm l"
    using inv v by (simp add: lock_inv_def wait_inv_def)
qed

text \<open>Giving the semaphore back, with and without a waiter to wake.\<close>

lemma lock_inv_up:
  assumes inv: "lock_inv A pcs st lk sm l" and p: "p \<in> A" "pcs p = Rel l" and nn: "NULL \<notin> A"
  shows "sema_value sm = 0"
    and "waiters sm = [] \<Longrightarrow> lock_inv A (pcs(p := Run)) st lk (sm\<lparr>sema_value := 1\<rparr>) l"
    and "waiters sm = w # ws \<Longrightarrow>
      lock_inv A (pcs(p := Run)) (st(w := TASK_READY)) lk (sm\<lparr>waiters := ws, sema_value := 1\<rparr>) l"
    and "waiters sm = w # ws \<Longrightarrow> w \<in> A \<and> asleep_on l (pcs w) \<and> st w = TASK_BLOCKED"
proof -
  have ow: "owns pcs lk l p" using p by (simp add: owns_def)
  note own = owner_invD(2) [OF inv p(1) ow]
  have h: "holder lk = NULL" using owner_invD(3) [OF inv p(1) ow] p(2) by auto
  show v: "sema_value sm = 0" by (rule owner_invD(1) [OF inv p(1) ow])
  have o: "owner_inv A (pcs(p := Run)) lk 1 l"
    unfolding owner_inv_def using own h nn inv
    by (auto simp: owns_def lock_inv_def owner_inv_def)
  have wt: "set (waiters sm) = {q \<in> A. asleep_on l (pcs q) \<and> st q = TASK_BLOCKED}" and d: "distinct (waiters sm)"
    using inv by (auto simp: lock_inv_def wait_inv_def)
  have same: "{q \<in> A. asleep_on l ((pcs(p := Run)) q) \<and> st q = TASK_BLOCKED} =
      {q \<in> A. asleep_on l (pcs q) \<and> st q = TASK_BLOCKED}"
    using p(2) by auto
  show "lock_inv A (pcs(p := Run)) st lk (sm\<lparr>sema_value := 1\<rparr>) l" if "waiters sm = []"
    using that o wt same by (simp add: lock_inv_def wait_inv_def)
  show w: "w \<in> A \<and> asleep_on l (pcs w) \<and> st w = TASK_BLOCKED" if "waiters sm = w # ws" for w ws
    using that wt by auto
  show "lock_inv A (pcs(p := Run)) (st(w := TASK_READY)) lk (sm\<lparr>waiters := ws, sema_value := 1\<rparr>) l"
    if ww: "waiters sm = w # ws" for w ws
  proof -
    have "w \<noteq> p" using w [OF ww] p(2) by auto
    then have "\<exists>q \<in> A. asleep_on l ((pcs(p := Run)) q) \<and> awake ((st(w := TASK_READY)) q)"
      using w [OF ww] by (intro bexI [of _ w]) (auto simp: awake_def)
    moreover have "set ws = {q \<in> A. asleep_on l ((pcs(p := Run)) q) \<and> (st(w := TASK_READY)) q = TASK_BLOCKED}"
      using wt d ww p(2) by auto
    ultimately show ?thesis using o d ww by (simp add: lock_inv_def wait_inv_def)
  qed
qed

section \<open>Steps of the invariant\<close>

text \<open>\<open>of_lock l k\<close>: a task at \<open>k\<close> is outside, or somewhere inside the operations on \<open>l\<close>.\<close>

definition of_lock :: "ptr \<Rightarrow> lpc \<Rightarrow> bool" where
  "of_lock l k \<longleftrightarrow> k = Run \<or> k = Acq l \<or> k = Got l \<or> k = Rel l \<or> asleep_on l k"

lemma of_lock_neutral: "of_lock l k \<Longrightarrow> l' \<noteq> l \<Longrightarrow> neutral l' k"
  by (auto simp: of_lock_def neutral_def asleep_on_def)

definition same_life :: "ptr set \<Rightarrow> (ptr \<Rightarrow> lpc) \<Rightarrow> (ptr \<Rightarrow> task_status) \<Rightarrow> (ptr \<Rightarrow> task_status) \<Rightarrow> bool" where
  "same_life A pcs st st' \<longleftrightarrow> (\<forall>q \<in> A. pcs q \<noteq> Run \<longrightarrow>
     (st' q = TASK_BLOCKED \<longleftrightarrow> st q = TASK_BLOCKED) \<and> (awake (st' q) \<longleftrightarrow> awake (st q)))"

lemma core_env:
  assumes "core_inv L A idle pcs st lks sms" and "same_life A pcs st st'"
  shows "core_inv L A idle pcs st' lks sms"
proof -
  have st: "(st' q = TASK_BLOCKED \<longleftrightarrow> st q = TASK_BLOCKED) \<and> (awake (st' q) \<longleftrightarrow> awake (st q))"
    if "q \<in> A" "pcs q \<noteq> Run" for q using assms(2) that by (auto simp: same_life_def)
  have "lock_inv A pcs st' (lks l) (sms (sema_of l)) l" if "l \<in> L" for l
  proof (rule lock_inv_frame [of A pcs st])
    show "lock_inv A pcs st (lks l) (sms (sema_of l)) l"
      using assms(1) that by (auto simp: core_inv_def)
    show "(st' q = TASK_BLOCKED \<longleftrightarrow> st q = TASK_BLOCKED) \<and> (awake (st' q) \<longleftrightarrow> awake (st q))"
      if "q \<in> A" "asleep_on l (pcs q)" for q using st that by (cases "pcs q") auto
  qed simp
  moreover have "pc_ok L A idle pcs st'"
  proof -
    have "case pcs p of Run \<Rightarrow> True
        | Acq l \<Rightarrow> l \<in> L \<and> awake (st' p) | Got l \<Rightarrow> l \<in> L \<and> awake (st' p) | Rel l \<Rightarrow> l \<in> L \<and> awake (st' p)
        | Retry m old \<Rightarrow> (\<exists>l \<in> L. m = sema_of l) \<and> (awake (st' p) \<or> st' p = TASK_BLOCKED)" if "p \<in> A" for p
      using assms(1) that st [OF that] by (cases "pcs p") (auto simp: core_inv_def pc_ok_def dest!: bspec)
    then show ?thesis using assms(1) by (auto simp: core_inv_def pc_ok_def)
  qed
  ultimately show ?thesis using assms(1) by (simp add: core_inv_def)
qed

text \<open>A step of task \<open>p\<close> on the lock \<open>l\<close>; \<open>w\<close> is the only other task whose state changes, and it
  sleeps on \<open>l\<close>.\<close>

lemma core_upd:
  assumes core: "core_inv L A idle pcs st lks sms" and p: "p \<noteq> idle" and l: "l \<in> L"
    and inv: "lock_inv A (pcs(p := k)) st' lk sm l"
    and of_l: "of_lock l (pcs p)" "of_lock l k"
    and st: "\<And>q. q \<in> A \<Longrightarrow> q \<noteq> p \<Longrightarrow> \<not> asleep_on l (pcs q) \<Longrightarrow> st' q = st q"
    and wk: "\<And>q. q \<in> A \<Longrightarrow> q \<noteq> p \<Longrightarrow> asleep_on l (pcs q) \<Longrightarrow> awake (st' q) \<or> st' q = TASK_BLOCKED"
    and kp: "k = Run \<or> awake (st' p) \<or> asleep_on l k \<and> st' p = TASK_BLOCKED"
  shows "core_inv L A idle (pcs(p := k)) st' (lks(l := lk)) (sms(sema_of l := sm))"
proof -
  have "lock_inv A (pcs(p := k)) st' (lks l') (sms (sema_of l')) l'" if l': "l' \<in> L" "l' \<noteq> l" for l'
  proof (rule lock_inv_frame [of A pcs st])
    show "lock_inv A pcs st (lks l') (sms (sema_of l')) l'" using core l'(1) by (auto simp: core_inv_def)
    show "(pcs(p := k)) q = pcs q \<or> neutral l' (pcs q) \<and> neutral l' ((pcs(p := k)) q)" for q
      using of_lock_neutral [OF of_l(1) l'(2)] of_lock_neutral [OF of_l(2) l'(2)] by auto
    show "(st' q = TASK_BLOCKED) = (st q = TASK_BLOCKED) \<and> awake (st' q) = awake (st q)"
      if q: "q \<in> A" "asleep_on l' (pcs q)" for q
    proof -
      have "\<not> asleep_on l (pcs q)" using q(2) l'(2) by (auto simp: asleep_on_def)
      moreover have "q \<noteq> p" using q(2) of_lock_neutral [OF of_l(1) l'(2)] by (auto simp: neutral_def)
      ultimately show ?thesis using st [OF q(1)] by simp
    qed
  qed
  with inv have "\<forall>l' \<in> L. lock_inv A (pcs(p := k)) st' ((lks(l := lk)) l') ((sms(sema_of l := sm)) (sema_of l')) l'"
    by simp
  moreover have "pc_ok L A idle (pcs(p := k)) st'"
  proof -
    have "case (pcs(p := k)) q of Run \<Rightarrow> True
        | Acq l \<Rightarrow> l \<in> L \<and> awake (st' q) | Got l \<Rightarrow> l \<in> L \<and> awake (st' q) | Rel l \<Rightarrow> l \<in> L \<and> awake (st' q)
        | Retry m old \<Rightarrow> (\<exists>l \<in> L. m = sema_of l) \<and> (awake (st' q) \<or> st' q = TASK_BLOCKED)" if q: "q \<in> A" for q
    proof (cases "q = p")
      case True
      then show ?thesis using of_l(2) kp l by (cases k) (auto simp: of_lock_def)
    next
      case False
      have ok: "case pcs q of Run \<Rightarrow> True
        | Acq l \<Rightarrow> l \<in> L \<and> awake (st q) | Got l \<Rightarrow> l \<in> L \<and> awake (st q) | Rel l \<Rightarrow> l \<in> L \<and> awake (st q)
        | Retry m old \<Rightarrow> (\<exists>l \<in> L. m = sema_of l) \<and> (awake (st q) \<or> st q = TASK_BLOCKED)"
        using core q by (auto simp: core_inv_def pc_ok_def)
      show ?thesis
      proof (cases "asleep_on l (pcs q)")
        case True
        with wk [OF q False] False l show ?thesis by (auto simp: asleep_on_def)
      next
        case na: False
        with st [OF q False] False ok show ?thesis by (cases "pcs q") simp_all
      qed
    qed
    then show ?thesis using core p by (auto simp: core_inv_def pc_ok_def)
  qed
  ultimately show ?thesis using core by (simp add: core_inv_def)
qed

section \<open>The operations keep the invariant\<close>

lemma set_simps [simp]:
  "tasks (set_pc p k s) = tasks s" "cur (set_pc p k s) = cur s" "thread_ready_list (set_pc p k s) = thread_ready_list s"
  "thread_all_list (set_pc p k s) = thread_all_list s" "idle_thread (set_pc p k s) = idle_thread s"
  "phys (set_pc p k s) = phys s" "cr3 (set_pc p k s) = cr3 s" "eflags (set_pc p k s) = eflags s"
  "pc (set_pc p k s) = (pc s)(p := k)" "semas (set_pc p k s) = semas s" "locks (set_pc p k s) = locks s"
  "tasks (set_sema m v s) = tasks s" "cur (set_sema m v s) = cur s" "thread_ready_list (set_sema m v s) = thread_ready_list s"
  "thread_all_list (set_sema m v s) = thread_all_list s" "idle_thread (set_sema m v s) = idle_thread s"
  "phys (set_sema m v s) = phys s" "cr3 (set_sema m v s) = cr3 s" "eflags (set_sema m v s) = eflags s"
  "pc (set_sema m v s) = pc s" "semas (set_sema m v s) = (semas s)(m := v)" "locks (set_sema m v s) = locks s"
  "tasks (set_lock l x s) = tasks s" "cur (set_lock l x s) = cur s" "thread_ready_list (set_lock l x s) = thread_ready_list s"
  "thread_all_list (set_lock l x s) = thread_all_list s" "idle_thread (set_lock l x s) = idle_thread s"
  "phys (set_lock l x s) = phys s" "cr3 (set_lock l x s) = cr3 s" "eflags (set_lock l x s) = eflags s"
  "pc (set_lock l x s) = pc s" "semas (set_lock l x s) = semas s" "locks (set_lock l x s) = (locks s)(l := x)"
  by (simp_all add: set_pc_def set_sema_def set_lock_def)

lemma set_sched_wf [simp]:
  "sched_wf (set_pc p k s) = sched_wf s" "sched_wf (set_sema m v s) = sched_wf s"
  "sched_wf (set_lock l x s) = sched_wf s"
  using sched_pre_cong(2) [of "set_pc p k s" s] sched_pre_cong(2) [of "set_sema m v s" s]
    sched_pre_cong(2) [of "set_lock l x s" s] by simp_all

lemma flags_ksync:
  fixes s :: ksync
  assumes "same_but_flags s s'"
  shows "pc s' = pc s" "semas s' = semas s" "locks s' = locks s"
  using assms by (auto simp: same_but_flags_def)

lemmas flags_ksync_sel [simp] = flags_ksync [OF same_but_flagsI(3)] flags_ksync [OF same_but_flagsI(5)]
  flags_ksync [OF same_but_flagsI(6)]

lemma sync_wf_flags: "same_but_flags s s' \<Longrightarrow> sync_wf L s' = sync_wf L s"
  using same_but_flags_sel [of s s'] flags_ksync [of s s'] sched_pre_flags(2) [of s s']
  by (simp add: sync_wf_def)

lemma sync_wfD:
  assumes "sync_wf L s"
  shows "sched_wf s" and "sched_pre s" and "cur s \<in> set (thread_all_list s)" and "stat_of s (cur s) = TASK_RUNNING"
    and "NULL \<notin> set (thread_all_list s)" and "pc s (idle_thread s) = Run"
    and "core_inv L (set (thread_all_list s)) (idle_thread s) (pc s) (stat_of s) (locks s) (semas s)"
    and "l \<in> L \<Longrightarrow> lock_inv (set (thread_all_list s)) (pc s) (stat_of s) (locks s l) (semas s (sema_of l)) l"
  using assms sched_preD(5,8) [of s] by (simp_all add: sync_wf_def sched_wf_def core_inv_def pc_ok_def)

lemma pc_ok_lock:
  assumes "sync_wf L s" and "p \<in> set (thread_all_list s)"
    and "pc s p = Acq l \<or> pc s p = Got l \<or> pc s p = Rel l \<or> pc s p = Retry (sema_of l) old"
  shows "l \<in> L" and "p \<noteq> idle_thread s"
proof -
  have "case pc s p of Run \<Rightarrow> True
        | Acq l \<Rightarrow> l \<in> L \<and> awake (stat_of s p) | Got l \<Rightarrow> l \<in> L \<and> awake (stat_of s p)
        | Rel l \<Rightarrow> l \<in> L \<and> awake (stat_of s p)
        | Retry m old \<Rightarrow> (\<exists>l \<in> L. m = sema_of l) \<and> (awake (stat_of s p) \<or> stat_of s p = TASK_BLOCKED)"
    using sync_wfD(7) [OF assms(1)] assms(2) by (auto simp: core_inv_def pc_ok_def)
  then show "l \<in> L" using assms(3) by auto
  show "p \<noteq> idle_thread s" using sync_wfD(6) [OF assms(1)] assms(3) by auto
qed

text \<open>Scheduling wakes nobody but the idle task.\<close>

lemma sched_result_life:
  assumes pre: "sched_pre s" and idle: "pcs (idle_thread s) = Run"
  shows "same_life (set (thread_all_list s)) pcs (stat_of s) (stat_of (sched_result c e s))"
  unfolding same_life_def
proof (intro ballI impI)
  fix q assume q: "q \<in> set (thread_all_list s)" "pcs q \<noteq> Run"
  have "q \<noteq> idle_thread s" using q(2) idle by auto
  have "awake (stat_of s q)" if "q = hd (sched_queue s)"
  proof -
    have "q \<in> set (sched_queue s)" using that by simp
    then have "q \<in> set (thread_ready_list s) \<or> q = cur s \<and> stat_of s q = TASK_RUNNING"
      using \<open>q \<noteq> idle_thread s\<close> by (auto simp: sched_queue_def Let_def split: if_splits)
    then show ?thesis using sched_preD(1) [OF pre q(1)] by (auto simp: awake_def)
  qed
  then show "(stat_of (sched_result c e s) q = TASK_BLOCKED) = (stat_of s q = TASK_BLOCKED) \<and>
     awake (stat_of (sched_result c e s) q) = awake (stat_of s q)"
    by (auto simp: sched_result_def sched_task_def awake_def)
qed

lemma same_life_refl [simp]: "same_life A pcs st st"
  by (simp add: same_life_def)

lemma sched_result_sel [simp]:
  fixes s :: ksync
  shows "pc (sched_result c e s) = pc s" "semas (sched_result c e s) = semas s" "locks (sched_result c e s) = locks s"
    "thread_all_list (sched_result c e s) = thread_all_list s" "idle_thread (sched_result c e s) = idle_thread s"
  by (simp_all add: sched_result_def)

lemma sync_wf_sched:
  assumes "core_inv L (set (thread_all_list s)) (idle_thread s) (pc s) (stat_of s) (locks s) (semas s)"
    and "sched_pre s" and "sched_wf (resume (sched_result c e s))"
  shows "sync_wf L (resume (sched_result c e s))"
proof -
  have "pc s (idle_thread s) = Run" using assms(1) by (simp add: core_inv_def pc_ok_def)
  from core_env [OF assms(1) sched_result_life [OF assms(2), of "pc s", OF this]] assms(3)
  show ?thesis by (simp add: sync_wf_def)
qed

lemma block_entry_sel [simp]:
  fixes s :: ksync
  shows "pc (block_entry st s) = pc s" "semas (block_entry st s) = semas s" "locks (block_entry st s) = locks s"
    "thread_all_list (block_entry st s) = thread_all_list s" "idle_thread (block_entry st s) = idle_thread s"
    "stat_of (block_entry st s) = (stat_of s)(cur s := st)"
    "cur (block_entry st s) = cur s"
  by (simp_all add: block_entry_def set_kont_def set_stat_def upd_task_def fun_eq_iff)

lemma block_entry_stat:
  fixes s :: ksync
  shows "status (tasks (block_entry st s) p) = (if p = cur s then st else stat_of s p)"
  by (simp add: block_entry_def set_kont_def set_stat_def upd_task_def)

lemma down_try_taken:
  assumes wf: "sync_wf L s" and l: "l \<in> L" and v: "sema_value (semas s (sema_of l)) \<noteq> 0"
    and k: "pc s (cur s) = Acq l \<or> pc s (cur s) = Retry (sema_of l) old"
  shows "\<exists>s'. sema_down_try (sema_of l) old' s = Inr (True, s') \<and> cur s' = cur s \<and>
     sync_wf L (set_pc (cur s) (Got l) s')"
proof -
  let ?sm = "semas s (sema_of l)" and ?A = "set (thread_all_list s)"
  let ?sm' = "?sm\<lparr>sema_value := sema_value ?sm - 1\<rparr>"
  let ?s' = "snd (intr_set_status old' (set_sema (sema_of l) ?sm' s))"
  note run = sync_wfD(4) [OF wf] and c = sync_wfD(3) [OF wf]
  have nb: "stat_of s (cur s) \<noteq> TASK_BLOCKED" using run by simp
  note take = lock_inv_take [OF sync_wfD(8) [OF wf l] v c nb sync_wfD(5) [OF wf]]
  have "sema_down_try (sema_of l) old' s = Inr (True, ?s')"
    using v take(2) by (simp add: sema_down_try_def Let_def)
  moreover have "core_inv L ?A (idle_thread s) ((pc s)(cur s := Got l)) (stat_of s)
      ((locks s)(l := locks s l)) ((semas s)(sema_of l := ?sm'))"
  proof (rule core_upd [OF sync_wfD(7) [OF wf] _ l take(1)])
    show "cur s \<noteq> idle_thread s" using k sync_wfD(6) [OF wf] by auto
    show "awake (stat_of s q) \<or> stat_of s q = TASK_BLOCKED" if "q \<in> ?A" "asleep_on l (pc s q)" for q
      using sync_wfD(7) [OF wf] that by (auto simp: core_inv_def pc_ok_def asleep_on_def dest!: bspec [of _ _ q])
    show "Got l = Run \<or> awake (stat_of s (cur s)) \<or> asleep_on l (Got l) \<and> stat_of s (cur s) = TASK_BLOCKED"
      using run by (simp add: awake_def)
  qed (use k in \<open>auto simp: of_lock_def\<close>)
  then have "sync_wf L (set_pc (cur s) (Got l) ?s')"
    using wf sched_pre_flags(2) [OF same_but_flagsI(5), of old' "set_sema (sema_of l) ?sm' s"]
    by (simp add: sync_wf_def)
  ultimately show ?thesis by (intro exI [of _ ?s']) simp
qed

lemma down_try_asleep:
  assumes wf: "sync_wf L s" and l: "l \<in> L" and v: "sema_value (semas s (sema_of l)) = 0"
    and k: "pc s (cur s) = Acq l \<or> pc s (cur s) = Retry (sema_of l) old"
  shows "\<exists>s'. sema_down_try (sema_of l) old' s = Inr (False, s') \<and> sync_wf L s'"
proof -
  let ?sm = "semas s (sema_of l)" and ?A = "set (thread_all_list s)"
  let ?sm' = "?sm\<lparr>waiters := waiters ?sm @ [cur s]\<rparr>"
  let ?t = "set_pc (cur s) (Retry (sema_of l) old') (set_sema (sema_of l) ?sm' s)"
  note run = sync_wfD(4) [OF wf] and c = sync_wfD(3) [OF wf]
  have nb: "stat_of s (cur s) \<noteq> TASK_BLOCKED" using run by simp
  have ng: "pc s (cur s) \<noteq> Got l" "pc s (cur s) \<noteq> Rel l" using k by auto
  note sleep = lock_inv_sleep(1) [OF sync_wfD(8) [OF wf l] v c nb ng, of old']
    lock_inv_sleep(2) [OF sync_wfD(8) [OF wf l] v c nb ng]
  have "core_inv L ?A (idle_thread s) ((pc s)(cur s := Retry (sema_of l) old')) ((stat_of s)(cur s := TASK_BLOCKED))
      ((locks s)(l := locks s l)) ((semas s)(sema_of l := ?sm'))"
  proof (rule core_upd [OF sync_wfD(7) [OF wf] _ l sleep(1)])
    show "cur s \<noteq> idle_thread s" using k sync_wfD(6) [OF wf] by auto
    show "awake (((stat_of s)(cur s := TASK_BLOCKED)) q) \<or> ((stat_of s)(cur s := TASK_BLOCKED)) q = TASK_BLOCKED"
      if "q \<in> ?A" "q \<noteq> cur s" "asleep_on l (pc s q)" for q
      using sync_wfD(7) [OF wf] that by (auto simp: core_inv_def pc_ok_def asleep_on_def dest!: bspec [of _ _ q])
  qed (use k in \<open>auto simp: of_lock_def\<close>)
  then have core: "core_inv L (set (thread_all_list (block_entry TASK_BLOCKED ?t))) (idle_thread (block_entry TASK_BLOCKED ?t))
      (pc (block_entry TASK_BLOCKED ?t)) (stat_of (block_entry TASK_BLOCKED ?t)) (locks (block_entry TASK_BLOCKED ?t))
      (semas (block_entry TASK_BLOCKED ?t))"
    by simp
  have wft: "sched_wf ?t" using sync_wfD(1) [OF wf] by simp
  obtain c e where b: "thread_block TASK_BLOCKED ?t = Inr (resume (sched_result c e (block_entry TASK_BLOCKED ?t)))"
    "sched_wf (resume (sched_result c e (block_entry TASK_BLOCKED ?t)))"
    using thread_block_eq [OF wft, of TASK_BLOCKED] by auto
  have "sync_wf L (resume (sched_result c e (block_entry TASK_BLOCKED ?t)))"
    by (rule sync_wf_sched [OF core block_entry_pre [OF wft] b(2)]) simp_all
  moreover have "sema_down_try (sema_of l) old' s = Inr (False, resume (sched_result c e (block_entry TASK_BLOCKED ?t)))"
    using v sleep(2) b(1) by (simp add: sema_down_try_def Let_def)
  ultimately show ?thesis by blast
qed

lemma sema_down_total:
  assumes wf: "sync_wf L s" and k: "pc s (cur s) = Acq l"
  shows "(\<exists>s'. sema_down (sema_of l) s = Inr (True, s') \<and> sync_wf L (set_pc (cur s) (Got l) s')) \<or>
     (\<exists>s'. sema_down (sema_of l) s = Inr (False, s') \<and> sync_wf L s')"
proof -
  let ?s = "snd (intr_disable s)"
  have l: "l \<in> L" using pc_ok_lock(1) [OF wf sync_wfD(3) [OF wf]] k by blast
  have wf': "sync_wf L ?s" using wf by (simp add: sync_wf_flags [OF same_but_flagsI(3)])
  have k': "pc ?s (cur ?s) = Acq l \<or> pc ?s (cur ?s) = Retry (sema_of l) INTR_OFF" using k by simp
  have "sema_down (sema_of l) s = sema_down_try (sema_of l) (intr_get_status s) ?s"
    by (simp add: sema_down_def case_prod_unfold)
  then show ?thesis
    using down_try_taken [OF wf' l _ k'] down_try_asleep [OF wf' l _ k']
    by (cases "sema_value (semas s (sema_of l)) = 0") auto
qed

lemma down_retry_total:
  assumes wf: "sync_wf L s" and k: "pc s (cur s) = Retry (sema_of l) old"
  shows "(\<exists>s'. sema_down_try (sema_of l) old s = Inr (True, s') \<and> sync_wf L (set_pc (cur s) (Got l) s')) \<or>
     (\<exists>s'. sema_down_try (sema_of l) old s = Inr (False, s') \<and> sync_wf L s')"
proof -
  have l: "l \<in> L" using pc_ok_lock(1) [OF wf sync_wfD(3) [OF wf]] k by blast
  have k': "pc s (cur s) = Acq l \<or> pc s (cur s) = Retry (sema_of l) old" using k by simp
  show ?thesis
    using down_try_taken [OF wf l _ k'] down_try_asleep [OF wf l _ k']
    by (cases "sema_value (semas s (sema_of l)) = 0") auto
qed

lemma retry_life:
  assumes "sync_wf L s" and "q \<in> set (thread_all_list s)" and "asleep_on l (pc s q)"
  shows "awake (stat_of s q) \<or> stat_of s q = TASK_BLOCKED"
  using sync_wfD(7) [OF assms(1)] assms(2,3)
  by (auto simp: core_inv_def pc_ok_def asleep_on_def dest!: bspec [of _ _ q])

text \<open>A step of the current task on one lock that changes no task state.\<close>

lemma sync_wf_local:
  assumes wf: "sync_wf L s" and l: "l \<in> L" and i: "cur s \<noteq> idle_thread s"
    and of_l: "of_lock l (pc s (cur s))" "of_lock l k"
    and inv: "lock_inv (set (thread_all_list s)) ((pc s)(cur s := k)) (stat_of s) lk sm l"
  shows "sync_wf L (set_pc (cur s) k (set_lock l lk (set_sema (sema_of l) sm s)))"
proof -
  have "core_inv L (set (thread_all_list s)) (idle_thread s) ((pc s)(cur s := k)) (stat_of s)
      ((locks s)(l := lk)) ((semas s)(sema_of l := sm))"
    by (rule core_upd [OF sync_wfD(7) [OF wf] i l inv of_l])
       (use retry_life [OF wf] sync_wfD(4) [OF wf] in \<open>auto simp: awake_def\<close>)
  then show ?thesis using sync_wfD(1) [OF wf] by (simp add: sync_wf_def)
qed

lemma set_same [simp]:
  "set_sema m (semas s m) s = s" "set_lock l (locks s l) s = s" "set_pc p (pc s p) s = s"
  by (simp_all add: set_sema_def set_lock_def set_pc_def)

lemma lock_enter_wf:
  assumes wf: "sync_wf L s" and l: "l \<in> L" and i: "cur s \<noteq> idle_thread s" and k: "pc s (cur s) = Run"
    and r: "holder (locks s l) = cur s \<longrightarrow> holder_repeat_nr (locks s l) \<noteq> -1"
  shows "sync_wf L (lock_enter l s)"
proof (cases "holder (locks s l) = cur s")
  case True
  let ?lk = "(locks s l)\<lparr>holder_repeat_nr := holder_repeat_nr (locks s l) + 1\<rparr>"
  have "holder (locks s l) \<noteq> NULL" using True sync_wfD(3,5) [OF wf] by auto
  moreover have "holder_repeat_nr (locks s l) + 1 \<noteq> 0"
    using r True by (metis add.commute add_eq_0_iff)
  ultimately have "lock_inv (set (thread_all_list s)) ((pc s)(cur s := Run)) (stat_of s) ?lk (semas s (sema_of l)) l"
    using lock_inv_repeat [OF sync_wfD(8) [OF wf l]] k by (metis fun_upd_triv)
  from sync_wf_local [OF wf l i _ _ this] have "sync_wf L (set_pc (cur s) Run (set_lock l ?lk s))"
    using k by (simp add: of_lock_def)
  moreover have "set_pc (cur s) Run (set_lock l ?lk s) = set_lock l ?lk s"
    using k set_same(3) [of "cur s" "set_lock l ?lk s"] by simp
  ultimately show ?thesis using True by (simp add: lock_enter_def)
next
  case False
  have "lock_inv (set (thread_all_list s)) ((pc s)(cur s := Acq l)) (stat_of s) (locks s l) (semas s (sema_of l)) l"
    by (rule lock_inv_frame [OF sync_wfD(8) [OF wf l]]) (use k in \<open>auto simp: neutral_def\<close>)
  from sync_wf_local [OF wf l i _ _ this] show ?thesis
    using False k by (simp add: lock_enter_def of_lock_def)
qed

lemma lock_got_wf:
  assumes wf: "sync_wf L s" and k: "pc s (cur s) = Got l"
  shows "\<exists>s'. lock_got l s = Inr s' \<and> sync_wf L s'"
proof -
  note c = sync_wfD(3) [OF wf]
  have l: "l \<in> L" and i: "cur s \<noteq> idle_thread s" using pc_ok_lock [OF wf c] k by blast+
  note got = lock_inv_got [OF sync_wfD(8) [OF wf l] c k sync_wfD(5) [OF wf]]
  let ?lk = "(locks s l)\<lparr>holder := cur s, holder_repeat_nr := 1\<rparr>"
  have "sync_wf L (set_pc (cur s) Run (set_lock l ?lk s))"
    using sync_wf_local [OF wf l i _ _ got(1)] k by (simp add: of_lock_def)
  moreover have "lock_got l s = Inr (set_pc (cur s) Run (set_lock l ?lk s))"
    using got(2) by (simp add: lock_got_def Let_def set_lock_def set_pc_def)
  ultimately show ?thesis by blast
qed

lemma lock_leave_wf:
  assumes wf: "sync_wf L s" and l: "l \<in> L" and k: "pc s (cur s) = Run" and h: "holder (locks s l) = cur s"
    and i: "cur s \<noteq> idle_thread s"
  shows "\<exists>s'. lock_leave l s = Inr s' \<and> sync_wf L s'"
proof -
  note c = sync_wfD(3) [OF wf]
  note leave = lock_inv_leave [OF sync_wfD(8) [OF wf l] c h k sync_wfD(5) [OF wf]]
  let ?n = "holder_repeat_nr (locks s l)"
  show ?thesis
  proof (cases "?n > 1")
    case True
    let ?lk = "(locks s l)\<lparr>holder_repeat_nr := ?n - 1\<rparr>"
    have "?n - 1 \<noteq> 0" using True by auto
    moreover have "holder (locks s l) \<noteq> NULL" using h sync_wfD(3,5) [OF wf] by auto
    ultimately have "lock_inv (set (thread_all_list s)) ((pc s)(cur s := Run)) (stat_of s) ?lk (semas s (sema_of l)) l"
      using lock_inv_repeat [OF sync_wfD(8) [OF wf l]] k by (metis fun_upd_triv)
    from sync_wf_local [OF wf l i _ _ this] have "sync_wf L (set_pc (cur s) Run (set_lock l ?lk s))"
      using k by (simp add: of_lock_def)
    moreover have "set_pc (cur s) Run (set_lock l ?lk s) = set_lock l ?lk s"
      using k set_same(3) [of "cur s" "set_lock l ?lk s"] by simp
    ultimately show ?thesis using True h by (simp add: lock_leave_def)
  next
    case False
    then have one: "?n = 1" using leave(2) by (metis word_less_1 word_not_simps(1) antisym_conv3)
    have "sync_wf L (set_pc (cur s) (Rel l) (set_lock l ((locks s l)\<lparr>holder := NULL, holder_repeat_nr := 0\<rparr>) s))"
      using sync_wf_local [OF wf l i _ _ leave(1)] k by (simp add: of_lock_def)
    then show ?thesis using False one h by (simp add: lock_leave_def)
  qed
qed

lemma sched_wf_set_stat_ready:
  assumes "sched_wf s" and "w \<in> set (thread_all_list s)" and "stat_of s w = TASK_BLOCKED"
  shows "sched_wf (woken w s)" and "thread_unblock w s = Inr (woken w s)"
  using sched_wf_woken [OF assms(1,2)] assms(3) by auto

lemma woken_sel [simp]:
  fixes s :: ksync
  shows "pc (woken p s) = pc s" "semas (woken p s) = semas s" "locks (woken p s) = locks s" "cur (woken p s) = cur s"
    "thread_all_list (woken p s) = thread_all_list s" "idle_thread (woken p s) = idle_thread s"
    "stat_of (woken p s) = (stat_of s)(p := TASK_READY)"
  by (simp_all add: woken_def set_stat_def upd_task_def fun_eq_iff)

lemma sema_up_wf:
  assumes wf: "sync_wf L s" and k: "pc s (cur s) = Rel l"
  shows "\<exists>s'. sema_up (sema_of l) s = Inr s' \<and> cur s' = cur s \<and> sync_wf L (set_pc (cur s) Run s') \<and>
     (\<forall>w ws. waiters (semas s (sema_of l)) = w # ws \<longrightarrow> stat_of s' w = TASK_READY)"
proof -
  define t where "t = snd (intr_disable s)"
  define old where "old = intr_get_status s"
  have wf': "sync_wf L t" using wf by (simp add: t_def sync_wf_flags [OF same_but_flagsI(3)])
  have k': "pc t (cur t) = Rel l" using k by (simp add: t_def)
  have eqs: "semas t = semas s" "cur t = cur s" by (simp_all add: t_def)
  note c = sync_wfD(3) [OF wf']
  have l: "l \<in> L" and i: "cur t \<noteq> idle_thread t" using pc_ok_lock [OF wf' c] k' by blast+
  let ?m = "sema_of l" and ?A = "set (thread_all_list t)"
  let ?sm = "semas t ?m"
  note up = lock_inv_up [OF sync_wfD(8) [OF wf' l] c k' sync_wfD(5) [OF wf']]
  have fin: "sync_wf L (set_pc (cur t) Run (snd (intr_set_status old u)))" if "sync_wf L (set_pc (cur t) Run u)" for u
  proof -
    obtain e where "snd (intr_set_status old u) = u\<lparr>eflags := e\<rparr>"
      using same_but_flagsI(5) [of u old] by (auto simp: same_but_flags_def)
    then have "set_pc (cur t) Run (snd (intr_set_status old u)) = (set_pc (cur t) Run u)\<lparr>eflags := e\<rparr>"
      by (simp add: set_pc_def)
    then show ?thesis using that sync_wf_flags [OF same_but_flagsI(2)] by metis
  qed
  show ?thesis
  proof (cases "waiters ?sm")
    case Nil
    let ?u = "set_sema ?m (?sm\<lparr>sema_value := 1\<rparr>) t"
    have "sync_wf L (set_pc (cur t) Run (set_lock l (locks t l) ?u))"
      by (rule sync_wf_local [OF wf' l i _ _ up(2) [OF Nil], simplified]) (use k' in \<open>auto simp: of_lock_def\<close>)
    then have "sync_wf L (set_pc (cur t) Run (snd (intr_set_status old ?u)))"
      using fin [of ?u] set_same(2) [of l ?u] by simp
    moreover have "sema_up ?m s = Inr (snd (intr_set_status old ?u))"
      using Nil up(1) by (simp add: sema_up_def case_prod_unfold t_def old_def Let_def)
    ultimately show ?thesis using Nil eqs
      by (intro exI [of _ "snd (intr_set_status old ?u)"]) simp
  next
    case (Cons w ws)
    let ?a = "set_sema ?m (?sm\<lparr>waiters := ws\<rparr>) t"
    let ?b = "woken w ?a"
    let ?u = "set_sema ?m (?sm\<lparr>waiters := ws, sema_value := 1\<rparr>) ?b"
    note w = up(4) [OF Cons]
    have ub: "thread_unblock w ?a = Inr ?b" "sched_wf ?b"
      using sched_wf_set_stat_ready [of ?a w] w sync_wfD(1) [OF wf'] by simp_all
    have "core_inv L ?A (idle_thread t) ((pc t)(cur t := Run)) ((stat_of t)(w := TASK_READY))
        ((locks t)(l := locks t l)) ((semas t)(?m := ?sm\<lparr>waiters := ws, sema_value := 1\<rparr>))"
    proof (rule core_upd [OF sync_wfD(7) [OF wf'] i l up(3) [OF Cons]])
      show "awake (((stat_of t)(w := TASK_READY)) q) \<or> ((stat_of t)(w := TASK_READY)) q = TASK_BLOCKED"
        if "q \<in> ?A" "q \<noteq> cur t" "asleep_on l (pc t q)" for q
        using retry_life [OF wf' that(1,3)] by (auto simp: awake_def)
    qed (use k' w in \<open>auto simp: of_lock_def\<close>)
    then have "sync_wf L (set_pc (cur t) Run ?u)" using ub(2) by (simp add: sync_wf_def)
    then have "sync_wf L (set_pc (cur t) Run (snd (intr_set_status old ?u)))" by (rule fin)
    moreover have "sema_up ?m s = Inr (snd (intr_set_status old ?u))"
      using Cons up(1) ub(1) by (simp add: sema_up_def case_prod_unfold t_def [symmetric] old_def [symmetric] Let_def)
    ultimately show ?thesis using Cons eqs
      by (intro exI [of _ "snd (intr_set_status old ?u)"]) (simp add: woken_def)
  qed
qed

lemma sync_wf_env:
  assumes wf: "sync_wf L s" and "sched_wf s'"
    and "thread_all_list s' = thread_all_list s" "idle_thread s' = idle_thread s"
      "pc s' = pc s" "locks s' = locks s" "semas s' = semas s"
    and "same_life (set (thread_all_list s)) (pc s) (stat_of s) (stat_of s')"
  shows "sync_wf L s'"
  using core_env [OF sync_wfD(7) [OF wf] assms(8)] assms(2-7) by (simp add: sync_wf_def)

lemma tick_entry_sel [simp]:
  fixes s :: ksync
  shows "pc (tick_entry s) = pc s" "semas (tick_entry s) = semas s" "locks (tick_entry s) = locks s"
  by (simp_all add: tick_entry_def set_kont_def upd_task_def)

lemma yield_entry_sel [simp]:
  fixes s :: ksync
  shows "pc (yield_entry s) = pc s" "semas (yield_entry s) = semas s" "locks (yield_entry s) = locks s"
    "thread_all_list (yield_entry s) = thread_all_list s" "idle_thread (yield_entry s) = idle_thread s"
    "stat_of (yield_entry s) = (stat_of s)(cur s := TASK_READY)"
  by (simp_all add: yield_entry_def Let_def set_kont_def set_stat_def upd_task_def fun_eq_iff)

lemma timer_sync_wf:
  assumes wf: "sync_wf L s"
  shows "\<exists>s'. timer_interrupt s = Inr s' \<and> sync_wf L s'"
proof -
  have stt: "stat_of (tick_entry s) = stat_of s" by (simp add: fun_eq_iff)
  have pre: "sched_pre (tick_entry s)" using tick_entry_wf(1) [OF sync_wfD(1) [OF wf]] by (simp add: sched_wf_def)
  have core: "core_inv L (set (thread_all_list (tick_entry s))) (idle_thread (tick_entry s)) (pc (tick_entry s))
      (stat_of (tick_entry s)) (locks (tick_entry s)) (semas (tick_entry s))"
    unfolding stt using sync_wfD(7) [OF wf] by simp
  obtain t where t: "timer_interrupt s = Inr (resume t)" "sched_wf (resume t)"
    and cs: "t = upd_task (cur s) (\<lambda>t. t\<lparr>ticks := ticks t - 1\<rparr>) (tick_entry s) \<or>
      (\<exists>c e. t = sched_result c e (tick_entry s))"
    using timer_cases [OF sync_wfD(1) [OF wf]] by blast
  from cs have "sync_wf L (resume t)"
  proof (elim disjE exE)
    assume tt: "t = upd_task (cur s) (\<lambda>t. t\<lparr>ticks := ticks t - 1\<rparr>) (tick_entry s)"
    have "pc t = pc s" "semas t = semas s" "locks t = locks s" using tt by (simp_all add: upd_task_def)
    moreover have "stat_of t = stat_of s" using tt by (simp add: fun_eq_iff)
    ultimately show ?thesis using t(2) tt by (intro sync_wf_env [OF wf]) simp_all
  next
    fix c e assume tt: "t = sched_result c e (tick_entry s)"
    with t(2) show ?thesis using sync_wf_sched [OF core pre] by blast
  qed
  with t(1) show ?thesis by blast
qed

lemma yield_sync_wf:
  assumes wf: "sync_wf L s" and k: "pc s (cur s) = Run"
  shows "\<exists>s'. thread_yield s = Inr s' \<and> sync_wf L s'"
proof -
  obtain c e where r: "thread_yield s = Inr (resume (sched_result c e (yield_entry s)))"
    "sched_wf (resume (sched_result c e (yield_entry s)))"
    using thread_yield_eq [OF sync_wfD(1) [OF wf]] by blast
  have "same_life (set (thread_all_list s)) (pc s) (stat_of s) (stat_of (yield_entry s))"
    using k by (simp add: same_life_def)
  from core_env [OF sync_wfD(7) [OF wf] this]
  have "sync_wf L (resume (sched_result c e (yield_entry s)))"
    by (intro sync_wf_sched [OF _ yield_entry_pre [OF sync_wfD(1) [OF wf]] r(2)]) simp
  with r(1) show ?thesis by blast
qed

lemma block_sync_wf:
  assumes wf: "sync_wf L s" and k: "pc s (cur s) = Run"
    and st: "st \<in> {TASK_BLOCKED, TASK_WAITING, TASK_HANGING}" "cur s = idle_thread s \<longrightarrow> st = TASK_BLOCKED"
  shows "\<exists>s'. thread_block st s = Inr s' \<and> sync_wf L s'"
proof -
  obtain c e where r: "thread_block st s = Inr (resume (sched_result c e (block_entry st s)))"
    "sched_wf (resume (sched_result c e (block_entry st s)))"
    using thread_block_eq [OF sync_wfD(1) [OF wf] st(1)] st(2) by blast
  have pre: "sched_pre (block_entry st s)" using block_entry_pre [OF sync_wfD(1) [OF wf] st(1)] st(2) by blast
  have "same_life (set (thread_all_list s)) (pc s) (stat_of s) (stat_of (block_entry st s))"
    using k by (simp add: same_life_def)
  from core_env [OF sync_wfD(7) [OF wf] this]
  have "sync_wf L (resume (sched_result c e (block_entry st s)))"
    by (intro sync_wf_sched [OF _ pre r(2)]) simp
  with r(1) show ?thesis by blast
qed

lemma wake_sync_wf:
  assumes wf: "sync_wf L s" and p: "p \<in> set (thread_all_list s)" "pc s p = Run"
    and st: "stat_of s p \<in> {TASK_BLOCKED, TASK_WAITING, TASK_HANGING}"
  shows "\<exists>s'. thread_unblock p s = Inr s' \<and> sync_wf L s'"
proof -
  note w = sched_wf_woken [OF sync_wfD(1) [OF wf] p(1) st]
  have "sync_wf L (woken p s)"
    using w(1) p(2) by (intro sync_wf_env [OF wf]) (simp_all add: same_life_def)
  with w(2) show ?thesis by blast
qed

lemma sync_step_wf:
  assumes "sync_step L s s'" and wf: "sync_wf L s"
  shows "sync_wf L s'"
  using assms(1)
proof cases
  case Enter
  then show ?thesis using lock_enter_wf [OF wf] by blast
next
  case Taken
  then show ?thesis using sema_down_total [OF wf] by fastforce
next
  case Asleep
  then show ?thesis using sema_down_total [OF wf] by fastforce
next
  case Retry_taken
  then show ?thesis using down_retry_total [OF wf] by fastforce
next
  case Retry_asleep
  then show ?thesis using down_retry_total [OF wf] by fastforce
next
  case Lock_got
  then show ?thesis using lock_got_wf [OF wf] by fastforce
next
  case Leave
  then show ?thesis using lock_leave_wf [OF wf] by fastforce
next
  case Up
  then show ?thesis using sema_up_wf [OF wf] by fastforce
next
  case Tick
  then show ?thesis using timer_sync_wf [OF wf] by fastforce
next
  case Yield
  then show ?thesis using yield_sync_wf [OF wf] by fastforce
next
  case Block
  then show ?thesis using block_sync_wf [OF wf] by fastforce
next
  case Wake
  then show ?thesis using wake_sync_wf [OF wf] by fastforce
qed

lemma sync_steps_wf: "(sync_step L)\<^sup>*\<^sup>* s s' \<Longrightarrow> sync_wf L s \<Longrightarrow> sync_wf L s'"
  by (induction rule: rtranclp_induct) (auto intro: sync_step_wf)

section \<open>An uncontended lock\<close>

lemma lock_acquire_free:
  assumes wf: "sync_wf L s" and l: "l \<in> L" and i: "cur s \<noteq> idle_thread s" and k: "pc s (cur s) = Run"
    and v: "sema_value (semas s (sema_of l)) \<noteq> 0"
  shows "\<exists>s'. lock_acquire l s = Inr s' \<and> sync_wf L s' \<and> cur s' = cur s \<and> pc s' (cur s) = Run \<and>
     idle_thread s' = idle_thread s \<and> holder (locks s' l) = cur s"
proof -
  have h: "holder (locks s l) \<noteq> cur s"
    using sync_wfD(8) [OF wf l] v sync_wfD(3,5) [OF wf] by (auto simp: lock_inv_def owner_inv_def)
  let ?s1 = "set_pc (cur s) (Acq l) s"
  have e: "lock_enter l s = ?s1" using h by (simp add: lock_enter_def)
  have wf1: "sync_wf L ?s1" using lock_enter_wf [OF wf l i k] h e by simp
  have k1: "pc ?s1 (cur ?s1) = Acq l \<or> pc ?s1 (cur ?s1) = Retry (sema_of l) INTR_OFF" by simp
  let ?s2 = "snd (intr_disable ?s1)"
  have wf2: "sync_wf L ?s2" using wf1 by (simp add: sync_wf_flags [OF same_but_flagsI(3)])
  obtain s3 where s3: "sema_down_try (sema_of l) (intr_get_status ?s1) ?s2 = Inr (True, s3)" "cur s3 = cur s"
      "sync_wf L (set_pc (cur s) (Got l) s3)"
    using down_try_taken [OF wf2 l, of INTR_OFF "intr_get_status ?s1"] v by auto
  have id3: "idle_thread s3 = idle_thread s"
    using s3(1) v by (auto simp: sema_down_try_def Let_def res_simps split: if_splits)
  have d: "sema_down (sema_of l) ?s1 = Inr (True, s3)"
    using s3(1) by (simp add: sema_down_def case_prod_unfold)
  obtain s4 where s4: "lock_got l (set_pc (cur s) (Got l) s3) = Inr s4" "sync_wf L s4"
    using lock_got_wf [OF s3(3)] s3(2) by auto
  have g: "lock_got l s3 = Inr s4"
    using s4(1) s3(2) by (auto simp: lock_got_def Let_def res_simps set_pc_def set_lock_def)
  have "cur s4 = cur s \<and> pc s4 (cur s) = Run \<and> idle_thread s4 = idle_thread s \<and> holder (locks s4 l) = cur s"
    using s4(1) s3(2) id3 by (auto simp: lock_got_def Let_def res_simps)
  moreover have "lock_acquire l s = Inr s4" using e d g by (simp add: lock_acquire_def Let_def)
  ultimately show ?thesis using s4(2) by blast
qed

section \<open>Creating locks\<close>

lemma sync_wf_start:
  assumes "sched_wf s" and "pc s = (\<lambda>_. Run)"
  shows "sync_wf {} s"
  using assms sched_preD(8) [of s] by (simp add: sync_wf_def core_inv_def pc_ok_def sched_wf_def)

lemma lock_init_wf:
  assumes wf: "sync_wf L s" and l: "l \<notin> L"
  shows "sync_wf (insert l L) (lock_init l s)"
proof -
  let ?A = "set (thread_all_list s)"
  have ok: "case pc s p of Run \<Rightarrow> True
        | Acq l \<Rightarrow> l \<in> L \<and> awake (stat_of s p) | Got l \<Rightarrow> l \<in> L \<and> awake (stat_of s p)
        | Rel l \<Rightarrow> l \<in> L \<and> awake (stat_of s p)
        | Retry m old \<Rightarrow> (\<exists>l \<in> L. m = sema_of l) \<and> (awake (stat_of s p) \<or> stat_of s p = TASK_BLOCKED)"
    if "p \<in> ?A" for p
    using sync_wfD(7) [OF wf] that by (auto simp: core_inv_def pc_ok_def)
  have neut: "neutral l (pc s p)" if "p \<in> ?A" for p
    using ok [OF that] l by (cases "pc s p") (auto simp: neutral_def)
  have "lock_inv ?A (pc s) (stat_of s) \<lparr>holder = NULL, holder_repeat_nr = 0\<rparr> \<lparr>sema_value = 1, waiters = []\<rparr> l"
    using neut sync_wfD(5) [OF wf] by (auto simp: lock_inv_def owner_inv_def wait_inv_def owns_def neutral_def)
  moreover have "pc_ok (insert l L) ?A (idle_thread s) (pc s) (stat_of s)"
  proof -
    have "case pc s p of Run \<Rightarrow> True
        | Acq l' \<Rightarrow> l' \<in> insert l L \<and> awake (stat_of s p) | Got l' \<Rightarrow> l' \<in> insert l L \<and> awake (stat_of s p)
        | Rel l' \<Rightarrow> l' \<in> insert l L \<and> awake (stat_of s p)
        | Retry m old \<Rightarrow> (\<exists>l' \<in> insert l L. m = sema_of l') \<and> (awake (stat_of s p) \<or> stat_of s p = TASK_BLOCKED)"
      if "p \<in> ?A" for p using ok [OF that] by (cases "pc s p") auto
    then show ?thesis using sync_wfD(6) [OF wf] by (simp add: pc_ok_def)
  qed
  moreover have "\<forall>l' \<in> L. l' \<noteq> l" using l by auto
  ultimately show ?thesis
    using wf by (auto simp: sync_wf_def core_inv_def lock_init_def sema_init_def)
qed

section \<open>Properties\<close>

text \<open>A machine in which task \<open>0x1000\<close> runs and holds the lock at \<open>0x500\<close> while task \<open>0x2000\<close>
  waits for it.\<close>

definition sample_wait :: ksync where
  "sample_wait = sched.extend
     (sample_sched\<lparr>tasks := (tasks sample_sched)(0x2000 := sample_task TASK_BLOCKED), thread_ready_list := []\<rparr>)
     \<lparr>semas = (\<lambda>_. \<lparr>sema_value = 0, waiters = []\<rparr>)(sema_of 0x500 := \<lparr>sema_value = 0, waiters = [0x2000]\<rparr>),
      locks = (\<lambda>_. \<lparr>holder = 0, holder_repeat_nr = 0\<rparr>)(0x500 := \<lparr>holder = 0x1000, holder_repeat_nr = 1\<rparr>),
      pc = (\<lambda>_. Run)(0x2000 := Retry (sema_of 0x500) INTR_ON)\<rparr>"

lemma sample_wait_sel:
  "cur sample_wait = 0x1000" "thread_all_list sample_wait = [0x1000, 0x2000, 0x3000]"
  "idle_thread sample_wait = 0x3000" "locks sample_wait 0x500 = \<lparr>holder = 0x1000, holder_repeat_nr = 1\<rparr>"
  "semas sample_wait (sema_of 0x500) = \<lparr>sema_value = 0, waiters = [0x2000]\<rparr>"
  "pc sample_wait = (\<lambda>_. Run)(0x2000 := Retry (sema_of 0x500) INTR_ON)"
  by (simp_all add: sample_wait_def sample_sched_def sched.defs)

lemma sample_wait_wf: "sync_wf {0x500} sample_wait"
proof -
  have "sched_wf sample_wait"
    by (simp add: sample_wait_def sched.defs sample_sched_def sample_task_def sched_wf_def sched_pre_def
      tasks_ok_def ready_ok_def kdir_ok_def kernel_dirs_def)
  moreover have st: "stat_of sample_wait = (\<lambda>_. TASK_DIED)(0x1000 := TASK_RUNNING, 0x2000 := TASK_BLOCKED,
      0x3000 := TASK_BLOCKED)"
    by (simp add: sample_wait_def sched.defs sample_sched_def sample_task_def fun_eq_iff)
  have "core_inv {0x500} (set (thread_all_list sample_wait)) (idle_thread sample_wait) (pc sample_wait)
      (stat_of sample_wait) (locks sample_wait) (semas sample_wait)"
    unfolding st by (auto simp: sample_wait_sel core_inv_def pc_ok_def lock_inv_def owner_inv_def wait_inv_def
      owns_def awake_def)
  ultimately show ?thesis by (simp add: sync_wf_def)
qed

text \<open>C5: Mutual exclusion: however the lock operations of the tasks, clock interrupts, yields,
  blocks and wake-ups interleave, at most one task has a lock, from the moment it takes the
  semaphore to the moment it gives it back.\<close>

theorem lock_mutual_exclusion:
  assumes "(sync_step L)\<^sup>*\<^sup>* s s'" and "sync_wf L s" and "l \<in> L"
    and "p \<in> set (thread_all_list s')" and "q \<in> set (thread_all_list s')"
    and "owns (pc s') (locks s' l) l p" and "owns (pc s') (locks s' l) l q"
  shows "p = q"
  using owner_invD(2) [OF sync_wfD(8) [OF sync_steps_wf [OF assms(1,2)] assms(3)] assms(4,6)] assms(5,7)
  by simp

theorem lock_mutual_exclusion_witness:
  "{q \<in> set (thread_all_list sample_wait). owns (pc sample_wait) (locks sample_wait 0x500) 0x500 q} = {0x1000}"
proof -
  have own: "0x1000 \<in> set (thread_all_list sample_wait)" "owns (pc sample_wait) (locks sample_wait 0x500) 0x500 0x1000"
    by (simp_all add: sample_wait_sel owns_def)
  have "0x1000 = q" if "q \<in> set (thread_all_list sample_wait)" "owns (pc sample_wait) (locks sample_wait 0x500) 0x500 q" for q
  proof (rule lock_mutual_exclusion [where s = sample_wait and s' = sample_wait and l = "0x500" and L = "{0x500}"])
    show "sync_wf {0x500} sample_wait" by (rule sample_wait_wf)
  qed (rule rtranclp.rtrancl_refl insertI1 own that)+
  then show ?thesis using own by blast
qed

text \<open>C9: No lost wake-up: in every reachable state in which a task waits for a lock, either some
  task has the lock (and will give it back), or the semaphore is free and a task that was woken is
  ready or running and about to try again.\<close>

theorem lock_no_lost_wakeup:
  assumes "(sync_step L)\<^sup>*\<^sup>* s s'" and "sync_wf L s" and "l \<in> L"
    and "waiters (semas s' (sema_of l)) \<noteq> []"
  shows "(\<exists>p \<in> set (thread_all_list s'). owns (pc s') (locks s' l) l p) \<or>
     (\<exists>p \<in> set (thread_all_list s'). asleep_on l (pc s' p) \<and> awake (stat_of s' p))"
  using sync_wfD(8) [OF sync_steps_wf [OF assms(1,2)] assms(3)] assms(4)
  by (auto simp: lock_inv_def owner_inv_def wait_inv_def)

theorem lock_no_lost_wakeup_witness:
  "(\<exists>p \<in> set (thread_all_list sample_wait). owns (pc sample_wait) (locks sample_wait 0x500) 0x500 p) \<or>
   (\<exists>p \<in> set (thread_all_list sample_wait). asleep_on 0x500 (pc sample_wait p) \<and> awake (stat_of sample_wait p))"
  by (rule lock_no_lost_wakeup [OF rtranclp.rtrancl_refl sample_wait_wf]) (simp_all add: sample_wait_sel)

text \<open>C10: None of the assertions of \<^verbatim>\<open>sync.c\<close> can fail: in every reachable state the next part of
  the lock operation the current task is in returns (with the semaphore taken, or with the task
  asleep), and so does a release of a lock it holds.\<close>

theorem sync_never_panics:
  assumes "(sync_step L)\<^sup>*\<^sup>* s s'" and "sync_wf L s"
  shows "(pc s' (cur s') = Acq l \<longrightarrow> (\<exists>b t. sema_down (sema_of l) s' = Inr (b, t))) \<and>
     (pc s' (cur s') = Retry (sema_of l) old \<longrightarrow> (\<exists>b t. sema_down_try (sema_of l) old s' = Inr (b, t))) \<and>
     (pc s' (cur s') = Got l \<longrightarrow> (\<exists>t. lock_got l s' = Inr t)) \<and>
     (pc s' (cur s') = Rel l \<longrightarrow> (\<exists>t. sema_up (sema_of l) s' = Inr t)) \<and>
     (l \<in> L \<and> cur s' \<noteq> idle_thread s' \<and> pc s' (cur s') = Run \<and> holder (locks s' l) = cur s' \<longrightarrow>
        (\<exists>t. lock_leave l s' = Inr t))"
  using sema_down_total [OF sync_steps_wf [OF assms]] down_retry_total [OF sync_steps_wf [OF assms]]
    lock_got_wf [OF sync_steps_wf [OF assms]] sema_up_wf [OF sync_steps_wf [OF assms]]
    lock_leave_wf [OF sync_steps_wf [OF assms]]
  by blast

theorem sync_never_panics_witness:
  "\<exists>t. lock_leave 0x500 sample_wait = Inr t"
  using sync_never_panics [OF rtranclp.rtrancl_refl sample_wait_wf, of "0x500"]
  by (simp add: sample_wait_sel)

text \<open>Locks start out right: \<^verbatim>\<open>lock_init\<close> of a new lock extends the invariant to it, whatever the
  tasks do with the locks that exist already.\<close>

theorem lock_init_establishes:
  assumes "sync_wf L s" and "l \<notin> L"
  shows "sync_wf (insert l L) (lock_init l s)"
  using assms by (rule lock_init_wf)

theorem lock_init_establishes_witness:
  "sync_wf (insert 0x600 {0x500}) (lock_init 0x600 sample_wait)"
  by (rule lock_init_establishes [OF sample_wait_wf]) simp

end
