(* ===== verification/IoQueue.thy ===== *)
theory IoQueue
  imports Sync
begin

text \<open>
  The ring buffer between producers and consumers, \<^verbatim>\<open>device/ioqueue.c\<close>, with the sleeping and
  waking of its users.

  Positions are naturals: the code sets them to 0 and to results of \<^verbatim>\<open>next_pos\<close> only. A task that
  finds the buffer empty (or full) takes the lock of the buffer, records itself and sleeps:
  \<open>ioq_getchar\<close> and \<open>ioq_putchar\<close> return \<open>None\<close> there, in a state in which another task runs;
  \<open>ioq_getchar_woken\<close> and \<open>ioq_putchar_woken\<close> are what the task does when it runs again.
\<close>

section \<open>The code\<close>

definition bufsize :: nat where [layout_simps]: "bufsize = 2048"

record ioqueue =
  ioq_lock :: ptr
  producer :: ptr
  consumer :: ptr
  buf :: "u8 list"
  head :: nat
  tail :: nat

definition ioqueue_init :: "ioqueue \<Rightarrow> ksync \<Rightarrow> ioqueue \<times> ksync" where
  "ioqueue_init ioq s =
     (ioq\<lparr>producer := NULL, consumer := NULL, head := 0, tail := 0\<rparr>, lock_init (ioq_lock ioq) s)"

definition next_pos :: "nat \<Rightarrow> nat" where "next_pos pos = (pos + 1) mod bufsize"

definition ioq_full :: "ioqueue \<Rightarrow> 'a cpu_scheme \<Rightarrow> bool res" where
  "ioq_full ioq s = bind_res (ASSERT (intr_get_status s = INTR_OFF) ''intr_get_status() == INTR_OFF'') (\<lambda>_.
     Inr (next_pos (head ioq) = tail ioq))"

definition ioq_empty :: "ioqueue \<Rightarrow> 'a cpu_scheme \<Rightarrow> bool res" where
  "ioq_empty ioq s = bind_res (ASSERT (intr_get_status s = INTR_OFF) ''intr_get_status() == INTR_OFF'') (\<lambda>_.
     Inr (tail ioq = head ioq))"

text \<open>The two halves of the buffer that move a byte.\<close>

definition ring_get :: "ioqueue \<Rightarrow> (u8 \<times> ioqueue) res" where
  "ring_get ioq = bind_res (load (buf ioq) (tail ioq)) (\<lambda>byte. Inr (byte, ioq\<lparr>tail := next_pos (tail ioq)\<rparr>))"

definition ring_put :: "ioqueue \<Rightarrow> u8 \<Rightarrow> ioqueue res" where
  "ring_put ioq byte = bind_res (store (buf ioq) (head ioq) byte) (\<lambda>b.
     Inr (ioq\<lparr>buf := b, head := next_pos (head ioq)\<rparr>))"

text \<open>\<^verbatim>\<open>ioq_wait\<close> and \<^verbatim>\<open>wakeup\<close> get the waiter field by its reader and writer.\<close>

definition ioq_wait :: "(ioqueue \<Rightarrow> ptr) \<Rightarrow> (ptr \<Rightarrow> ioqueue \<Rightarrow> ioqueue) \<Rightarrow> ioqueue \<Rightarrow> ksync \<Rightarrow> (ioqueue \<times> ksync) res" where
  "ioq_wait get_waiter set_waiter ioq s =
     bind_res (ASSERT (get_waiter ioq = NULL) ''*waiter == NULL && waiter != NULL'') (\<lambda>_.
     let ioq = set_waiter (cur s) ioq in
     bind_res (thread_block TASK_BLOCKED s) (\<lambda>s. Inr (ioq, s)))"

definition wakeup :: "(ioqueue \<Rightarrow> ptr) \<Rightarrow> (ptr \<Rightarrow> ioqueue \<Rightarrow> ioqueue) \<Rightarrow> ioqueue \<Rightarrow> ksync \<Rightarrow> (ioqueue \<times> ksync) res" where
  "wakeup get_waiter set_waiter ioq s =
     bind_res (ASSERT (get_waiter ioq \<noteq> NULL) ''*waiter != NULL'') (\<lambda>_.
     bind_res (thread_unblock (get_waiter ioq) s) (\<lambda>s. Inr (set_waiter NULL ioq, s)))"

abbreviation set_consumer :: "ptr \<Rightarrow> ioqueue \<Rightarrow> ioqueue" where "set_consumer p \<equiv> consumer_update (\<lambda>_. p)"
abbreviation set_producer :: "ptr \<Rightarrow> ioqueue \<Rightarrow> ioqueue" where "set_producer p \<equiv> producer_update (\<lambda>_. p)"

definition ioq_get_loop :: "ioqueue \<Rightarrow> ksync \<Rightarrow> (u8 option \<times> ioqueue \<times> ksync) res" where
  "ioq_get_loop ioq s =
     bind_res (ioq_empty ioq s) (\<lambda>e.
     if e then
       bind_res (lock_acquire (ioq_lock ioq) s) (\<lambda>s.
       bind_res (ioq_wait consumer set_consumer ioq s) (\<lambda>(ioq, s). Inr (None, ioq, s)))
     else
       bind_res (ring_get ioq) (\<lambda>(byte, ioq).
       bind_res (if producer ioq \<noteq> NULL then wakeup producer set_producer ioq s else Inr (ioq, s)) (\<lambda>(ioq, s).
       Inr (Some byte, ioq, s))))"

definition ioq_getchar :: "ioqueue \<Rightarrow> ksync \<Rightarrow> (u8 option \<times> ioqueue \<times> ksync) res" where
  "ioq_getchar ioq s =
     bind_res (ASSERT (intr_get_status s = INTR_OFF) ''intr_get_status() == INTR_OFF'') (\<lambda>_. ioq_get_loop ioq s)"

definition ioq_getchar_woken :: "ioqueue \<Rightarrow> ksync \<Rightarrow> (u8 option \<times> ioqueue \<times> ksync) res" where
  "ioq_getchar_woken ioq s = bind_res (lock_release (ioq_lock ioq) s) (ioq_get_loop ioq)"

definition ioq_put_loop :: "ioqueue \<Rightarrow> u8 \<Rightarrow> ksync \<Rightarrow> (unit option \<times> ioqueue \<times> ksync) res" where
  "ioq_put_loop ioq byte s =
     bind_res (ioq_full ioq s) (\<lambda>f.
     if f then
       bind_res (lock_acquire (ioq_lock ioq) s) (\<lambda>s.
       bind_res (ioq_wait producer set_producer ioq s) (\<lambda>(ioq, s). Inr (None, ioq, s)))
     else
       bind_res (ring_put ioq byte) (\<lambda>ioq.
       bind_res (if consumer ioq \<noteq> NULL then wakeup consumer set_consumer ioq s else Inr (ioq, s)) (\<lambda>(ioq, s).
       Inr (Some (), ioq, s))))"

definition ioq_putchar :: "ioqueue \<Rightarrow> u8 \<Rightarrow> ksync \<Rightarrow> (unit option \<times> ioqueue \<times> ksync) res" where
  "ioq_putchar ioq byte s =
     bind_res (ASSERT (intr_get_status s = INTR_OFF) ''intr_get_status() == INTR_OFF'') (\<lambda>_. ioq_put_loop ioq byte s)"

definition ioq_putchar_woken :: "ioqueue \<Rightarrow> u8 \<Rightarrow> ksync \<Rightarrow> (unit option \<times> ioqueue \<times> ksync) res" where
  "ioq_putchar_woken ioq byte s = bind_res (lock_release (ioq_lock ioq) s) (ioq_put_loop ioq byte)"

definition ioq_length :: "ioqueue \<Rightarrow> nat" where
  "ioq_length ioq = (if head ioq \<ge> tail ioq then head ioq - tail ioq else bufsize - (tail ioq - head ioq))"

section \<open>The bytes in the buffer\<close>

definition ioq_wf :: "ioqueue \<Rightarrow> bool" where
  "ioq_wf q \<longleftrightarrow> length (buf q) = bufsize \<and> head q < bufsize \<and> tail q < bufsize"

definition contents :: "ioqueue \<Rightarrow> u8 list" where
  "contents q = map (\<lambda>i. buf q ! ((tail q + i) mod bufsize)) [0..<ioq_length q]"

lemma bufsize_pos [simp]: "0 < bufsize" by (simp add: bufsize_def)

lemma next_pos_lt [simp]: "next_pos p < bufsize" by (simp add: next_pos_def bufsize_def)

lemma ioq_length_lt: "ioq_wf q \<Longrightarrow> ioq_length q < bufsize"
  by (auto simp: ioq_length_def ioq_wf_def bufsize_def)

lemma contents_length [simp]: "length (contents q) = ioq_length q"
  by (simp add: contents_def)

lemma ioq_empty_iff: "ioq_wf q \<Longrightarrow> tail q = head q \<longleftrightarrow> contents q = []"
  by (auto simp: contents_def ioq_length_def ioq_wf_def bufsize_def split: if_splits)

lemma ioq_head_pos: "ioq_wf q \<Longrightarrow> (tail q + ioq_length q) mod bufsize = head q"
  by (auto simp: ioq_length_def ioq_wf_def)

lemma ioq_full_iff: "ioq_wf q \<Longrightarrow> next_pos (head q) = tail q \<longleftrightarrow> ioq_length q = bufsize - 1"
  by (cases "head q + 1 = bufsize") (auto simp: next_pos_def ioq_length_def ioq_wf_def bufsize_def)

lemma put_length:
  assumes "ioq_wf q" and "next_pos (head q) \<noteq> tail q"
  shows "ioq_length (q\<lparr>buf := b, head := next_pos (head q)\<rparr>) = Suc (ioq_length q)"
  using assms by (cases "head q + 1 = bufsize")
    (auto simp: next_pos_def ioq_length_def ioq_wf_def bufsize_def)

lemma get_length:
  assumes "ioq_wf q" and "tail q \<noteq> head q"
  shows "Suc (ioq_length (q\<lparr>tail := next_pos (tail q)\<rparr>)) = ioq_length q"
  using assms by (cases "tail q + 1 = bufsize")
    (auto simp: next_pos_def ioq_length_def ioq_wf_def bufsize_def)

lemma ring_inj: "t < n \<Longrightarrow> i < n \<Longrightarrow> j < n \<Longrightarrow> (t + i) mod n = (t + j) mod n \<longleftrightarrow> i = j" for i j n t :: nat
  by (auto simp: mod_if split: if_splits)

lemma contents_nth: "i < ioq_length q \<Longrightarrow> contents q ! i = buf q ! ((tail q + i) mod bufsize)"
  by (simp add: contents_def)

lemma ring_put_contents:
  assumes wf: "ioq_wf q" and nf: "next_pos (head q) \<noteq> tail q"
  shows "\<exists>q'. ring_put q b = Inr q' \<and> ioq_wf q' \<and> contents q' = contents q @ [b] \<and>
     producer q' = producer q \<and> consumer q' = consumer q \<and> ioq_lock q' = ioq_lock q"
proof -
  let ?q = "q\<lparr>buf := (buf q)[head q := b], head := next_pos (head q)\<rparr>"
  have r: "ring_put q b = Inr ?q" using wf by (simp add: ring_put_def ioq_wf_def)
  have wf': "ioq_wf ?q" using wf by (simp add: ioq_wf_def)
  have len: "ioq_length ?q = Suc (ioq_length q)" by (rule put_length [OF wf nf])
  have "contents ?q = contents q @ [b]"
  proof (rule nth_equalityI)
    fix i assume "i < length (contents ?q)"
    then have i: "i < Suc (ioq_length q)" using len by simp
    have "(tail q + i) mod bufsize = (tail q + ioq_length q) mod bufsize \<longleftrightarrow> i = ioq_length q"
      using i wf ioq_length_lt [OF wf] by (intro ring_inj) (auto simp: ioq_wf_def)
    then have hp: "(tail q + i) mod bufsize = head q \<longleftrightarrow> i = ioq_length q"
      by (simp add: ioq_head_pos [OF wf])
    have "contents ?q ! i = (buf q)[head q := b] ! ((tail q + i) mod bufsize)"
      using i by (simp add: contents_nth len)
    also have "\<dots> = (contents q @ [b]) ! i"
      using hp i wf by (cases "i = ioq_length q") (auto simp: nth_append contents_nth ioq_wf_def)
    finally show "contents ?q ! i = (contents q @ [b]) ! i" .
  qed (simp add: len)
  with r wf' show ?thesis by simp
qed

lemma ring_get_contents:
  assumes wf: "ioq_wf q" and ne: "contents q = b # bs"
  shows "\<exists>q'. ring_get q = Inr (b, q') \<and> ioq_wf q' \<and> contents q' = bs \<and>
     producer q' = producer q \<and> consumer q' = consumer q \<and> ioq_lock q' = ioq_lock q"
proof -
  let ?q = "q\<lparr>tail := next_pos (tail q)\<rparr>"
  have th: "tail q \<noteq> head q" using ioq_empty_iff [OF wf] ne by simp
  have len: "Suc (ioq_length ?q) = ioq_length q" by (rule get_length [OF wf th])
  have wf': "ioq_wf ?q" using wf by (simp add: ioq_wf_def)
  have t: "tail q < bufsize" "tail q < length (buf q)" using wf by (simp_all add: ioq_wf_def)
  have "buf q ! tail q = contents q ! 0"
    using contents_nth [of 0 q] t(1) len by (metis add_0_right mod_less zero_less_Suc)
  then have "ring_get q = Inr (b, ?q)" using t(2) ne by (simp add: ring_get_def)
  moreover have "contents ?q = tl (contents q)"
  proof (rule nth_equalityI)
    fix i assume "i < length (contents ?q)"
    then have i: "i < ioq_length ?q" "Suc i < ioq_length q" using len by auto
    have "contents ?q ! i = buf q ! ((next_pos (tail q) + i) mod bufsize)"
      using contents_nth [OF i(1)] by simp
    also have "(next_pos (tail q) + i) mod bufsize = (tail q + Suc i) mod bufsize"
      by (simp add: next_pos_def mod_add_left_eq)
    also have "buf q ! \<dots> = tl (contents q) ! i"
      using contents_nth [OF i(2)] i(2) by (simp add: nth_tl)
    finally show "contents ?q ! i = tl (contents q) ! i" .
  qed (use len in simp)
  ultimately show ?thesis using wf' ne by simp
qed

section \<open>The contract of a bounded queue\<close>

text \<open>
  What the keyboard and the pipes rely on: \<open>put\<close> appends a byte while fewer than \<open>cap\<close> are stored,
  \<open>get\<close> takes the oldest one. The lemmas on runs of several puts and gets hold for every such
  queue.
\<close>

locale bounded_queue =
  fixes wf :: "'q \<Rightarrow> bool" and elems :: "'q \<Rightarrow> 'b list" and cap :: nat
    and put :: "'q \<Rightarrow> 'b \<Rightarrow> 'q res" and get :: "'q \<Rightarrow> ('b \<times> 'q) res"
  assumes put_elems: "wf q \<Longrightarrow> length (elems q) < cap \<Longrightarrow>
      \<exists>q'. put q b = Inr q' \<and> wf q' \<and> elems q' = elems q @ [b]"
    and get_elems: "wf q \<Longrightarrow> elems q = b # bs \<Longrightarrow> \<exists>q'. get q = Inr (b, q') \<and> wf q' \<and> elems q' = bs"
    and elems_cap: "wf q \<Longrightarrow> length (elems q) \<le> cap"
begin

primrec puts :: "'q \<Rightarrow> 'b list \<Rightarrow> 'q res" where
  "puts q [] = Inr q"
| "puts q (b # bs) = bind_res (put q b) (\<lambda>q. puts q bs)"

primrec gets :: "nat \<Rightarrow> 'q \<Rightarrow> ('b list \<times> 'q) res" where
  "gets 0 q = Inr ([], q)"
| "gets (Suc n) q = bind_res (get q) (\<lambda>(b, q). bind_res (gets n q) (\<lambda>(bs, q). Inr (b # bs, q)))"

lemma puts_elems:
  "wf q \<Longrightarrow> length (elems q) + length bs \<le> cap \<Longrightarrow> \<exists>q'. puts q bs = Inr q' \<and> wf q' \<and> elems q' = elems q @ bs"
proof (induction bs arbitrary: q)
  case (Cons b bs)
  then obtain q1 where q1: "put q b = Inr q1" "wf q1" "elems q1 = elems q @ [b]"
    using put_elems [of q b] by auto
  with Cons.IH [of q1] Cons.prems show ?case by simp
qed simp

lemma gets_elems:
  "wf q \<Longrightarrow> n \<le> length (elems q) \<Longrightarrow> \<exists>q'. gets n q = Inr (take n (elems q), q') \<and> wf q' \<and> elems q' = drop n (elems q)"
proof (induction n arbitrary: q)
  case (Suc n)
  then obtain b bs where e: "elems q = b # bs" by (cases "elems q") auto
  with Suc.prems obtain q1 where q1: "get q = Inr (b, q1)" "wf q1" "elems q1 = bs"
    using get_elems [of q b bs] by auto
  with Suc.IH [of q1] Suc.prems e show ?case by auto
qed simp

lemma puts_gets:
  assumes "wf q" and "elems q = []" and "length bs \<le> cap"
  shows "\<exists>q1 q2. puts q bs = Inr q1 \<and> gets (length bs) q1 = Inr (bs, q2) \<and> elems q2 = []"
  using puts_elems [OF assms(1), of bs] gets_elems [of _ "length bs"] assms(2,3) by fastforce

end

interpretation ring: bounded_queue ioq_wf contents "bufsize - 1"
  "\<lambda>q b. if next_pos (head q) = tail q then Inl Blocks else ring_put q b"
  "\<lambda>q. if tail q = head q then Inl Blocks else ring_get q"
proof
  show "\<exists>q'. (if next_pos (head q) = tail q then Inl Blocks else ring_put q b) = Inr q' \<and> ioq_wf q' \<and>
      contents q' = contents q @ [b]" if "ioq_wf q" "length (contents q) < bufsize - 1" for q b
    using ring_put_contents [OF that(1), of b] that ioq_full_iff [OF that(1)] by auto
  show "\<exists>q'. (if tail q = head q then Inl Blocks else ring_get q) = Inr (b, q') \<and> ioq_wf q' \<and> contents q' = bs"
    if "ioq_wf q" "contents q = b # bs" for q b bs
    using ring_get_contents [OF that] that ioq_empty_iff [OF that(1)] by auto
  show "length (contents q) \<le> bufsize - 1" if "ioq_wf q" for q
    using ioq_length_lt [OF that] by simp
qed

section \<open>Properties\<close>

text \<open>\<open>waiter_ok s p\<close>: nobody is recorded, or a task that sleeps.\<close>

definition waiter_ok :: "ksync \<Rightarrow> ptr \<Rightarrow> bool" where
  "waiter_ok s p \<longleftrightarrow> p = NULL \<or> p \<in> set (thread_all_list s) \<and> stat_of s p = TASK_BLOCKED"

lemma wakeup_eq:
  assumes "sched_wf s" and "waiter_ok s (get ioq)" and "get ioq \<noteq> NULL"
  shows "wakeup get upd ioq s = Inr (upd NULL ioq, woken (get ioq) s)"
  using assms sched_wf_woken(2) [of s "get ioq"] by (simp add: wakeup_def waiter_ok_def)

lemma ioq_put_eq:
  assumes "ioq_wf q" and "length (contents q) < bufsize - 1" and "intr_get_status s = INTR_OFF"
    and "sched_wf s" and "waiter_ok s (consumer q)"
  shows "\<exists>q'. ioq_putchar q b s =
       Inr (Some (), q', if consumer q = NULL then s else woken (consumer q) s) \<and>
     ioq_wf q' \<and> contents q' = contents q @ [b] \<and> consumer q' = NULL \<and> producer q' = producer q"
proof -
  have nf: "next_pos (head q) \<noteq> tail q" using ioq_full_iff [OF assms(1)] assms(2) by simp
  obtain q1 where q1: "ring_put q b = Inr q1" "ioq_wf q1" "contents q1 = contents q @ [b]"
      "consumer q1 = consumer q" "producer q1 = producer q" using ring_put_contents [OF assms(1) nf, of b] by blast
  show ?thesis
  proof (cases "consumer q = NULL")
    case True
    then show ?thesis using q1 nf assms(3) by (simp add: ioq_putchar_def ioq_put_loop_def ioq_full_def)
  next
    case False
    have "ioq_wf (set_consumer NULL q1)" "contents (set_consumer NULL q1) = contents q1"
      using q1(2) by (simp_all add: ioq_wf_def contents_def ioq_length_def)
    then show ?thesis
      using False q1 nf assms(3-5) wakeup_eq [of s consumer q1 set_consumer]
      by (simp add: ioq_putchar_def ioq_put_loop_def ioq_full_def)
  qed
qed

text \<open>C20: \<^verbatim>\<open>ioq_putchar\<close> on a buffer that is not full stores the byte behind those already there,
  wakes the consumer that sleeps on the buffer, if there is one, by putting it in front of the
  ready list, and forgets it.\<close>

theorem ioq_putchar_appends:
  assumes "ioq_wf q" and "length (contents q) < bufsize - 1" and "intr_get_status s = INTR_OFF"
    and "sched_wf s" and "waiter_ok s (consumer q)"
  shows "\<exists>q'. ioq_putchar q b s =
       Inr (Some (), q', if consumer q = NULL then s else woken (consumer q) s) \<and>
     ioq_wf q' \<and> contents q' = contents q @ [b] \<and> consumer q' = NULL"
  using ioq_put_eq [OF assms, of b] by blast

definition sample_ioq :: ioqueue where
  "sample_ioq = \<lparr>ioq_lock = 0x700, producer = 0, consumer = 0x3000, buf = replicate 2048 7, head = 1, tail = 0\<rparr>"

lemma sample_ioq_wf: "ioq_wf sample_ioq" "contents sample_ioq = [7]"
  by (simp_all add: sample_ioq_def ioq_wf_def bufsize_def contents_def ioq_length_def)

lemma sample_off: "sched_wf (sample_wait\<lparr>eflags := 2\<rparr>)" "intr_get_status (sample_wait\<lparr>eflags := 2\<rparr>) = INTR_OFF"
  using sync_wfD(1) [OF sample_wait_wf] sched_pre_flags(2) [OF same_but_flagsI(2) [where s = sample_wait and e = 2]]
  by (simp_all add: intr_get_status_def EFLAGS_IF_def)

lemma sample_waiter: "waiter_ok (sample_wait\<lparr>eflags := 2\<rparr>) 0x3000"
  by (simp add: waiter_ok_def sample_wait_def sched.defs sample_sched_def sample_task_def)

theorem ioq_putchar_appends_witness:
  "\<exists>q'. ioq_putchar sample_ioq 9 (sample_wait\<lparr>eflags := 2\<rparr>) =
       Inr (Some (), q', if consumer sample_ioq = NULL then sample_wait\<lparr>eflags := 2\<rparr>
          else woken (consumer sample_ioq) (sample_wait\<lparr>eflags := 2\<rparr>)) \<and>
     ioq_wf q' \<and> contents q' = contents sample_ioq @ [9] \<and> consumer q' = NULL"
  by (rule ioq_putchar_appends [OF sample_ioq_wf(1) _ sample_off(2) sample_off(1)])
     (simp_all add: sample_ioq_wf(2) bufsize_def, simp add: sample_ioq_def sample_waiter)

lemma ioq_get_eq:
  assumes "ioq_wf q" and "contents q = b # bs" and "intr_get_status s = INTR_OFF"
    and "sched_wf s" and "waiter_ok s (producer q)"
  shows "\<exists>q'. ioq_getchar q s =
       Inr (Some b, q', if producer q = NULL then s else woken (producer q) s) \<and>
     ioq_wf q' \<and> contents q' = bs \<and> producer q' = NULL \<and> consumer q' = consumer q"
proof -
  have ne: "tail q \<noteq> head q" using ioq_empty_iff [OF assms(1)] assms(2) by simp
  obtain q1 where q1: "ring_get q = Inr (b, q1)" "ioq_wf q1" "contents q1 = bs"
      "producer q1 = producer q" "consumer q1 = consumer q" using ring_get_contents [OF assms(1,2)] by blast
  show ?thesis
  proof (cases "producer q = NULL")
    case True
    then show ?thesis using q1 ne assms(3) by (simp add: ioq_getchar_def ioq_get_loop_def ioq_empty_def)
  next
    case False
    have "ioq_wf (set_producer NULL q1)" "contents (set_producer NULL q1) = contents q1"
      using q1(2) by (simp_all add: ioq_wf_def contents_def ioq_length_def)
    then show ?thesis
      using False q1 ne assms(3-5) wakeup_eq [of s producer q1 set_producer]
      by (simp add: ioq_getchar_def ioq_get_loop_def ioq_empty_def)
  qed
qed

text \<open>C21: \<^verbatim>\<open>ioq_getchar\<close> on a buffer that is not empty returns the oldest byte and takes it out, and
  wakes and forgets the producer that sleeps on the buffer, if there is one.\<close>

theorem ioq_getchar_takes_first:
  assumes "ioq_wf q" and "contents q = b # bs" and "intr_get_status s = INTR_OFF"
    and "sched_wf s" and "waiter_ok s (producer q)"
  shows "\<exists>q'. ioq_getchar q s =
       Inr (Some b, q', if producer q = NULL then s else woken (producer q) s) \<and>
     ioq_wf q' \<and> contents q' = bs \<and> producer q' = NULL"
  using ioq_get_eq [OF assms] by blast

theorem ioq_getchar_takes_first_witness:
  "\<exists>q'. ioq_getchar sample_ioq (sample_wait\<lparr>eflags := 2\<rparr>) =
       Inr (Some 7, q', if producer sample_ioq = NULL then sample_wait\<lparr>eflags := 2\<rparr>
          else woken (producer sample_ioq) (sample_wait\<lparr>eflags := 2\<rparr>)) \<and>
     ioq_wf q' \<and> contents q' = [] \<and> producer q' = NULL"
  by (rule ioq_getchar_takes_first [OF sample_ioq_wf sample_off(2) sample_off(1)])
     (simp add: sample_ioq_def waiter_ok_def)

text \<open>On an empty buffer whose lock is free, \<^verbatim>\<open>ioq_getchar\<close> takes the lock, records the calling
  task as the consumer and puts it to sleep; another task runs, the lock invariant holds, and the
  recorded task is one that \<^verbatim>\<open>ioq_putchar\<close> can wake.\<close>

theorem ioq_getchar_sleeps:
  assumes q: "ioq_wf q" "contents q = []" "consumer q = NULL" and off: "intr_get_status s = INTR_OFF"
    and wf: "sync_wf L s" and l: "ioq_lock q \<in> L" and run: "cur s \<noteq> idle_thread s" "pc s (cur s) = Run"
    and free: "sema_value (semas s (sema_of (ioq_lock q))) \<noteq> 0"
  shows "\<exists>s'. ioq_getchar q s = Inr (None, q\<lparr>consumer := cur s\<rparr>, s') \<and> sync_wf L s' \<and>
     waiter_ok s' (cur s) \<and> cur s' \<noteq> cur s"
proof -
  have e: "tail q = head q" using ioq_empty_iff [OF q(1)] q(2) by simp
  obtain s1 where s1: "lock_acquire (ioq_lock q) s = Inr s1" "sync_wf L s1" "cur s1 = cur s"
      "pc s1 (cur s) = Run" "idle_thread s1 = idle_thread s"
    using lock_acquire_free [OF wf l run free] by blast
  obtain s2 where s2: "thread_block TASK_BLOCKED s1 = Inr s2" "sync_wf L s2"
    using block_sync_wf [OF s1(2), of TASK_BLOCKED] s1(3,4) by auto
  obtain c e' where r: "s2 = resume (sched_result c e' (block_entry TASK_BLOCKED s1))"
    using thread_block_eq [OF sync_wfD(1) [OF s1(2)], of TASK_BLOCKED] s2(1) by auto
  have pre: "sched_pre (block_entry TASK_BLOCKED s1)" by (rule block_entry_pre [OF sync_wfD(1) [OF s1(2)]]) auto
  have "cur s \<in> set (thread_all_list s1)" using sync_wfD(3) [OF s1(2)] s1(3) by simp
  moreover have n: "hd (sched_queue (block_entry TASK_BLOCKED s1)) \<noteq> cur s"
  proof
    assume h: "hd (sched_queue (block_entry TASK_BLOCKED s1)) = cur s"
    have "same_life (set (thread_all_list (block_entry TASK_BLOCKED s1))) ((\<lambda>_. Run)(cur s := Acq 0))
        (stat_of (block_entry TASK_BLOCKED s1)) (stat_of (sched_result c e' (block_entry TASK_BLOCKED s1)))"
      by (rule sched_result_life [OF pre]) (use run(1) s1(3,5) in simp)
    with calculation show False
      using h s1(3) by (auto simp: same_life_def sched_result_def sched_task_def block_entry_stat dest!: bspec [of _ _ "cur s"])
  qed
  ultimately have "waiter_ok s2 (cur s)" and "cur s2 \<noteq> cur s"
    using s1(3) by (simp_all add: r waiter_ok_def sched_result_def sched_task_def block_entry_stat)
  moreover have "ioq_getchar q s = Inr (None, q\<lparr>consumer := cur s\<rparr>, s2)"
    using off e q(3) s1(1,3) s2(1)
    by (simp add: ioq_getchar_def ioq_get_loop_def ioq_empty_def ioq_wait_def Let_def)
  ultimately show ?thesis using s2(2) by blast
qed

theorem ioq_getchar_sleeps_witness:
  "\<exists>s'. ioq_getchar (sample_ioq\<lparr>head := 0, consumer := 0\<rparr>) (lock_init 0x700 (sample_wait\<lparr>eflags := 2\<rparr>)) =
       Inr (None, (sample_ioq\<lparr>head := 0, consumer := 0\<rparr>)\<lparr>consumer := cur (lock_init 0x700 (sample_wait\<lparr>eflags := 2\<rparr>))\<rparr>, s') \<and>
     sync_wf {0x700, 0x500} s' \<and> waiter_ok s' (cur (lock_init 0x700 (sample_wait\<lparr>eflags := 2\<rparr>))) \<and>
     cur s' \<noteq> cur (lock_init 0x700 (sample_wait\<lparr>eflags := 2\<rparr>))"
proof -
  have "sync_wf {0x500} (sample_wait\<lparr>eflags := 2\<rparr>)"
    using sync_wf_flags [OF same_but_flagsI(2) [where s = sample_wait and e = 2]] sample_wait_wf by blast
  then have wf: "sync_wf {0x700, 0x500} (lock_init 0x700 (sample_wait\<lparr>eflags := 2\<rparr>))"
    by (rule lock_init_wf) simp
  show ?thesis
    by (rule ioq_getchar_sleeps [OF _ _ _ _ wf])
       (simp_all add: sample_ioq_def ioq_wf_def bufsize_def contents_def ioq_length_def lock_init_def sema_init_def
          sample_wait_sel intr_get_status_def EFLAGS_IF_def)
qed

end
