(* ===== verification/Pipe.thy ===== *)
theory Pipe
  imports IoQueue
begin

text \<open>
  File descriptors and pipes: the global file table and the descriptor table of a task
  (\<^verbatim>\<open>get_free_slot_in_global\<close>, \<^verbatim>\<open>pcb_fd_install\<close> of \<^verbatim>\<open>fs/file.c\<close>, \<^verbatim>\<open>fd_local2global\<close> of
  \<^verbatim>\<open>fs/fs.c\<close>) and \<^verbatim>\<open>shell/pipe.c\<close>.

  A descriptor of \<^verbatim>\<open>fd_table\<close> is a 32-bit word; \<open>-1\<close> marks a free entry. The ring buffers are
  found by the \<^verbatim>\<open>fd_inode\<close> pointer of their table slot. A caller's buffer is the list of bytes
  read or written. A pipe operation that would put its task to sleep is \<open>Inl Blocks\<close>.
\<close>

section \<open>File table and descriptors\<close>

record kfile =
  fd_pos :: u32
  fd_flag :: u32
  fd_inode :: ptr

definition MAX_FILE_OPEN :: nat where [layout_simps]: "MAX_FILE_OPEN = 32"
definition MAX_FILES_OPEN_PER_PROC :: nat where [layout_simps]: "MAX_FILES_OPEN_PER_PROC = 8"
definition PIPE_FLAG :: u32 where [layout_simps]: "PIPE_FLAG = 0xFFFF"

record pio =
  file_table :: "kfile list"
  ioqs :: "ptr \<Rightarrow> ioqueue"
  ks :: ksync

abbreviation cur_fds :: "pio \<Rightarrow> u32 list" where
  "cur_fds st \<equiv> fd_table (tasks (ks st) (cur (ks st)))"

definition set_cur_fds :: "u32 list \<Rightarrow> pio \<Rightarrow> pio" where
  "set_cur_fds fds st = st\<lparr>ks := upd_task (cur (ks st)) (\<lambda>t. t\<lparr>fd_table := fds\<rparr>) (ks st)\<rparr>"

function slot_loop :: "kfile list \<Rightarrow> nat \<Rightarrow> nat" where
  "slot_loop ft fd_idx =
     (if fd_idx < MAX_FILE_OPEN then
        if fd_inode (ft ! fd_idx) = NULL then fd_idx else slot_loop ft (fd_idx + 1)
      else fd_idx)"
  by auto
termination by (relation "measure (\<lambda>(ft, i). MAX_FILE_OPEN - i)") auto

definition get_free_slot_in_global :: "kfile list \<Rightarrow> int" where
  "get_free_slot_in_global ft =
     (let fd_idx = slot_loop ft 3 in if fd_idx = MAX_FILE_OPEN then -1 else int fd_idx)"

function install_loop :: "u32 list \<Rightarrow> nat \<Rightarrow> nat" where
  "install_loop fds local_fd_idx =
     (if local_fd_idx < MAX_FILES_OPEN_PER_PROC then
        if fds ! local_fd_idx = -1 then local_fd_idx else install_loop fds (local_fd_idx + 1)
      else local_fd_idx)"
  by auto
termination by (relation "measure (\<lambda>(fds, i). MAX_FILES_OPEN_PER_PROC - i)") auto

definition pcb_fd_install :: "u32 \<Rightarrow> pio \<Rightarrow> int \<times> pio" where
  "pcb_fd_install global_fd_idx st =
     (let local_fd_idx = install_loop (cur_fds st) 3 in
      if local_fd_idx = MAX_FILES_OPEN_PER_PROC then (-1, st)
      else (int local_fd_idx, set_cur_fds ((cur_fds st)[local_fd_idx := global_fd_idx]) st))"

definition fd_local2global :: "nat \<Rightarrow> pio \<Rightarrow> nat res" where
  "fd_local2global local_fd st =
     bind_res (load (cur_fds st) local_fd) (\<lambda>global_fd.
     bind_res (ASSERT (sint global_fd \<ge> 0 \<and> sint global_fd < int MAX_FILE_OPEN)
       ''global_fd >= 0 && global_fd < MAX_FILE_OPEN'') (\<lambda>_. Inr (unat global_fd)))"

section \<open>Pipes\<close>

definition is_pipe :: "nat \<Rightarrow> pio \<Rightarrow> bool res" where
  "is_pipe local_fd st =
     bind_res (fd_local2global local_fd st) (\<lambda>global_fd.
     bind_res (load (file_table st) global_fd) (\<lambda>f. Inr (fd_flag f = PIPE_FLAG)))"

text \<open>\<open>page\<close> is what \<^verbatim>\<open>get_kernel_pages(1)\<close> returns. The free slot is used without a test for
  \<open>-1\<close>.\<close>

definition sys_pipe :: "ptr \<Rightarrow> pio \<Rightarrow> ((int \<times> int \<times> int) \<times> pio) res" where
  "sys_pipe page st =
     (let global_fd = get_free_slot_in_global (file_table st) in
      if global_fd < 0 then Inl Bad_Access
      else
        let g = nat global_fd;
            st = st\<lparr>file_table := (file_table st)[g := (file_table st ! g)\<lparr>fd_inode := page\<rparr>]\<rparr>
        in if page = NULL then Inr ((-1, -1, -1), st)
           else
             let (q, s) = ioqueue_init (ioqs st page) (ks st);
                 st = st\<lparr>ioqs := (ioqs st)(page := q), ks := s\<rparr>;
                 st = st\<lparr>file_table := (file_table st)[g := (file_table st ! g)\<lparr>fd_flag := PIPE_FLAG, fd_pos := 2\<rparr>]\<rparr>;
                 (pipefd0, st) = pcb_fd_install (of_nat g) st;
                 (pipefd1, st) = pcb_fd_install (of_nat g) st
             in Inr ((0, pipefd0, pipefd1), st))"

primrec pipe_read_loop :: "nat \<Rightarrow> ioqueue \<Rightarrow> ksync \<Rightarrow> (u8 list \<times> ioqueue \<times> ksync) res" where
  "pipe_read_loop 0 ioq s = Inr ([], ioq, s)"
| "pipe_read_loop (Suc n) ioq s =
     bind_res (ioq_getchar ioq s) (\<lambda>(b, ioq, s).
     case b of None \<Rightarrow> Inl Blocks
     | Some b \<Rightarrow> bind_res (pipe_read_loop n ioq s) (\<lambda>(bs, ioq, s). Inr (b # bs, ioq, s)))"

definition pipe_read :: "nat \<Rightarrow> nat \<Rightarrow> pio \<Rightarrow> (u8 list \<times> pio) res" where
  "pipe_read fd count st =
     bind_res (fd_local2global fd st) (\<lambda>global_fd.
     bind_res (load (file_table st) global_fd) (\<lambda>f.
     let ioq = ioqs st (fd_inode f);
         ioq_len = ioq_length ioq;
         size = (if ioq_len > count then count else ioq_len)
     in bind_res (pipe_read_loop size ioq (ks st)) (\<lambda>(bs, ioq, s).
        Inr (bs, st\<lparr>ioqs := (ioqs st)(fd_inode f := ioq), ks := s\<rparr>))))"

primrec pipe_write_loop :: "u8 list \<Rightarrow> ioqueue \<Rightarrow> ksync \<Rightarrow> (ioqueue \<times> ksync) res" where
  "pipe_write_loop [] ioq s = Inr (ioq, s)"
| "pipe_write_loop (b # bs) ioq s =
     bind_res (ioq_putchar ioq b s) (\<lambda>(r, ioq, s).
     case r of None \<Rightarrow> Inl Blocks | Some _ \<Rightarrow> pipe_write_loop bs ioq s)"

definition pipe_write :: "nat \<Rightarrow> u8 list \<Rightarrow> pio \<Rightarrow> (nat \<times> pio) res" where
  "pipe_write fd buffer st =
     bind_res (fd_local2global fd st) (\<lambda>global_fd.
     bind_res (load (file_table st) global_fd) (\<lambda>f.
     let ioq = ioqs st (fd_inode f);
         ioq_left = bufsize - ioq_length ioq;
         size = (if ioq_left > length buffer then length buffer else ioq_left)
     in bind_res (pipe_write_loop (take size buffer) ioq (ks st)) (\<lambda>(ioq, s).
        Inr (size, st\<lparr>ioqs := (ioqs st)(fd_inode f := ioq), ks := s\<rparr>))))"

definition sys_fd_redirect :: "nat \<Rightarrow> nat \<Rightarrow> pio \<Rightarrow> pio res" where
  "sys_fd_redirect old_local_fd new_local_fd st =
     (if new_local_fd < 3 then
        bind_res (store (cur_fds st) old_local_fd (of_nat new_local_fd)) (\<lambda>fds. Inr (set_cur_fds fds st))
      else
        bind_res (load (cur_fds st) new_local_fd) (\<lambda>new_global_fd.
        bind_res (store (cur_fds st) old_local_fd new_global_fd) (\<lambda>fds. Inr (set_cur_fds fds st))))"

section \<open>Descriptor tables\<close>

declare slot_loop.simps [simp del] install_loop.simps [simp del]

lemma slot_loop_spec:
  "i \<le> MAX_FILE_OPEN \<Longrightarrow> slot_loop ft i \<le> MAX_FILE_OPEN \<and> i \<le> slot_loop ft i \<and>
     (\<forall>j. i \<le> j \<and> j < slot_loop ft i \<longrightarrow> fd_inode (ft ! j) \<noteq> NULL) \<and>
     (slot_loop ft i < MAX_FILE_OPEN \<longrightarrow> fd_inode (ft ! slot_loop ft i) = NULL)"
proof (induction ft i rule: slot_loop.induct)
  case (1 ft i)
  show ?case
  proof (cases "i < MAX_FILE_OPEN \<and> fd_inode (ft ! i) \<noteq> NULL")
    case True
    then have e: "slot_loop ft i = slot_loop ft (i + 1)" by (simp add: slot_loop.simps [of ft i])
    from 1(1) True have ih: "slot_loop ft (i + 1) \<le> MAX_FILE_OPEN" "i + 1 \<le> slot_loop ft (i + 1)"
      "\<And>j. i + 1 \<le> j \<Longrightarrow> j < slot_loop ft (i + 1) \<Longrightarrow> fd_inode (ft ! j) \<noteq> NULL"
      "slot_loop ft (i + 1) < MAX_FILE_OPEN \<Longrightarrow> fd_inode (ft ! slot_loop ft (i + 1)) = NULL" by auto
    have "fd_inode (ft ! j) \<noteq> NULL" if "i \<le> j" "j < slot_loop ft (i + 1)" for j
      using True ih(3) [of j] that by (cases "j = i") auto
    then show ?thesis using e ih by auto
  next
    case False
    then show ?thesis using 1(2) slot_loop.simps [of ft i] by auto
  qed
qed

lemma install_loop_spec:
  "i \<le> MAX_FILES_OPEN_PER_PROC \<Longrightarrow> install_loop fds i \<le> MAX_FILES_OPEN_PER_PROC \<and> i \<le> install_loop fds i \<and>
     (\<forall>j. i \<le> j \<and> j < install_loop fds i \<longrightarrow> fds ! j \<noteq> -1) \<and>
     (install_loop fds i < MAX_FILES_OPEN_PER_PROC \<longrightarrow> fds ! install_loop fds i = -1)"
proof (induction fds i rule: install_loop.induct)
  case (1 fds i)
  show ?case
  proof (cases "i < MAX_FILES_OPEN_PER_PROC \<and> fds ! i \<noteq> -1")
    case True
    then have e: "install_loop fds i = install_loop fds (i + 1)" by (simp add: install_loop.simps [of fds i])
    from 1(1) True have ih: "install_loop fds (i + 1) \<le> MAX_FILES_OPEN_PER_PROC" "i + 1 \<le> install_loop fds (i + 1)"
      "\<And>j. i + 1 \<le> j \<Longrightarrow> j < install_loop fds (i + 1) \<Longrightarrow> fds ! j \<noteq> -1"
      "install_loop fds (i + 1) < MAX_FILES_OPEN_PER_PROC \<Longrightarrow> fds ! install_loop fds (i + 1) = -1" by auto
    have "fds ! j \<noteq> -1" if "i \<le> j" "j < install_loop fds (i + 1)" for j
      using True ih(3) [of j] that by (cases "j = i") auto
    then show ?thesis using e ih by auto
  next
    case False
    then show ?thesis using 1(2) install_loop.simps [of fds i] by auto
  qed
qed

section \<open>The loops of the pipes\<close>

text \<open>\<open>pipe_ok q s\<close>: the buffer is well formed, interrupts are off (as in every system call) and the
  tasks recorded as sleeping do sleep.\<close>

definition pipe_ok :: "ioqueue \<Rightarrow> ksync \<Rightarrow> bool" where
  "pipe_ok q s \<longleftrightarrow> ioq_wf q \<and> intr_get_status s = INTR_OFF \<and> sched_wf s"

lemma woken_keeps:
  assumes "sched_wf s" and "waiter_ok s p" and "p \<noteq> NULL"
  shows "sched_wf (woken p s)" and "intr_get_status (woken p s) = intr_get_status s"
  using assms sched_wf_woken(1) [of s p] intr_get_status_cong [of "woken p s" s]
  by (auto simp: waiter_ok_def woken_def)

lemma pipe_write_loop_eq:
  assumes "pipe_ok q s" and "length (contents q) + length bs \<le> bufsize - 1" and "waiter_ok s (consumer q)"
  shows "\<exists>q' s'. pipe_write_loop bs q s = Inr (q', s') \<and> pipe_ok q' s' \<and> contents q' = contents q @ bs \<and>
     producer q' = producer q \<and> waiter_ok s' (consumer q')"
  using assms
proof (induction bs arbitrary: q s)
  case (Cons b bs)
  let ?s1 = "if consumer q = NULL then s else woken (consumer q) s"
  have len: "length (contents q) < bufsize - 1" using Cons.prems(2) by simp
  obtain q1 where q1: "ioq_putchar q b s = Inr (Some (), q1, ?s1)" "ioq_wf q1" "contents q1 = contents q @ [b]"
      "consumer q1 = NULL" "producer q1 = producer q"
    using ioq_put_eq [of q s b] Cons.prems(1,3) len by (auto simp: pipe_ok_def)
  have ok: "pipe_ok q1 ?s1"
    using Cons.prems(1,3) q1(2) woken_keeps [of s "consumer q"] by (simp add: pipe_ok_def)
  have "waiter_ok ?s1 (consumer q1)" using q1(4) by (simp add: waiter_ok_def)
  moreover have "length (contents q1) + length bs \<le> bufsize - 1" using Cons.prems(2) q1(3) by simp
  ultimately obtain q' s' where "pipe_write_loop bs q1 ?s1 = Inr (q', s')" "pipe_ok q' s'"
      "contents q' = contents q1 @ bs" "producer q' = producer q1" "waiter_ok s' (consumer q')"
    using Cons.IH [OF ok] by blast
  with q1 show ?case by auto
qed auto

lemma pipe_read_loop_eq:
  assumes "pipe_ok q s" and "n \<le> length (contents q)" and "waiter_ok s (producer q)"
  shows "\<exists>q' s'. pipe_read_loop n q s = Inr (take n (contents q), q', s') \<and> pipe_ok q' s' \<and>
     contents q' = drop n (contents q)"
  using assms
proof (induction n arbitrary: q s)
  case (Suc n)
  let ?s1 = "if producer q = NULL then s else woken (producer q) s"
  obtain b bs where c: "contents q = b # bs" using Suc.prems(2) by (cases "contents q") auto
  obtain q1 where q1: "ioq_getchar q s = Inr (Some b, q1, ?s1)" "ioq_wf q1" "contents q1 = bs" "producer q1 = NULL"
    using ioq_get_eq [of q b bs s] Suc.prems(1,3) c by (auto simp: pipe_ok_def)
  have ok: "pipe_ok q1 ?s1"
    using Suc.prems(1,3) q1(2) woken_keeps [of s "producer q"] by (simp add: pipe_ok_def)
  have "waiter_ok ?s1 (producer q1)" using q1(4) by (simp add: waiter_ok_def)
  moreover have "n \<le> length (contents q1)" using Suc.prems(2) c q1(3) by simp
  ultimately obtain q' s' where "pipe_read_loop n q1 ?s1 = Inr (take n (contents q1), q', s')" "pipe_ok q' s'"
      "contents q' = drop n (contents q1)"
    using Suc.IH [OF ok] by blast
  with q1 c show ?case by auto
qed auto

text \<open>A full ring: the writer records itself as the waiting producer and sleeps. \<open>lock_idle s l\<close>: nobody has the lock \<open>l\<close>.\<close>

definition lock_idle :: "ksync \<Rightarrow> ptr \<Rightarrow> bool" where
  "lock_idle s l \<longleftrightarrow> sema_value (semas s (sema_of l)) = 1 \<and> holder (locks s l) \<noteq> cur s \<and> holder_repeat_nr (locks s l) = 0"

lemma lock_acquire_idle:
  assumes "sched_wf s" and "lock_idle s l"
  shows "\<exists>s'. lock_acquire l s = Inr s' \<and> sched_wf s' \<and> cur s' = cur s"
proof -
  let ?a = "set_pc (cur s) (Acq l) s"
  let ?b = "set_sema (sema_of l) ((semas s (sema_of l))\<lparr>sema_value := 0\<rparr>) (snd (intr_disable ?a))"
  let ?c = "snd (intr_set_status (fst (intr_disable ?a)) ?b)"
  let ?d = "set_pc (cur s) Run (set_lock l ((locks s l)\<lparr>holder := cur s, holder_repeat_nr := 1\<rparr>) (set_lock l ((locks s l)\<lparr>holder := cur s\<rparr>) ?c))"
  have "semas ?a = semas s" "locks ?a = locks s" by (simp_all add: set_pc_def)
  moreover have "semas (snd (intr_disable x)) = semas x" "locks (snd (intr_disable x)) = locks x"
    "locks (snd (intr_set_status z x)) = locks x" for x :: ksync and z
    by (simp_all add: intr_disable_def intr_set_status_def intr_enable_def)
  moreover have "locks ?b = locks s" using calculation by (simp add: set_sema_def)
  ultimately have "lock_acquire l s = Inr ?d"
    using assms(2)
    by (simp add: lock_acquire_def lock_enter_def lock_idle_def sema_down_def case_prod_unfold sema_down_try_def Let_def lock_got_def)
  moreover have "sched_wf ?d"
    using assms(1) sched_pre_cong(2) [of ?d s] by (simp add: set_pc_def set_lock_def set_sema_def)
  ultimately show ?thesis by (simp add: set_pc_def set_lock_def set_sema_def)
qed

lemma ioq_put_sleeps:
  assumes "sched_wf s" and "intr_get_status s = INTR_OFF" and "next_pos (head q) = tail q" and "producer q = NULL"
    and "lock_idle s (ioq_lock q)"
  shows "\<exists>s'. ioq_putchar q b s = Inr (None, q\<lparr>producer := cur s\<rparr>, s')"
proof -
  obtain s1 where s1: "lock_acquire (ioq_lock q) s = Inr s1" "sched_wf s1" "cur s1 = cur s"
    using lock_acquire_idle [OF assms(1,5)] by blast
  obtain s2 where "thread_block TASK_BLOCKED s1 = Inr s2" using thread_block_eq [OF s1(2), of TASK_BLOCKED] by auto
  then show ?thesis
    using assms s1 by (simp add: ioq_putchar_def ioq_put_loop_def ioq_full_def ioq_wait_def)
qed

lemma ioq_put_lock: "ioq_putchar q b s = Inr (r, q', s') \<Longrightarrow> ioq_lock q' = ioq_lock q"
  by (auto simp: ioq_putchar_def ioq_put_loop_def ioq_wait_def wakeup_def ring_put_def Let_def res_simps split: if_splits)

lemma pipe_write_loop_blocks:
  assumes "pipe_ok q s" and "length (contents q) + length bs > bufsize - 1" and "waiter_ok s (consumer q)"
    and "producer q = NULL" and "lock_idle s (ioq_lock q)"
  shows "pipe_write_loop bs q s = Inl Blocks"
  using assms
proof (induction bs arbitrary: q s)
  case Nil
  then show ?case using ioq_length_lt [of q] by (auto simp: pipe_ok_def)
next
  case (Cons b bs)
  show ?case
  proof (cases "length (contents q) < bufsize - 1")
    case True
    let ?s1 = "if consumer q = NULL then s else woken (consumer q) s"
    obtain q1 where q1: "ioq_putchar q b s = Inr (Some (), q1, ?s1)" "ioq_wf q1" "contents q1 = contents q @ [b]"
        "consumer q1 = NULL" "producer q1 = producer q"
      using ioq_put_eq [of q s b] Cons.prems(1,3) True by (auto simp: pipe_ok_def)
    have lk: "ioq_lock q1 = ioq_lock q" by (rule ioq_put_lock [OF q1(1)])
    have "pipe_ok q1 ?s1"
      using Cons.prems(1,3) q1(2) woken_keeps [of s "consumer q"] by (simp add: pipe_ok_def)
    moreover have "waiter_ok ?s1 (consumer q1)" using q1(4) by (simp add: waiter_ok_def)
    moreover have "length (contents q1) + length bs > bufsize - 1" using Cons.prems(2) q1(3) by simp
    moreover have "producer q1 = NULL" "lock_idle ?s1 (ioq_lock q1)"
      using Cons.prems(4,5) q1(5) lk by (simp_all add: lock_idle_def woken_def set_stat_def upd_task_def)
    ultimately have "pipe_write_loop bs q1 ?s1 = Inl Blocks" by (intro Cons.IH)
    then show ?thesis using q1(1) by simp
  next
    case False
    have wf: "ioq_wf q" using Cons.prems(1) by (simp add: pipe_ok_def)
    have "ioq_length q = bufsize - 1" using False ioq_length_lt [OF wf] by simp
    then have "next_pos (head q) = tail q" using ioq_full_iff [OF wf] by simp
    then obtain q1 s1 where "ioq_putchar q b s = Inr (None, q1, s1)"
      using ioq_put_sleeps [of s q b] Cons.prems(1,4,5) by (auto simp: pipe_ok_def)
    then show ?thesis by simp
  qed
qed

section \<open>Properties\<close>

text \<open>\<^verbatim>\<open>get_free_slot_in_global\<close> returns the lowest free slot of the file table from 3 on, and
  \<open>-1\<close> exactly when all of them are taken.\<close>

theorem free_slot_is_lowest:
  "(get_free_slot_in_global ft = -1 \<longleftrightarrow> (\<forall>i. 3 \<le> i \<and> i < MAX_FILE_OPEN \<longrightarrow> fd_inode (ft ! i) \<noteq> NULL)) \<and>
   (\<forall>i. get_free_slot_in_global ft = int i \<longrightarrow>
      3 \<le> i \<and> i < MAX_FILE_OPEN \<and> fd_inode (ft ! i) = NULL \<and> (\<forall>j. 3 \<le> j \<and> j < i \<longrightarrow> fd_inode (ft ! j) \<noteq> NULL))"
proof -
  have "(3 :: nat) \<le> MAX_FILE_OPEN" by (simp add: MAX_FILE_OPEN_def)
  note s = slot_loop_spec [OF this, of ft]
  show ?thesis
    using s unfolding get_free_slot_in_global_def Let_def
    by (cases "slot_loop ft 3 = MAX_FILE_OPEN") (auto simp: le_neq_implies_less)
qed

theorem free_slot_is_lowest_witness:
  "get_free_slot_in_global (replicate 32 \<lparr>fd_pos = 0, fd_flag = 0, fd_inode = 0\<rparr>) \<noteq> -1"
proof -
  have "\<not> (\<forall>i. 3 \<le> i \<and> i < MAX_FILE_OPEN \<longrightarrow>
      fd_inode (replicate 32 \<lparr>fd_pos = 0, fd_flag = 0, fd_inode = 0\<rparr> ! i) \<noteq> NULL)"
    by (auto simp: MAX_FILE_OPEN_def intro!: exI [of _ 3])
  then show ?thesis
    using free_slot_is_lowest [of "replicate 32 \<lparr>fd_pos = 0, fd_flag = 0, fd_inode = 0\<rparr>"] by blast
qed

text \<open>A descriptor installed with \<^verbatim>\<open>pcb_fd_install\<close> is an entry that was free, and
  \<^verbatim>\<open>fd_local2global\<close> translates it back to the slot of the file table it was installed for.\<close>

theorem fd_install_lookup:
  assumes "length (cur_fds st) = MAX_FILES_OPEN_PER_PROC" and "g < MAX_FILE_OPEN"
    and "pcb_fd_install (of_nat g) st = (int fd, st')"
  shows "3 \<le> fd \<and> fd < MAX_FILES_OPEN_PER_PROC \<and> cur_fds st ! fd = -1 \<and> fd_local2global fd st' = Inr g \<and>
     (\<forall>i < MAX_FILES_OPEN_PER_PROC. i \<noteq> fd \<longrightarrow> cur_fds st' ! i = cur_fds st ! i)"
proof -
  have "(3 :: nat) \<le> MAX_FILES_OPEN_PER_PROC" by (simp add: MAX_FILES_OPEN_PER_PROC_def)
  note s = install_loop_spec [OF this, of "cur_fds st"]
  have g: "g < 2147483648" "g < 4294967296" using assms(2) by (simp_all add: MAX_FILE_OPEN_def)
  have sg: "sint (of_nat g :: u32) = int g"
    using sint_of_small [of "of_nat g"] g by simp
  have fd: "fd = install_loop (cur_fds st) 3" "fd \<noteq> MAX_FILES_OPEN_PER_PROC"
    "st' = set_cur_fds ((cur_fds st)[fd := of_nat g]) st"
    using assms(3) by (auto simp: pcb_fd_install_def Let_def split: if_splits)
  have c: "cur_fds st' = (cur_fds st)[fd := of_nat g]" using fd(3) by (simp add: set_cur_fds_def)
  then have "fd_local2global fd st' = Inr g"
    using s fd(1,2) assms(1,2) g sg by (simp add: fd_local2global_def)
  then show ?thesis using s fd c by auto
qed

text \<open>A task with a pipe in slot 3 of the file table, open at the descriptors 3 and 4.\<close>

definition sample_pipe :: pio where
  "sample_pipe = set_cur_fds [0, 1, 2, 3, 3, -1, -1, -1]
     \<lparr>file_table = (replicate 32 \<lparr>fd_pos = 0, fd_flag = 0, fd_inode = 0\<rparr>)
        [3 := \<lparr>fd_pos = 2, fd_flag = PIPE_FLAG, fd_inode = 0x9000\<rparr>],
      ioqs = (\<lambda>_. sample_ioq), ks = sample_wait\<lparr>eflags := 2\<rparr>\<rparr>"

lemma sample_pipe_fds: "cur_fds sample_pipe = [0, 1, 2, 3, 3, -1, -1, -1]"
  by (simp add: sample_pipe_def set_cur_fds_def)

theorem fd_install_lookup_witness:
  "3 \<le> (5 :: nat) \<and> 5 < MAX_FILES_OPEN_PER_PROC \<and> cur_fds sample_pipe ! 5 = -1 \<and>
   fd_local2global 5 (set_cur_fds ((cur_fds sample_pipe)[5 := of_nat 7]) sample_pipe) = Inr 7"
  using fd_install_lookup [of sample_pipe 7 5 "set_cur_fds ((cur_fds sample_pipe)[5 := of_nat 7]) sample_pipe"]
  by (simp add: sample_pipe_fds MAX_FILES_OPEN_PER_PROC_def MAX_FILE_OPEN_def pcb_fd_install_def
       install_loop.simps Let_def)

lemma sample_pipe_ok:
  "fd_local2global 3 sample_pipe = Inr 3" "3 < length (file_table sample_pipe)"
  "fd_inode (file_table sample_pipe ! 3) = 0x9000" "ioqs sample_pipe = (\<lambda>_. sample_ioq)"
  "pipe_ok sample_ioq (ks sample_pipe)" "waiter_ok (ks sample_pipe) 0x3000"
proof -
  show "fd_local2global 3 sample_pipe = Inr 3"
    by (simp add: fd_local2global_def sample_pipe_fds MAX_FILE_OPEN_def)
  show "3 < length (file_table sample_pipe)" "fd_inode (file_table sample_pipe ! 3) = 0x9000"
    "ioqs sample_pipe = (\<lambda>_. sample_ioq)"
    by (simp_all add: sample_pipe_def set_cur_fds_def)
  have "sched_wf (ks sample_pipe)"
    using sample_off(1) sched_pre_cong(2) [of "ks sample_pipe" "sample_wait\<lparr>eflags := 2\<rparr>"]
    by (simp add: sample_pipe_def set_cur_fds_def)
  moreover have "intr_get_status (ks sample_pipe) = INTR_OFF"
    using intr_get_status_cong [of "ks sample_pipe" "sample_wait\<lparr>eflags := 2\<rparr>"] sample_off(2)
    by (simp add: sample_pipe_def set_cur_fds_def)
  ultimately show "pipe_ok sample_ioq (ks sample_pipe)" using sample_ioq_wf(1) by (simp add: pipe_ok_def)
  show "waiter_ok (ks sample_pipe) 0x3000"
    using sample_waiter by (auto simp: waiter_ok_def sample_pipe_def set_cur_fds_def)
qed

text \<open>C25: Pipes are first in, first out. A write of at most as many bytes as fit returns their number
  and appends them to the bytes of the pipe; a read returns the oldest bytes, at most as many as
  there are and never more than asked for, and takes them out.\<close>

theorem pipe_fifo:
  assumes "fd_local2global fd st = Inr g" and "g < length (file_table st)"
    and "q = ioqs st (fd_inode (file_table st ! g))" and "pipe_ok q (ks st)"
    and "waiter_ok (ks st) (consumer q)" and "waiter_ok (ks st) (producer q)"
  shows "(length (contents q) + length bs \<le> bufsize - 1 \<longrightarrow>
        (\<exists>st'. pipe_write fd bs st = Inr (length bs, st') \<and>
           contents (ioqs st' (fd_inode (file_table st ! g))) = contents q @ bs)) \<and>
     (\<exists>st'. pipe_read fd n st = Inr (take n (contents q), st') \<and>
        contents (ioqs st' (fd_inode (file_table st ! g))) = drop n (contents q))"
proof (intro conjI impI)
  assume len: "length (contents q) + length bs \<le> bufsize - 1"
  obtain q' s' where w: "pipe_write_loop bs q (ks st) = Inr (q', s')" "contents q' = contents q @ bs"
    using pipe_write_loop_eq [OF assms(4) len assms(5)] by blast
  have "length bs < bufsize - ioq_length q"
    using len by (auto simp: bufsize_def)
  then show "\<exists>st'. pipe_write fd bs st = Inr (length bs, st') \<and>
      contents (ioqs st' (fd_inode (file_table st ! g))) = contents q @ bs"
    using assms(1-3) w by (simp add: pipe_write_def Let_def)
next
  define m where "m = (if ioq_length q > n then n else ioq_length q)"
  have m: "m \<le> length (contents q)" "take m (contents q) = take n (contents q)"
      "drop m (contents q) = drop n (contents q)"
    by (simp_all add: m_def)
  obtain q' s' where r: "pipe_read_loop m q (ks st) = Inr (take m (contents q), q', s')"
      "contents q' = drop m (contents q)"
    using pipe_read_loop_eq [OF assms(4) m(1) assms(6)] by blast
  have "pipe_read fd n st = Inr (take m (contents q), st\<lparr>ioqs := (ioqs st)(fd_inode (file_table st ! g) := q'), ks := s'\<rparr>)"
    using assms(1,2) r(1) unfolding m_def
    by (cases "n < ioq_length q") (simp_all add: pipe_read_def Let_def assms(3) [symmetric])
  then show "\<exists>st'. pipe_read fd n st = Inr (take n (contents q), st') \<and>
      contents (ioqs st' (fd_inode (file_table st ! g))) = drop n (contents q)"
    using r(2) m by auto
qed

theorem pipe_fifo_witness:
  "(\<exists>st'. pipe_write 3 [8, 9] sample_pipe = Inr (length [8, 9 :: u8], st') \<and>
      contents (ioqs st' (fd_inode (file_table sample_pipe ! 3))) = contents sample_ioq @ [8, 9]) \<and>
   (\<exists>st'. pipe_read 3 1 sample_pipe = Inr (take 1 (contents sample_ioq), st') \<and>
      contents (ioqs st' (fd_inode (file_table sample_pipe ! 3))) = drop 1 (contents sample_ioq))"
proof -
  have room: "length (contents sample_ioq) + length [8, 9 :: u8] \<le> bufsize - 1"
    by (simp add: sample_ioq_wf(2) bufsize_def)
  have "(length (contents sample_ioq) + length [8, 9 :: u8] \<le> bufsize - 1 \<longrightarrow>
      (\<exists>st'. pipe_write 3 [8, 9] sample_pipe = Inr (length [8, 9 :: u8], st') \<and>
         contents (ioqs st' (fd_inode (file_table sample_pipe ! 3))) = contents sample_ioq @ [8, 9])) \<and>
   (\<exists>st'. pipe_read 3 1 sample_pipe = Inr (take 1 (contents sample_ioq), st') \<and>
      contents (ioqs st' (fd_inode (file_table sample_pipe ! 3))) = drop 1 (contents sample_ioq))"
    by (rule pipe_fifo [OF sample_pipe_ok(1,2) _ sample_pipe_ok(5)])
       (use sample_pipe_ok(4,6) in \<open>simp_all add: sample_ioq_def\<close>, simp add: waiter_ok_def)
  with room show ?thesis by blast
qed

text \<open>C40: A pipe write can put its task to sleep although it limits itself to the room that is
  left: the room is computed as \<^verbatim>\<open>bufsize\<close> minus the length, one more than the ring can hold, so
  a write of at least that many bytes, with no producer waiting and the lock of the ring free, ends with the
  writer asleep (\<open>Blocks\<close>) behind the last byte that fits: no assertion fails and no address is bad.\<close>

theorem pipe_write_overcommits:
  assumes "fd_local2global fd st = Inr g" and "g < length (file_table st)"
    and "q = ioqs st (fd_inode (file_table st ! g))" and "pipe_ok q (ks st)"
    and "waiter_ok (ks st) (consumer q)" and "length bs \<ge> bufsize - length (contents q)"
    and "producer q = NULL" and "lock_idle (ks st) (ioq_lock q)"
  shows "pipe_write fd bs st = Inl Blocks"
proof -
  let ?bs = "take (bufsize - ioq_length q) bs"
  have lt: "ioq_length q < bufsize" using ioq_length_lt assms(4) by (simp add: pipe_ok_def)
  have "length ?bs = bufsize - ioq_length q" using assms(6) by simp
  then have "length (contents q) + length ?bs > bufsize - 1" using lt by simp
  from pipe_write_loop_blocks [OF assms(4) this assms(5,7,8)]
  have b: "pipe_write_loop ?bs q (ks st) = Inl Blocks" .
  have "(if bufsize - ioq_length q > length bs then length bs else bufsize - ioq_length q) = bufsize - ioq_length q"
    using assms(6) by simp
  then show ?thesis using assms(1-3) b by (auto simp: pipe_write_def Let_def res_simps)
qed

definition sample_full :: pio where
  "sample_full = sample_pipe\<lparr>ks := set_sema (sema_of 0x700) \<lparr>sema_value = 1, waiters = []\<rparr> (ks sample_pipe)\<rparr>"

theorem pipe_write_overcommits_witness: "pipe_write 3 (replicate 2047 1) sample_full = Inl Blocks"
proof (rule pipe_write_overcommits)
  have f: "file_table sample_full = file_table sample_pipe" "ioqs sample_full = ioqs sample_pipe" "cur_fds sample_full = cur_fds sample_pipe"
    "cur (ks sample_full) = 0x1000" "locks (ks sample_full) 0x700 = \<lparr>holder = 0, holder_repeat_nr = 0\<rparr>"
    by (simp_all add: sample_full_def set_sema_def sample_pipe_def set_cur_fds_def sample_wait_def sched.defs sample_sched_def upd_task_def)
  show "fd_local2global 3 sample_full = Inr 3" using sample_pipe_ok(1) f(3) by (simp add: fd_local2global_def)
  show "3 < length (file_table sample_full)" using sample_pipe_ok(2) f(1) by simp
  show "sample_ioq = ioqs sample_full (fd_inode (file_table sample_full ! 3))" using sample_pipe_ok(4) f by simp
  show "pipe_ok sample_ioq (ks sample_full)"
    using sample_pipe_ok(5) sched_pre_cong(2) [of "ks sample_full" "ks sample_pipe"]
      intr_get_status_cong [of "ks sample_full" "ks sample_pipe"]
    by (simp add: pipe_ok_def sample_full_def set_sema_def)
  show "waiter_ok (ks sample_full) (consumer sample_ioq)"
    using sample_pipe_ok(6) by (simp add: waiter_ok_def sample_full_def set_sema_def sample_ioq_def)
  show "length (replicate 2047 1) \<ge> bufsize - length (contents sample_ioq)"
    using sample_ioq_wf(2) by (simp add: bufsize_def del: contents_length)
  show "producer sample_ioq = NULL" by (simp add: sample_ioq_def)
  show "lock_idle (ks sample_full) (ioq_lock sample_ioq)"
    using f(4,5) by (simp add: lock_idle_def sample_ioq_def) (simp add: sample_full_def set_sema_def)
qed

text \<open>\<^verbatim>\<open>sys_pipe\<close> does not test for a full file table: when no slot is free it writes in front of
  the table instead of failing.\<close>

theorem sys_pipe_table_full:
  assumes "\<forall>i. 3 \<le> i \<and> i < MAX_FILE_OPEN \<longrightarrow> fd_inode (file_table st ! i) \<noteq> NULL"
  shows "sys_pipe page st = Inl Bad_Access"
proof -
  have "(3 :: nat) \<le> MAX_FILE_OPEN" by (simp add: MAX_FILE_OPEN_def)
  note s = slot_loop_spec [OF this, of "file_table st"]
  then have "get_free_slot_in_global (file_table st) = -1"
    using assms by (auto simp: get_free_slot_in_global_def Let_def le_neq_implies_less)
  then show ?thesis by (simp add: sys_pipe_def Let_def)
qed

theorem sys_pipe_table_full_witness:
  "sys_pipe 0x8000 (sample_pipe\<lparr>file_table := replicate 32 \<lparr>fd_pos = 0, fd_flag = 0, fd_inode = 1\<rparr>\<rparr>) = Inl Bad_Access"
  by (rule sys_pipe_table_full) (simp add: MAX_FILE_OPEN_def)

end
