(* ===== verification/Keyboard.thy ===== *)
theory Keyboard
  imports IoQueue
begin

text \<open>
  The keyboard interrupt, \<^verbatim>\<open>device/keyboard.c\<close>: scan codes of set 1, the state of the modifier
  keys, the key map and the buffer the shell reads from.

  \<open>intr_keyboard_handler\<close> gets the byte that \<^verbatim>\<open>inb(KBD_BUF_PORT)\<close> returns as an argument. Text it
  prints with \<^verbatim>\<open>put_str\<close> is collected in \<open>kbd_out\<close>.
\<close>

section \<open>The code\<close>

record kbd =
  ctrl_status :: bool
  shift_status :: bool
  alt_status :: bool
  caps_lock_status :: bool
  ext_scancode :: bool
  kbd_buf :: ioqueue
  kbd_ks :: ksync
  kbd_out :: "string list"

definition shift_l_make :: u16 where [layout_simps]: "shift_l_make = 0x2a"
definition shift_r_make :: u16 where [layout_simps]: "shift_r_make = 0x36"
definition alt_l_make :: u16 where [layout_simps]: "alt_l_make = 0x38"
definition alt_r_make :: u16 where [layout_simps]: "alt_r_make = 0xe038"
definition ctrl_l_make :: u16 where [layout_simps]: "ctrl_l_make = 0x1d"
definition ctrl_r_make :: u16 where [layout_simps]: "ctrl_r_make = 0xe01d"
definition caps_lock_make :: u16 where [layout_simps]: "caps_lock_make = 0x3a"

text \<open>The characters without and with shift, as ASCII codes, indexed by make code.\<close>

definition keymap :: "(u8 \<times> u8) list" where
  "keymap = [
     (0, 0), (27, 27), (49, 33), (50, 64), (51, 35), (52, 36), (53, 37), (54, 94),
     (55, 38), (56, 42), (57, 40), (48, 41), (45, 95), (61, 43), (8, 8), (9, 9),
     (113, 81), (119, 87), (101, 69), (114, 82), (116, 84), (121, 89), (117, 85), (105, 73),
     (111, 79), (112, 80), (91, 123), (93, 125), (13, 13), (0, 0), (97, 65), (115, 83),
     (100, 68), (102, 70), (103, 71), (104, 72), (106, 74), (107, 75), (108, 76), (59, 58),
     (39, 34), (96, 126), (0, 0), (92, 124), (122, 90), (120, 88), (99, 67), (118, 86),
     (98, 66), (110, 78), (109, 77), (44, 60), (46, 62), (47, 63), (0, 0), (42, 42),
     (0, 0), (32, 32), (0, 0)]"

definition key_released :: "u16 \<Rightarrow> kbd \<Rightarrow> kbd" where
  "key_released make_code st =
     (if make_code = ctrl_l_make \<or> make_code = ctrl_r_make then st\<lparr>ctrl_status := False\<rparr>
      else if make_code = shift_l_make \<or> make_code = shift_r_make then st\<lparr>shift_status := False\<rparr>
      else if make_code = alt_l_make \<or> make_code = alt_r_make then st\<lparr>alt_status := False\<rparr>
      else st)"

definition two_char_key :: "u16 \<Rightarrow> bool" where
  "two_char_key scancode \<longleftrightarrow> scancode < 0x0e \<or> scancode = 0x29 \<or> scancode = 0x1a \<or> scancode = 0x1b \<or>
     scancode = 0x2b \<or> scancode = 0x27 \<or> scancode = 0x28 \<or> scancode = 0x33 \<or> scancode = 0x34 \<or> scancode = 0x35"

definition shifted :: "u16 \<Rightarrow> bool \<Rightarrow> bool \<Rightarrow> bool" where
  "shifted scancode shift_down_last caps_lock_last =
     (if two_char_key scancode then shift_down_last
      else if shift_down_last \<and> caps_lock_last then False
      else if shift_down_last \<or> caps_lock_last then True
      else False)"

definition key_modifier :: "u16 \<Rightarrow> kbd \<Rightarrow> kbd" where
  "key_modifier scancode st =
     (if scancode = ctrl_l_make \<or> scancode = ctrl_r_make then st\<lparr>ctrl_status := True\<rparr>
      else if scancode = shift_l_make \<or> scancode = shift_r_make then st\<lparr>shift_status := True\<rparr>
      else if scancode = alt_l_make \<or> scancode = alt_r_make then st\<lparr>alt_status := True\<rparr>
      else if scancode = caps_lock_make then st\<lparr>caps_lock_status := \<not> caps_lock_status st\<rparr>
      else st)"

definition put_key :: "u8 \<Rightarrow> kbd \<Rightarrow> kbd res" where
  "put_key cur_char st =
     bind_res (ioq_full (kbd_buf st) (kbd_ks st)) (\<lambda>full.
     if \<not> full then
       bind_res (ioq_putchar (kbd_buf st) cur_char (kbd_ks st)) (\<lambda>(r, q, s).
       case r of None \<Rightarrow> Inl Blocks | Some _ \<Rightarrow> Inr (st\<lparr>kbd_buf := q, kbd_ks := s\<rparr>))
     else Inr st)"

definition intr_keyboard_handler :: "u8 \<Rightarrow> kbd \<Rightarrow> kbd res" where
  "intr_keyboard_handler inb st =
     (let ctrl_down_last = ctrl_status st;
          shift_down_last = shift_status st;
          caps_lock_last = caps_lock_status st;
          scancode = (ucast inb :: u16)
      in if scancode = 0xe0 then Inr (st\<lparr>ext_scancode := True\<rparr>)
      else
        let (scancode, st) = (if ext_scancode st then (0xe000 OR scancode, st\<lparr>ext_scancode := False\<rparr>)
                              else (scancode, st))
        in if scancode AND 0x0080 \<noteq> 0 then
             Inr (key_released (scancode AND 0xff7f) st)
           else if (scancode > 0x00 \<and> scancode < 0x3b) \<or> scancode = alt_r_make \<or> scancode = ctrl_r_make then
             let shift = shifted scancode shift_down_last caps_lock_last;
                 scancode = scancode AND 0x00ff
             in bind_res (load keymap (unat scancode)) (\<lambda>entry.
                let cur_char = (if shift then snd entry else fst entry) in
                if cur_char \<noteq> 0 then
                  put_key (if ctrl_down_last \<and> (cur_char = 108 \<or> cur_char = 117) then cur_char - 97 else cur_char) st
                else Inr (key_modifier scancode st))
           else Inr (st\<lparr>kbd_out := kbd_out st @ [''unknown key!'']\<rparr>))"

definition keyboard_init :: "kbd \<Rightarrow> kbd" where
  "keyboard_init st = (let (q, s) = ioqueue_init (kbd_buf st) (kbd_ks st) in st\<lparr>kbd_buf := q, kbd_ks := s\<rparr>)"

section \<open>The handler never blocks\<close>

definition kbd_ok :: "kbd \<Rightarrow> bool" where
  "kbd_ok st \<longleftrightarrow> ioq_wf (kbd_buf st) \<and> intr_get_status (kbd_ks st) = INTR_OFF \<and> sched_wf (kbd_ks st) \<and>
     waiter_ok (kbd_ks st) (consumer (kbd_buf st))"

lemma put_key_eq:
  assumes "kbd_ok st"
  shows "\<exists>q s. put_key c st = Inr (st\<lparr>kbd_buf := q, kbd_ks := s\<rparr>) \<and> kbd_ok (st\<lparr>kbd_buf := q, kbd_ks := s\<rparr>) \<and>
     contents q = (if length (contents (kbd_buf st)) < bufsize - 1 then contents (kbd_buf st) @ [c]
                   else contents (kbd_buf st))"
proof -
  let ?q = "kbd_buf st" and ?s = "kbd_ks st"
  have wf: "ioq_wf ?q" and off: "intr_get_status ?s = INTR_OFF" and sw: "sched_wf ?s"
    and w: "waiter_ok ?s (consumer ?q)" using assms by (auto simp: kbd_ok_def)
  show ?thesis
  proof (cases "length (contents ?q) < bufsize - 1")
    case True
    let ?s1 = "if consumer ?q = NULL then ?s else woken (consumer ?q) ?s"
    obtain q1 where q1: "ioq_putchar ?q c ?s = Inr (Some (), q1, ?s1)" "ioq_wf q1"
        "contents q1 = contents ?q @ [c]" "consumer q1 = NULL"
      using ioq_put_eq [OF wf True off sw w, of c] by blast
    have "next_pos (head ?q) \<noteq> tail ?q" using ioq_full_iff [OF wf] True by simp
    then have "put_key c st = Inr (st\<lparr>kbd_buf := q1, kbd_ks := ?s1\<rparr>)"
      using q1(1) off by (simp add: put_key_def ioq_full_def)
    moreover have "sched_wf ?s1" "intr_get_status ?s1 = INTR_OFF"
      using sw w off sched_wf_woken(1) [of ?s "consumer ?q"] intr_get_status_cong [of "woken (consumer ?q) ?s" ?s]
      by (auto simp: waiter_ok_def woken_def)
    ultimately show ?thesis using q1 True by (intro exI [of _ q1] exI [of _ ?s1]) (simp add: kbd_ok_def waiter_ok_def)
  next
    case False
    then have "next_pos (head ?q) = tail ?q" using ioq_full_iff [OF wf] ioq_length_lt [OF wf] by simp
    then have "put_key c st = Inr (st\<lparr>kbd_buf := ?q, kbd_ks := ?s\<rparr>)"
      using off by (simp add: put_key_def ioq_full_def)
    then show ?thesis using False assms by (intro exI [of _ ?q] exI [of _ ?s]) simp
  qed
qed

lemma kbd_ok_mod:
  "kbd_ok (key_released c st) = kbd_ok st" "kbd_ok (key_modifier c st) = kbd_ok st"
  "kbd_ok (st\<lparr>ext_scancode := b\<rparr>) = kbd_ok st" "kbd_ok (st\<lparr>kbd_out := ks\<rparr>) = kbd_ok st"
  "kbd_buf (key_released c st) = kbd_buf st" "kbd_buf (key_modifier c st) = kbd_buf st"
  by (simp_all add: kbd_ok_def key_released_def key_modifier_def)

lemma keymap_length: "length keymap = 59" by (simp add: keymap_def)

lemma low_byte_id: "(x :: u16) < 0x3b \<Longrightarrow> x AND 0xff = x"
proof (rule bit_word_eqI)
  fix n assume "x < 0x3b"
  then have "unat x < 2 ^ 8" by (simp add: word_less_nat_alt)
  then have "bit x n \<Longrightarrow> n < 8" by (rule bit_small_word)
  then show "bit (x AND 0xff) n = bit x n" by (auto simp: bit_and_iff mask_bits)
qed

lemma keymap_index:
  assumes "((x :: u16) > 0 \<and> x < 0x3b) \<or> x = alt_r_make \<or> x = ctrl_r_make"
  shows "unat (x AND 0x00ff) < length keymap"
  using assms low_byte_id [of x]
  by (auto simp: keymap_length alt_r_make_def ctrl_r_make_def word_less_nat_alt)

text \<open>What the handler does with the make code of a key of the table.\<close>

definition key_pressed :: "u16 \<Rightarrow> bool \<Rightarrow> bool \<Rightarrow> bool \<Rightarrow> kbd \<Rightarrow> kbd res" where
  "key_pressed scancode ctrl shift caps st =
     (let entry = keymap ! unat (scancode AND 0x00ff);
          c = (if shifted scancode shift caps then snd entry else fst entry)
      in if c \<noteq> 0 then put_key (if ctrl \<and> (c = 108 \<or> c = 117) then c - 97 else c) st
         else Inr (key_modifier (scancode AND 0x00ff) st))"

definition full_code :: "u8 \<Rightarrow> kbd \<Rightarrow> u16" where
  "full_code b st = (if ext_scancode st then 0xe000 OR ucast b else ucast b)"

lemma handler_cases:
  "intr_keyboard_handler b st =
    (if b = 0xe0 then Inr (st\<lparr>ext_scancode := True\<rparr>)
     else if full_code b st AND 0x0080 \<noteq> 0
     then Inr (key_released (full_code b st AND 0xff7f) (st\<lparr>ext_scancode := False\<rparr>))
     else if (full_code b st > 0x00 \<and> full_code b st < 0x3b) \<or> full_code b st = alt_r_make \<or> full_code b st = ctrl_r_make
     then key_pressed (full_code b st) (ctrl_status st) (shift_status st) (caps_lock_status st) (st\<lparr>ext_scancode := False\<rparr>)
     else Inr (st\<lparr>ext_scancode := False, kbd_out := kbd_out st @ [''unknown key!'']\<rparr>))"
proof -
  have e0: "(ucast b :: u16) = 0xe0 \<longleftrightarrow> b = 0xe0"
  proof -
    have u: "unat (ucast b :: u16) = unat b"
      using unat_u8_lt [of b] by (simp add: unsigned_ucast_eq take_bit_nat_eq_self del: unat_u8_lt)
    have "unat b = unat (0xe0 :: u8)" if "(ucast b :: u16) = 0xe0" using u that by simp
    then show ?thesis by (auto intro: unsigned_word_eqI)
  qed
  define x where "x = full_code b st"
  have pair: "(if ext_scancode st then (0xe000 OR ucast b, st\<lparr>ext_scancode := False\<rparr>) else (ucast b, st)) =
      (x, st\<lparr>ext_scancode := False\<rparr>)"
    by (simp add: x_def full_code_def)
  have ld: "load keymap (unat (x AND 0x00ff)) = Inr (keymap ! unat (x AND 0x00ff))"
    if "(x > 0 \<and> x < 0x3b) \<or> x = alt_r_make \<or> x = ctrl_r_make"
    using keymap_index [OF that] by (rule load_in)
  show ?thesis
    unfolding intr_keyboard_handler_def Let_def e0 pair prod.case x_def [symmetric]
    by (simp add: ld key_pressed_def Let_def)
qed

lemma key_pressed_ok:
  assumes "kbd_ok st"
  shows "\<exists>st'. key_pressed sc c s k st = Inr st' \<and> kbd_ok st' \<and>
     (\<exists>cs. contents (kbd_buf st') = contents (kbd_buf st) @ cs \<and> length cs \<le> 1)"
proof -
  define e where "e = (if shifted sc s k then snd (keymap ! unat (sc AND 0xff)) else fst (keymap ! unat (sc AND 0xff)))"
  define ch where "ch = (if c \<and> (e = 108 \<or> e = 117) then e - 97 else e)"
  show ?thesis
  proof (cases "e = 0")
    case True
    then have "key_pressed sc c s k st = Inr (key_modifier (sc AND 0xff) st)"
      by (simp add: key_pressed_def e_def Let_def)
    then show ?thesis using assms by (simp add: kbd_ok_mod)
  next
    case False
    then have kp: "key_pressed sc c s k st = put_key ch st"
      unfolding key_pressed_def Let_def e_def [symmetric] ch_def [symmetric] by simp
    obtain q t where "put_key ch st = Inr (st\<lparr>kbd_buf := q, kbd_ks := t\<rparr>)" "kbd_ok (st\<lparr>kbd_buf := q, kbd_ks := t\<rparr>)"
      "contents q = (if length (contents (kbd_buf st)) < bufsize - 1 then contents (kbd_buf st) @ [ch]
                   else contents (kbd_buf st))"
      using put_key_eq [OF assms] by blast
    then show ?thesis unfolding kp by (intro exI [of _ "st\<lparr>kbd_buf := q, kbd_ks := t\<rparr>"]) auto
  qed
qed

section \<open>Properties\<close>

text \<open>C33: The keyboard interrupt handler returns for every byte the keyboard can send: it never
  sleeps (a full buffer drops the character), never reads outside the key map, keeps the buffer
  well formed and adds at most one character.\<close>

theorem keyboard_handler_returns:
  assumes "kbd_ok st"
  shows "\<exists>st'. intr_keyboard_handler b st = Inr st' \<and> kbd_ok st' \<and>
     (\<exists>cs. contents (kbd_buf st') = contents (kbd_buf st) @ cs \<and> length cs \<le> 1)"
  unfolding handler_cases
  using assms key_pressed_ok [of "st\<lparr>ext_scancode := False\<rparr>"]
  by (simp add: kbd_ok_mod)

definition sample_kbd :: kbd where
  "sample_kbd = \<lparr>ctrl_status = False, shift_status = False, alt_status = False, caps_lock_status = True,
     ext_scancode = False, kbd_buf = sample_ioq, kbd_ks = sample_wait\<lparr>eflags := 2\<rparr>, kbd_out = []\<rparr>"

lemma sample_kbd_ok: "kbd_ok sample_kbd"
  using sample_off sample_waiter sample_ioq_wf(1) by (simp add: sample_kbd_def kbd_ok_def sample_ioq_def)

theorem keyboard_handler_returns_witness:
  "\<exists>st'. intr_keyboard_handler 0x1e sample_kbd = Inr st' \<and> kbd_ok st' \<and>
     (\<exists>cs. contents (kbd_buf st') = contents (kbd_buf sample_kbd) @ cs \<and> length cs \<le> 1)"
  by (rule keyboard_handler_returns [OF sample_kbd_ok])

text \<open>The make codes of the 26 letter keys and the lower-case letters on them.\<close>

definition letter_keys :: "(u8 \<times> u8) list" where
  "letter_keys =
     [(0x10, 113), (0x11, 119), (0x12, 101), (0x13, 114), (0x14, 116), (0x15, 121), (0x16, 117), (0x17, 105),
      (0x18, 111), (0x19, 112), (0x1e, 97), (0x1f, 115), (0x20, 100), (0x21, 102), (0x22, 103), (0x23, 104),
      (0x24, 106), (0x25, 107), (0x26, 108), (0x2c, 122), (0x2d, 120), (0x2e, 99), (0x2f, 118), (0x30, 98),
      (0x31, 110), (0x32, 109)]"

lemma letter_keys_keymap:
  "\<forall>(k, c) \<in> set letter_keys. (ucast k :: u16) > 0 \<and> (ucast k :: u16) < 0x3b \<and> k \<noteq> 0xe0 \<and>
     (ucast k :: u16) AND 0x80 = 0 \<and> \<not> two_char_key (ucast k) \<and> c \<noteq> 0 \<and> c - 32 \<noteq> 0 \<and>
     keymap ! unat (ucast k :: u16) = (c, c - 32)"
  by (simp add: letter_keys_def keymap_def two_char_key_def)

text \<open>C34: A letter key stores its letter, in upper case exactly when one of shift and caps lock is
  on but not both (without ctrl, and while the buffer has room).\<close>

theorem letter_key_case:
  assumes "kbd_ok st" and "\<not> ext_scancode st" and "\<not> ctrl_status st" and "(k, c) \<in> set letter_keys"
    and "length (contents (kbd_buf st)) < bufsize - 1"
  shows "\<exists>st'. intr_keyboard_handler k st = Inr st' \<and> contents (kbd_buf st') =
     contents (kbd_buf st) @ [if shift_status st \<noteq> caps_lock_status st then c - 32 else c]"
proof -
  have k: "(ucast k :: u16) > 0" "(ucast k :: u16) < 0x3b" "k \<noteq> 0xe0" "(ucast k :: u16) AND 0x80 = 0"
    "\<not> two_char_key (ucast k)" "c \<noteq> 0" "c - 32 \<noteq> 0" "keymap ! unat (ucast k :: u16) = (c, c - 32)"
    using letter_keys_keymap assms(4) by blast+
  let ?ch = "if shift_status st \<noteq> caps_lock_status st then c - 32 else c"
  have fc: "full_code k st = ucast k" using assms(2) by (simp add: full_code_def)
  have st: "st\<lparr>ext_scancode := False\<rparr> = st" using assms(2) by simp
  have sh: "shifted (ucast k) (shift_status st) (caps_lock_status st) = (shift_status st \<noteq> caps_lock_status st)"
    using k(5) by (auto simp: shifted_def)
  have "intr_keyboard_handler k st = key_pressed (ucast k) False (shift_status st) (caps_lock_status st) st"
    unfolding handler_cases fc st using k(1-4) assms(3) by simp
  also have "\<dots> = put_key ?ch st"
    unfolding key_pressed_def low_byte_id [OF k(2)] k(8) sh using k(6,7) by (simp add: Let_def)
  finally have h: "intr_keyboard_handler k st = put_key ?ch st" .
  obtain q t where "put_key ?ch st = Inr (st\<lparr>kbd_buf := q, kbd_ks := t\<rparr>)" "contents q = contents (kbd_buf st) @ [?ch]"
    using put_key_eq [OF assms(1), of ?ch] assms(5) by auto
  with h show ?thesis by (intro exI [of _ "st\<lparr>kbd_buf := q, kbd_ks := t\<rparr>"]) simp
qed

theorem letter_key_case_witness:
  "\<exists>st'. intr_keyboard_handler 0x1e sample_kbd = Inr st' \<and> contents (kbd_buf st') =
     contents (kbd_buf sample_kbd) @ [if shift_status sample_kbd \<noteq> caps_lock_status sample_kbd then 97 - 32 else 97]"
  by (rule letter_key_case [OF sample_kbd_ok])
     (simp_all add: sample_kbd_def letter_keys_def, simp add: sample_ioq_def ioq_length_def bufsize_def)

end
