(* ===== verification/CString.thy ===== *)
theory CString
  imports Prelude
begin

text \<open>
  Byte and string routines: \<^verbatim>\<open>lib/string.c\<close>, and the formatted output of \<^verbatim>\<open>lib/stdio.c\<close>.

  A pointer into an object is the list of bytes from there to the end of the object; a routine
  that runs past the end is \<open>Inl Bad_Access\<close>. Pointers returned into an argument are offsets
  (\<open>None\<close> is \<^verbatim>\<open>NULL\<close>). \<^verbatim>\<open>char\<close> is signed. The assertions on \<^verbatim>\<open>NULL\<close> arguments have no
  counterpart: a list is never \<^verbatim>\<open>NULL\<close>.
\<close>

section \<open>lib/string.c\<close>

fun memset :: "u8 list \<Rightarrow> u8 \<Rightarrow> nat \<Rightarrow> u8 list res" where
  "memset dst value 0 = Inr dst"
| "memset [] value (Suc n) = Inl Bad_Access"
| "memset (d # dst) value (Suc n) = bind_res (memset dst value n) (\<lambda>r. Inr (value # r))"

fun memcpy :: "u8 list \<Rightarrow> u8 list \<Rightarrow> nat \<Rightarrow> u8 list res" where
  "memcpy dst src 0 = Inr dst"
| "memcpy (d # dst) (s # src) (Suc n) = bind_res (memcpy dst src n) (\<lambda>r. Inr (s # r))"
| "memcpy dst src (Suc n) = Inl Bad_Access"

fun memcmp :: "u8 list \<Rightarrow> u8 list \<Rightarrow> nat \<Rightarrow> int res" where
  "memcmp a b 0 = Inr 0"
| "memcmp (x # a) (y # b) (Suc n) =
     (if x \<noteq> y then Inr (if sint x > sint y then 1 else -1) else memcmp a b n)"
| "memcmp a b (Suc n) = Inl Bad_Access"

fun strcpy :: "u8 list \<Rightarrow> u8 list \<Rightarrow> u8 list res" where
  "strcpy (d # dst) (s # src) =
     (if s = 0 then Inr (0 # dst) else bind_res (strcpy dst src) (\<lambda>r. Inr (s # r)))"
| "strcpy dst src = Inl Bad_Access"

fun strlen :: "u8 list \<Rightarrow> nat res" where
  "strlen [] = Inl Bad_Access"
| "strlen (c # str) = (if c = 0 then Inr 0 else bind_res (strlen str) (\<lambda>n. Inr (n + 1)))"

fun strcmp :: "u8 list \<Rightarrow> u8 list \<Rightarrow> int res" where
  "strcmp (x # a) (y # b) =
     (if x \<noteq> 0 \<and> x = y then strcmp a b
      else Inr (if sint x < sint y then -1 else if sint x > sint y then 1 else 0))"
| "strcmp a b = Inl Bad_Access"

text \<open>\<open>char\<close> values are compared with an unsigned \<open>ch\<close>: a byte of the upper half never matches.\<close>

fun strchr :: "u8 list \<Rightarrow> u8 \<Rightarrow> nat option res" where
  "strchr [] ch = Inl Bad_Access"
| "strchr (c # str) ch =
     (if c = 0 then Inr None
      else if sint c = int (unat ch) then Inr (Some 0)
      else bind_res (strchr str ch) (\<lambda>r. Inr (map_option Suc r)))"

fun strrchr_loop :: "u8 list \<Rightarrow> u8 \<Rightarrow> nat \<Rightarrow> nat option \<Rightarrow> nat option res" where
  "strrchr_loop [] ch i last_char = Inl Bad_Access"
| "strrchr_loop (c # str) ch i last_char =
     (if c = 0 then Inr last_char
      else strrchr_loop str ch (i + 1) (if int (unat ch) = sint c then Some i else last_char))"

definition strrchr :: "u8 list \<Rightarrow> u8 \<Rightarrow> nat option res" where
  "strrchr str ch = strrchr_loop str ch 0 None"

fun strcat :: "u8 list \<Rightarrow> u8 list \<Rightarrow> u8 list res" where
  "strcat [] src = Inl Bad_Access"
| "strcat (d # dst) src =
     (if d = 0 then strcpy (d # dst) src else bind_res (strcat dst src) (\<lambda>r. Inr (d # r)))"

fun strchrs :: "u8 list \<Rightarrow> u8 \<Rightarrow> nat res" where
  "strchrs [] ch = Inl Bad_Access"
| "strchrs (c # p) ch =
     (if c = 0 then Inr 0
      else bind_res (strchrs p ch) (\<lambda>n. Inr (if sint c = int (unat ch) then n + 1 else n)))"

text \<open>The bytes of a string literal, without the terminator.\<close>

definition bytes_of :: "string \<Rightarrow> u8 list" where
  "bytes_of = map of_char"

section \<open>lib/stdio.c\<close>

text \<open>\<^verbatim>\<open>itoa\<close> appends the digits of a number; the buffer behind \<open>buf_ptr\<close> is the list produced.
  The base is 10 or 16 at every call (base 1 would never end); the recursion is cut for other
  values.\<close>

function itoa :: "u32 \<Rightarrow> nat \<Rightarrow> u8 list" where
  "itoa value base =
     (let m = value mod of_nat base;
          i = value div of_nat base;
          digit = (if m < 10 then ucast m + 48 else ucast m - 10 + 65)
      in (if i \<noteq> 0 \<and> 1 < base \<and> base < 256 then itoa i base else []) @ [digit])"
  by auto
termination
proof (relation "measure (\<lambda>(v, b). unat v)", goal_cases)
  case (2 v base m i digit)
  then have b: "unat (of_nat base :: u32) = base" by simp
  have "unat i = unat v div base" using 2 b by (simp add: unat_div_distrib)
  moreover from this have "0 < unat v div base" using 2 unsigned_eq_0_iff [of i] by fastforce
  moreover from this have "0 < unat v" by (cases "unat v") simp_all
  ultimately show ?case using 2 by simp
qed simp

declare itoa.simps [simp del]

datatype vararg = Arg_Str "u8 list" | Arg_Char u8 | Arg_Int u32

text \<open>
  One step of \<^verbatim>\<open>vsprintf\<close> per format character; the output is the list of bytes stored (no
  terminator is stored behind the last one unless a \<^verbatim>\<open>strcpy\<close> left one). A missing or
  mistyped argument is \<open>Bad_Access\<close>.
\<close>

fun vsprintf :: "u8 list \<Rightarrow> vararg list \<Rightarrow> u8 list res" where
  "vsprintf [] ap = Inl Bad_Access"
| "vsprintf (index_char # index_ptr) ap =
     (if index_char = 0 then Inr []
      else if index_char \<noteq> 37 then bind_res (vsprintf index_ptr ap) (\<lambda>r. Inr (index_char # r))
      else
        (case index_ptr of
           [] \<Rightarrow> Inl Bad_Access
         | index_char # rest \<Rightarrow>
             if index_char = 115 then
               (case ap of Arg_Str arg_str # ap \<Rightarrow>
                  bind_res (strlen arg_str) (\<lambda>n. bind_res (vsprintf rest ap) (\<lambda>r. Inr (take n arg_str @ r)))
                | _ \<Rightarrow> Inl Bad_Access)
             else if index_char = 99 then
               (case ap of Arg_Char c # ap \<Rightarrow> bind_res (vsprintf rest ap) (\<lambda>r. Inr (c # r))
                | _ \<Rightarrow> Inl Bad_Access)
             else if index_char = 100 then
               (case ap of Arg_Int arg_int # ap \<Rightarrow>
                  bind_res (vsprintf rest ap) (\<lambda>r.
                  Inr ((if sint arg_int < 0 then 45 # itoa (0 - arg_int) 10 else itoa arg_int 10) @ r))
                | _ \<Rightarrow> Inl Bad_Access)
             else if index_char = 120 then
               (case ap of Arg_Int arg_int # ap \<Rightarrow>
                  bind_res (vsprintf rest ap) (\<lambda>r. Inr (itoa arg_int 16 @ r))
                | _ \<Rightarrow> Inl Bad_Access)
             else vsprintf (index_char # rest) ap))"

section \<open>Strings\<close>

text \<open>\<open>cstr w r\<close>: the string \<open>w\<close>, its terminator and the bytes behind it.\<close>

abbreviation cstr :: "u8 list \<Rightarrow> u8 list \<Rightarrow> u8 list" where
  "cstr w r \<equiv> w @ 0 # r"

lemma memset_eq: "n \<le> length dst \<Longrightarrow> memset dst v n = Inr (replicate n v @ drop n dst)"
  by (induction dst v n rule: memset.induct) auto

lemma memcpy_eq: "n \<le> length dst \<Longrightarrow> n \<le> length src \<Longrightarrow> memcpy dst src n = Inr (take n src @ drop n dst)"
  by (induction dst src n rule: memcpy.induct) auto

lemma memcmp_zero: "n \<le> length a \<Longrightarrow> n \<le> length b \<Longrightarrow> \<exists>r. memcmp a b n = Inr r \<and> (r = 0 \<longleftrightarrow> take n a = take n b)"
  by (induction a b n rule: memcmp.induct) auto

lemma strlen_cstr [simp]: "0 \<notin> set w \<Longrightarrow> strlen (cstr w r) = Inr (length w)"
  by (induction w) auto

lemma strcpy_cstr: "0 \<notin> set w \<Longrightarrow> length w < length dst \<Longrightarrow>
    strcpy dst (cstr w r) = Inr (cstr w (drop (Suc (length w)) dst))"
proof (induction w arbitrary: dst)
  case Nil
  then show ?case by (cases dst) auto
next
  case (Cons c w)
  then show ?case by (cases dst) auto
qed

lemma strcat_cstr: "0 \<notin> set v \<Longrightarrow> 0 \<notin> set w \<Longrightarrow> length w < Suc (length d) \<Longrightarrow>
    strcat (cstr v d) (cstr w r) = Inr (cstr (v @ w) (drop (length w) d))"
  by (induction v) (auto simp: strcpy_cstr)

lemma sint_u8_inj: "sint (x :: u8) = sint y \<longleftrightarrow> x = y"
  using signed_word_eqI by blast

lemma strcmp_cstr: "0 \<notin> set v \<Longrightarrow> 0 \<notin> set w \<Longrightarrow>
    \<exists>r. strcmp (cstr v p) (cstr w q) = Inr r \<and> (r = 0 \<longleftrightarrow> v = w)"
proof (induction v arbitrary: w)
  case Nil
  then show ?case by (cases w) (auto simp: sint_u8_inj [of _ 0, simplified] sint_u8_inj [of 0, simplified])
next
  case (Cons c v)
  show ?case
  proof (cases w)
    case Nil
    then show ?thesis using Cons.prems sint_u8_inj [of c 0] by auto
  next
    case (Cons d w')
    then show ?thesis using Cons.IH [of w'] Cons.prems \<open>0 \<notin> set w\<close> sint_u8_inj [of c d] by auto
  qed
qed

section \<open>Numbers\<close>

definition digit_val :: "u8 \<Rightarrow> nat" where
  "digit_val c = (if unat c < 58 then unat c - 48 else unat c - 55)"

definition digits_val :: "nat \<Rightarrow> u8 list \<Rightarrow> nat" where
  "digits_val base ds = foldl (\<lambda>n c. n * base + digit_val c) 0 ds"

lemma digits_val_snoc [simp]: "digits_val b (ds @ [c]) = digits_val b ds * b + digit_val c"
  by (simp add: digits_val_def)

lemma digit_val_of:
  fixes m :: u32
  assumes "unat m < 16"
  shows "digit_val (if m < 10 then ucast m + 48 else ucast m - 10 + 65) = unat m"
proof -
  have u: "unat (ucast m :: u8) = unat m" using assms by (simp add: unsigned_ucast_eq take_bit_nat_eq_self)
  show ?thesis
  proof (cases "m < 10")
    case True
    then have "unat m < 10" by (simp add: word_less_nat_alt)
    then have "unat (ucast m + 48 :: u8) = unat m + 48" using u by (simp add: unat_word_ariths)
    then show ?thesis using True \<open>unat m < 10\<close> by (simp add: digit_val_def)
  next
    case False
    then have ge: "10 \<le> unat m" by (simp add: word_less_nat_alt)
    have "ucast m - 10 + 65 = (ucast m + 55 :: u8)" by simp
    moreover have "unat (ucast m + 55 :: u8) = unat m + 55" using u assms by (simp add: unat_word_ariths)
    ultimately show ?thesis using False ge by (simp add: digit_val_def add.commute)
  qed
qed

lemma itoa_val:
  assumes "1 < base" and "base \<le> 16"
  shows "digits_val base (itoa v base) = unat v"
  using assms
proof (induction v base rule: itoa.induct)
  case (1 v base)
  let ?m = "v mod of_nat base" and ?i = "v div of_nat base"
  have b: "unat (of_nat base :: u32) = base" using 1 by simp
  have m: "unat ?m = unat v mod base" and i: "unat ?i = unat v div base"
    using b by (simp_all add: unat_mod_distrib unat_div_distrib)
  have dm: "digit_val (if ?m < 10 then ucast ?m + 48 else ucast ?m - 10 + 65) = unat v mod base"
  proof -
    have "unat v mod base < base" using 1 by simp
    then have "unat ?m < 16" using m 1 by linarith
    from digit_val_of [OF this] show ?thesis using m by simp
  qed
  show ?case
  proof (cases "?i = 0")
    case True
    then have "unat v div base = 0" using i by simp
    then have "unat v mod base = unat v" using div_mult_mod_eq [of "unat v" base] by simp
    then show ?thesis using True dm by (subst itoa.simps) (simp add: digits_val_def Let_def)
  next
    case False
    then have "digits_val base (itoa ?i base) = unat v div base"
      using 1 i by simp
    then show ?thesis using False dm 1 by (subst itoa.simps) (simp add: Let_def)
  qed
qed

section \<open>Properties\<close>

text \<open>C38: The digits \<^verbatim>\<open>itoa\<close> writes denote the number again, in base 10 and in base 16, for every
  32-bit value.\<close>

theorem itoa_round_trip: "digits_val 10 (itoa v 10) = unat v \<and> digits_val 16 (itoa v 16) = unat v"
  by (simp add: itoa_val)

text \<open>The string routines on terminated strings: \<^verbatim>\<open>strlen\<close> counts up to the terminator,
  \<^verbatim>\<open>strcmp\<close> is zero exactly for equal strings, \<^verbatim>\<open>strcpy\<close> and \<^verbatim>\<open>strcat\<close> leave the terminated
  copy or concatenation and the rest of the destination as it was, whenever it fits.\<close>

theorem string_routines:
  assumes "0 \<notin> set v" and "0 \<notin> set w"
  shows "strlen (cstr v p) = Inr (length v) \<and>
     (strcmp (cstr v p) (cstr w q) = Inr 0 \<longleftrightarrow> v = w) \<and>
     (length w < length d \<longrightarrow> strcpy d (cstr w q) = Inr (cstr w (drop (Suc (length w)) d))) \<and>
     (length w \<le> length p \<longrightarrow> strcat (cstr v p) (cstr w q) = Inr (cstr (v @ w) (drop (length w) p)))"
  using assms strcmp_cstr [OF assms, of p q] by (auto simp: strcpy_cstr strcat_cstr)

theorem string_routines_witness:
  "strlen (cstr [97, 98] [0]) = Inr (length [97, 98 :: u8]) \<and>
     (strcmp (cstr [97, 98] [0]) (cstr [99] []) = Inr 0 \<longleftrightarrow> [97, 98] = [99 :: u8]) \<and>
     strcpy [1, 2, 3] (cstr [99] []) = Inr (cstr [99] (drop (Suc (length [99 :: u8])) [1, 2, 3])) \<and>
     strcat (cstr [97, 98] [0]) (cstr [99] []) = Inr (cstr ([97, 98] @ [99]) (drop (length [99 :: u8]) [0]))"
proof -
  have "0 \<notin> set [97, 98 :: u8]" "0 \<notin> set [99 :: u8]" by simp_all
  from string_routines [OF this, of "[0]" "[]" "[1, 2, 3]" ] show ?thesis by simp
qed

end
