(* ===== verification/Ide.thy ===== *)
theory Ide
  imports CString
begin

text \<open>
  The disk driver: \<^verbatim>\<open>device/ide.c\<close>, with the drives it programs. A channel (\<open>ide\<close>) has the driver's
  state (\<^verbatim>\<open>expecting_intr\<close>, the value of the semaphore \<^verbatim>\<open>disk_done\<close>, the lock as a flag), the task file
  registers, and the drive behind them.

  The drive follows the PIO protocols of the ATA standard. A command makes it busy; then it has a
  sector ready (reading, identification; with an interrupt) or wants one (writing; without). After
  every sector but the last of a read it is busy again and raises an interrupt when it is done. How
  long it is busy is not known: \<open>hd_prep\<close> and \<open>hd_xfer\<close> give the time of each operation, in the 10 ms
  that \<^verbatim>\<open>busy_wait\<close> sleeps. What the standard leaves undefined (a command or a data transfer while the
  drive is busy or has no data request) is \<open>Inl Bad_Access\<close>. The drive takes command, sector number and
  count from its registers, in LBA mode.

  A read or write is one run of the task that holds the channel: the interrupt of the drive runs
  \<^verbatim>\<open>intr_hd_handler\<close> when the time of the operation is over, in \<^verbatim>\<open>mtime_sleep\<close> or while the task sleeps in
  \<^verbatim>\<open>sema_down\<close>. \<open>Inl Blocks\<close> is a sleep nobody ends; a held channel lock is \<open>Inl Blocks\<close> too. The last
  section gives the contract the file system relies on (locale \<open>sector_disk\<close>) and shows that the driver
  keeps it.
\<close>

section \<open>Registers\<close>

definition BIT_STAT_BSY :: u8 where [layout_simps]: "BIT_STAT_BSY = 0x80"
definition BIT_STAT_DRDY :: u8 where [layout_simps]: "BIT_STAT_DRDY = 0x40"
definition BIT_STAT_DRQ :: u8 where [layout_simps]: "BIT_STAT_DRQ = 0x8"
definition BIT_DEV_MBS :: u8 where [layout_simps]: "BIT_DEV_MBS = 0xa0"
definition BIT_DEV_LBA :: u8 where [layout_simps]: "BIT_DEV_LBA = 0x40"
definition BIT_DEV_DEV :: u8 where [layout_simps]: "BIT_DEV_DEV = 0x10"
definition CMD_IDENTIFY :: u8 where [layout_simps]: "CMD_IDENTIFY = 0xec"
definition CMD_READ_SECTOR :: u8 where [layout_simps]: "CMD_READ_SECTOR = 0x20"
definition CMD_WRITE_SECTOR :: u8 where [layout_simps]: "CMD_WRITE_SECTOR = 0x30"
definition max_lba :: u32 where [layout_simps]: "max_lba = 163839"

datatype hd_phase = HD_Idle | HD_Read | HD_Write | HD_Identify

text \<open>\<open>hd_left\<close> sectors of the command are still to be transferred, the next one is \<open>hd_next\<close>. The drive is
  busy for \<open>hd_busy\<close> more periods and then raises an interrupt if \<open>hd_irq\<close>; \<open>hd_ops\<close> counts its operations.\<close>

record ide =
  r_sect_cnt :: u8
  r_lba_l :: u8
  r_lba_m :: u8
  r_lba_h :: u8
  r_dev :: u8
  expecting_intr :: bool
  done_val :: nat
  ch_locked :: bool
  hd_ph :: hd_phase
  hd_left :: nat
  hd_next :: u32
  hd_busy :: nat
  hd_irq :: bool
  hd_ops :: nat
  hd_prep :: "nat \<Rightarrow> nat"
  hd_xfer :: "nat \<Rightarrow> nat"
  hd_id :: "bool \<Rightarrow> u8 list"
  media :: "bool \<Rightarrow> u32 \<Rightarrow> u8 list"

record ide_disk =
  dev_no :: u8

definition select_disk :: "ide_disk \<Rightarrow> ide \<Rightarrow> ide" where
  "select_disk dk c =
     (let reg_device = BIT_DEV_MBS OR BIT_DEV_LBA;
          reg_device = (if dev_no dk = 1 then reg_device OR BIT_DEV_DEV else reg_device)
      in c\<lparr>r_dev := reg_device\<rparr>)"

definition select_sector :: "ide_disk \<Rightarrow> u32 \<Rightarrow> u8 \<Rightarrow> ide \<Rightarrow> ide res" where
  "select_sector dk lba sec_cnt c =
     bind_res (ASSERT (lba \<le> max_lba) ''lba <= max_lba'') (\<lambda>_.
     Inr (c\<lparr>r_sect_cnt := sec_cnt, r_lba_l := ucast lba, r_lba_m := ucast (drop_bit 8 lba),
            r_lba_h := ucast (drop_bit 16 lba),
            r_dev := BIT_DEV_MBS OR BIT_DEV_LBA OR (if dev_no dk = 1 then BIT_DEV_DEV else 0) OR ucast (drop_bit 24 lba)\<rparr>))"

text \<open>The handler; reading the status register only acknowledges the interrupt.\<close>

definition intr_hd_handler :: "u8 \<Rightarrow> u8 \<Rightarrow> ide \<Rightarrow> ide res" where
  "intr_hd_handler irq_no ch_irq c =
     bind_res (ASSERT (irq_no = 0x2e \<or> irq_no = 0x2f) ''irq_no == 0x2e || irq_no == 0x2f'') (\<lambda>_.
     bind_res (ASSERT (ch_irq = irq_no) ''channel->irq_no == irq_no'') (\<lambda>_.
     if expecting_intr c then Inr (c\<lparr>expecting_intr := False, done_val := done_val c + 1\<rparr>)
     else Inr c))"

section \<open>The drive\<close>

definition drive_lba :: "ide \<Rightarrow> u32" where
  "drive_lba c = ucast (r_lba_l c) OR push_bit 8 (ucast (r_lba_m c)) OR push_bit 16 (ucast (r_lba_h c)) OR
     push_bit 24 (ucast (r_dev c AND 0xf))"

definition drive_cnt :: "ide \<Rightarrow> nat" where
  "drive_cnt c = (if r_sect_cnt c = 0 then 256 else unat (r_sect_cnt c))"

definition drive_slave :: "ide \<Rightarrow> bool" where
  "drive_slave c \<longleftrightarrow> r_dev c AND BIT_DEV_DEV \<noteq> 0"

text \<open>The end of an operation, with its interrupt; \<open>0x2e\<close> is the vector of the first channel.\<close>

definition hd_end :: "ide \<Rightarrow> ide res" where
  "hd_end c =
     (let c' = c\<lparr>hd_busy := 0, hd_irq := False\<rparr> in
      if hd_irq c then intr_hd_handler 0x2e 0x2e c' else Inr c')"

definition hd_start :: "nat \<Rightarrow> bool \<Rightarrow> ide \<Rightarrow> ide res" where
  "hd_start t irq c =
     (let c = c\<lparr>hd_busy := t, hd_irq := irq, hd_ops := hd_ops c + 1\<rparr> in if t = 0 then hd_end c else Inr c)"

definition hd_status :: "ide \<Rightarrow> u8" where
  "hd_status c =
     (if hd_busy c \<noteq> 0 then BIT_STAT_BSY
      else BIT_STAT_DRDY OR (if hd_ph c = HD_Idle then 0 else BIT_STAT_DRQ))"

text \<open>A command it does not know is aborted.\<close>

definition hd_command :: "u8 \<Rightarrow> ide \<Rightarrow> ide res" where
  "hd_command cmd c =
     (if hd_busy c \<noteq> 0 \<or> hd_ph c \<noteq> HD_Idle then Inl Bad_Access
      else
        let t = hd_prep c (hd_ops c);
            c' = c\<lparr>hd_left := drive_cnt c, hd_next := drive_lba c\<rparr>
        in if cmd = CMD_READ_SECTOR then hd_start t True (c'\<lparr>hd_ph := HD_Read\<rparr>)
           else if cmd = CMD_WRITE_SECTOR then hd_start t False (c'\<lparr>hd_ph := HD_Write\<rparr>)
           else if cmd = CMD_IDENTIFY then hd_start t True (c\<lparr>hd_left := 1, hd_ph := HD_Identify\<rparr>)
           else hd_start t True c)"

text \<open>One sector read from or written to the data register. The register is 16 bits wide; the drive
  changes its state only between sectors.\<close>

definition hd_get :: "ide \<Rightarrow> (u8 list \<times> ide) res" where
  "hd_get c =
     (if hd_busy c \<noteq> 0 \<or> hd_ph c \<noteq> HD_Read \<and> hd_ph c \<noteq> HD_Identify then Inl Bad_Access
      else
        let bs = (if hd_ph c = HD_Read then media c (drive_slave c) (hd_next c) else hd_id c (drive_slave c));
            c = c\<lparr>hd_left := hd_left c - 1, hd_next := hd_next c + 1\<rparr>
        in if hd_left c = 0 then Inr (bs, c\<lparr>hd_ph := HD_Idle\<rparr>)
           else bind_res (hd_start (hd_xfer c (hd_ops c)) True c) (\<lambda>c. Inr (bs, c)))"

definition hd_put :: "u8 list \<Rightarrow> ide \<Rightarrow> ide res" where
  "hd_put bs c =
     (if hd_busy c \<noteq> 0 \<or> hd_ph c \<noteq> HD_Write then Inl Bad_Access
      else
        let c = c\<lparr>media := (media c)(drive_slave c := (media c (drive_slave c))(hd_next c := bs)),
                  hd_left := hd_left c - 1, hd_next := hd_next c + 1\<rparr>;
            c = (if hd_left c = 0 then c\<lparr>hd_ph := HD_Idle\<rparr> else c)
        in hd_start (hd_xfer c (hd_ops c)) True c)"

primrec insw :: "nat \<Rightarrow> ide \<Rightarrow> (u8 list \<times> ide) res" where
  "insw 0 c = Inr ([], c)"
| "insw (Suc n) c = bind_res (hd_get c) (\<lambda>(bs, c). bind_res (insw n c) (\<lambda>(bs', c). Inr (bs @ bs', c)))"

primrec outsw :: "nat \<Rightarrow> u8 list \<Rightarrow> ide \<Rightarrow> ide res" where
  "outsw 0 buf c = Inr c"
| "outsw (Suc n) buf c = bind_res (hd_put (take 512 buf) c) (outsw n (drop 512 buf))"

section \<open>Commands and transfers\<close>

definition cmd_out :: "u8 \<Rightarrow> ide \<Rightarrow> ide res" where
  "cmd_out cmd c = hd_command cmd (c\<lparr>expecting_intr := True\<rparr>)"

definition size_in_byte :: "u8 \<Rightarrow> nat" where
  "size_in_byte sec_cnt = (if sec_cnt = 0 then 256 * 512 else unat sec_cnt * 512)"

definition read_from_sector :: "u8 \<Rightarrow> ide \<Rightarrow> (u8 list \<times> ide) res" where
  "read_from_sector sec_cnt c = insw (size_in_byte sec_cnt div 512) c"

definition write2sector :: "u8 list \<Rightarrow> u8 \<Rightarrow> ide \<Rightarrow> ide res" where
  "write2sector buf sec_cnt c =
     (if size_in_byte sec_cnt \<le> length buf then outsw (size_in_byte sec_cnt div 512) buf c else Inl Bad_Access)"

section \<open>Waiting\<close>

text \<open>\<^verbatim>\<open>mtime_sleep(10)\<close>: the drive goes on meanwhile.\<close>

definition hd_sleep :: "ide \<Rightarrow> ide res" where
  "hd_sleep c = (if hd_busy c \<le> 1 then hd_end c else Inr (c\<lparr>hd_busy := hd_busy c - 1\<rparr>))"

text \<open>\<^verbatim>\<open>time_limit -= 10 >= 0\<close> subtracts the value of the comparison, which is 1.
  The loop starts at 30000 and leaves at 0; the test of the old value only makes the function
  total.\<close>

function busy_wait_loop :: "u16 \<Rightarrow> ide \<Rightarrow> (bool \<times> ide) res" where
  "busy_wait_loop time_limit c =
     (let time_limit' = time_limit - 1 in
      if time_limit' \<noteq> 0 \<and> time_limit \<noteq> 0 then
        if hd_status c AND BIT_STAT_BSY \<noteq> 0 then bind_res (hd_sleep c) (busy_wait_loop time_limit')
        else Inr (hd_status c AND BIT_STAT_DRQ \<noteq> 0, c)
      else Inr (False, c))"
  by auto
termination
proof (relation "measure (\<lambda>(t, c). unat t)", goal_cases)
  case (2 t c t' c')
  then have "unat t' = unat t - 1" by (simp add: unat_minus_one)
  moreover have "0 < unat t" using 2 by (simp add: unat_gt_0)
  ultimately show ?case by simp
qed simp

definition busy_wait :: "ide \<Rightarrow> (bool \<times> ide) res" where
  "busy_wait c = busy_wait_loop 30000 c"

text \<open>\<^verbatim>\<open>sema_down(&disk_done)\<close>: a task that finds the value 0 sleeps until the drive's interrupt.\<close>

definition disk_done :: "ide \<Rightarrow> ide res" where
  "disk_done c =
     (if done_val c > 0 then Inr (c\<lparr>done_val := done_val c - 1\<rparr>)
      else if hd_irq c then
        bind_res (hd_end c) (\<lambda>c. if done_val c > 0 then Inr (c\<lparr>done_val := done_val c - 1\<rparr>) else Inl Blocks)
      else Inl Blocks)"

section \<open>Reading and writing\<close>

function ide_read_loop :: "ide_disk \<Rightarrow> u32 \<Rightarrow> nat \<Rightarrow> nat \<Rightarrow> u8 list \<Rightarrow> ide \<Rightarrow> (u8 list \<times> ide) res" where
  "ide_read_loop dk lba sec_cnt secs_done buf c =
     (if secs_done < sec_cnt then
        let secs_op = (if secs_done + 256 \<le> sec_cnt then 256 else sec_cnt - secs_done) in
        bind_res (select_sector dk (lba + of_nat secs_done) (of_nat secs_op) c) (\<lambda>c.
        bind_res (cmd_out CMD_READ_SECTOR c) (\<lambda>c.
        bind_res (disk_done c) (\<lambda>c.
        bind_res (busy_wait c) (\<lambda>(ok, c).
        if \<not> ok then Inl (Panic ''read sector failed!!!'')
        else bind_res (read_from_sector (of_nat secs_op) c) (\<lambda>(bs, c).
             ide_read_loop dk lba sec_cnt (secs_done + secs_op) (buf @ bs) c)))))
      else Inr (buf, c))"
  by auto
termination by (relation "measure (\<lambda>(dk, lba, sec_cnt, secs_done, buf, c). sec_cnt - secs_done)") auto

definition ide_read :: "ide_disk \<Rightarrow> u32 \<Rightarrow> nat \<Rightarrow> ide \<Rightarrow> (u8 list \<times> ide) res" where
  "ide_read dk lba sec_cnt c =
     bind_res (ASSERT (lba \<le> max_lba \<and> sec_cnt > 0) ''lba <= max_lba && sec_cnt > 0'') (\<lambda>_.
     if ch_locked c then Inl Blocks
     else bind_res (ide_read_loop dk lba sec_cnt 0 [] (select_disk dk (c\<lparr>ch_locked := True\<rparr>))) (\<lambda>(buf, c).
          Inr (buf, c\<lparr>ch_locked := False\<rparr>)))"

function ide_write_loop :: "ide_disk \<Rightarrow> u32 \<Rightarrow> u8 list \<Rightarrow> nat \<Rightarrow> nat \<Rightarrow> ide \<Rightarrow> ide res" where
  "ide_write_loop dk lba buf sec_cnt secs_done c =
     (if secs_done < sec_cnt then
        let secs_op = (if secs_done + 256 \<le> sec_cnt then 256 else sec_cnt - secs_done) in
        bind_res (select_sector dk (lba + of_nat secs_done) (of_nat secs_op) c) (\<lambda>c.
        bind_res (cmd_out CMD_WRITE_SECTOR c) (\<lambda>c.
        bind_res (busy_wait c) (\<lambda>(ok, c).
        if \<not> ok then Inl (Panic ''write sector failed!!!'')
        else bind_res (write2sector (drop (secs_done * 512) buf) (of_nat secs_op) c) (\<lambda>c.
             bind_res (disk_done c) (\<lambda>c.
             ide_write_loop dk lba buf sec_cnt (secs_done + secs_op) c)))))
      else Inr c)"
  by auto
termination by (relation "measure (\<lambda>(dk, lba, buf, sec_cnt, secs_done, c). sec_cnt - secs_done)") auto

definition ide_write :: "ide_disk \<Rightarrow> u32 \<Rightarrow> u8 list \<Rightarrow> nat \<Rightarrow> ide \<Rightarrow> ide res" where
  "ide_write dk lba buf sec_cnt c =
     bind_res (ASSERT (lba \<le> max_lba \<and> sec_cnt > 0) ''lba <= max_lba && sec_cnt > 0'') (\<lambda>_.
     if ch_locked c then Inl Blocks
     else bind_res (ide_write_loop dk lba buf sec_cnt 0 (select_disk dk (c\<lparr>ch_locked := True\<rparr>))) (\<lambda>c.
          Inr (c\<lparr>ch_locked := False\<rparr>)))"

text \<open>\<^verbatim>\<open>swap_pairs_bytes\<close>: the index is 8 bits wide, the strings are 20 and 40 bytes long.\<close>

fun swap_pairs_bytes :: "u8 list \<Rightarrow> u8 list" where
  "swap_pairs_bytes (a # b # dst) = b # a # swap_pairs_bytes dst"
| "swap_pairs_bytes dst = [0]"

declare busy_wait_loop.simps [simp del]
declare ide_read_loop.simps [simp del]
declare ide_write_loop.simps [simp del]

section \<open>The registers carry the address\<close>

lemma max_lba_bits: "lba \<le> max_lba \<Longrightarrow> bit lba n \<Longrightarrow> n < 18"
  by (rule bit_small_word [of lba 18]) (simp_all add: max_lba_def word_le_nat_alt)

lemma drive_regs [simp]:
  "drive_lba (c\<lparr>expecting_intr := e\<rparr>) = drive_lba c" "drive_cnt (c\<lparr>expecting_intr := e\<rparr>) = drive_cnt c"
  "drive_slave (c\<lparr>expecting_intr := e\<rparr>) = drive_slave c" "drive_slave (c\<lparr>hd_left := l\<rparr>) = drive_slave c"
  "drive_slave (c\<lparr>hd_next := x\<rparr>) = drive_slave c" "drive_slave (c\<lparr>hd_ph := ph\<rparr>) = drive_slave c"
  "drive_slave (c\<lparr>hd_busy := t\<rparr>) = drive_slave c" "drive_slave (c\<lparr>hd_irq := q\<rparr>) = drive_slave c"
  "drive_slave (c\<lparr>hd_ops := o'\<rparr>) = drive_slave c" "drive_slave (c\<lparr>media := m\<rparr>) = drive_slave c"
  "drive_slave (c\<lparr>done_val := v\<rparr>) = drive_slave c"
  by (simp_all add: drive_lba_def drive_cnt_def drive_slave_def)

text \<open>What a driver operation leaves alone.\<close>

definition same_ch :: "ide \<Rightarrow> ide \<Rightarrow> bool" where
  "same_ch c c' \<longleftrightarrow> hd_prep c' = hd_prep c \<and> hd_xfer c' = hd_xfer c \<and> hd_id c' = hd_id c \<and> ch_locked c' = ch_locked c"

text \<open>No command is in progress.\<close>

definition at_rest :: "ide \<Rightarrow> bool" where
  "at_rest c \<longleftrightarrow> done_val c = 0 \<and> hd_ph c = HD_Idle \<and> hd_busy c = 0 \<and> \<not> hd_irq c"

lemma select_sector_lba:
  assumes "lba \<le> max_lba" and "select_sector dk lba n c = Inr c'"
  shows "drive_lba c' = lba" and "drive_slave c' = (dev_no dk = 1)" and "drive_cnt c' = (if n = 0 then 256 else unat n)"
    and "media c' = media c" and "same_ch c c'" and "at_rest c' = at_rest c"
proof -
  have hi: "ucast (drop_bit 24 lba) = (0 :: u8)"
  proof (rule bit_word_eqI)
    fix n show "bit (ucast (drop_bit 24 lba) :: u8) n = bit (0 :: u8) n"
      using max_lba_bits [OF assms(1), of "24 + n"] by (auto simp: bit_simps)
  qed
  have c': "c' = c\<lparr>r_sect_cnt := n, r_lba_l := ucast lba, r_lba_m := ucast (drop_bit 8 lba),
            r_lba_h := ucast (drop_bit 16 lba),
            r_dev := BIT_DEV_MBS OR BIT_DEV_LBA OR (if dev_no dk = 1 then BIT_DEV_DEV else 0) OR 0\<rparr>"
    using assms hi by (simp add: select_sector_def)
  have lo: "(BIT_DEV_MBS OR BIT_DEV_LBA OR (if dev_no dk = 1 then BIT_DEV_DEV else 0) OR 0) AND 0xf = 0"
    by (simp add: BIT_DEV_MBS_def BIT_DEV_LBA_def BIT_DEV_DEV_def)
  have "(ucast (ucast lba :: u8) :: u32) OR push_bit 8 (ucast (ucast (drop_bit 8 lba) :: u8)) OR
      push_bit 16 (ucast (ucast (drop_bit 16 lba) :: u8)) = lba"
  proof (rule bit_word_eqI)
    fix n
    show "bit ((ucast (ucast lba :: u8) :: u32) OR push_bit 8 (ucast (ucast (drop_bit 8 lba) :: u8)) OR
      push_bit 16 (ucast (ucast (drop_bit 16 lba) :: u8))) n = bit lba n"
      using max_lba_bits [OF assms(1), of n] by (cases "n < 16") (auto simp: bit_simps)
  qed
  then show "drive_lba c' = lba" unfolding drive_lba_def c' using lo by simp
  show "drive_slave c' = (dev_no dk = 1)"
    unfolding c' by (simp add: drive_slave_def BIT_DEV_MBS_def BIT_DEV_LBA_def BIT_DEV_DEV_def)
  show "drive_cnt c' = (if n = 0 then 256 else unat n)" "media c' = media c" "same_ch c c'" "at_rest c' = at_rest c"
    unfolding c' by (simp_all add: drive_cnt_def same_ch_def at_rest_def)
qed

section \<open>Waiting for the drive\<close>

lemma hd_end_quiet: "\<not> hd_irq c \<or> \<not> expecting_intr c \<Longrightarrow> hd_end c = Inr (c\<lparr>hd_busy := 0, hd_irq := False\<rparr>)"
  by (auto simp: hd_end_def intr_hd_handler_def Let_def)

lemma hd_end_wakes: "hd_irq c \<Longrightarrow> expecting_intr c \<Longrightarrow>
    hd_end c = Inr (c\<lparr>hd_busy := 0, hd_irq := False, expecting_intr := False, done_val := done_val c + 1\<rparr>)"
  by (simp add: hd_end_def intr_hd_handler_def)

text \<open>An operation that raises an expected interrupt, and the \<^verbatim>\<open>sema_down\<close> that waits for it: whether the
  interrupt comes before or after the task goes to sleep makes no difference.\<close>

lemma start_done:
  assumes "expecting_intr c" and "done_val c = 0"
  shows "bind_res (hd_start t True c) disk_done =
     Inr (c\<lparr>hd_busy := 0, hd_irq := False, hd_ops := hd_ops c + 1, expecting_intr := False\<rparr>)"
proof (cases "t = 0")
  case True
  then show ?thesis using assms by (simp add: hd_start_def hd_end_wakes disk_done_def)
next
  case False
  then show ?thesis using assms by (simp add: hd_start_def hd_end_wakes disk_done_def)
qed

lemma read_started:
  assumes "at_rest c"
  shows "bind_res (cmd_out CMD_READ_SECTOR c) disk_done = Inr (c\<lparr>hd_left := drive_cnt c, hd_next := drive_lba c,
     hd_ph := HD_Read, hd_busy := 0, hd_irq := False, hd_ops := hd_ops c + 1, expecting_intr := False\<rparr>)"
  using assms by (simp add: cmd_out_def hd_command_def at_rest_def start_done Let_def)

lemma busy_wait_ready: "hd_busy c = 0 \<Longrightarrow> hd_ph c \<noteq> HD_Idle \<Longrightarrow> busy_wait c = Inr (True, c)"
  by (simp add: busy_wait_def busy_wait_loop.simps [of 30000] hd_status_def layout_simps)

lemma busy_wait_loop_busy:
  assumes "hd_busy c + 2 \<le> unat t" and "\<not> hd_irq c" and "hd_ph c \<noteq> HD_Idle"
  shows "busy_wait_loop t c = Inr (True, c\<lparr>hd_busy := 0\<rparr>)"
  using assms
proof (induction "hd_busy c" arbitrary: t c)
  case 0
  then have "t \<noteq> 0" by auto
  then have "unat (t - 1) = unat t - 1" by (simp add: unat_minus_one)
  then have "t - 1 \<noteq> 0" using 0 by auto
  with \<open>t \<noteq> 0\<close> show ?case using 0 by (subst busy_wait_loop.simps) (simp add: hd_status_def layout_simps)
next
  case (Suc n)
  let ?c = "c\<lparr>hd_busy := n\<rparr>"
  have t: "t \<noteq> 0" using Suc.prems(1) by auto
  then have u: "unat (t - 1) = unat t - 1" by (simp add: unat_minus_one)
  then have t1: "t - 1 \<noteq> 0" using Suc.prems(1) Suc.hyps(2) by auto
  have i: "c\<lparr>hd_busy := 0, hd_irq := False\<rparr> = c\<lparr>hd_busy := 0\<rparr>" using Suc.prems(2) by simp
  have sl: "hd_sleep c = Inr ?c"
    using Suc.hyps(2) [symmetric] Suc.prems(2) hd_end_quiet [of c] i by (cases n) (auto simp: hd_sleep_def)
  have "busy_wait_loop (t - 1) ?c = Inr (True, ?c\<lparr>hd_busy := 0\<rparr>)"
    using Suc.prems Suc.hyps(2) u by (intro Suc.hyps(1)) auto
  then show ?case
    using t t1 sl Suc.hyps(2) [symmetric] by (subst busy_wait_loop.simps) (simp add: hd_status_def BIT_STAT_BSY_def)
qed

lemma write_started:
  assumes "at_rest c" and "hd_prep c (hd_ops c) < 29999"
  shows "bind_res (cmd_out CMD_WRITE_SECTOR c) busy_wait = Inr (True, c\<lparr>hd_left := drive_cnt c, hd_next := drive_lba c,
     hd_ph := HD_Write, hd_busy := 0, hd_irq := False, hd_ops := hd_ops c + 1, expecting_intr := True\<rparr>)"
proof -
  let ?c = "c\<lparr>hd_left := drive_cnt c, hd_next := drive_lba c, hd_ph := HD_Write, expecting_intr := True,
    hd_busy := hd_prep c (hd_ops c), hd_irq := False, hd_ops := hd_ops c + 1\<rparr>"
  have "cmd_out CMD_WRITE_SECTOR c = Inr ?c"
    using assms(1) by (auto simp: cmd_out_def hd_command_def at_rest_def hd_start_def hd_end_quiet Let_def layout_simps)
  moreover have "busy_wait ?c = Inr (True, ?c\<lparr>hd_busy := 0\<rparr>)"
    unfolding busy_wait_def using assms(2) by (intro busy_wait_loop_busy) simp_all
  ultimately show ?thesis by simp
qed

section \<open>Transfers\<close>

text \<open>One command: at most 256 sectors; the 8-bit count of 256 is 0.\<close>

lemma size_in_byte_op: "0 < n \<Longrightarrow> n \<le> 256 \<Longrightarrow> size_in_byte (of_nat n) = n * 512"
proof -
  assume n: "0 < n" "n \<le> 256"
  show ?thesis
  proof (cases "n = 256")
    case False
    then have "unat (of_nat n :: u8) = n" using n by (simp add: unat_of_nat)
    then show ?thesis using n by (auto simp: size_in_byte_def)
  qed (simp add: size_in_byte_def)
qed

lemma drive_cnt_op: "0 < n \<Longrightarrow> n \<le> 256 \<Longrightarrow> (if (of_nat n :: u8) = 0 then 256 else unat (of_nat n :: u8)) = n"
proof -
  assume n: "0 < n" "n \<le> 256"
  show ?thesis
  proof (cases "n = 256")
    case False
    then have "unat (of_nat n :: u8) = n" using n by (simp add: unat_of_nat)
    then show ?thesis using n by auto
  qed simp
qed

definition sector_of :: "ide_disk \<Rightarrow> ide \<Rightarrow> u32 \<Rightarrow> u8 list" where
  "sector_of dk c = media c (dev_no dk = 1)"

definition sectors :: "(u32 \<Rightarrow> u8 list) \<Rightarrow> u32 \<Rightarrow> nat \<Rightarrow> u8 list" where
  "sectors d lba n = concat (map (\<lambda>k. d (lba + of_nat k)) [0 ..< n])"

definition put_sectors :: "(u32 \<Rightarrow> u8 list) \<Rightarrow> u32 \<Rightarrow> u8 list \<Rightarrow> nat \<Rightarrow> u32 \<Rightarrow> u8 list" where
  "put_sectors d lba buf n = (\<lambda>a. if unat (a - lba) < n then take 512 (drop (512 * unat (a - lba)) buf) else d a)"

definition full_sectors :: "(u32 \<Rightarrow> u8 list) \<Rightarrow> bool" where
  "full_sectors d \<longleftrightarrow> (\<forall>a. length (d a) = 512)"

lemma sectors_add: "sectors d lba (m + n) = sectors d lba m @ sectors d (lba + of_nat m) n"
proof -
  have "map (\<lambda>k. d (lba + of_nat k)) [m ..< m + n] = map (\<lambda>k. d (lba + of_nat m + of_nat k)) [0 ..< n]"
    by (rule nth_equalityI) (simp_all add: add.assoc)
  then show ?thesis unfolding sectors_def upt_add_eq_append [of 0 m n, simplified] by simp
qed

lemma length_sectors: "full_sectors d \<Longrightarrow> length (sectors d lba n) = n * 512"
  by (induction n) (simp_all add: sectors_def full_sectors_def)

lemma sectors_Suc: "sectors d lba (Suc n) = d lba @ sectors d (lba + 1) n"
  using sectors_add [of d lba 1 n] by (simp add: sectors_def)

text \<open>A request the drive serves whatever its speed: a single sector; more sectors only if the drive needs
  no time between them.\<close>

definition serves :: "ide \<Rightarrow> nat \<Rightarrow> bool" where
  "serves c n \<longleftrightarrow> n = 1 \<or> (\<forall>k. hd_xfer c k = 0)"

lemma insw_eq:
  assumes "hd_ph c = HD_Read" and "hd_busy c = 0" and "hd_left c = n" and "0 < n" and "\<not> expecting_intr c" and "done_val c = 0"
    and "\<not> hd_irq c" and "serves c n"
  shows "\<exists>c'. insw n c = Inr (sectors (media c (drive_slave c)) (hd_next c) n, c') \<and> media c' = media c \<and> same_ch c c' \<and> at_rest c'"
  using assms
proof (induction n arbitrary: c)
  case (Suc n)
  show ?case
  proof (cases "n = 0")
    case True
    then show ?thesis
      using Suc.prems by (simp add: hd_get_def sectors_def same_ch_def at_rest_def Let_def)
  next
    case False
    let ?c = "c\<lparr>hd_left := n, hd_next := hd_next c + 1, hd_busy := 0, hd_irq := False, hd_ops := hd_ops c + 1\<rparr>"
    have z: "hd_xfer c k = 0" for k using Suc.prems(8) False by (simp add: serves_def)
    have g: "hd_get c = Inr (media c (drive_slave c) (hd_next c), ?c)"
      using Suc.prems False z by (simp add: hd_get_def hd_start_def hd_end_quiet Let_def)
    have "\<exists>c'. insw n ?c = Inr (sectors (media ?c (drive_slave ?c)) (hd_next ?c) n, c') \<and> media c' = media ?c \<and> same_ch ?c c' \<and> at_rest c'"
      using Suc.prems False z by (intro Suc.IH) (simp_all add: serves_def)
    then show ?thesis using g by (auto simp: sectors_Suc same_ch_def)
  qed
qed simp

lemma lba_step: "unat lba + m \<le> Suc (unat max_lba) \<Longrightarrow> k < m \<Longrightarrow> lba + of_nat k \<le> max_lba"
proof -
  assume a: "unat lba + m \<le> Suc (unat max_lba)" "k < m"
  have "unat max_lba = 163839" by (simp add: max_lba_def)
  then have "unat lba + k \<le> 163839" "k < 4294967296" using a by linarith+
  then show ?thesis using \<open>unat max_lba = 163839\<close> unat_add_small [of lba "of_nat k"] by (simp add: word_le_nat_alt)
qed

lemma put_sectors_sub:
  fixes a lba :: u32
  assumes "unat lba + m + p \<le> 4294967296"
  shows "unat (a - (lba + of_nat m)) < p \<Longrightarrow> unat (a - lba) = m + unat (a - (lba + of_nat m))"
    and "\<not> unat (a - (lba + of_nat m)) < p \<Longrightarrow> unat (a - lba) < m + p \<Longrightarrow> unat (a - lba) < m"
proof -
  show e: "unat (a - lba) = m + unat (a - (lba + of_nat m))" if "unat (a - (lba + of_nat m)) < p"
  proof -
    have "m < 4294967296" using that assms by linarith
    moreover have "a - lba = of_nat m + (a - (lba + of_nat m))" by simp
    moreover have "m + unat (a - (lba + of_nat m)) < 4294967296" using that assms by linarith
    ultimately show ?thesis by (metis unat_add_small unat_of_nat_u32)
  qed
  show "unat (a - lba) < m" if g: "\<not> unat (a - (lba + of_nat m)) < p" "unat (a - lba) < m + p"
  proof (rule ccontr)
    assume "\<not> unat (a - lba) < m"
    then have "unat (a - lba - of_nat m) = unat (a - lba) - m"
      using assms g(2) by (subst unat_sub_small) simp_all
    moreover have "a - lba - of_nat m = a - (lba + of_nat m)" by simp
    ultimately have "unat (a - (lba + of_nat m)) = unat (a - lba) - m" by simp
    then show False using g \<open>\<not> unat (a - lba) < m\<close> by linarith
  qed
qed

lemma put_sectors_add:
  assumes "unat lba + m + p \<le> 4294967296"
  shows "put_sectors (put_sectors d lba buf m) (lba + of_nat m) (drop (512 * m) buf) p = put_sectors d lba buf (m + p)"
proof
  fix a
  note s = put_sectors_sub [OF assms, of a]
  show "put_sectors (put_sectors d lba buf m) (lba + of_nat m) (drop (512 * m) buf) p a = put_sectors d lba buf (m + p) a"
    using s by (auto simp: put_sectors_def add_mult_distrib2 add.commute)
qed

lemma put_one_sector: "put_sectors d lba buf 1 = d(lba := take 512 buf)"
  by (rule ext) (simp add: put_sectors_def unat_eq_0)

lemma outsw_quiet:
  assumes "hd_ph c = HD_Write" and "hd_busy c = 0" and "hd_left c = n" and "0 < n" and "\<not> expecting_intr c" and "\<not> hd_irq c"
    and "\<And>k. hd_xfer c k = 0" and "unat (hd_next c) + n \<le> 4294967296"
  shows "\<exists>c'. outsw n buf c = Inr c' \<and>
     media c' = (media c)(drive_slave c := put_sectors (media c (drive_slave c)) (hd_next c) buf n) \<and>
     same_ch c c' \<and> done_val c' = done_val c \<and> hd_ph c' = HD_Idle \<and> hd_busy c' = 0 \<and> \<not> hd_irq c'"
  using assms
proof (induction n arbitrary: c buf)
  case (Suc n)
  let ?md = "(media c)(drive_slave c := (media c (drive_slave c))(hd_next c := take 512 buf))"
  show ?case
  proof (cases "n = 0")
    case True
    then show ?thesis
      using Suc.prems put_one_sector [of _ "hd_next c" buf]
      by (simp add: hd_put_def hd_start_def hd_end_quiet same_ch_def Let_def fun_upd_def)
  next
    case False
    let ?c = "c\<lparr>media := ?md, hd_left := n, hd_next := hd_next c + 1, hd_busy := 0, hd_irq := False, hd_ops := hd_ops c + 1\<rparr>"
    have g: "hd_put (take 512 buf) c = Inr ?c"
      using Suc.prems False by (simp add: hd_put_def hd_start_def hd_end_quiet Let_def)
    have nx: "unat (hd_next c + 1) = unat (hd_next c) + 1" using Suc.prems(8) False by (subst unat_add_small) simp_all
    have "\<exists>c'. outsw n (drop 512 buf) ?c = Inr c' \<and>
       media c' = (media ?c)(drive_slave ?c := put_sectors (media ?c (drive_slave ?c)) (hd_next ?c) (drop 512 buf) n) \<and>
       same_ch ?c c' \<and> done_val c' = done_val ?c \<and> hd_ph c' = HD_Idle \<and> hd_busy c' = 0 \<and> \<not> hd_irq c'"
      using Suc.prems False nx by (intro Suc.IH) simp_all
    moreover have "put_sectors ((media c (drive_slave c))(hd_next c := take 512 buf)) (hd_next c + 1) (drop 512 buf) n =
        put_sectors (media c (drive_slave c)) (hd_next c) buf (Suc n)"
      using put_sectors_add [of "hd_next c" 1 n "media c (drive_slave c)" buf] Suc.prems(8) by (simp add: put_one_sector [simplified])
    ultimately show ?thesis using g by (auto simp: same_ch_def)
  qed
qed simp

text \<open>The interrupt of the first sector written is the one the driver waits for.\<close>

lemma outsw_done:
  assumes "hd_ph c = HD_Write" and "hd_busy c = 0" and "hd_left c = n" and "0 < n" and "expecting_intr c" and "done_val c = 0"
    and "\<not> hd_irq c" and "serves c n" and "unat (hd_next c) + n \<le> 4294967296"
  shows "\<exists>c1 c'. outsw n buf c = Inr c1 \<and> disk_done c1 = Inr c' \<and>
     media c' = (media c)(drive_slave c := put_sectors (media c (drive_slave c)) (hd_next c) buf n) \<and> same_ch c c' \<and> at_rest c'"
proof (cases "n = 1")
  case True
  let ?c = "c\<lparr>media := (media c)(drive_slave c := (media c (drive_slave c))(hd_next c := take 512 buf)),
    hd_left := 0, hd_next := hd_next c + 1, hd_ph := HD_Idle\<rparr>"
  have p: "hd_put (take 512 buf) c = hd_start (hd_xfer c (hd_ops c)) True ?c" using assms True by (simp add: hd_put_def Let_def)
  obtain c1 where c1: "hd_start (hd_xfer c (hd_ops c)) True ?c = Inr c1"
    using assms by (cases "hd_xfer c (hd_ops c) = 0") (simp_all add: hd_start_def hd_end_wakes)
  have "disk_done c1 = Inr (?c\<lparr>hd_busy := 0, hd_irq := False, hd_ops := hd_ops ?c + 1, expecting_intr := False\<rparr>)"
    using start_done [of ?c "hd_xfer c (hd_ops c)"] c1 assms(5,6) by simp
  then show ?thesis
    using c1 p True put_one_sector [of _ "hd_next c" buf] assms(6) by (simp add: same_ch_def at_rest_def)
next
  case False
  then obtain m where m: "n = Suc m" "0 < m" using assms(4) by (cases n) auto
  have z: "hd_xfer c k = 0" for k using assms(8) False by (simp add: serves_def)
  let ?c = "c\<lparr>media := (media c)(drive_slave c := (media c (drive_slave c))(hd_next c := take 512 buf)), hd_left := m,
    hd_next := hd_next c + 1, hd_busy := 0, hd_irq := False, hd_ops := hd_ops c + 1, expecting_intr := False, done_val := 1\<rparr>"
  have p: "hd_put (take 512 buf) c = Inr ?c"
    using assms m z by (simp add: hd_put_def hd_start_def hd_end_wakes Let_def)
  have nx: "unat (hd_next c + 1) = unat (hd_next c) + 1" using assms(9) m by (subst unat_add_small) simp_all
  have "\<exists>c'. outsw m (drop 512 buf) ?c = Inr c' \<and>
     media c' = (media ?c)(drive_slave ?c := put_sectors (media ?c (drive_slave ?c)) (hd_next ?c) (drop 512 buf) m) \<and>
     same_ch ?c c' \<and> done_val c' = done_val ?c \<and> hd_ph c' = HD_Idle \<and> hd_busy c' = 0 \<and> \<not> hd_irq c'"
    using assms m z nx by (intro outsw_quiet) simp_all
  then obtain c1 where c1: "outsw m (drop 512 buf) ?c = Inr c1"
    "media c1 = (media ?c)(drive_slave ?c := put_sectors (media ?c (drive_slave ?c)) (hd_next ?c) (drop 512 buf) m)"
    "same_ch ?c c1" "done_val c1 = 1" "hd_ph c1 = HD_Idle" "hd_busy c1 = 0" "\<not> hd_irq c1" by auto
  have "put_sectors ((media c (drive_slave c))(hd_next c := take 512 buf)) (hd_next c + 1) (drop 512 buf) m =
      put_sectors (media c (drive_slave c)) (hd_next c) buf n"
    using put_sectors_add [of "hd_next c" 1 m "media c (drive_slave c)" buf] assms(9) m by (simp add: put_one_sector [simplified])
  moreover have "disk_done c1 = Inr (c1\<lparr>done_val := 0\<rparr>)" using c1(4) by (simp add: disk_done_def)
  ultimately show ?thesis
    using p c1 m(1) by (intro exI [of _ c1] exI [of _ "c1\<lparr>done_val := 0\<rparr>"]) (auto simp: same_ch_def at_rest_def)
qed

section \<open>The loops\<close>

text \<open>The drive is idle and answers every command in time.\<close>

definition drive_ok :: "ide \<Rightarrow> bool" where
  "drive_ok c \<longleftrightarrow> at_rest c \<and> (\<forall>k. hd_prep c k < 29999)"

lemma serves_part: "serves c n \<Longrightarrow> 0 < p \<Longrightarrow> p \<le> n \<Longrightarrow> serves c p"
  by (auto simp: serves_def)

lemma same_ch_simps: "same_ch c c' \<Longrightarrow> serves c' n = serves c n" "same_ch c c' \<Longrightarrow> at_rest c' \<Longrightarrow> drive_ok c \<Longrightarrow> drive_ok c'"
  by (auto simp: same_ch_def serves_def drive_ok_def)

lemma same_ch_trans: "same_ch a b \<Longrightarrow> same_ch b c \<Longrightarrow> same_ch a c"
  by (simp add: same_ch_def)

lemma read_command:
  assumes ok: "drive_ok c" "serves c n" and lba: "lba \<le> max_lba" and n: "0 < n" "n \<le> 256"
  shows "\<exists>c1 c2 c3 c4. select_sector dk lba (of_nat n) c = Inr c1 \<and> cmd_out CMD_READ_SECTOR c1 = Inr c2 \<and>
     disk_done c2 = Inr c3 \<and> busy_wait c3 = Inr (True, c3) \<and>
     read_from_sector (of_nat n) c3 = Inr (sectors (sector_of dk c) lba n, c4) \<and> media c4 = media c \<and> same_ch c c4 \<and> drive_ok c4"
proof -
  obtain c1 where c1: "select_sector dk lba (of_nat n) c = Inr c1" using lba by (simp add: select_sector_def)
  note s = select_sector_lba [OF lba c1]
  have r1: "at_rest c1" using s(6) ok(1) by (simp add: drive_ok_def)
  let ?c3 = "c1\<lparr>hd_left := drive_cnt c1, hd_next := drive_lba c1, hd_ph := HD_Read, hd_busy := 0, hd_irq := False,
    hd_ops := hd_ops c1 + 1, expecting_intr := False\<rparr>"
  from read_started [OF r1] obtain c2 where c2: "cmd_out CMD_READ_SECTOR c1 = Inr c2" "disk_done c2 = Inr ?c3"
    by (auto simp: res_simps)
  have bw: "busy_wait ?c3 = Inr (True, ?c3)" by (rule busy_wait_ready) simp_all
  have cn: "drive_cnt c1 = n" using s(3) drive_cnt_op [OF n] by simp
  have sv: "serves ?c3 n" using ok(2) s(5) by (simp add: serves_def same_ch_def)
  have d0: "done_val ?c3 = 0" using r1 by (simp add: at_rest_def)
  from insw_eq [of ?c3 n] cn n(1) sv d0 obtain c4 where
    c4: "insw n ?c3 = Inr (sectors (media ?c3 (drive_slave ?c3)) (hd_next ?c3) n, c4)" "media c4 = media ?c3" "same_ch ?c3 c4" "at_rest c4"
    by auto
  have "read_from_sector (of_nat n) ?c3 = Inr (sectors (sector_of dk c) lba n, c4)"
    using c4(1) s(1,2,4) size_in_byte_op [OF n] by (simp add: read_from_sector_def sector_of_def)
  moreover have sc: "same_ch c c4" using s(5) c4(3) by (simp add: same_ch_def)
  moreover have "drive_ok c4" by (rule same_ch_simps(2) [OF sc c4(4) ok(1)])
  ultimately show ?thesis
    using c1 c2 bw c4(2) s(4) by (intro exI [of _ c1] exI [of _ c2] exI [of _ ?c3] exI [of _ c4]) simp
qed

lemma ide_read_loop_eq:
  assumes "drive_ok c" and "serves c n" and "unat lba + n \<le> Suc (unat max_lba)" and "m \<le> n"
  shows "\<exists>c'. ide_read_loop dk lba n m buf c = Inr (buf @ sectors (sector_of dk c) (lba + of_nat m) (n - m), c') \<and>
     media c' = media c \<and> same_ch c c' \<and> drive_ok c'"
  using assms
proof (induction "n - m" arbitrary: m buf c rule: less_induct)
  case less
  show ?case
  proof (cases "m < n")
    case False
    then show ?thesis using less.prems by (simp add: ide_read_loop.simps [of dk lba n n] sectors_def same_ch_def)
  next
    case True
    define p where "p = (if m + 256 \<le> n then 256 else n - m)"
    have p: "0 < p" "p \<le> 256" "m + p \<le> n" using True by (auto simp: p_def)
    have lb: "lba + of_nat m \<le> max_lba" by (rule lba_step [OF less.prems(3) True])
    have sp: "serves c p" by (rule serves_part [OF less.prems(2) p(1)]) (use p(3) in simp)
    let ?bs = "sectors (sector_of dk c) (lba + of_nat m) p"
    from read_command [OF less.prems(1) sp lb p(1,2)] obtain c1 c2 c3 c4 where
      c: "select_sector dk (lba + of_nat m) (of_nat p) c = Inr c1" "cmd_out CMD_READ_SECTOR c1 = Inr c2" "disk_done c2 = Inr c3"
        "busy_wait c3 = Inr (True, c3)" "read_from_sector (of_nat p) c3 = Inr (?bs, c4)" "media c4 = media c" "same_ch c c4" "drive_ok c4"
      by blast
    have st: "ide_read_loop dk lba n m buf c = ide_read_loop dk lba n (m + p) (buf @ ?bs) c4"
      using True c by (simp add: ide_read_loop.simps [of dk lba n m] p_def [symmetric] Let_def)
    have s4: "sector_of dk c4 = sector_of dk c" using c(6) by (simp add: sector_of_def)
    have lt: "n - (m + p) < n - m" using p True by linarith
    have "serves c4 n" using less.prems(2) same_ch_simps(1) [OF c(7)] by simp
    from less.hyps [OF lt c(8) this less.prems(3) p(3), of "buf @ ?bs", unfolded s4] obtain c' where
      c': "ide_read_loop dk lba n (m + p) (buf @ ?bs) c4 =
          Inr ((buf @ ?bs) @ sectors (sector_of dk c) (lba + of_nat (m + p)) (n - (m + p)), c')"
        "media c' = media c4" "same_ch c4 c'" "drive_ok c'" by blast
    have "?bs @ sectors (sector_of dk c) (lba + of_nat (m + p)) (n - (m + p)) = sectors (sector_of dk c) (lba + of_nat m) (n - m)"
      using sectors_add [of "sector_of dk c" "lba + of_nat m" p "n - (m + p)"] p(3) by (simp add: add.assoc)
    then show ?thesis using st c' c(6) same_ch_trans [OF c(7)] by auto
  qed
qed

lemma write_command:
  assumes ok: "drive_ok c" "serves c n" and lba: "lba \<le> max_lba" and n: "0 < n" "n \<le> 256" and buf: "n * 512 \<le> length buf"
  shows "\<exists>c1 c2 c3 c4 c5. select_sector dk lba (of_nat n) c = Inr c1 \<and> cmd_out CMD_WRITE_SECTOR c1 = Inr c2 \<and>
     busy_wait c2 = Inr (True, c3) \<and> write2sector buf (of_nat n) c3 = Inr c4 \<and> disk_done c4 = Inr c5 \<and>
     media c5 = (media c)(dev_no dk = 1 := put_sectors (sector_of dk c) lba buf n) \<and> same_ch c c5 \<and> drive_ok c5"
proof -
  obtain c1 where c1: "select_sector dk lba (of_nat n) c = Inr c1" using lba by (simp add: select_sector_def)
  note s = select_sector_lba [OF lba c1]
  have r1: "at_rest c1" "hd_prep c1 (hd_ops c1) < 29999" using s(5,6) ok(1) by (simp_all add: drive_ok_def same_ch_def)
  let ?c3 = "c1\<lparr>hd_left := drive_cnt c1, hd_next := drive_lba c1, hd_ph := HD_Write, hd_busy := 0, hd_irq := False,
    hd_ops := hd_ops c1 + 1, expecting_intr := True\<rparr>"
  from write_started [OF r1] obtain c2 where c2: "cmd_out CMD_WRITE_SECTOR c1 = Inr c2" "busy_wait c2 = Inr (True, ?c3)"
    by (auto simp: res_simps)
  have cn: "drive_cnt c1 = n" using s(3) drive_cnt_op [OF n] by simp
  have sv: "serves ?c3 n" using ok(2) s(5) by (simp add: serves_def same_ch_def)
  have d0: "done_val ?c3 = 0" using r1 by (simp add: at_rest_def)
  have nx: "unat (hd_next ?c3) + n \<le> 4294967296" using s(1) lba n(2) by (simp add: word_le_nat_alt max_lba_def)
  from outsw_done [of ?c3 n buf] cn n(1) sv d0 nx obtain c4 c5 where
    c5: "outsw n buf ?c3 = Inr c4" "disk_done c4 = Inr c5"
      "media c5 = (media ?c3)(drive_slave ?c3 := put_sectors (media ?c3 (drive_slave ?c3)) (hd_next ?c3) buf n)" "same_ch ?c3 c5" "at_rest c5"
    by auto
  have "write2sector buf (of_nat n) ?c3 = Inr c4" using c5(1) size_in_byte_op [OF n] buf by (simp add: write2sector_def)
  moreover have "media c5 = (media c)(dev_no dk = 1 := put_sectors (sector_of dk c) lba buf n)"
    using c5(3) s(1,2,4) by (simp add: sector_of_def)
  moreover have sc: "same_ch c c5" using s(5) c5(4) by (simp add: same_ch_def)
  moreover have "drive_ok c5" by (rule same_ch_simps(2) [OF sc c5(5) ok(1)])
  ultimately show ?thesis
    using c1 c2 c5(2) by (intro exI [of _ c1] exI [of _ c2] exI [of _ ?c3] exI [of _ c4] exI [of _ c5]) simp
qed

lemma ide_write_loop_eq:
  assumes "drive_ok c" and "serves c n" and "unat lba + n \<le> Suc (unat max_lba)" and "m \<le> n" and "length buf = n * 512"
    and "sector_of dk c = put_sectors d lba buf m"
  shows "\<exists>c'. ide_write_loop dk lba buf n m c = Inr c' \<and> same_ch c c' \<and> drive_ok c' \<and>
     media c' = (media c)(dev_no dk = 1 := put_sectors d lba buf n)"
  using assms
proof (induction "n - m" arbitrary: m c rule: less_induct)
  case less
  show ?case
  proof (cases "m < n")
    case False
    then have "m = n" using less.prems(4) by simp
    then show ?thesis
      using less.prems(1,6) by (simp add: ide_write_loop.simps [of dk lba buf n n] same_ch_def sector_of_def fun_upd_idem)
  next
    case True
    define p where "p = (if m + 256 \<le> n then 256 else n - m)"
    have p: "0 < p" "p \<le> 256" "m + p \<le> n" using True by (auto simp: p_def)
    have lb: "lba + of_nat m \<le> max_lba" by (rule lba_step [OF less.prems(3) True])
    have bl: "p * 512 \<le> length (drop (m * 512) buf)" using p(3) less.prems(5) by (simp add: diff_mult_distrib [symmetric])
    have sp: "serves c p" by (rule serves_part [OF less.prems(2) p(1)]) (use p(3) in simp)
    from write_command [OF less.prems(1) sp lb p(1,2) bl, of dk] obtain c1 c2 c3 c4 c5 where
      c: "select_sector dk (lba + of_nat m) (of_nat p) c = Inr c1" "cmd_out CMD_WRITE_SECTOR c1 = Inr c2" "busy_wait c2 = Inr (True, c3)"
        "write2sector (drop (m * 512) buf) (of_nat p) c3 = Inr c4" "disk_done c4 = Inr c5"
        "media c5 = (media c)(dev_no dk = 1 := put_sectors (sector_of dk c) (lba + of_nat m) (drop (m * 512) buf) p)"
        "same_ch c c5" "drive_ok c5" by blast
    have st: "ide_write_loop dk lba buf n m c = ide_write_loop dk lba buf n (m + p) c5"
      using True c by (simp add: ide_write_loop.simps [of dk lba buf n m] p_def [symmetric] Let_def)
    have mx: "unat max_lba = 163839" by (simp add: max_lba_def)
    have "unat lba + m + p \<le> 4294967296" using less.prems(3) p(3) mx by linarith
    from put_sectors_add [OF this, of d buf] have s5: "sector_of dk c5 = put_sectors d lba buf (m + p)"
      using c(6) less.prems(6) by (simp add: sector_of_def mult.commute)
    have lt: "n - (m + p) < n - m" using p True by linarith
    have "serves c5 n" using less.prems(2) same_ch_simps(1) [OF c(7)] by simp
    from less.hyps [OF lt c(8) this less.prems(3) p(3) less.prems(5) s5] obtain c' where
      "ide_write_loop dk lba buf n (m + p) c5 = Inr c'" "same_ch c5 c'" "drive_ok c'"
      "media c' = (media c5)(dev_no dk = 1 := put_sectors d lba buf n)" by blast
    then show ?thesis using st c(6) same_ch_trans [OF c(7)] by auto
  qed
qed

section \<open>The contract of a disk\<close>

text \<open>Reading returns the sectors, writing changes exactly the sectors written; both for requests
  that lie on the disk and that it can serve (\<open>can\<close>). The clients are the operations of the file system.\<close>

locale sector_disk =
  fixes ok :: "'s \<Rightarrow> bool"
    and can :: "'s \<Rightarrow> nat \<Rightarrow> bool"
    and content :: "'s \<Rightarrow> u32 \<Rightarrow> u8 list"
    and rd :: "u32 \<Rightarrow> nat \<Rightarrow> 's \<Rightarrow> (u8 list \<times> 's) res"
    and wr :: "u32 \<Rightarrow> u8 list \<Rightarrow> nat \<Rightarrow> 's \<Rightarrow> 's res"
  assumes full: "ok s \<Longrightarrow> full_sectors (content s)"
    and rd_spec: "ok s \<Longrightarrow> can s n \<Longrightarrow> 0 < n \<Longrightarrow> unat lba + n \<le> Suc (unat max_lba) \<Longrightarrow>
      \<exists>s'. rd lba n s = Inr (sectors (content s) lba n, s') \<and> ok s' \<and> can s' = can s \<and> content s' = content s"
    and wr_spec: "ok s \<Longrightarrow> can s n \<Longrightarrow> 0 < n \<Longrightarrow> unat lba + n \<le> Suc (unat max_lba) \<Longrightarrow> length buf = n * 512 \<Longrightarrow>
      \<exists>s'. wr lba buf n s = Inr s' \<and> ok s' \<and> can s' = can s \<and> content s' = put_sectors (content s) lba buf n"
begin

lemma sectors_put:
  assumes "unat lba + n \<le> Suc (unat max_lba)" and "length buf = n * 512"
  shows "sectors (put_sectors d lba buf n) lba n = buf"
proof -
  have mx: "unat max_lba = 163839" by (simp add: max_lba_def)
  have "put_sectors d lba buf n (lba + of_nat k) = take 512 (drop (512 * k) buf)" if "k < n" for k
    using that assms(1) mx by (simp add: put_sectors_def)
  then have "sectors (put_sectors d lba buf n) lba n = concat (map (\<lambda>k. take 512 (drop (512 * k) buf)) [0 ..< n])"
    unfolding sectors_def by (intro arg_cong [where f = concat] map_cong) simp_all
  also have "\<dots> = take (n * 512) buf"
    by (induction n) (simp_all add: take_add [symmetric] add.commute mult.commute)
  finally show ?thesis using assms(2) by simp
qed

lemma read_back:
  assumes "ok s" and "can s n" and "0 < n" and "unat lba + n \<le> Suc (unat max_lba)" and "length buf = n * 512"
    and "wr lba buf n s = Inr s'"
  shows "\<exists>s''. rd lba n s' = Inr (buf, s'') \<and> content s'' = content s'"
proof -
  from wr_spec [OF assms(1-5)] assms(6) have s': "ok s'" "can s' = can s" "content s' = put_sectors (content s) lba buf n" by auto
  from rd_spec [OF s'(1) _ assms(3,4)] assms(2) s'(2) obtain s'' where
    "rd lba n s' = Inr (sectors (content s') lba n, s'')" "content s'' = content s'" by auto
  then show ?thesis unfolding s'(3) sectors_put [OF assms(4,5)] by blast
qed

end

definition ide_ok :: "ide \<Rightarrow> bool" where
  "ide_ok c \<longleftrightarrow> drive_ok c \<and> \<not> ch_locked c \<and> full_sectors (media c False) \<and> full_sectors (media c True)"

lemma full_put: "full_sectors d \<Longrightarrow> length buf = n * 512 \<Longrightarrow> full_sectors (put_sectors d lba buf n)"
  unfolding full_sectors_def put_sectors_def
proof (intro allI)
  fix a
  assume d: "\<forall>a. length (d a) = 512" "length buf = n * 512"
  have k: "512 \<le> n * 512 - 512 * k" if "k < n" for k using that by (simp add: diff_mult_distrib2 [symmetric] mult.commute)
  show "length (if unat (a - lba) < n then take 512 (drop (512 * unat (a - lba)) buf) else d a) = 512"
    using d k [of "unat (a - lba)"] by (cases "unat (a - lba) < n") (simp_all add: min_absorb2)
qed

lemma locked_ok: "drive_ok (select_disk dk (c\<lparr>ch_locked := l\<rparr>)) = drive_ok c" "serves (select_disk dk (c\<lparr>ch_locked := l\<rparr>)) = serves c"
    "media (select_disk dk (c\<lparr>ch_locked := l\<rparr>)) = media c" "drive_ok (c\<lparr>ch_locked := l\<rparr>) = drive_ok c"
  by (auto simp: select_disk_def drive_ok_def at_rest_def serves_def Let_def fun_eq_iff)

lemma ide_read_ok:
  assumes "ide_ok c" and "serves c n" and "0 < n" and "unat lba + n \<le> Suc (unat max_lba)"
  shows "\<exists>c'. ide_read dk lba n c = Inr (sectors (sector_of dk c) lba n, c') \<and> ide_ok c' \<and> serves c' = serves c \<and> media c' = media c"
proof -
  let ?c = "select_disk dk (c\<lparr>ch_locked := True\<rparr>)"
  have r: "drive_ok ?c" "serves ?c n" using assms(1,2) by (simp_all add: locked_ok ide_ok_def)
  from ide_read_loop_eq [OF r assms(4), of 0 dk "[]"] obtain c' where
    c': "ide_read_loop dk lba n 0 [] ?c = Inr (sectors (sector_of dk c) lba n, c')" "media c' = media c" "same_ch ?c c'" "drive_ok c'"
    by (auto simp: sector_of_def locked_ok)
  have "lba \<le> max_lba" using lba_step [OF assms(4,3)] by simp
  then have "ide_read dk lba n c = Inr (sectors (sector_of dk c) lba n, c'\<lparr>ch_locked := False\<rparr>)"
    using assms(1,3) c'(1) by (simp add: ide_read_def ide_ok_def)
  moreover have "serves (c'\<lparr>ch_locked := False\<rparr>) = serves c"
    using c'(3) by (auto simp: serves_def same_ch_def select_disk_def Let_def fun_eq_iff)
  ultimately show ?thesis using assms(1) c'(2,4) by (auto simp: ide_ok_def locked_ok)
qed

lemma ide_write_ok:
  assumes "ide_ok c" and "serves c n" and "0 < n" and "unat lba + n \<le> Suc (unat max_lba)" and "length buf = n * 512"
  shows "\<exists>c'. ide_write dk lba buf n c = Inr c' \<and> ide_ok c' \<and> serves c' = serves c \<and>
     media c' = (media c)(dev_no dk = 1 := put_sectors (sector_of dk c) lba buf n)"
proof -
  let ?c = "select_disk dk (c\<lparr>ch_locked := True\<rparr>)"
  have r: "drive_ok ?c" "serves ?c n" using assms(1,2) by (simp_all add: locked_ok ide_ok_def)
  have s0: "sector_of dk ?c = put_sectors (sector_of dk c) lba buf 0" by (simp add: sector_of_def put_sectors_def locked_ok)
  from ide_write_loop_eq [OF r assms(4) _ assms(5) s0] obtain c' where
    c': "ide_write_loop dk lba buf n 0 ?c = Inr c'" "same_ch ?c c'" "drive_ok c'"
      "media c' = (media c)(dev_no dk = 1 := put_sectors (sector_of dk c) lba buf n)" by (auto simp: locked_ok)
  have "lba \<le> max_lba" using lba_step [OF assms(4,3)] by simp
  then have e: "ide_write dk lba buf n c = Inr (c'\<lparr>ch_locked := False\<rparr>)"
    using assms(1,3) c'(1) by (simp add: ide_write_def ide_ok_def)
  have "full_sectors (put_sectors (sector_of dk c) lba buf n)"
    using assms(1,5) by (intro full_put) (cases "dev_no dk = 1"; simp_all add: ide_ok_def sector_of_def)
  then have "ide_ok (c'\<lparr>ch_locked := False\<rparr>)" using assms(1) c'(3,4) by (auto simp: ide_ok_def locked_ok)
  moreover have "serves (c'\<lparr>ch_locked := False\<rparr>) = serves c"
    using c'(2) by (auto simp: serves_def same_ch_def select_disk_def Let_def fun_eq_iff)
  ultimately show ?thesis using e c'(4) by (intro exI [of _ "c'\<lparr>ch_locked := False\<rparr>"]) simp
qed

interpretation drv: sector_disk ide_ok serves "sector_of dk" "ide_read dk" "ide_write dk" for dk
proof
  show "full_sectors (sector_of dk c)" if "ide_ok c" for c
    using that by (cases "dev_no dk = 1") (simp_all add: ide_ok_def sector_of_def)
  show "\<exists>c'. ide_read dk lba n c = Inr (sectors (sector_of dk c) lba n, c') \<and> ide_ok c' \<and> serves c' = serves c \<and> sector_of dk c' = sector_of dk c"
    if "ide_ok c" "serves c n" "0 < n" "unat lba + n \<le> Suc (unat max_lba)" for c n lba
    using ide_read_ok [OF that, of dk] by (auto simp: sector_of_def)
  show "\<exists>c'. ide_write dk lba buf n c = Inr c' \<and> ide_ok c' \<and> serves c' = serves c \<and> sector_of dk c' = put_sectors (sector_of dk c) lba buf n"
    if "ide_ok c" "serves c n" "0 < n" "unat lba + n \<le> Suc (unat max_lba)" "length buf = n * 512" for c n lba buf
    using ide_write_ok [OF that, of dk] by (auto simp: sector_of_def)
qed

text \<open>The driver transfers all sectors of a command after one look at the status register. A drive that
  needs time between two sectors is accessed while it is busy.\<close>

lemma ide_read_busy:
  assumes "ide_ok c" and "\<And>k. hd_xfer c k \<noteq> 0" and "2 \<le> n" and "unat lba + n \<le> Suc (unat max_lba)"
  shows "ide_read dk lba n c = Inl Bad_Access"
proof -
  let ?c = "select_disk dk (c\<lparr>ch_locked := True\<rparr>)"
  define p where "p = (if 0 + 256 \<le> n then 256 else n - 0)"
  have p: "0 < p" "p \<le> 256" "2 \<le> p" using assms(3) by (auto simp: p_def)
  have "0 < n" using assms(3) by simp
  from lba_step [OF assms(4) this] have lb: "lba \<le> max_lba" by simp
  obtain c1 where c1: "select_sector dk lba (of_nat p) ?c = Inr c1" using lb by (simp add: select_sector_def)
  note s = select_sector_lba [OF lb c1]
  have r1: "at_rest c1" using s(6) assms(1) by (simp add: ide_ok_def drive_ok_def [symmetric]) (simp add: drive_ok_def at_rest_def select_disk_def Let_def)
  let ?c3 = "c1\<lparr>hd_left := drive_cnt c1, hd_next := drive_lba c1, hd_ph := HD_Read, hd_busy := 0, hd_irq := False,
    hd_ops := hd_ops c1 + 1, expecting_intr := False\<rparr>"
  from read_started [OF r1] obtain c2 where c2: "cmd_out CMD_READ_SECTOR c1 = Inr c2" "disk_done c2 = Inr ?c3"
    by (auto simp: res_simps)
  have bw: "busy_wait ?c3 = Inr (True, ?c3)" by (rule busy_wait_ready) simp_all
  have cn: "drive_cnt c1 = p" using s(3) drive_cnt_op [OF p(1,2)] by simp
  have x: "hd_xfer c1 k \<noteq> 0" for k using assms(2) s(5) by (simp add: same_ch_def select_disk_def Let_def)
  obtain q where q: "p = Suc (Suc q)" using p(3) by (metis Suc_le_D numeral_2_eq_2 Suc_le_mono)
  have "insw p ?c3 = Inl Bad_Access"
    using x [of "Suc (hd_ops c1)"] cn unfolding q by (simp add: hd_get_def hd_start_def Let_def)
  then have "read_from_sector (of_nat p) ?c3 = Inl Bad_Access" using size_in_byte_op [OF p(1,2)] by (simp add: read_from_sector_def)
  then have "ide_read_loop dk lba n 0 [] ?c = Inl Bad_Access"
    unfolding ide_read_loop.simps [of dk lba n 0] Let_def p_def [symmetric] using \<open>0 < n\<close> c1 c2 bw by simp
  then show ?thesis using assms(1,3) lb by (simp add: ide_read_def ide_ok_def)
qed

section \<open>Properties\<close>

text \<open>C14: The disk driver: from a free channel whose drive is idle, a write of sectors that lie on the disk
  changes exactly these sectors of the selected drive, and a read of them then returns what was written;
  the other drive is untouched. For a single sector the drive may take any time after each step (below
  the 29999 polls of \<^verbatim>\<open>busy_wait\<close> for the data request). For more sectors, sent in commands of at most 256, the
  drive must need no time between the sectors of a command: the driver does not wait there.\<close>

theorem ide_write_then_read:
  assumes "ide_ok c" and "serves c n" and "0 < n" and "unat lba + n \<le> Suc (unat max_lba)" and "length buf = n * 512"
  shows "\<exists>c' c''. ide_write dk lba buf n c = Inr c' \<and> sector_of dk c' = put_sectors (sector_of dk c) lba buf n \<and>
     media c' (dev_no dk \<noteq> 1) = media c (dev_no dk \<noteq> 1) \<and> ide_read dk lba n c' = Inr (buf, c'') \<and> sector_of dk c'' = sector_of dk c'"
proof -
  from ide_write_ok [OF assms, of dk] obtain c' where
    c': "ide_write dk lba buf n c = Inr c'" "media c' = (media c)(dev_no dk = 1 := put_sectors (sector_of dk c) lba buf n)"
    by blast
  with drv.read_back [OF assms c'(1)] show ?thesis by (auto simp: sector_of_def)
qed

definition sample_ide :: ide where
  "sample_ide = \<lparr>r_sect_cnt = 0, r_lba_l = 0, r_lba_m = 0, r_lba_h = 0, r_dev = 0, expecting_intr = False, done_val = 0,
     ch_locked = False, hd_ph = HD_Idle, hd_left = 0, hd_next = 0, hd_busy = 0, hd_irq = False, hd_ops = 0,
     hd_prep = (\<lambda>k. k mod 4), hd_xfer = (\<lambda>_. 0), hd_id = (\<lambda>_. replicate 512 0), media = (\<lambda>_ _. replicate 512 0)\<rparr>"

theorem ide_write_then_read_witness:
  "\<exists>c' c''. ide_write \<lparr>dev_no = 1\<rparr> 0x1234 (replicate 153600 7) 300 sample_ide = Inr c' \<and>
     sector_of \<lparr>dev_no = 1\<rparr> c' = put_sectors (sector_of \<lparr>dev_no = 1\<rparr> sample_ide) 0x1234 (replicate 153600 7) 300 \<and>
     media c' (dev_no \<lparr>dev_no = 1\<rparr> \<noteq> 1) = media sample_ide (dev_no \<lparr>dev_no = 1\<rparr> \<noteq> 1) \<and>
     ide_read \<lparr>dev_no = 1\<rparr> 0x1234 300 c' = Inr (replicate 153600 7, c'') \<and> sector_of \<lparr>dev_no = 1\<rparr> c'' = sector_of \<lparr>dev_no = 1\<rparr> c'"
proof (rule ide_write_then_read)
  have "k mod 4 < 29999" for k :: nat by (rule less_trans [OF mod_less_divisor]) simp_all
  then show "ide_ok sample_ide" by (simp add: ide_ok_def sample_ide_def drive_ok_def at_rest_def full_sectors_def)
qed (simp_all add: sample_ide_def serves_def max_lba_def)

end
