(* ===== verification/FsLayout.thy ===== *)
theory FsLayout
  imports Ide Bitmap Pipe
begin

text \<open>
  The state of the file system and its layout on disk: the structures of \<^verbatim>\<open>fs/inode.h\<close>,
  \<^verbatim>\<open>fs/dir.h\<close>, \<^verbatim>\<open>fs/super_block.h\<close> and \<^verbatim>\<open>struct partition\<close> of \<^verbatim>\<open>device/ide.h\<close>, with the bytes
  they occupy (little endian, \<^verbatim>\<open>bool\<close> is \<^verbatim>\<open>int\<close>), and the buffers of one or two sectors the code
  works in.

  \<open>fsys\<close> is the mounted file system: the sectors of the disk of \<^verbatim>\<open>cur_part\<close>, the partition, the
  i-nodes and directories in memory by address, \<^verbatim>\<open>root_dir\<close>, the file table and running task
  (\<open>io\<close>, from \<open>Pipe\<close>), and \<open>mallocs\<close>, what the next calls of \<^verbatim>\<open>sys_malloc\<close> return (\<open>Memory\<close> shows
  how these addresses come about; 0 or an empty list is \<^verbatim>\<open>NULL\<close>). \<^verbatim>\<open>sys_free\<close> and \<^verbatim>\<open>printk\<close>
  have no counterpart.
\<close>

section \<open>Structures\<close>

record inode =
  i_no :: u32
  i_size :: u32
  i_open_cnts :: u32
  write_deny :: bool
  i_blocks :: "u32 list"

definition sizeof_inode :: nat where [layout_simps]: "sizeof_inode = 76"

definition FT_UNKNOWN :: u32 where [layout_simps]: "FT_UNKNOWN = 0"
definition FT_REGULAR :: u32 where [layout_simps]: "FT_REGULAR = 1"
definition FT_DIRECTORY :: u32 where [layout_simps]: "FT_DIRECTORY = 2"
definition MAX_FILE_NAME_LEN :: nat where [layout_simps]: "MAX_FILE_NAME_LEN = 16"
definition SECTOR_SIZE :: nat where [layout_simps]: "SECTOR_SIZE = 512"
definition MAX_FILES_PER_PART :: u32 where [layout_simps]: "MAX_FILES_PER_PART = 4096"
definition BITS_PER_SECTOR :: u32 where [layout_simps]: "BITS_PER_SECTOR = 4096"
definition MAX_PATH_LEN :: nat where [layout_simps]: "MAX_PATH_LEN = 512"
definition O_WRONLY :: u32 where [layout_simps]: "O_WRONLY = 1"
definition O_RDWR :: u32 where [layout_simps]: "O_RDWR = 2"
definition O_CREAT :: u32 where [layout_simps]: "O_CREAT = 4"

record dir_entry =
  filename :: "u8 list"
  de_no :: u32
  f_type :: u32

definition sizeof_dir_entry :: nat where [layout_simps]: "sizeof_dir_entry = 24"

record dir =
  dir_inode :: ptr
  dir_pos :: u32

record super_block =
  magic :: u32
  sb_sec_cnt :: u32
  inode_cnt :: u32
  part_lba_base :: u32
  block_bitmap_lba :: u32
  block_bitmap_sects :: u32
  inode_bitmap_lba :: u32
  inode_bitmap_sects :: u32
  inode_table_lba :: u32
  inode_table_sects :: u32
  data_start_lba :: u32
  root_inode_no :: u32
  dir_entry_size :: u32

record partition =
  start_lba :: u32
  sec_cnt :: u32
  sb :: super_block
  block_bitmap :: bitmap
  inode_bitmap :: bitmap
  open_inodes :: "ptr list"

record fsys =
  disk :: "u32 \<Rightarrow> u8 list"
  part :: partition
  inodes :: "ptr \<Rightarrow> inode"
  dirs :: "ptr \<Rightarrow> dir"
  root_dir :: ptr
  io :: pio
  mallocs :: "ptr list"

section \<open>Bytes\<close>

definition enc32 :: "u32 \<Rightarrow> u8 list" where
  "enc32 x = [ucast x, ucast (drop_bit 8 x), ucast (drop_bit 16 x), ucast (drop_bit 24 x)]"

definition rd32 :: "u8 list \<Rightarrow> nat \<Rightarrow> u32" where
  "rd32 bs off = ucast (bs ! off) OR push_bit 8 (ucast (bs ! (off + 1))) OR
     push_bit 16 (ucast (bs ! (off + 2))) OR push_bit 24 (ucast (bs ! (off + 3)))"

text \<open>\<^verbatim>\<open>memcpy(bf + off, bs, length bs)\<close>.\<close>

definition put_at :: "u8 list \<Rightarrow> nat \<Rightarrow> u8 list \<Rightarrow> u8 list res" where
  "put_at bf off bs = bind_res (memcpy (drop off bf) bs (length bs)) (\<lambda>r. Inr (take off bf @ r))"

definition enc_words :: "u32 list \<Rightarrow> u8 list" where
  "enc_words ws = concat (map enc32 ws)"

definition dec_words :: "u8 list \<Rightarrow> nat \<Rightarrow> nat \<Rightarrow> u32 list" where
  "dec_words bs off n = map (\<lambda>k. rd32 bs (off + 4 * k)) [0 ..< n]"

definition enc_inode :: "inode \<Rightarrow> u8 list" where
  "enc_inode i = enc_words ([i_no i, i_size i, i_open_cnts i, if write_deny i then 1 else 0] @ i_blocks i @ [0, 0])"

definition dec_inode :: "u8 list \<Rightarrow> nat \<Rightarrow> inode" where
  "dec_inode bs off = \<lparr>i_no = rd32 bs off, i_size = rd32 bs (off + 4), i_open_cnts = rd32 bs (off + 8),
     write_deny = (rd32 bs (off + 12) \<noteq> 0), i_blocks = dec_words bs (off + 16) 13\<rparr>"

definition enc_de :: "dir_entry \<Rightarrow> u8 list" where
  "enc_de d = filename d @ enc32 (de_no d) @ enc32 (f_type d)"

text \<open>Entry \<open>k\<close> of a buffer seen as an array of entries.\<close>

definition dec_de :: "u8 list \<Rightarrow> nat \<Rightarrow> dir_entry" where
  "dec_de bs k = \<lparr>filename = take MAX_FILE_NAME_LEN (drop (k * sizeof_dir_entry) bs),
     de_no = rd32 bs (k * sizeof_dir_entry + 16), f_type = rd32 bs (k * sizeof_dir_entry + 20)\<rparr>"

definition enc_sb :: "super_block \<Rightarrow> u8 list \<Rightarrow> u8 list" where
  "enc_sb b pad = enc_words [magic b, sb_sec_cnt b, inode_cnt b, part_lba_base b, block_bitmap_lba b, block_bitmap_sects b,
     inode_bitmap_lba b, inode_bitmap_sects b, inode_table_lba b, inode_table_sects b, data_start_lba b, root_inode_no b,
     dir_entry_size b] @ pad"

definition dec_sb :: "u8 list \<Rightarrow> super_block" where
  "dec_sb bs = \<lparr>magic = rd32 bs 0, sb_sec_cnt = rd32 bs 4, inode_cnt = rd32 bs 8, part_lba_base = rd32 bs 12,
     block_bitmap_lba = rd32 bs 16, block_bitmap_sects = rd32 bs 20, inode_bitmap_lba = rd32 bs 24,
     inode_bitmap_sects = rd32 bs 28, inode_table_lba = rd32 bs 32, inode_table_sects = rd32 bs 36,
     data_start_lba = rd32 bs 40, root_inode_no = rd32 bs 44, dir_entry_size = rd32 bs 48\<rparr>"

section \<open>Disk and memory\<close>

text \<open>\<^verbatim>\<open>ide_read\<close> and \<^verbatim>\<open>ide_write\<close> as the file system sees them: the assertions of the driver (one per
  command of 256 sectors) and the transfer (\<open>Ide\<close> shows that the driver does this).\<close>

definition lba_ok :: "u32 \<Rightarrow> nat \<Rightarrow> bool" where
  "lba_ok lba n \<longleftrightarrow> 0 < n \<and> list_all (\<lambda>k. lba + of_nat (256 * k) \<le> max_lba) [0 ..< (n + 255) div 256]"

definition disk_read :: "u32 \<Rightarrow> nat \<Rightarrow> fsys \<Rightarrow> u8 list res" where
  "disk_read lba n s = bind_res (ASSERT (lba_ok lba n) ''lba <= max_lba && sec_cnt > 0'') (\<lambda>_. Inr (sectors (disk s) lba n))"

definition disk_write :: "u32 \<Rightarrow> u8 list \<Rightarrow> nat \<Rightarrow> fsys \<Rightarrow> fsys res" where
  "disk_write lba bf n s =
     bind_res (ASSERT (lba_ok lba n) ''lba <= max_lba && sec_cnt > 0'') (\<lambda>_.
     if n * 512 \<le> length bf then Inr (s\<lparr>disk := put_sectors (disk s) lba bf n\<rparr>) else Inl Bad_Access)"

definition fs_malloc :: "fsys \<Rightarrow> ptr \<times> fsys" where
  "fs_malloc s = (case mallocs s of [] \<Rightarrow> (NULL, s) | p # ps \<Rightarrow> (p, s\<lparr>mallocs := ps\<rparr>))"

definition upd_inode :: "ptr \<Rightarrow> (inode \<Rightarrow> inode) \<Rightarrow> fsys \<Rightarrow> fsys" where
  "upd_inode p f s = s\<lparr>inodes := (inodes s)(p := f (inodes s p))\<rparr>"

definition upd_part :: "(partition \<Rightarrow> partition) \<Rightarrow> fsys \<Rightarrow> fsys" where
  "upd_part f s = s\<lparr>part := f (part s)\<rparr>"

definition upd_file :: "nat \<Rightarrow> (kfile \<Rightarrow> kfile) \<Rightarrow> fsys \<Rightarrow> fsys" where
  "upd_file g f s = s\<lparr>io := (io s)\<lparr>file_table := (file_table (io s))[g := f (file_table (io s) ! g)]\<rparr>\<rparr>"

section \<open>Reading back\<close>

lemma length_enc32 [simp]: "length (enc32 x) = 4"
  by (simp add: enc32_def)

lemma length_enc_words [simp]: "length (enc_words ws) = 4 * length ws"
  by (induction ws) (simp_all add: enc_words_def)

lemma enc_words_simps [simp]: "enc_words [] = []" "enc_words (x # xs) = enc32 x @ enc_words xs"
    "enc_words (xs @ ys) = enc_words xs @ enc_words ys"
  by (simp_all add: enc_words_def)

lemma rd32_enc32: "rd32 (xs @ enc32 x @ ys) (length xs) = x"
proof -
  have "rd32 (xs @ enc32 x @ ys) (length xs) = (ucast (ucast x :: u8) :: u32) OR push_bit 8 (ucast (ucast (drop_bit 8 x) :: u8)) OR
      push_bit 16 (ucast (ucast (drop_bit 16 x) :: u8)) OR push_bit 24 (ucast (ucast (drop_bit 24 x) :: u8))"
    by (simp add: rd32_def enc32_def nth_append)
  also have "\<dots> = x"
  proof (rule bit_word_eqI)
    fix n assume "n < LENGTH(32)"
    then consider "n < 8" | "8 \<le> n" "n < 16" | "16 \<le> n" "n < 24" | "24 \<le> n" "n < 32" by fastforce
    then show "bit ((ucast (ucast x :: u8) :: u32) OR push_bit 8 (ucast (ucast (drop_bit 8 x) :: u8)) OR
      push_bit 16 (ucast (ucast (drop_bit 16 x) :: u8)) OR push_bit 24 (ucast (ucast (drop_bit 24 x) :: u8))) n = bit x n"
      by cases (auto simp: bit_simps)
  qed
  finally show ?thesis .
qed

lemma rd32_at: "length xs = off \<Longrightarrow> rd32 (xs @ enc32 x @ ys) off = x"
  using rd32_enc32 by blast

lemma rd32_words:
  assumes "k < length ws" and "length xs = off"
  shows "rd32 (xs @ enc_words ws @ ys) (off + 4 * k) = ws ! k"
proof -
  have "enc_words ws = enc_words (take k ws) @ enc32 (ws ! k) @ enc_words (drop (Suc k) ws)"
    using arg_cong [OF id_take_nth_drop [OF assms(1)], of enc_words] by simp
  then have "xs @ enc_words ws @ ys = (xs @ enc_words (take k ws)) @ enc32 (ws ! k) @ (enc_words (drop (Suc k) ws) @ ys)"
    by simp
  moreover have "length (xs @ enc_words (take k ws)) = off + 4 * k" using assms by simp
  ultimately show ?thesis by (simp only: rd32_at)
qed

lemma dec_words_enc: "length xs = off \<Longrightarrow> dec_words (xs @ enc_words ws @ ys) off (length ws) = ws"
  unfolding dec_words_def by (rule nth_equalityI) (simp_all add: rd32_words del: append_assoc)

lemma length_enc_inode [simp]: "length (i_blocks i) = 13 \<Longrightarrow> length (enc_inode i) = 76"
  by (simp add: enc_inode_def)

lemma length_enc_de [simp]: "length (filename d) = 16 \<Longrightarrow> length (enc_de d) = 24"
  by (simp add: enc_de_def)

lemma dec_inode_enc:
  assumes b: "length (i_blocks i) = 13" and off: "length xs = off"
  shows "dec_inode (xs @ enc_inode i @ ys) off = i"
proof -
  let ?ws = "[i_no i, i_size i, i_open_cnts i, if write_deny i then 1 else 0] @ i_blocks i @ [0, 0]"
  have w: "rd32 (xs @ enc_inode i @ ys) (off + 4 * k) = ?ws ! k" if "k < length ?ws" for k
    unfolding enc_inode_def by (rule rd32_words [OF that off])
  have "dec_words (xs @ enc_inode i @ ys) (off + 16) 13 = i_blocks i"
  proof (rule nth_equalityI)
    show "dec_words (xs @ enc_inode i @ ys) (off + 16) 13 ! k = i_blocks i ! k"
      if "k < length (dec_words (xs @ enc_inode i @ ys) (off + 16) 13)" for k
      using w [of "4 + k"] that b by (simp add: dec_words_def nth_append add.assoc)
  qed (simp add: dec_words_def b)
  then show ?thesis
    using w [of 0] w [of 1] w [of 2] w [of 3] b unfolding dec_inode_def by (cases i) simp
qed

lemma put_at_eq: "off + length bs \<le> length bf \<Longrightarrow> put_at bf off bs = Inr (take off bf @ bs @ drop (off + length bs) bf)"
  unfolding put_at_def by (subst memcpy_eq) (simp_all add: add.commute)

lemma rd32_skip: "length xs = n \<Longrightarrow> rd32 (xs @ ys) (n + off) = rd32 ys off"
proof -
  assume "length xs = n"
  then have "\<And>k. (xs @ ys) ! (n + k) = ys ! k" by (auto simp: nth_append)
  from this [of off] this [of "off + 1"] this [of "off + 2"] this [of "off + 3"]
  show ?thesis by (simp add: rd32_def add.assoc)
qed

lemma dec_de_enc:
  assumes "length (filename d) = 16" and "length xs = k * 24"
  shows "dec_de (xs @ enc_de d @ ys) k = d"
proof -
  have "rd32 (xs @ enc_de d @ ys) (k * 24 + 16) = de_no d"
    unfolding rd32_skip [OF assms(2)] enc_de_def using rd32_at [of "filename d" 16] assms(1) by simp
  moreover have "rd32 (xs @ enc_de d @ ys) (k * 24 + 20) = f_type d"
    unfolding rd32_skip [OF assms(2)] enc_de_def using rd32_at [of "filename d @ enc32 (de_no d)" 20 "f_type d" ys] assms(1) by simp
  ultimately show ?thesis
    using assms by (cases d) (simp add: dec_de_def sizeof_dir_entry_def MAX_FILE_NAME_LEN_def enc_de_def)
qed

lemma dec_sb_enc: "dec_sb (enc_sb b pad) = b"
proof -
  let ?ws = "[magic b, sb_sec_cnt b, inode_cnt b, part_lba_base b, block_bitmap_lba b, block_bitmap_sects b,
     inode_bitmap_lba b, inode_bitmap_sects b, inode_table_lba b, inode_table_sects b, data_start_lba b, root_inode_no b,
     dir_entry_size b]"
  have w: "rd32 (enc_sb b pad) (4 * k) = ?ws ! k" if "k < length ?ws" for k
    using rd32_words [OF that, of "[]" 0 pad] by (simp add: enc_sb_def)
  show ?thesis
    using w [of 0] w [of 1] w [of 2] w [of 3] w [of 4] w [of 5] w [of 6] w [of 7] w [of 8] w [of 9] w [of 10] w [of 11] w [of 12]
    unfolding dec_sb_def by (cases b) simp
qed

section \<open>The disk keeps its contract\<close>

lemma lba_okI: "0 < n \<Longrightarrow> unat lba + n \<le> Suc (unat max_lba) \<Longrightarrow> lba_ok lba n"
proof -
  assume n: "0 < n" "unat lba + n \<le> Suc (unat max_lba)"
  show ?thesis
    unfolding lba_ok_def list_all_iff
  proof (intro conjI ballI)
    fix k assume "k \<in> set [0 ..< (n + 255) div 256]"
    then have "k < (n + 255) div 256" by simp
    then have "(k + 1) * 256 \<le> n + 255" by (simp add: less_eq_div_iff_mult_less_eq Suc_le_eq [symmetric])
    then have "256 * k < n" by simp
    then show "lba + of_nat (256 * k) \<le> max_lba" by (rule lba_step [OF n(2)])
  qed (rule n(1))
qed

interpretation fsd: sector_disk "\<lambda>s. full_sectors (disk s)" "\<lambda>_ _. True" disk
  "\<lambda>lba n s. bind_res (disk_read lba n s) (\<lambda>b. Inr (b, s))" disk_write
  by unfold_locales (auto simp: disk_read_def disk_write_def lba_okI full_put)

lemma disk_read_1: "lba \<le> max_lba \<Longrightarrow> disk_read lba 1 s = Inr (disk s lba)"
  by (simp add: disk_read_def lba_ok_def sectors_def)

lemma put_sectors_1: "length bf = 512 \<Longrightarrow> put_sectors d lba bf 1 = d(lba := bf)"
  by (rule ext) (auto simp: put_sectors_def unat_eq_0)

lemma disk_write_1: "lba \<le> max_lba \<Longrightarrow> length bf = 512 \<Longrightarrow> disk_write lba bf 1 s = Inr (s\<lparr>disk := (disk s)(lba := bf)\<rparr>)"
  by (simp add: disk_write_def lba_ok_def put_sectors_1 [simplified])

end
