(* ===== verification/Inode.thy ===== *)
theory Inode
  imports FsLayout
begin

text \<open>
  I-nodes and bitmaps on disk: \<^verbatim>\<open>fs/inode.c\<close>, and the allocation routines of \<^verbatim>\<open>fs/file.c\<close> that both
  i-nodes and files use (\<^verbatim>\<open>inode_bitmap_alloc\<close>, \<^verbatim>\<open>block_bitmap_alloc\<close>, \<^verbatim>\<open>bitmap_sync\<close>).

  \<^verbatim>\<open>io_buf\<close> arguments are the number of bytes of the caller's buffer: a transfer that does not fit
  is \<open>Bad_Access\<close>. What the buffer holds afterwards is never used.
\<close>

section \<open>Bitmaps\<close>

datatype bitmap_type = INODE_BITMAP | BLOCK_BITMAP

definition set_inode_bit :: "u32 \<Rightarrow> int \<Rightarrow> fsys \<Rightarrow> fsys res" where
  "set_inode_bit i v s = bind_res (bitmap_set (inode_bitmap (part s)) i v) (\<lambda>b. Inr (upd_part (\<lambda>p. p\<lparr>inode_bitmap := b\<rparr>) s))"

definition set_block_bit :: "u32 \<Rightarrow> int \<Rightarrow> fsys \<Rightarrow> fsys res" where
  "set_block_bit i v s = bind_res (bitmap_set (block_bitmap (part s)) i v) (\<lambda>b. Inr (upd_part (\<lambda>p. p\<lparr>block_bitmap := b\<rparr>) s))"

definition inode_bitmap_alloc :: "fsys \<Rightarrow> (int \<times> fsys) res" where
  "inode_bitmap_alloc s =
     bind_res (bitmap_scan (inode_bitmap (part s)) 1) (\<lambda>bit_idx.
     if bit_idx = -1 then Inr (-1, s)
     else bind_res (set_inode_bit (of_int bit_idx) 1 s) (\<lambda>s. Inr (bit_idx, s)))"

text \<open>The result is an \<^verbatim>\<open>int32_t\<close>; it is kept as the 32-bit word, with \<open>-1\<close> for failure.\<close>

definition block_bitmap_alloc :: "fsys \<Rightarrow> (u32 \<times> fsys) res" where
  "block_bitmap_alloc s =
     bind_res (bitmap_scan (block_bitmap (part s)) 1) (\<lambda>bit_idx.
     if bit_idx = -1 then Inr (-1, s)
     else bind_res (set_block_bit (of_int bit_idx) 1 s) (\<lambda>s. Inr (data_start_lba (sb (part s)) + of_int bit_idx, s)))"

definition bitmap_sync :: "u32 \<Rightarrow> bitmap_type \<Rightarrow> fsys \<Rightarrow> fsys res" where
  "bitmap_sync bit_idx btmp_type s =
     (let off_sec = bit_idx div 4096;
          off_size = off_sec * 512;
          (sec_lba, bitmap_off) =
            (case btmp_type of
               INODE_BITMAP \<Rightarrow> (inode_bitmap_lba (sb (part s)) + off_sec, drop (unat off_size) (bits (inode_bitmap (part s))))
             | BLOCK_BITMAP \<Rightarrow> (block_bitmap_lba (sb (part s)) + off_sec, drop (unat off_size) (bits (block_bitmap (part s)))))
      in disk_write sec_lba bitmap_off 1 s)"

section \<open>fs/inode.c\<close>

record inode_position =
  two_sec :: bool
  sec_lba :: u32
  off_size :: u32

definition inode_locate :: "partition \<Rightarrow> u32 \<Rightarrow> inode_position res" where
  "inode_locate p inode_no =
     bind_res (ASSERT (inode_no < 4096) ''inode_no < 4096'') (\<lambda>_.
     let inode_size = of_nat sizeof_inode;
         off = inode_no * inode_size;
         off_sec = off div 512;
         off_size_in_sec = off mod 512;
         left_in_sec = 512 - off_size_in_sec
     in Inr \<lparr>two_sec = (left_in_sec < inode_size), sec_lba = inode_table_lba (sb p) + off_sec, off_size = off_size_in_sec\<rparr>)"

text \<open>Reading the one or two sectors, replacing bytes, writing them back.\<close>

definition patch_sectors :: "inode_position \<Rightarrow> u8 list \<Rightarrow> nat \<Rightarrow> fsys \<Rightarrow> fsys res" where
  "patch_sectors pos bs io_buf s =
     (let n = (if two_sec pos then 2 else 1) in
      if io_buf < n * 512 then Inl Bad_Access
      else bind_res (disk_read (sec_lba pos) n s) (\<lambda>inode_buf.
           bind_res (put_at inode_buf (unat (off_size pos)) bs) (\<lambda>inode_buf.
           disk_write (sec_lba pos) inode_buf n s)))"

definition inode_sync :: "inode \<Rightarrow> nat \<Rightarrow> fsys \<Rightarrow> fsys res" where
  "inode_sync ino io_buf s =
     (let inode_no = (ucast (i_no ino) :: u8) in
      bind_res (inode_locate (part s) (ucast inode_no)) (\<lambda>pos.
      bind_res (ASSERT (sec_lba pos \<le> start_lba (part s) + sec_cnt (part s))
        ''inode_pos.sec_lba <= (part->start_lba + part->sec_cnt)'') (\<lambda>_.
      let pure_inode = ino\<lparr>i_open_cnts := 0, write_deny := False\<rparr> in
      patch_sectors pos (enc_inode pure_inode) io_buf s)))"

fun find_open :: "(ptr \<Rightarrow> inode) \<Rightarrow> ptr list \<Rightarrow> u32 \<Rightarrow> ptr option" where
  "find_open inos [] inode_no = None"
| "find_open inos (p # ps) inode_no = (if i_no (inos p) = inode_no then Some p else find_open inos ps inode_no)"

definition inode_open :: "u32 \<Rightarrow> fsys \<Rightarrow> (ptr \<times> fsys) res" where
  "inode_open inode_no s =
     (case find_open (inodes s) (open_inodes (part s)) inode_no of
        Some p \<Rightarrow> Inr (p, upd_inode p (\<lambda>i. i\<lparr>i_open_cnts := i_open_cnts i + 1\<rparr>) s)
      | None \<Rightarrow>
          bind_res (inode_locate (part s) inode_no) (\<lambda>pos.
          let (inode_found, s) = fs_malloc s;
              (inode_buf, s) = fs_malloc s
          in if inode_buf = NULL then Inl Bad_Access
             else bind_res (disk_read (sec_lba pos) (if two_sec pos then 2 else 1) s) (\<lambda>bs.
             bind_res (ASSERT (inode_found \<noteq> NULL) ''dst_ != NULL && src_ != NULL'') (\<lambda>_.
             let s = upd_inode inode_found (\<lambda>_. (dec_inode bs (unat (off_size pos)))\<lparr>i_open_cnts := 1\<rparr>) s;
                 s = upd_part (\<lambda>p. p\<lparr>open_inodes := inode_found # open_inodes p\<rparr>) s
             in Inr (inode_found, s)))))"

definition inode_close :: "ptr \<Rightarrow> fsys \<Rightarrow> fsys" where
  "inode_close p s =
     (let s = upd_inode p (\<lambda>i. i\<lparr>i_open_cnts := i_open_cnts i - 1\<rparr>) s in
      if i_open_cnts (inodes s p) = 0 then upd_part (\<lambda>q. q\<lparr>open_inodes := remove1 p (open_inodes q)\<rparr>) s else s)"

definition inode_delete :: "u32 \<Rightarrow> nat \<Rightarrow> fsys \<Rightarrow> fsys res" where
  "inode_delete inode_no io_buf s =
     bind_res (ASSERT (inode_no < 4096) ''inode_no < 4096'') (\<lambda>_.
     bind_res (inode_locate (part s) inode_no) (\<lambda>pos.
     bind_res (ASSERT (sec_lba pos \<le> start_lba (part s) + sec_cnt (part s))
       ''inode_pos.sec_lba <= (part->start_lba + part->sec_cnt)'') (\<lambda>_.
     patch_sectors pos (replicate sizeof_inode 0) io_buf s)))"

text \<open>The blocks of an i-node: the twelve direct ones and those of the table, if there is one.\<close>

definition release_block :: "u32 \<Rightarrow> fsys \<Rightarrow> fsys res" where
  "release_block lba s =
     (let block_bitmap_idx = lba - data_start_lba (sb (part s)) in
      bind_res (ASSERT (block_bitmap_idx > 0) ''block_bitmap_idx > 0'') (\<lambda>_.
      bind_res (set_block_bit block_bitmap_idx 0 s) (bitmap_sync block_bitmap_idx BLOCK_BITMAP)))"

fun release_blocks :: "u32 list \<Rightarrow> fsys \<Rightarrow> fsys res" where
  "release_blocks [] s = Inr s"
| "release_blocks (b # bs) s = bind_res (if b \<noteq> 0 then release_block b s else Inr s) (release_blocks bs)"

definition inode_release :: "u32 \<Rightarrow> fsys \<Rightarrow> fsys res" where
  "inode_release inode_no s =
     bind_res (inode_open inode_no s) (\<lambda>(inode_to_del, s).
     bind_res (ASSERT (i_no (inodes s inode_to_del) = inode_no) ''inode_to_del->i_no == inode_no'') (\<lambda>_.
     let blocks = i_blocks (inodes s inode_to_del) in
     bind_res
       (if blocks ! 12 \<noteq> 0 then
          bind_res (disk_read (blocks ! 12) 1 s) (\<lambda>bs.
          bind_res (release_block (blocks ! 12) s) (\<lambda>s. Inr (take 12 blocks @ dec_words bs 0 128, s)))
        else Inr (take 12 blocks, s)) (\<lambda>(all_blocks, s).
     bind_res (release_blocks all_blocks s) (\<lambda>s.
     bind_res (set_inode_bit inode_no 0 s) (\<lambda>s.
     bind_res (bitmap_sync inode_no INODE_BITMAP s) (\<lambda>s.
     let (io_buf, s) = fs_malloc s in
     bind_res (inode_delete inode_no (if io_buf = NULL then 0 else 1024) s) (\<lambda>s.
     Inr (inode_close inode_to_del s))))))))"

definition inode_init :: "u32 \<Rightarrow> inode" where
  "inode_init inode_no = \<lparr>i_no = inode_no, i_size = 0, i_open_cnts = 0, write_deny = False, i_blocks = replicate 13 0\<rparr>"

section \<open>The table of i-nodes\<close>

text \<open>\<open>tbyte d T a\<close>: byte \<open>a\<close> of the table that starts at sector \<open>T\<close>; \<open>slot d T k\<close>: the bytes of
  i-node \<open>k\<close>.\<close>

definition tbyte :: "(u32 \<Rightarrow> u8 list) \<Rightarrow> u32 \<Rightarrow> nat \<Rightarrow> u8" where
  "tbyte d T a = d (T + of_nat (a div 512)) ! (a mod 512)"

definition slot :: "(u32 \<Rightarrow> u8 list) \<Rightarrow> u32 \<Rightarrow> nat \<Rightarrow> u8 list" where
  "slot d T k = map (tbyte d T) [76 * k ..< 76 * k + 76]"

lemma sectors_nth:
  assumes "full_sectors d" and "j < n * 512"
  shows "sectors d lba n ! j = d (lba + of_nat (j div 512)) ! (j mod 512)"
  using assms(2)
proof (induction n arbitrary: j)
  case (Suc n)
  have s: "sectors d lba (Suc n) = sectors d lba n @ d (lba + of_nat n)" by (simp add: sectors_def)
  show ?case
  proof (cases "j < n * 512")
    case True
    then show ?thesis using Suc.IH [OF True] length_sectors [OF assms(1), of lba n] by (simp add: s nth_append)
  next
    case False
    then have dv: "j div 512 = n" using Suc.prems by (intro div_nat_eqI) simp_all
    then have "j mod 512 = j - n * 512" using minus_div_mult_eq_mod [of j 512] by simp
    with dv show ?thesis using False length_sectors [OF assms(1), of lba n] by (simp add: s nth_append)
  qed
qed simp

lemma sectors_tbyte:
  assumes "full_sectors d" and "j < n * 512"
  shows "sectors d (T + of_nat q) n ! j = tbyte d T (512 * q + j)"
  using sectors_nth [OF assms, of "T + of_nat q"] by (simp add: tbyte_def add.assoc)

lemma dec_inode_slot:
  assumes "\<And>j. j < 76 \<Longrightarrow> bs ! (off + j) = slot d T k ! j"
  shows "dec_inode bs off = dec_inode (slot d T k) 0"
proof -
  have "rd32 bs (off + j) = rd32 (slot d T k) j" if "j + 4 \<le> 76" for j
    using assms [of j] assms [of "j + 1"] assms [of "j + 2"] assms [of "j + 3"] that by (simp add: rd32_def add.assoc)
  from this [of 0] this [of 4] this [of 8] this [of 12] this [of "16 + 4 * k" for k] show ?thesis
    by (simp add: dec_inode_def dec_words_def add.assoc)
qed

text \<open>Where i-node \<open>k\<close> is: sector \<open>pos_q k\<close> of the table, offset \<open>pos_r k\<close>, over \<open>pos_n k\<close> sectors.\<close>

definition pos_q :: "nat \<Rightarrow> nat" where "pos_q k = 76 * k div 512"
definition pos_r :: "nat \<Rightarrow> nat" where "pos_r k = 76 * k mod 512"
definition pos_n :: "nat \<Rightarrow> nat" where "pos_n k = (if 436 < pos_r k then 2 else 1)"

lemma pos_bounds:
  assumes "k < 4096"
  shows "512 * pos_q k + pos_r k = 76 * k" and "pos_r k < 512" and "pos_r k + 76 \<le> pos_n k * 512"
    and "pos_q k + pos_n k \<le> 608" and "0 < pos_n k" and "pos_n k \<le> 2"
proof -
  show e: "512 * pos_q k + pos_r k = 76 * k" unfolding pos_q_def pos_r_def by (rule mult_div_mod_eq)
  show r: "pos_r k < 512" by (simp add: pos_r_def)
  show "pos_r k + 76 \<le> pos_n k * 512" using r by (simp add: pos_n_def)
  have k: "76 * k + 76 \<le> 311296" using assms by simp
  show "pos_q k + pos_n k \<le> 608"
  proof (cases "436 < pos_r k")
    case True
    then have "512 * pos_q k + 512 < 311296" using e k by linarith
    then show ?thesis using True by (simp add: pos_n_def)
  next
    case False
    have "512 * pos_q k < 311296" using e k by linarith
    then show ?thesis using False by (simp add: pos_n_def)
  qed
  show "0 < pos_n k" "pos_n k \<le> 2" by (simp_all add: pos_n_def)
qed

definition pos_of :: "u32 \<Rightarrow> nat \<Rightarrow> inode_position" where
  "pos_of T k = \<lparr>two_sec = (436 < pos_r k), sec_lba = T + of_nat (pos_q k), off_size = of_nat (pos_r k)\<rparr>"

lemma inode_locate_eq:
  assumes "k < 4096"
  shows "inode_locate p (of_nat k) = Inr (pos_of (inode_table_lba (sb p)) k)"
proof -
  have k: "unat (of_nat k :: u32) = k" using assms by simp
  have m: "unat (of_nat k * of_nat sizeof_inode :: u32) = 76 * k"
    using assms k by (subst unat_mult_small) (simp_all add: sizeof_inode_def)
  have "of_nat k * of_nat sizeof_inode div 512 = (of_nat (pos_q k) :: u32)"
  proof (rule unsigned_word_eqI)
    have "unat (of_nat (pos_q k) :: u32) = pos_q k" using pos_bounds(4) [OF assms] by simp
    then show "unat (of_nat k * of_nat sizeof_inode div 512 :: u32) = unat (of_nat (pos_q k) :: u32)"
      unfolding unat_div_distrib m pos_q_def by simp
  qed
  moreover have o: "of_nat k * of_nat sizeof_inode mod 512 = (of_nat (pos_r k) :: u32)"
  proof (rule unsigned_word_eqI)
    have "unat (of_nat (pos_r k) :: u32) = pos_r k" using pos_bounds(2) [OF assms] by simp
    then show "unat (of_nat k * of_nat sizeof_inode mod 512 :: u32) = unat (of_nat (pos_r k) :: u32)"
      unfolding unat_mod_distrib m pos_r_def by simp
  qed
  moreover have "(512 - of_nat (pos_r k) < (of_nat sizeof_inode :: u32)) = (436 < pos_r k)"
  proof -
    have r: "pos_r k < 512" by (rule pos_bounds(2) [OF assms])
    then have "unat (512 - of_nat (pos_r k) :: u32) = 512 - pos_r k" by (subst unat_sub_small) simp_all
    then show ?thesis using r by (auto simp: word_less_nat_alt sizeof_inode_def)
  qed
  moreover have "(of_nat k :: u32) < 4096" using assms k by (simp add: word_less_nat_alt)
  ultimately show ?thesis by (simp add: inode_locate_def pos_of_def Let_def)
qed

definition table_at :: "u32 \<Rightarrow> bool" where
  "table_at T \<longleftrightarrow> unat T + 608 \<le> Suc (unat max_lba)"

lemma unat_tsec: "table_at T \<Longrightarrow> i < 608 \<Longrightarrow> unat (T + of_nat i) = unat T + i"
  unfolding table_at_def by (subst unat_add_small) (simp_all add: max_lba_def)

lemma tsec_diff:
  assumes "table_at T" and "i < 608" and "q + n \<le> 608"
  shows "unat ((T + of_nat i) - (T + of_nat q)) < n \<longleftrightarrow> q \<le> i \<and> i < q + n"
    and "q \<le> i \<Longrightarrow> unat ((T + of_nat i) - (T + of_nat q)) = i - q"
proof -
  show g: "unat ((T + of_nat i) - (T + of_nat q)) = i - q" if "q \<le> i"
    using that unat_tsec [OF assms(1,2)] unat_tsec [OF assms(1), of q] assms by (subst unat_sub_small) simp_all
  show "unat ((T + of_nat i) - (T + of_nat q)) < n \<longleftrightarrow> q \<le> i \<and> i < q + n"
  proof (cases "q \<le> i")
    case False
    let ?x = "(T + of_nat i) - (T + of_nat q)"
    have "\<not> unat ?x < n"
    proof
      assume "unat ?x < n"
      then have "unat (?x + of_nat (q - i)) = unat ?x + (q - i)"
        using assms(3) by (subst unat_add_small) simp_all
      moreover have "?x + of_nat (q - i) = 0" using False by (simp add: of_nat_diff)
      ultimately show False using False by simp
    qed
    then show ?thesis using False by simp
  qed (use g in auto)
qed

lemma patched_byte:
  assumes d: "full_sectors d" and T: "table_at T" and k: "k < 4096" and bs: "length bs = 76" and a: "a < 311296"
  defines "bf \<equiv> sectors d (T + of_nat (pos_q k)) (pos_n k)"
  defines "d' \<equiv> put_sectors d (T + of_nat (pos_q k)) (take (pos_r k) bf @ bs @ drop (pos_r k + 76) bf) (pos_n k)"
  shows "tbyte d' T a = (if 76 * k \<le> a \<and> a < 76 * k + 76 then bs ! (a - 76 * k) else tbyte d T a)"
proof -
  let ?q = "pos_q k" and ?r = "pos_r k" and ?n = "pos_n k" and ?i = "a div 512"
  let ?b = "take ?r bf @ bs @ drop (?r + 76) bf"
  note pb = pos_bounds [OF k]
  have l: "length bf = ?n * 512" unfolding bf_def by (rule length_sectors [OF d])
  have lb: "length ?b = ?n * 512" using l pb(3) bs by simp
  have i: "?i < 608" using a by (simp add: div_less_iff_less_mult)
  have ai: "a = 512 * ?i + a mod 512" "a mod 512 < 512" by simp_all
  note td = tsec_diff [OF T i pb(4)]
  show ?thesis
  proof (cases "?q \<le> ?i \<and> ?i < ?q + ?n")
    case False
    then have "\<not> unat ((T + of_nat ?i) - (T + of_nat ?q)) < ?n" using td(1) by blast
    then have "tbyte d' T a = tbyte d T a" by (simp add: tbyte_def d'_def put_sectors_def)
    moreover have "\<not> (76 * k \<le> a \<and> a < 76 * k + 76)" using False ai pb(1-3) by (cases "?q \<le> ?i") auto
    ultimately show ?thesis by auto
  next
    case True
    define j where "j = a - 512 * ?q"
    have le: "512 * ?q \<le> 512 * ?i" using True by simp
    then have j1: "j = 512 * (?i - ?q) + a mod 512" unfolding j_def diff_mult_distrib2 using ai(1) by linarith
    have j2: "j < ?n * 512" using True ai le by (simp add: j_def)
    note j = j1 j2
    have "tbyte d' T a = take 512 (drop (512 * (?i - ?q)) ?b) ! (a mod 512)"
      unfolding tbyte_def d'_def put_sectors_def using td True by (simp del: take_append drop_append add_diff_cancel_left)
    also have "\<dots> = ?b ! j" using j lb by (simp del: take_append drop_append)
    finally have e: "tbyte d' T a = ?b ! j" .
    have old: "bf ! j = tbyte d T a"
      unfolding bf_def using sectors_tbyte [OF d j(2), of T ?q] True ai by (simp add: j_def)
    show ?thesis
    proof (cases "?r \<le> j \<and> j < ?r + 76")
      case True
      then have "j - ?r < 76" by linarith
      with True have "?b ! j = bs ! (j - ?r)" using l pb(3) bs by (simp add: nth_append)
      moreover have "76 * k \<le> a \<and> a < 76 * k + 76" "j - ?r = a - 76 * k"
        using True pb(1) \<open>?q \<le> ?i \<and> ?i < ?q + ?n\<close> ai by (auto simp: j_def)
      ultimately show ?thesis using e by simp
    next
      case False
      then have "?b ! j = bf ! j" using l pb(3) bs j(2) by (auto simp: nth_append)
      moreover have "\<not> (76 * k \<le> a \<and> a < 76 * k + 76)"
        using False pb(1) \<open>?q \<le> ?i \<and> ?i < ?q + ?n\<close> ai by (auto simp: j_def)
      ultimately show ?thesis using e old by auto
    qed
  qed
qed

lemma patch_slot:
  assumes d: "full_sectors (disk s)" and T: "table_at T" and k: "k < 4096" and bs: "length bs = 76" and io: "pos_n k * 512 \<le> io_buf"
  shows "\<exists>d'. patch_sectors (pos_of T k) bs io_buf s = Inr (s\<lparr>disk := d'\<rparr>) \<and> full_sectors d' \<and> slot d' T k = bs \<and>
     (\<forall>j < 4096. j \<noteq> k \<longrightarrow> slot d' T j = slot (disk s) T j) \<and> (\<forall>a. \<not> unat (a - T) < 608 \<longrightarrow> d' a = disk s a)"
proof -
  note pb = pos_bounds [OF k]
  let ?bf = "sectors (disk s) (T + of_nat (pos_q k)) (pos_n k)"
  let ?b = "take (pos_r k) ?bf @ bs @ drop (pos_r k + 76) ?bf"
  let ?d = "put_sectors (disk s) (T + of_nat (pos_q k)) ?b (pos_n k)"
  have l: "length ?bf = pos_n k * 512" by (rule length_sectors [OF d])
  have lb: "length ?b = pos_n k * 512" using l pb(3) bs by simp
  have q: "unat (T + of_nat (pos_q k)) = unat T + pos_q k" by (rule unat_tsec [OF T]) (use pb(4,5) in linarith)
  then have lo: "lba_ok (T + of_nat (pos_q k)) (pos_n k)" using T pb(4,5) by (intro lba_okI) (simp_all add: table_at_def)
  have two: "(if two_sec (pos_of T k) then 2 else 1) = pos_n k" by (simp add: pos_of_def pos_n_def)
  have r: "unat (of_nat (pos_r k) :: u32) = pos_r k" using pb(2) by simp
  have e: "patch_sectors (pos_of T k) bs io_buf s = Inr (s\<lparr>disk := ?d\<rparr>)"
    unfolding patch_sectors_def Let_def two disk_read_def disk_write_def
    using lo io lb put_at_eq [of "pos_r k" bs ?bf] l pb(3) bs r by (simp add: pos_of_def)
  note pby = patched_byte [OF d T k bs]
  have "slot ?d T k = bs" using k by (intro nth_equalityI) (simp_all add: slot_def bs pby)
  moreover have "slot ?d T j = slot (disk s) T j" if "j < 4096" "j \<noteq> k" for j
  proof (rule nth_equalityI)
    fix i assume "i < length (slot ?d T j)"
    then have i: "i < 76" by (simp add: slot_def)
    have "76 * j + i < 311296" "\<not> (76 * k \<le> 76 * j + i \<and> 76 * j + i < 76 * k + 76)" using that i by auto
    then show "slot ?d T j ! i = slot (disk s) T j ! i" using i by (auto simp: slot_def pby)
  qed (simp add: slot_def)
  moreover have "?d a = disk s a" if "\<not> unat (a - T) < 608" for a
  proof -
    have "\<not> unat (a - (T + of_nat (pos_q k))) < pos_n k"
      using put_sectors_sub(1) [of T "pos_q k" "pos_n k" a] that pb(4) T by (auto simp: table_at_def max_lba_def)
    then show ?thesis by (simp add: put_sectors_def)
  qed
  moreover have "full_sectors ?d" by (rule full_put [OF d lb])
  ultimately show ?thesis using e by blast
qed

text \<open>Reading: the bytes \<^verbatim>\<open>inode_open\<close> decodes are those of the slot.\<close>

lemma read_slot:
  assumes d: "full_sectors d" and k: "k < 4096"
  shows "dec_inode (sectors d (T + of_nat (pos_q k)) (pos_n k)) (pos_r k) = dec_inode (slot d T k) 0"
proof (rule dec_inode_slot)
  fix j :: nat assume j: "j < 76"
  note pb = pos_bounds [OF k]
  have "pos_r k + j < pos_n k * 512" using pb(3) j by linarith
  from sectors_tbyte [OF d this, of T "pos_q k"] pb(1)
  show "sectors d (T + of_nat (pos_q k)) (pos_n k) ! (pos_r k + j) = slot d T k ! j"
    using j by (simp add: slot_def add.assoc [symmetric])
qed

text \<open>\<open>fs_ok\<close>: sectors of 512 bytes, the table on the disk and inside the partition.\<close>

definition fs_ok :: "fsys \<Rightarrow> bool" where
  "fs_ok s \<longleftrightarrow> full_sectors (disk s) \<and> table_at (inode_table_lba (sb (part s))) \<and>
     unat (inode_table_lba (sb (part s))) + 608 \<le> unat (start_lba (part s) + sec_cnt (part s))"

lemma unat_ucast_u8: "unat (ucast (w :: u8) :: u32) = unat w"
  using unat_u8_lt [of w] by (simp add: unsigned_ucast_eq take_bit_nat_eq_self del: unat_u8_lt)

lemma inode_sync_patch:
  assumes ok: "fs_ok s"
  shows "inode_sync ino io_buf s = patch_sectors (pos_of (inode_table_lba (sb (part s))) (unat (i_no ino) mod 256))
     (enc_inode (ino\<lparr>i_open_cnts := 0, write_deny := False\<rparr>)) io_buf s"
proof -
  let ?T = "inode_table_lba (sb (part s))" and ?k = "unat (i_no ino) mod 256"
  have k: "?k < 4096" by (rule less_trans [of _ 256]) simp_all
  have "unat (ucast (i_no ino) :: u8) = ?k" by (simp add: unsigned_ucast_eq take_bit_eq_mod)
  then have "unat (ucast (ucast (i_no ino) :: u8) :: u32) = ?k" using unat_ucast_u8 [of "ucast (i_no ino)"] by (simp only:)
  moreover have "unat (of_nat ?k :: u32) = ?k" using k by simp
  ultimately have "unat (ucast (ucast (i_no ino) :: u8) :: u32) = unat (of_nat ?k :: u32)" by (simp only:)
  then have c: "(ucast (ucast (i_no ino) :: u8) :: u32) = of_nat ?k" by (rule unsigned_word_eqI)
  note loc = inode_locate_eq [OF k, of "part s"]
  have "unat (?T + of_nat (pos_q ?k)) \<le> unat (start_lba (part s) + sec_cnt (part s))"
    using ok unat_tsec [of ?T "pos_q ?k"] pos_bounds(4,5) [OF k] by (simp add: fs_ok_def)
  then have as: "sec_lba (pos_of ?T ?k) \<le> start_lba (part s) + sec_cnt (part s)" by (simp add: pos_of_def word_le_nat_alt)
  show ?thesis
    unfolding inode_sync_def Let_def c loc using as by simp
qed

lemma inode_sync_slot:
  assumes ok: "fs_ok s" and b: "length (i_blocks ino) = 13" and io: "pos_n (unat (i_no ino) mod 256) * 512 \<le> io_buf"
  shows "\<exists>d'. inode_sync ino io_buf s = Inr (s\<lparr>disk := d'\<rparr>) \<and> full_sectors d' \<and>
     slot d' (inode_table_lba (sb (part s))) (unat (i_no ino) mod 256) = enc_inode (ino\<lparr>i_open_cnts := 0, write_deny := False\<rparr>) \<and>
     (\<forall>j < 4096. j \<noteq> unat (i_no ino) mod 256 \<longrightarrow>
        slot d' (inode_table_lba (sb (part s))) j = slot (disk s) (inode_table_lba (sb (part s))) j) \<and>
     (\<forall>a. \<not> unat (a - inode_table_lba (sb (part s))) < 608 \<longrightarrow> d' a = disk s a)"
proof -
  have k: "unat (i_no ino) mod 256 < 4096" by (rule less_trans [of _ 256]) simp_all
  show ?thesis unfolding inode_sync_patch [OF ok] using ok b io k by (intro patch_slot) (simp_all add: fs_ok_def)
qed

text \<open>With a buffer of one sector, an i-node across two sectors is read behind the end of the buffer.\<close>

lemma inode_sync_short: "fs_ok s \<Longrightarrow> pos_n (unat (i_no ino) mod 256) = 2 \<Longrightarrow> inode_sync ino 512 s = Inl Bad_Access"
  unfolding inode_sync_patch by (simp add: patch_sectors_def pos_of_def pos_n_def Let_def split: if_splits)

lemma inode_open_disk:
  assumes ok: "fs_ok s" and k: "unat no < 4096" and nf: "find_open (inodes s) (open_inodes (part s)) no = None"
    and m: "mallocs s = p # q # ps" "p \<noteq> NULL" "q \<noteq> NULL"
  shows "inode_open no s = Inr (p, s\<lparr>mallocs := ps,
     inodes := (inodes s)(p := (dec_inode (slot (disk s) (inode_table_lba (sb (part s))) (unat no)) 0)\<lparr>i_open_cnts := 1\<rparr>),
     part := (part s)\<lparr>open_inodes := p # open_inodes (part s)\<rparr>\<rparr>)"
proof -
  let ?T = "inode_table_lba (sb (part s))" and ?k = "unat no"
  note pb = pos_bounds [OF k]
  have no: "no = of_nat ?k" by simp
  have loc: "inode_locate (part s) no = Inr (pos_of ?T ?k)" using inode_locate_eq [OF k, of "part s"] by simp
  have T: "table_at ?T" and d: "full_sectors (disk s)" using ok by (simp_all add: fs_ok_def)
  have "unat (?T + of_nat (pos_q ?k)) = unat ?T + pos_q ?k" by (rule unat_tsec [OF T]) (use pb(4,5) in linarith)
  then have lo: "lba_ok (?T + of_nat (pos_q ?k)) (pos_n ?k)" using T pb(4,5) by (intro lba_okI) (simp_all add: table_at_def)
  have two: "(if two_sec (pos_of ?T ?k) then 2 else 1) = pos_n ?k" by (simp add: pos_of_def pos_n_def)
  have r: "unat (of_nat (pos_r ?k) :: u32) = pos_r ?k" using pb(2) by simp
  show ?thesis
    unfolding inode_open_def nf option.case loc bind_res_Inr two
    using m lo r read_slot [OF d k, of ?T]
    by (simp add: fs_malloc_def disk_read_def pos_of_def upd_inode_def upd_part_def Let_def)
qed

text \<open>Opening an i-node that is open and closing it again.\<close>

lemma inode_open_again:
  assumes "find_open (inodes s) (open_inodes (part s)) no = Some p"
  shows "inode_open no s = Inr (p, upd_inode p (\<lambda>i. i\<lparr>i_open_cnts := i_open_cnts i + 1\<rparr>) s)"
  using assms by (simp add: inode_open_def)

lemma inode_close_again:
  assumes "i_open_cnts (inodes s p) \<noteq> 0"
  shows "inode_close p (upd_inode p (\<lambda>i. i\<lparr>i_open_cnts := i_open_cnts i + 1\<rparr>) s) = s"
  using assms by (simp add: inode_close_def upd_inode_def Let_def)

lemma block_alloc_spec:
  assumes wf: "bitmap_wf (block_bitmap (part s))" and fr: "m < nbits (block_bitmap (part s))" "\<not> bit_at (block_bitmap (part s)) m"
  shows "\<exists>n b. block_bitmap_alloc s = Inr (data_start_lba (sb (part s)) + of_nat n, s\<lparr>part := (part s)\<lparr>block_bitmap := b\<rparr>\<rparr>) \<and>
     n < nbits b \<and> bitmap_wf b \<and> nbits b = nbits (block_bitmap (part s)) \<and> \<not> bit_at (block_bitmap (part s)) n \<and>
     (\<forall>j < n. bit_at (block_bitmap (part s)) j) \<and> length (bits b) = length (bits (block_bitmap (part s))) \<and>
     (\<forall>j < nbits b. bit_at b j \<longleftrightarrow> j = n \<or> bit_at (block_bitmap (part s)) j)"
proof -
  let ?b = "block_bitmap (part s)"
  from bm.scan_first [OF wf fr] obtain n where
    n: "n \<le> m" "\<not> bit_at ?b n" "\<forall>j < n. bit_at ?b j" "bitmap_scan ?b 1 = Inr (int n)" by blast
  have nn: "n < nbits ?b" using n(1) fr(1) by simp
  then have u: "unat (of_nat n :: u32) = n" using wf by (simp add: bitmap_wf_def)
  have "unat (of_nat n :: u32) div 8 < length (bits ?b)"
    unfolding u using nn wf by (auto simp: bitmap_wf_def intro: less_le_trans [OF less_mult_imp_div_less])
  from bitmap_set_eq [OF this, of 1] obtain b where
    b: "bitmap_set ?b (of_nat n) 1 = Inr b" "btmp_bytes_len b = btmp_bytes_len ?b" "length (bits b) = length (bits ?b)"
      "\<forall>j. j div 8 < length (bits ?b) \<longrightarrow> bit_at b j = (if j = n then True else bit_at ?b j)" using u by auto
  have "bit_at b j \<longleftrightarrow> j = n \<or> bit_at ?b j" if "j < nbits b" for j
  proof -
    have "j div 8 < length (bits ?b)" using that wf b(2) by (auto simp: bitmap_wf_def intro: less_le_trans [OF less_mult_imp_div_less])
    then show ?thesis using b(4) by auto
  qed
  moreover have "block_bitmap_alloc s = Inr (data_start_lba (sb (part s)) + of_nat n, s\<lparr>part := (part s)\<lparr>block_bitmap := b\<rparr>\<rparr>)"
    using n(4) b(1) by (simp add: block_bitmap_alloc_def set_block_bit_def upd_part_def)
  moreover have "bitmap_wf b" using wf b(2,3) by (simp add: bitmap_wf_def)
  ultimately show ?thesis using n nn b(2,3) by (intro exI [of _ n] exI [of _ b]) simp
qed

section \<open>Properties\<close>

text \<open>C13: Writing an i-node and opening it again: for an i-node number below 256, \<^verbatim>\<open>inode_sync\<close>
  followed by \<^verbatim>\<open>inode_open\<close> gives back the i-node, with its use count 1 and its write lock clear,
  at the head of the list of open i-nodes, also when it lies across two sectors; every other i-node
  and every sector outside the table is as before.\<close>

theorem inode_sync_open:
  assumes ok: "fs_ok s" and b: "length (i_blocks ino) = 13" and no: "unat (i_no ino) < 256" and io: "1024 \<le> io_buf"
    and nf: "find_open (inodes s) (open_inodes (part s)) (i_no ino) = None"
    and m: "mallocs s = p # q # ps" "p \<noteq> NULL" "q \<noteq> NULL"
  shows "\<exists>s1 s2. inode_sync ino io_buf s = Inr s1 \<and> inode_open (i_no ino) s1 = Inr (p, s2) \<and>
     inodes s2 p = ino\<lparr>i_open_cnts := 1, write_deny := False\<rparr> \<and> open_inodes (part s2) = p # open_inodes (part s) \<and>
     (\<forall>j < 4096. j \<noteq> unat (i_no ino) \<longrightarrow>
        slot (disk s2) (inode_table_lba (sb (part s))) j = slot (disk s) (inode_table_lba (sb (part s))) j) \<and>
     (\<forall>a. \<not> unat (a - inode_table_lba (sb (part s))) < 608 \<longrightarrow> disk s2 a = disk s a)"
proof -
  let ?T = "inode_table_lba (sb (part s))" and ?k = "unat (i_no ino)"
  have mk: "?k mod 256 = ?k" and k: "?k < 4096" using no by simp_all
  have "pos_n (?k mod 256) * 512 \<le> io_buf" using io pos_bounds(6) [OF k] mk by simp
  from inode_sync_slot [OF ok b this] mk obtain d' where
    d': "inode_sync ino io_buf s = Inr (s\<lparr>disk := d'\<rparr>)" "full_sectors d'"
      "slot d' ?T ?k = enc_inode (ino\<lparr>i_open_cnts := 0, write_deny := False\<rparr>)"
      "\<forall>j < 4096. j \<noteq> ?k \<longrightarrow> slot d' ?T j = slot (disk s) ?T j" "\<forall>a. \<not> unat (a - ?T) < 608 \<longrightarrow> d' a = disk s a" by auto
  have ok': "fs_ok (s\<lparr>disk := d'\<rparr>)" using ok d'(2) by (simp add: fs_ok_def)
  have "dec_inode (slot d' ?T ?k) 0 = ino\<lparr>i_open_cnts := 0, write_deny := False\<rparr>"
    using dec_inode_enc [of "ino\<lparr>i_open_cnts := 0, write_deny := False\<rparr>" "[]" 0 "[]"] b d'(3) by simp
  then have
    "inode_open (i_no ino) (s\<lparr>disk := d'\<rparr>) = Inr (p, s\<lparr>disk := d', mallocs := ps,
       inodes := (inodes s)(p := ino\<lparr>write_deny := False, i_open_cnts := 1\<rparr>),
       part := (part s)\<lparr>open_inodes := p # open_inodes (part s)\<rparr>\<rparr>)"
    using inode_open_disk [OF ok' k, of p q ps] nf m by simp
  then show ?thesis using d'(1,4,5) by simp
qed

definition sample_sb :: super_block where
  "sample_sb = \<lparr>magic = 0x19980924, sb_sec_cnt = 2000, inode_cnt = 4096, part_lba_base = 100, block_bitmap_lba = 102,
     block_bitmap_sects = 1, inode_bitmap_lba = 103, inode_bitmap_sects = 1, inode_table_lba = 104, inode_table_sects = 608,
     data_start_lba = 712, root_inode_no = 0, dir_entry_size = 24\<rparr>"

definition sample_fs :: fsys where
  "sample_fs = \<lparr>disk = (\<lambda>_. replicate 512 0),
     part = \<lparr>start_lba = 100, sec_cnt = 2000, sb = sample_sb, block_bitmap = \<lparr>btmp_bytes_len = 512, bits = replicate 512 0\<rparr>,
       inode_bitmap = \<lparr>btmp_bytes_len = 512, bits = replicate 512 0\<rparr>, open_inodes = []\<rparr>,
     inodes = (\<lambda>_. inode_init 0), dirs = (\<lambda>_. \<lparr>dir_inode = 0, dir_pos = 0\<rparr>), root_dir = 0xc0009000,
     io = \<lparr>file_table = replicate 32 \<lparr>fd_pos = 0, fd_flag = 0, fd_inode = NULL\<rparr>, ioqs = (\<lambda>_. sample_ioq), ks = sample_wait\<rparr>,
     mallocs = [0xc0101000, 0xc0102000, 0xc0103000, 0xc0104000, 0xc0105000, 0xc0106000]\<rparr>"

lemma sample_fs_ok: "fs_ok sample_fs"
  by (simp add: fs_ok_def sample_fs_def sample_sb_def full_sectors_def table_at_def max_lba_def)

theorem inode_sync_open_witness:
  "\<exists>s1 s2. inode_sync ((inode_init 6)\<lparr>i_size := 77\<rparr>) 1024 sample_fs = Inr s1 \<and>
     inode_open (i_no ((inode_init 6)\<lparr>i_size := 77\<rparr>)) s1 = Inr (0xc0101000, s2) \<and>
     inodes s2 0xc0101000 = (inode_init 6)\<lparr>i_size := 77\<rparr>\<lparr>i_open_cnts := 1, write_deny := False\<rparr> \<and>
     open_inodes (part s2) = 0xc0101000 # open_inodes (part sample_fs) \<and>
     (\<forall>j < 4096. j \<noteq> unat (i_no ((inode_init 6)\<lparr>i_size := 77\<rparr>)) \<longrightarrow>
        slot (disk s2) (inode_table_lba (sb (part sample_fs))) j = slot (disk sample_fs) (inode_table_lba (sb (part sample_fs))) j) \<and>
     (\<forall>a. \<not> unat (a - inode_table_lba (sb (part sample_fs))) < 608 \<longrightarrow> disk s2 a = disk sample_fs a)"
  by (rule inode_sync_open [OF sample_fs_ok, where q = "0xc0102000"]) (simp_all add: inode_init_def sample_fs_def)

text \<open>The number is cut to eight bits: an i-node numbered 256 or more is written over another one.\<close>

lemma inode_sync_truncates:
  assumes "fs_ok s" and "length (i_blocks ino) = 13" and "256 \<le> unat (i_no ino)" and "unat (i_no ino) < 4096"
  shows "\<exists>s1. inode_sync ino 1024 s = Inr s1 \<and>
     slot (disk s1) (inode_table_lba (sb (part s))) (unat (i_no ino)) = slot (disk s) (inode_table_lba (sb (part s))) (unat (i_no ino)) \<and>
     slot (disk s1) (inode_table_lba (sb (part s))) (unat (i_no ino) mod 256) = enc_inode (ino\<lparr>i_open_cnts := 0, write_deny := False\<rparr>)"
proof -
  have "unat (i_no ino) mod 256 < 256" by simp
  then have "unat (i_no ino) mod 256 < 4096" and ne: "unat (i_no ino) \<noteq> unat (i_no ino) mod 256" using assms(3) by linarith+
  then have "pos_n (unat (i_no ino) mod 256) * 512 \<le> 1024" using pos_bounds(6) by fastforce
  from inode_sync_slot [OF assms(1,2) this] ne assms(4) show ?thesis by auto
qed

end
