(* ===== verification/Dir.thy ===== *)
theory Dir
  imports Inode
begin

text \<open>
  Directories: \<^verbatim>\<open>fs/dir.c\<close>. A directory file is a sequence of sectors of entries; a pointer to a
  \<^verbatim>\<open>struct dir\<close> is its address in \<open>dirs\<close>. The buffer \<^verbatim>\<open>dir_buf\<close> of \<^verbatim>\<open>dir_read\<close> is local to the call:
  the entry is returned by value. Names are byte lists with a terminator.
\<close>

section \<open>Blocks of a directory\<close>

abbreviation dinode :: "fsys \<Rightarrow> ptr \<Rightarrow> inode" where
  "dinode s pdir \<equiv> inodes s (dir_inode (dirs s pdir))"

text \<open>The 140 block addresses; those of the table are read if there is one.\<close>

definition all_blocks_of :: "inode \<Rightarrow> fsys \<Rightarrow> u32 list res" where
  "all_blocks_of ino s =
     (if i_blocks ino ! 12 \<noteq> 0 then
        bind_res (disk_read (i_blocks ino ! 12) 1 s) (\<lambda>bs. Inr (take 12 (i_blocks ino) @ dec_words bs 0 128))
      else Inr (take 12 (i_blocks ino) @ replicate 128 0))"

text \<open>\<^verbatim>\<open>SECTOR_SIZE / dir_entry_size\<close>; a zero size is a divide error.\<close>

definition dir_entrys_per_sec :: "fsys \<Rightarrow> nat res" where
  "dir_entrys_per_sec s =
     (let sz = unat (dir_entry_size (sb (part s))) in if sz = 0 then Inl Bad_Access else Inr (SECTOR_SIZE div sz))"

section \<open>Opening, searching, closing\<close>

definition open_root_dir :: "fsys \<Rightarrow> fsys res" where
  "open_root_dir s =
     bind_res (inode_open (root_inode_no (sb (part s))) s) (\<lambda>(p, s).
     Inr (s\<lparr>dirs := (dirs s)(root_dir s := \<lparr>dir_inode = p, dir_pos = 0\<rparr>)\<rparr>))"

definition dir_open :: "u32 \<Rightarrow> fsys \<Rightarrow> (ptr \<times> fsys) res" where
  "dir_open inode_no s =
     (let (pdir, s) = fs_malloc s in
      bind_res (inode_open inode_no s) (\<lambda>(p, s).
      if pdir = NULL then Inl Bad_Access
      else Inr (pdir, s\<lparr>dirs := (dirs s)(pdir := \<lparr>dir_inode = p, dir_pos = 0\<rparr>)\<rparr>)))"

primrec search_entries :: "nat \<Rightarrow> nat \<Rightarrow> u8 list \<Rightarrow> u8 list \<Rightarrow> dir_entry option res" where
  "search_entries 0 k bf name = Inr None"
| "search_entries (Suc n) k bf name =
     bind_res (strcmp (drop (k * sizeof_dir_entry) bf) name) (\<lambda>r.
     if r = 0 then Inr (Some (dec_de bf k)) else search_entries n (k + 1) bf name)"

fun search_blocks :: "u32 list \<Rightarrow> nat \<Rightarrow> u8 list \<Rightarrow> fsys \<Rightarrow> dir_entry option res" where
  "search_blocks [] cnt name s = Inr None"
| "search_blocks (b # bs) cnt name s =
     (if b = 0 then search_blocks bs cnt name s
      else
        bind_res (disk_read b 1 s) (\<lambda>bf.
        bind_res (search_entries cnt 0 bf name) (\<lambda>r.
        case r of Some d \<Rightarrow> Inr (Some d) | None \<Rightarrow> search_blocks bs cnt name s)))"

text \<open>\<open>Some d\<close>: true, with the entry in \<^verbatim>\<open>dir_e\<close>.\<close>

definition search_dir_entry :: "ptr \<Rightarrow> u8 list \<Rightarrow> fsys \<Rightarrow> (dir_entry option \<times> fsys) res" where
  "search_dir_entry pdir name s =
     (let (blk, s) = fs_malloc s in
      if blk = NULL then Inr (None, s)
      else
        bind_res (all_blocks_of (dinode s pdir) s) (\<lambda>all_blocks.
        let (bf, s) = fs_malloc s in
        bind_res (dir_entrys_per_sec s) (\<lambda>dir_entry_cnt.
        if bf = NULL then Inl Bad_Access
        else bind_res (search_blocks all_blocks dir_entry_cnt name s) (\<lambda>r. Inr (r, s)))))"

definition dir_close :: "ptr \<Rightarrow> fsys \<Rightarrow> fsys" where
  "dir_close d s = (if d = root_dir s then s else inode_close (dir_inode (dirs s d)) s)"

section \<open>Adding an entry\<close>

text \<open>The entry is zero before the call.\<close>

definition create_dir_entry :: "u8 list \<Rightarrow> u32 \<Rightarrow> u32 \<Rightarrow> dir_entry res" where
  "create_dir_entry fname inode_no file_type =
     bind_res (strlen fname) (\<lambda>n.
     bind_res (ASSERT (n \<le> MAX_FILE_NAME_LEN) ''strlen(filename) <= MAX_FILE_NAME_LEN'') (\<lambda>_.
     bind_res (memcpy (replicate MAX_FILE_NAME_LEN 0) fname n) (\<lambda>f.
     Inr \<lparr>filename = f, de_no = inode_no, f_type = file_type\<rparr>)))"

primrec free_entry :: "nat \<Rightarrow> nat \<Rightarrow> u8 list \<Rightarrow> nat option" where
  "free_entry 0 k bf = None"
| "free_entry (Suc n) k bf = (if f_type (dec_de bf k) = FT_UNKNOWN then Some k else free_entry n (k + 1) bf)"

text \<open>A block for the directory: allocate it and write the bitmap sector.\<close>

definition alloc_synced :: "fsys \<Rightarrow> (u32 \<times> fsys) res" where
  "alloc_synced s =
     bind_res (block_bitmap_alloc s) (\<lambda>(block_lba, s).
     if block_lba = -1 then Inr (-1, s)
     else
       let block_bitmap_idx = block_lba - data_start_lba (sb (part s)) in
       bind_res (ASSERT (block_bitmap_idx \<noteq> -1) ''block_bitmap_idx != -1'') (\<lambda>_.
       bind_res (bitmap_sync block_bitmap_idx BLOCK_BITMAP s) (\<lambda>s. Inr (block_lba, s))))"

definition set_block :: "ptr \<Rightarrow> nat \<Rightarrow> u32 \<Rightarrow> fsys \<Rightarrow> fsys" where
  "set_block p i lba s = upd_inode p (\<lambda>ino. ino\<lparr>i_blocks := (i_blocks ino)[i := lba]\<rparr>) s"

definition grow_dir :: "ptr \<Rightarrow> fsys \<Rightarrow> fsys" where
  "grow_dir p s = upd_inode p (\<lambda>ino. ino\<lparr>i_size := i_size ino + dir_entry_size (sb (part s))\<rparr>) s"

text \<open>Block \<open>block_idx\<close> is not there: allocate it (and the table for the first indirect one).\<close>

definition new_dir_block :: "ptr \<Rightarrow> nat \<Rightarrow> u32 list \<Rightarrow> fsys \<Rightarrow> (u32 list option \<times> fsys) res" where
  "new_dir_block p block_idx all_blocks s =
     bind_res (alloc_synced s) (\<lambda>(block_lba, s).
     if block_lba = -1 then Inr (None, s)
     else if block_idx < 12 then
       Inr (Some (all_blocks[block_idx := block_lba]), set_block p block_idx block_lba s)
     else if block_idx = 12 then
       let s = set_block p 12 block_lba s in
       bind_res (alloc_synced s) (\<lambda>(block_lba, s).
       if block_lba = -1 then
         let block_bitmap_idx = i_blocks (inodes s p) ! 12 - data_start_lba (sb (part s)) in
         bind_res (set_block_bit block_bitmap_idx 0 s) (\<lambda>s. Inr (None, set_block p 12 0 s))
       else
         let all_blocks = all_blocks[12 := block_lba] in
         bind_res (disk_write (i_blocks (inodes s p) ! 12) (enc_words (drop 12 all_blocks)) 1 s) (\<lambda>s.
         Inr (Some all_blocks, s)))
     else
       let all_blocks = all_blocks[block_idx := block_lba] in
       bind_res (disk_write (i_blocks (inodes s p) ! 12) (enc_words (drop 12 all_blocks)) 1 s) (\<lambda>s.
       Inr (Some all_blocks, s)))"

primrec sync_loop :: "nat \<Rightarrow> nat \<Rightarrow> ptr \<Rightarrow> u32 list \<Rightarrow> nat \<Rightarrow> dir_entry \<Rightarrow> fsys \<Rightarrow> (bool \<times> fsys) res" where
  "sync_loop 0 block_idx p all_blocks cnt p_de s = Inr (False, s)"
| "sync_loop (Suc n) block_idx p all_blocks cnt p_de s =
     (if all_blocks ! block_idx = 0 then
        bind_res (new_dir_block p block_idx all_blocks s) (\<lambda>(r, s).
        case r of None \<Rightarrow> Inr (False, s)
        | Some all_blocks \<Rightarrow>
            bind_res (put_at (replicate 512 0) 0 (enc_de p_de)) (\<lambda>io_buf.
            bind_res (disk_write (all_blocks ! block_idx) io_buf 1 s) (\<lambda>s.
            Inr (True, grow_dir p s))))
      else
        bind_res (disk_read (all_blocks ! block_idx) 1 s) (\<lambda>io_buf.
        case free_entry cnt 0 io_buf of
          Some k \<Rightarrow>
            bind_res (put_at io_buf (k * sizeof_dir_entry) (enc_de p_de)) (\<lambda>io_buf.
            bind_res (disk_write (all_blocks ! block_idx) io_buf 1 s) (\<lambda>s.
            Inr (True, grow_dir p s)))
        | None \<Rightarrow> sync_loop n (block_idx + 1) p all_blocks cnt p_de s))"

text \<open>The addresses of the table are not read here: entries 12 to 139 of \<^verbatim>\<open>all_blocks\<close> start as 0.\<close>

definition sync_dir_entry :: "ptr \<Rightarrow> dir_entry \<Rightarrow> fsys \<Rightarrow> (bool \<times> fsys) res" where
  "sync_dir_entry parent_dir p_de s =
     (let p = dir_inode (dirs s parent_dir);
          dir_size = i_size (inodes s p);
          de_size = dir_entry_size (sb (part s))
      in bind_res (dir_entrys_per_sec s) (\<lambda>cnt.
         bind_res (ASSERT (dir_size mod de_size = 0) ''dir_size % dir_entry_size == 0'') (\<lambda>_.
         sync_loop 140 0 p (take 12 (i_blocks (inodes s p)) @ replicate 128 0) cnt p_de s)))"

section \<open>Deleting an entry\<close>

definition dot :: "u8 list" where "dot = [46, 0]"
definition dotdot :: "u8 list" where "dotdot = [46, 46, 0]"

text \<open>One sector: is it the first of the directory, how many entries it has besides \<^verbatim>\<open>.\<close> and
  \<^verbatim>\<open>..\<close>, and which one has the number.\<close>

primrec count_entries :: "nat \<Rightarrow> nat \<Rightarrow> u8 list \<Rightarrow> u32 \<Rightarrow> bool \<times> nat \<times> nat option \<Rightarrow> (bool \<times> nat \<times> nat option) res" where
  "count_entries 0 k io_buf inode_no acc = Inr acc"
| "count_entries (Suc n) k io_buf inode_no acc =
     (let e = dec_de io_buf k;
          nm = drop (k * sizeof_dir_entry) io_buf;
          (is_dir_first_block, dir_entry_cnt, dir_entry_found) = acc
      in bind_res
           (if f_type e \<noteq> FT_UNKNOWN then
              bind_res (strcmp nm dot) (\<lambda>r.
              if r = 0 then Inr (True, dir_entry_cnt, dir_entry_found)
              else
                bind_res (strcmp nm dotdot) (\<lambda>r.
                if r \<noteq> 0 then
                  if de_no e = inode_no then
                    bind_res (ASSERT (dir_entry_found = None) ''dir_entry_found == NULL'') (\<lambda>_.
                    Inr (is_dir_first_block, dir_entry_cnt + 1, Some k))
                  else Inr (is_dir_first_block, dir_entry_cnt + 1, dir_entry_found)
                else Inr acc))
            else Inr acc)
           (count_entries n (k + 1) io_buf inode_no))"

text \<open>Giving a block back. For an indirect block the loop that counts the blocks of the table never
  moves on: \<open>Diverges\<close>.\<close>

definition drop_dir_block :: "ptr \<Rightarrow> nat \<Rightarrow> u32 \<Rightarrow> fsys \<Rightarrow> fsys res" where
  "drop_dir_block p block_idx lba s =
     (let block_bitmap_idx = lba - data_start_lba (sb (part s)) in
      bind_res (set_block_bit block_bitmap_idx 0 s) (\<lambda>s.
      bind_res (bitmap_sync block_bitmap_idx BLOCK_BITMAP s) (\<lambda>s.
      if block_idx < 12 then Inr (set_block p block_idx 0 s) else Inl Diverges)))"

primrec delete_loop :: "nat \<Rightarrow> nat \<Rightarrow> ptr \<Rightarrow> u32 list \<Rightarrow> nat \<Rightarrow> u32 \<Rightarrow> fsys \<Rightarrow> (bool \<times> fsys) res" where
  "delete_loop 0 block_idx p all_blocks cnt inode_no s = Inr (False, s)"
| "delete_loop (Suc n) block_idx p all_blocks cnt inode_no s =
     (let lba = all_blocks ! block_idx in
      if lba = 0 then delete_loop n (block_idx + 1) p all_blocks cnt inode_no s
      else
        bind_res (disk_read lba 1 s) (\<lambda>io_buf.
        bind_res (count_entries cnt 0 io_buf inode_no (False, 0, None)) (\<lambda>(is_dir_first_block, dir_entry_cnt, dir_entry_found).
        case dir_entry_found of
          None \<Rightarrow> delete_loop n (block_idx + 1) p all_blocks cnt inode_no s
        | Some k \<Rightarrow>
            bind_res (ASSERT (dir_entry_cnt \<ge> 1) ''dir_entry_cnt >= 1'') (\<lambda>_.
            bind_res
              (if dir_entry_cnt = 1 \<and> \<not> is_dir_first_block then drop_dir_block p block_idx lba s
               else
                 bind_res (put_at io_buf (k * sizeof_dir_entry) (replicate (unat (dir_entry_size (sb (part s)))) 0)) (\<lambda>io_buf.
                 disk_write lba io_buf 1 s)) (\<lambda>s.
            let de_size = dir_entry_size (sb (part s)) in
            bind_res (ASSERT (i_size (inodes s p) \<ge> de_size) ''dir_inode->i_size >= dir_entry_size'') (\<lambda>_.
            let s = upd_inode p (\<lambda>ino. ino\<lparr>i_size := i_size ino - de_size\<rparr>) s in
            bind_res (inode_sync (inodes s p) 1024 s) (\<lambda>s. Inr (True, s))))))))"

definition delete_dir_entry :: "ptr \<Rightarrow> u32 \<Rightarrow> fsys \<Rightarrow> (bool \<times> fsys) res" where
  "delete_dir_entry pdir inode_no s =
     bind_res (all_blocks_of (dinode s pdir) s) (\<lambda>all_blocks.
     bind_res (dir_entrys_per_sec s) (\<lambda>cnt.
     delete_loop 140 0 (dir_inode (dirs s pdir)) all_blocks cnt inode_no s))"

section \<open>Reading and removing\<close>

primrec read_entries :: "nat \<Rightarrow> nat \<Rightarrow> u8 list \<Rightarrow> u32 \<Rightarrow> u32 \<Rightarrow> u32 \<Rightarrow> (dir_entry option \<times> u32) res" where
  "read_entries 0 k dir_e sz pos cur_dir_entry_pos = Inr (None, cur_dir_entry_pos)"
| "read_entries (Suc n) k dir_e sz pos cur_dir_entry_pos =
     (if f_type (dec_de dir_e k) \<noteq> FT_UNKNOWN then
        if cur_dir_entry_pos < pos then read_entries n (k + 1) dir_e sz pos (cur_dir_entry_pos + sz)
        else
          bind_res (ASSERT (cur_dir_entry_pos = pos) ''cur_dir_entry_pos == dir->dir_pos'') (\<lambda>_.
          Inr (Some (dec_de dir_e k), cur_dir_entry_pos))
      else read_entries n (k + 1) dir_e sz pos cur_dir_entry_pos)"

fun read_blocks :: "u32 list \<Rightarrow> nat \<Rightarrow> u32 \<Rightarrow> u32 \<Rightarrow> u32 \<Rightarrow> u32 \<Rightarrow> fsys \<Rightarrow> dir_entry option res" where
  "read_blocks [] cnt sz pos i_sz cur_dir_entry_pos s = Inr None"
| "read_blocks (b # bs) cnt sz pos i_sz cur_dir_entry_pos s =
     (if pos \<ge> i_sz then Inr None
      else if b = 0 then read_blocks bs cnt sz pos i_sz cur_dir_entry_pos s
      else
        bind_res (disk_read b 1 s) (\<lambda>dir_e.
        bind_res (read_entries cnt 0 dir_e sz pos cur_dir_entry_pos) (\<lambda>(r, cur_dir_entry_pos).
        case r of Some d \<Rightarrow> Inr (Some d) | None \<Rightarrow> read_blocks bs cnt sz pos i_sz cur_dir_entry_pos s)))"

definition dir_read :: "ptr \<Rightarrow> fsys \<Rightarrow> (dir_entry option \<times> fsys) res" where
  "dir_read d s =
     (let ino = dinode s d; sz = dir_entry_size (sb (part s)) in
      bind_res (all_blocks_of ino s) (\<lambda>all_blocks.
      bind_res (dir_entrys_per_sec s) (\<lambda>cnt.
      let block_cnt = (if i_blocks ino ! 12 \<noteq> 0 then 140 else 12) in
      bind_res (read_blocks (take block_cnt all_blocks) cnt sz (dir_pos (dirs s d)) (i_size ino) 0 s) (\<lambda>r.
      Inr (r, if r = None then s
              else s\<lparr>dirs := (dirs s)(d := (dirs s d)\<lparr>dir_pos := dir_pos (dirs s d) + sz\<rparr>)\<rparr>)))))"

definition dir_is_empty :: "ptr \<Rightarrow> fsys \<Rightarrow> bool" where
  "dir_is_empty d s \<longleftrightarrow> i_size (dinode s d) = dir_entry_size (sb (part s)) * 2"

definition dir_remove :: "ptr \<Rightarrow> ptr \<Rightarrow> fsys \<Rightarrow> (int \<times> fsys) res" where
  "dir_remove parent_dir child_dir s =
     bind_res (ASSERT (list_all (\<lambda>k. i_blocks (dinode s child_dir) ! k = 0) [1 ..< 13])
       ''child_dir_inode->i_blocks[block_idx] == 0'') (\<lambda>_.
     let (io_buf, s) = fs_malloc s in
     if io_buf = NULL then Inr (-1, s)
     else
       bind_res (delete_dir_entry parent_dir (i_no (dinode s child_dir)) s) (\<lambda>(_, s).
       bind_res (inode_release (i_no (dinode s child_dir)) s) (\<lambda>s. Inr (0, s))))"

end
