(* ===== verification/Blocks.thy ===== *)
theory Blocks
  imports Dir
begin

text \<open>
  The data blocks of a mounted partition, as the clients of the allocation routines see them: which
  blocks are in use (\<open>used\<close>), what allocating one does to that set, and that writing a sector of the
  block bitmap leaves the table of i-nodes and the data alone. \<open>geom_ok\<close> is the layout
  \<^verbatim>\<open>partition_format\<close> makes: block bitmap, table of i-nodes and data one behind the other, a bit per
  block, block 0 taken by the root directory.
\<close>

definition geom_ok :: "fsys \<Rightarrow> bool" where
  "geom_ok s \<longleftrightarrow>
     (let b = sb (part s); bm = block_bitmap (part s) in
      fs_ok s \<and> bitmap_wf bm \<and> bit_at bm 0 \<and> unat (btmp_bytes_len bm) = 512 * unat (block_bitmap_sects b) \<and>
      0 < unat (block_bitmap_sects b) \<and> length (bits bm) = 512 * unat (block_bitmap_sects b) \<and>
      unat (block_bitmap_lba b) + unat (block_bitmap_sects b) \<le> unat (inode_table_lba b) \<and>
      unat (inode_table_lba b) + 608 \<le> unat (data_start_lba b) \<and>
      unat (data_start_lba b) + nbits bm \<le> Suc (unat max_lba))"

abbreviation data_lba :: "fsys \<Rightarrow> u32" where
  "data_lba s \<equiv> data_start_lba (sb (part s))"

abbreviation table_lba :: "fsys \<Rightarrow> u32" where
  "table_lba s \<equiv> inode_table_lba (sb (part s))"

definition data_area :: "fsys \<Rightarrow> u32 set" where
  "data_area s = {b. unat (data_lba s) \<le> unat b \<and> unat b - unat (data_lba s) < nbits (block_bitmap (part s))}"

definition used :: "fsys \<Rightarrow> u32 set" where
  "used s = {b \<in> data_area s. bit_at (block_bitmap (part s)) (unat b - unat (data_lba s))}"

definition nfree :: "fsys \<Rightarrow> nat" where
  "nfree s = card {j. j < nbits (block_bitmap (part s)) \<and> \<not> bit_at (block_bitmap (part s)) j}"

text \<open>None of these depends on more than the disk and the partition.\<close>

lemma geom_cong:
  assumes "part s' = part s"
  shows "full_sectors (disk s') \<Longrightarrow> geom_ok s \<Longrightarrow> geom_ok s'" and "data_area s' = data_area s" and "used s' = used s" and "nfree s' = nfree s"
  using assms by (simp_all add: geom_ok_def fs_ok_def data_area_def used_def nfree_def Let_def)

lemma geom_full: "geom_ok s \<Longrightarrow> full_sectors (disk s)"
  by (simp add: geom_ok_def fs_ok_def Let_def)

lemma data_area_bounds:
  assumes "geom_ok s" and "b \<in> data_area s"
  shows "b \<le> max_lba" and "unat (table_lba s) + 608 \<le> unat b" and "b \<noteq> 0" and "b \<noteq> -1"
    and "unat (b - data_lba s) = unat b - unat (data_lba s)"
proof -
  have mx: "unat max_lba = 163839" by (simp add: max_lba_def)
  have g: "unat (table_lba s) + 608 \<le> unat (data_lba s)"
    "unat (data_lba s) + nbits (block_bitmap (part s)) \<le> Suc (unat max_lba)"
    using assms(1) by (simp_all add: geom_ok_def Let_def)
  have b: "unat (data_lba s) \<le> unat b" "unat b - unat (data_lba s) < nbits (block_bitmap (part s))"
    using assms(2) by (simp_all add: data_area_def)
  have "unat b \<le> unat max_lba" using g b by linarith
  then show "b \<le> max_lba" by (simp add: word_le_nat_alt)
  show "unat (table_lba s) + 608 \<le> unat b" using g b by linarith
  then show "b \<noteq> 0" by auto
  show "b \<noteq> -1"
  proof
    assume "b = -1"
    then have "unat b = 4294967295" by (simp add: unsigned_minus_1_eq_mask mask_eq_exp_minus_1)
    then show False using \<open>unat b \<le> unat max_lba\<close> mx by simp
  qed
  show "unat (b - data_lba s) = unat b - unat (data_lba s)" using b(1) by (subst unat_sub_small) simp_all
qed

lemma nfree_ex: "0 < nfree s \<Longrightarrow> \<exists>m. m < nbits (block_bitmap (part s)) \<and> \<not> bit_at (block_bitmap (part s)) m"
proof (rule ccontr)
  assume "0 < nfree s" and "\<not> (\<exists>m. m < nbits (block_bitmap (part s)) \<and> \<not> bit_at (block_bitmap (part s)) m)"
  then have "{j. j < nbits (block_bitmap (part s)) \<and> \<not> bit_at (block_bitmap (part s)) j} = {}" by blast
  then show False using \<open>0 < nfree s\<close> unfolding nfree_def by (simp only: card.empty)
qed

lemma alloc_block:
  assumes g: "geom_ok s" and f: "0 < nfree s"
  shows "\<exists>b bm. block_bitmap_alloc s = Inr (b, s\<lparr>part := (part s)\<lparr>block_bitmap := bm\<rparr>\<rparr>) \<and> b \<in> data_area s \<and> b \<notin> used s \<and>
     b - data_lba s \<noteq> 0 \<and> geom_ok (s\<lparr>part := (part s)\<lparr>block_bitmap := bm\<rparr>\<rparr>) \<and>
     data_area (s\<lparr>part := (part s)\<lparr>block_bitmap := bm\<rparr>\<rparr>) = data_area s \<and>
     used (s\<lparr>part := (part s)\<lparr>block_bitmap := bm\<rparr>\<rparr>) = insert b (used s) \<and>
     nfree (s\<lparr>part := (part s)\<lparr>block_bitmap := bm\<rparr>\<rparr>) = nfree s - 1"
proof -
  let ?b = "block_bitmap (part s)" and ?ds = "unat (data_lba s)"
  have wf: "bitmap_wf ?b" and z: "bit_at ?b 0" and gd: "?ds + nbits ?b \<le> Suc (unat max_lba)" using g by (simp_all add: geom_ok_def Let_def)
  from nfree_ex [OF f] obtain m where m: "m < nbits ?b" "\<not> bit_at ?b m" by blast
  from block_alloc_spec [OF wf m] obtain n bm where
    n: "block_bitmap_alloc s = Inr (data_lba s + of_nat n, s\<lparr>part := (part s)\<lparr>block_bitmap := bm\<rparr>\<rparr>)"
      "n < nbits bm" "bitmap_wf bm" "nbits bm = nbits ?b" "\<not> bit_at ?b n" "length (bits bm) = length (bits ?b)"
      "\<forall>j < nbits bm. bit_at bm j \<longleftrightarrow> j = n \<or> bit_at ?b j" by blast
  let ?x = "data_lba s + of_nat n" and ?s = "s\<lparr>part := (part s)\<lparr>block_bitmap := bm\<rparr>\<rparr>"
  have ns: "n < 4294967296" "?ds + n < 4294967296" using n(2,4) gd by (simp_all add: max_lba_def)
  have u: "unat ?x = ?ds + n" using ns by (subst unat_add_small) simp_all
  have xa: "?x \<in> data_area s" using n(2,4) u by (simp add: data_area_def)
  have xu: "?x \<notin> used s" using n(5) u by (simp add: used_def)
  have n0: "n \<noteq> 0" using n(5) z by metis
  have "?x - data_lba s = of_nat n" by simp
  moreover have "(of_nat n :: u32) \<noteq> 0" using n0 ns(1) unat_of_nat_u32 [of n] by (metis unat_0)
  ultimately have nz: "?x - data_lba s \<noteq> 0" by simp
  have da: "data_area ?s = data_area s" using n(4) by (simp add: data_area_def)
  have b0: "bit_at bm 0" using n(2,7) z by (cases "nbits bm") auto
  have ge: "geom_ok ?s" using g n(3,4,6) b0 by (simp add: geom_ok_def fs_ok_def Let_def)
  have "b \<in> used ?s \<longleftrightarrow> b \<in> insert ?x (used s)" for b
  proof (cases "b \<in> data_area s")
    case True
    then have i: "unat b - ?ds < nbits bm" "?ds \<le> unat b" using n(4) by (simp_all add: data_area_def)
    have "unat b - ?ds = n \<longleftrightarrow> b = ?x" using i(2) u by (auto simp: word_eq_iff_unsigned)
    then show ?thesis using True i(1) n(7) da by (simp add: used_def)
  qed (use da xa in \<open>auto simp: used_def\<close>)
  then have us: "used ?s = insert ?x (used s)" by blast
  have "{j. j < nbits bm \<and> \<not> bit_at bm j} = {j. j < nbits ?b \<and> \<not> bit_at ?b j} - {n}" using n(4,7) by auto
  moreover have "n \<in> {j. j < nbits ?b \<and> \<not> bit_at ?b j}" using n(2,4,5) by simp
  ultimately have nf: "nfree ?s = nfree s - 1" by (simp add: nfree_def)
  show ?thesis using n(1) xa xu nz ge da us nf by blast
qed

text \<open>Writing the sector of the block bitmap that has the bit of a block.\<close>

lemma sync_block_bitmap:
  assumes g: "geom_ok s" and b: "b \<in> data_area s"
  shows "\<exists>d. bitmap_sync (b - data_lba s) BLOCK_BITMAP s = Inr (s\<lparr>disk := d\<rparr>) \<and> full_sectors d \<and>
     (\<forall>a. unat (table_lba s) \<le> unat a \<longrightarrow> d a = disk s a)"
proof -
  let ?i = "b - data_lba s" and ?bb = "block_bitmap_lba (sb (part s))" and ?bm = "block_bitmap (part s)"
  let ?n = "unat (block_bitmap_sects (sb (part s)))"
  have mx: "unat max_lba = 163839" by (simp add: max_lba_def)
  have gg: "unat (btmp_bytes_len ?bm) = 512 * ?n" "length (bits ?bm) = 512 * ?n" "unat ?bb + ?n \<le> unat (table_lba s)"
    "unat (table_lba s) + 608 \<le> Suc (unat max_lba)" "full_sectors (disk s)"
    using g by (simp_all add: geom_ok_def fs_ok_def table_at_def Let_def)
  have i: "unat ?i < 4096 * ?n"
    using data_area_bounds(5) [OF g b] b gg(1) by (simp add: data_area_def)
  define q where "q = unat ?i div 4096"
  have q: "q < ?n" using i by (simp add: q_def div_less_iff_less_mult mult.commute)
  have os: "unat (?i div 4096) = q" by (simp add: q_def unat_div_distrib)
  have qs: "q < 163840" using q gg(3,4) mx by linarith
  have off: "unat (?i div 4096 * 512) = 512 * q" using os qs by (subst unat_mult_small) simp_all
  have lb: "unat (?bb + ?i div 4096) = unat ?bb + q" using os q gg(3,4) mx by (subst unat_add_small) simp_all
  then have le: "?bb + ?i div 4096 \<le> max_lba" using q gg(3,4) mx by (simp add: word_le_nat_alt)
  let ?bf = "drop (512 * q) (bits ?bm)"
  have lbf: "512 \<le> length ?bf" using gg(2) q by simp
  let ?d = "put_sectors (disk s) (?bb + ?i div 4096) ?bf 1"
  have "bitmap_sync ?i BLOCK_BITMAP s = Inr (s\<lparr>disk := ?d\<rparr>)"
    unfolding bitmap_sync_def Let_def bitmap_type.case prod.case off disk_write_def
    using le lbf by (simp add: lba_ok_def)
  moreover have "full_sectors ?d" using gg(5) lbf by (auto simp: full_sectors_def put_sectors_def unat_eq_0)
  moreover have "?d a = disk s a" if "unat (table_lba s) \<le> unat a" for a
  proof -
    have "a \<noteq> ?bb + ?i div 4096" using that lb q gg(3) by auto
    then show ?thesis by (simp add: put_sectors_def unat_eq_0)
  qed
  ultimately show ?thesis by blast
qed

lemma geom_disk: "geom_ok s \<Longrightarrow> full_sectors d \<Longrightarrow> geom_ok (s\<lparr>disk := d\<rparr>)"
  by (simp add: geom_ok_def fs_ok_def Let_def)

end
