(* ===== verification/File.thy ===== *)
theory File
  imports Dir
begin

text \<open>
  Files: \<^verbatim>\<open>fs/file.c\<close>. A \<^verbatim>\<open>struct file\<close> pointer is its index in the file table. \<^verbatim>\<open>sys_malloc\<close> hands out
  zeroed blocks, so \<^verbatim>\<open>all_blocks\<close> starts as 140 zero addresses. The early returns of \<^verbatim>\<open>-1\<close> inside
  loops are \<open>None\<close>. The source of a write is the list of bytes from \<^verbatim>\<open>buf\<close> on, the result of a read
  the list of bytes stored.
\<close>

section \<open>Creating, opening, closing\<close>

definition fd_inode_of :: "nat \<Rightarrow> fsys \<Rightarrow> ptr" where
  "fd_inode_of g s = fd_inode (file_table (io s) ! g)"

definition install_fd :: "nat \<Rightarrow> fsys \<Rightarrow> int \<times> fsys" where
  "install_fd g s = (let (r, st) = pcb_fd_install (of_nat g) (io s) in (r, s\<lparr>io := st\<rparr>))"

definition file_create :: "ptr \<Rightarrow> u8 list \<Rightarrow> u8 \<Rightarrow> fsys \<Rightarrow> (int \<times> fsys) res" where
  "file_create parent_dir fname flag s =
     (let (io_buf, s) = fs_malloc s in
      if io_buf = NULL then Inr (-1, s)
      else
        bind_res (inode_bitmap_alloc s) (\<lambda>(inode_no, s).
        if inode_no = -1 then Inr (-1, s)
        else
          let rollback1 = (\<lambda>s. bind_res (set_inode_bit (of_int inode_no) 0 s) (\<lambda>s. Inr (-1, s)));
              (new_file_inode, s) = fs_malloc s
          in
          if new_file_inode = NULL then rollback1 s
          else
            let s = upd_inode new_file_inode (\<lambda>_. inode_init (of_int inode_no)) s;
                fd_idx = get_free_slot_in_global (file_table (io s))
            in
            if fd_idx = -1 then rollback1 s
            else
              let g = nat fd_idx;
                  s = upd_file g (\<lambda>_. \<lparr>fd_pos = 0, fd_flag = ucast flag, fd_inode = new_file_inode\<rparr>) s;
                  s = upd_inode new_file_inode (\<lambda>i. i\<lparr>write_deny := False\<rparr>) s
              in
              bind_res (create_dir_entry fname (of_int inode_no) FT_REGULAR) (\<lambda>new_dir_entry.
              bind_res (sync_dir_entry parent_dir new_dir_entry s) (\<lambda>(ok, s).
              if \<not> ok then rollback1 (upd_file g (\<lambda>_. \<lparr>fd_pos = 0, fd_flag = 0, fd_inode = NULL\<rparr>) s)
              else
                bind_res (inode_sync (dinode s parent_dir) 1024 s) (\<lambda>s.
                bind_res (inode_sync (inodes s new_file_inode) 1024 s) (\<lambda>s.
                bind_res (bitmap_sync (of_int inode_no) INODE_BITMAP s) (\<lambda>s.
                let s = upd_part (\<lambda>p. p\<lparr>open_inodes := new_file_inode # open_inodes p\<rparr>) s;
                    s = upd_inode new_file_inode (\<lambda>i. i\<lparr>i_open_cnts := 1\<rparr>) s
                in Inr (install_fd g s))))))))"

text \<open>When the file is being written by another task, the slot and the use count stay taken.\<close>

definition file_open :: "u32 \<Rightarrow> u8 \<Rightarrow> fsys \<Rightarrow> (int \<times> fsys) res" where
  "file_open inode_no flag s =
     (let fd_idx = get_free_slot_in_global (file_table (io s)) in
      if fd_idx = -1 then Inr (-1, s)
      else
        bind_res (inode_open inode_no s) (\<lambda>(p, s).
        let g = nat fd_idx;
            s = upd_file g (\<lambda>_. \<lparr>fd_pos = 0, fd_flag = ucast flag, fd_inode = p\<rparr>) s
        in
        if ucast flag = O_WRONLY \<or> ucast flag = O_RDWR then
          if \<not> write_deny (inodes s p) then Inr (install_fd g (upd_inode p (\<lambda>i. i\<lparr>write_deny := True\<rparr>) s))
          else Inr (-1, s)
        else Inr (install_fd g s)))"

definition file_close :: "nat \<Rightarrow> fsys \<Rightarrow> (int \<times> fsys) res" where
  "file_close g s =
     (let p = fd_inode_of g s in
      if p = NULL then Inl Bad_Access
      else
        let s = upd_inode p (\<lambda>i. i\<lparr>write_deny := False\<rparr>) s;
            s = inode_close p s
        in Inr (0, upd_file g (\<lambda>f. f\<lparr>fd_inode := NULL\<rparr>) s))"

section \<open>Writing\<close>

text \<open>Blocks \<open>block_idx ..< block_idx + n\<close>: the direct ones are entered into the i-node.\<close>

primrec alloc_loop :: "nat \<Rightarrow> nat \<Rightarrow> ptr \<Rightarrow> u32 list \<Rightarrow> fsys \<Rightarrow> (u32 list option \<times> fsys) res" where
  "alloc_loop 0 block_idx p all_blocks s = Inr (Some all_blocks, s)"
| "alloc_loop (Suc n) block_idx p all_blocks s =
     bind_res (block_bitmap_alloc s) (\<lambda>(block_lba, s).
     if block_lba = -1 then Inr (None, s)
     else
       bind_res
         (if block_idx < 12 then
            bind_res (ASSERT (i_blocks (inodes s p) ! block_idx = 0) ''file->fd_inode->i_blocks[block_idx] == 0'') (\<lambda>_.
            Inr (set_block p block_idx block_lba s))
          else Inr s) (\<lambda>s.
       let all_blocks = all_blocks[block_idx := block_lba];
           block_bitmap_idx = block_lba - data_start_lba (sb (part s))
       in bind_res (bitmap_sync block_bitmap_idx BLOCK_BITMAP s) (\<lambda>s.
          alloc_loop n (block_idx + 1) p all_blocks s)))"

text \<open>The block addresses a write needs.\<close>

definition write_blocks :: "nat \<Rightarrow> nat \<Rightarrow> ptr \<Rightarrow> fsys \<Rightarrow> (u32 list option \<times> fsys) res" where
  "write_blocks has_used will_use p s =
     (let all_blocks = replicate 140 0;
          blocks = i_blocks (inodes s p)
      in
      if will_use = has_used then
        if has_used \<le> 12 then
          Inr (Some (all_blocks[has_used - 1 := blocks ! (has_used - 1)]), s)
        else
          bind_res (ASSERT (blocks ! 12 \<noteq> 0) ''file->fd_inode->i_blocks[12] != 0'') (\<lambda>_.
          bind_res (disk_read (blocks ! 12) 1 s) (\<lambda>bs. Inr (Some (take 12 all_blocks @ dec_words bs 0 128), s)))
      else if will_use \<le> 12 then
        bind_res (load blocks (has_used - 1)) (\<lambda>b.
        bind_res (ASSERT (b \<noteq> 0) ''file->fd_inode->i_blocks[block_idx] != 0'') (\<lambda>_.
        alloc_loop (will_use - has_used) has_used p (all_blocks[has_used - 1 := b]) s))
      else if has_used \<le> 12 then
        let all_blocks = all_blocks[has_used - 1 := blocks ! (has_used - 1)] in
        bind_res (block_bitmap_alloc s) (\<lambda>(block_lba, s).
        if block_lba = -1 then Inr (None, s)
        else
          bind_res (ASSERT (i_blocks (inodes s p) ! 12 = 0) ''file->fd_inode->i_blocks[12] == 0'') (\<lambda>_.
          let s = set_block p 12 block_lba s in
          bind_res (alloc_loop (will_use - has_used) has_used p all_blocks s) (\<lambda>(r, s).
          case r of None \<Rightarrow> Inr (None, s)
          | Some all_blocks \<Rightarrow>
              bind_res (disk_write block_lba (enc_words (drop 12 all_blocks)) 1 s) (\<lambda>s. Inr (Some all_blocks, s)))))
      else
        bind_res (ASSERT (blocks ! 12 \<noteq> 0) ''file->fd_inode->i_blocks[12] != 0'') (\<lambda>_.
        bind_res (disk_read (blocks ! 12) 1 s) (\<lambda>bs.
        bind_res (alloc_loop (will_use - has_used) has_used p (take 12 all_blocks @ dec_words bs 0 128) s) (\<lambda>(r, s).
        case r of None \<Rightarrow> Inr (None, s)
        | Some all_blocks \<Rightarrow>
            bind_res (disk_write (blocks ! 12) (enc_words (drop 12 all_blocks)) 1 s) (\<lambda>s. Inr (Some all_blocks, s))))))"

function write_loop :: "nat \<Rightarrow> ptr \<Rightarrow> u32 list \<Rightarrow> u8 list \<Rightarrow> nat \<Rightarrow> bool \<Rightarrow> fsys \<Rightarrow> fsys res" where
  "write_loop g p all_blocks src size_left first_write_block s =
     (if size_left = 0 then Inr s
      else
        let i_sz = i_size (inodes s p);
            sec_idx = unat (i_sz div 512);
            sec_off_bytes = unat (i_sz mod 512);
            sec_left_bytes = 512 - sec_off_bytes;
            chunk_size = (if size_left < sec_left_bytes then size_left else sec_left_bytes)
        in
        bind_res (load all_blocks sec_idx) (\<lambda>sec_lba.
        bind_res (if first_write_block then disk_read sec_lba 1 s else Inr (replicate 512 0)) (\<lambda>io_buf.
        bind_res (memcpy (drop sec_off_bytes io_buf) src chunk_size) (\<lambda>r.
        bind_res (disk_write sec_lba (take sec_off_bytes io_buf @ r) 1 s) (\<lambda>s.
        let s = upd_inode p (\<lambda>i. i\<lparr>i_size := i_size i + of_nat chunk_size\<rparr>) s;
            s = upd_file g (\<lambda>f. f\<lparr>fd_pos := fd_pos f + of_nat chunk_size\<rparr>) s
        in write_loop g p all_blocks (drop chunk_size src) (size_left - chunk_size) False s)))))"
  by auto
termination
proof (relation "measure (\<lambda>(g, p, all_blocks, src, size_left, f, s). size_left)", goal_cases)
  case (2 g p all_blocks src size_left f s i_sz sec_idx sec_off sec_left chunk)
  have "unat (i_sz mod 512) < 512" by (simp add: unat_mod_distrib)
  then show ?case using 2 by auto
qed simp

definition first_block :: "ptr \<Rightarrow> fsys \<Rightarrow> (bool \<times> fsys) res" where
  "first_block p s =
     (if i_blocks (inodes s p) ! 0 = 0 then
        bind_res (block_bitmap_alloc s) (\<lambda>(block_lba, s).
        if block_lba = -1 then Inr (False, s)
        else
          let s = set_block p 0 block_lba s;
              block_bitmap_idx = block_lba - data_start_lba (sb (part s))
          in bind_res (ASSERT (block_bitmap_idx \<noteq> 0) ''block_bitmap_idx != 0'') (\<lambda>_.
             bind_res (bitmap_sync block_bitmap_idx BLOCK_BITMAP s) (\<lambda>s. Inr (True, s))))
      else Inr (True, s))"

definition file_write :: "nat \<Rightarrow> u8 list \<Rightarrow> u32 \<Rightarrow> fsys \<Rightarrow> (int \<times> fsys) res" where
  "file_write g src count s =
     (let p = fd_inode_of g s in
      if i_size (inodes s p) + count > 512 * 140 then Inr (-1, s)
      else
        let (io_buf, s) = fs_malloc s in
        if io_buf = NULL then Inr (-1, s)
        else
          let (blk, s) = fs_malloc s in
          if blk = NULL then Inr (-1, s)
          else
            bind_res (first_block p s) (\<lambda>(ok, s).
            if \<not> ok then Inr (-1, s)
            else
              let has_used = i_size (inodes s p) div 512 + 1;
                  will_use = (i_size (inodes s p) + count) div 512 + 1
              in
              bind_res (ASSERT (will_use \<le> 140) ''file_will_use_blocks <= 140'') (\<lambda>_.
              bind_res (write_blocks (unat has_used) (unat will_use) p s) (\<lambda>(r, s).
              case r of None \<Rightarrow> Inr (-1, s)
              | Some all_blocks \<Rightarrow>
                  let s = upd_file g (\<lambda>f. f\<lparr>fd_pos := i_size (inodes s p) - 1\<rparr>) s in
                  bind_res (write_loop g p all_blocks src (unat count) True s) (\<lambda>s.
                  bind_res (inode_sync (inodes s p) 512 s) (\<lambda>s. Inr (sint count, s)))))))"

section \<open>Reading\<close>

definition blocks_for_read :: "nat \<Rightarrow> nat \<Rightarrow> inode \<Rightarrow> fsys \<Rightarrow> u32 list res" where
  "blocks_for_read start_idx end_idx ino s =
     (let all_blocks = replicate 140 0;
          blocks = i_blocks ino
      in
      if start_idx = end_idx then
        if end_idx < 12 then Inr (all_blocks[end_idx := blocks ! end_idx])
        else bind_res (disk_read (blocks ! 12) 1 s) (\<lambda>bs. Inr (take 12 all_blocks @ dec_words bs 0 128))
      else if end_idx < 12 then
        Inr (fold (\<lambda>k ab. ab[k := blocks ! k]) [start_idx ..< end_idx + 1] all_blocks)
      else if start_idx < 12 then
        let all_blocks = fold (\<lambda>k ab. ab[k := blocks ! k]) [start_idx ..< 12] all_blocks in
        bind_res (ASSERT (blocks ! 12 \<noteq> 0) ''file->fd_inode->i_blocks[12] != 0'') (\<lambda>_.
        bind_res (disk_read (blocks ! 12) 1 s) (\<lambda>bs. Inr (take 12 all_blocks @ dec_words bs 0 128)))
      else
        bind_res (ASSERT (blocks ! 12 \<noteq> 0) ''file->fd_inode->i_blocks[12] != 0'') (\<lambda>_.
        bind_res (disk_read (blocks ! 12) 1 s) (\<lambda>bs. Inr (take 12 all_blocks @ dec_words bs 0 128))))"

function read_loop :: "nat \<Rightarrow> u32 list \<Rightarrow> nat \<Rightarrow> u8 list \<Rightarrow> fsys \<Rightarrow> (u8 list \<times> fsys) res" where
  "read_loop g all_blocks size_left acc s =
     (if size_left = 0 then Inr (acc, s)
      else
        let pos = fd_pos (file_table (io s) ! g);
            sec_idx = unat (pos div 512);
            sec_off_bytes = unat (pos mod 512);
            sec_left_bytes = 512 - sec_off_bytes;
            chunk_size = (if size_left < sec_left_bytes then size_left else sec_left_bytes)
        in
        bind_res (load all_blocks sec_idx) (\<lambda>sec_lba.
        bind_res (disk_read sec_lba 1 s) (\<lambda>io_buf.
        let s = upd_file g (\<lambda>f. f\<lparr>fd_pos := fd_pos f + of_nat chunk_size\<rparr>) s
        in read_loop g all_blocks (size_left - chunk_size) (acc @ take chunk_size (drop sec_off_bytes io_buf)) s)))"
  by auto
termination
proof (relation "measure (\<lambda>(g, all_blocks, size_left, acc, s). size_left)", goal_cases)
  case (2 g all_blocks size_left acc s pos sec_idx sec_off sec_left chunk)
  have "unat (pos mod 512) < 512" by (simp add: unat_mod_distrib)
  then show ?case using 2 by auto
qed simp

text \<open>A \<^verbatim>\<open>NULL\<close> buffer is reported and then used all the same.\<close>

definition file_read :: "nat \<Rightarrow> u32 \<Rightarrow> fsys \<Rightarrow> (int \<times> u8 list \<times> fsys) res" where
  "file_read g count s =
     (let p = fd_inode_of g s;
          pos = fd_pos (file_table (io s) ! g);
          beyond = pos + count > i_size (inodes s p);
          sz = (if beyond then i_size (inodes s p) - pos else count)
      in
      if beyond \<and> sz = 0 then Inr (-1, [], s)
      else
        let (io_buf, s) = fs_malloc s;
            (blk, s) = fs_malloc s
        in
        if blk = NULL then Inr (-1, [], s)
        else
          let start_idx = pos div 512; end_idx = (pos + sz) div 512 in
          bind_res (ASSERT (start_idx < 139 \<and> end_idx < 139) ''block_read_start_idx < 139 && block_read_end_idx < 139'') (\<lambda>_.
          bind_res (blocks_for_read (unat start_idx) (unat end_idx) (inodes s p) s) (\<lambda>all_blocks.
          bind_res (ASSERT (io_buf \<noteq> NULL \<or> sz = 0) ''dst_ != NULL'') (\<lambda>_.
          bind_res (read_loop g all_blocks (unat sz) [] s) (\<lambda>(bs, s). Inr (sint sz, bs, s))))))"

declare write_loop.simps [simp del]
declare read_loop.simps [simp del]

end
