(* ===== verification/FileSpec.thy ===== *)
theory FileSpec
  imports File Blocks
begin

text \<open>
  What reading and writing a file does to its contents. The contents of a file are its first
  \<^verbatim>\<open>i_size\<close> bytes (\<open>fbytes\<close>), found through the block addresses; a write appends, a read returns the
  bytes from the position on. The block addresses (\<open>blks\<close>) are the twelve of the i-node and the 128 of its table
  block.
\<close>

section \<open>Transfers\<close>

text \<open>\<open>sbyte d ab i\<close>: byte \<open>i\<close> of a file whose block addresses are \<open>ab\<close>.\<close>

definition sbyte :: "(u32 \<Rightarrow> u8 list) \<Rightarrow> u32 list \<Rightarrow> nat \<Rightarrow> u8" where
  "sbyte d ab i = d (ab ! (i div 512)) ! (i mod 512)"




lemma upd_file_sel [simp]:
  "disk (upd_file g f s) = disk s" "part (upd_file g f s) = part s" "inodes (upd_file g f s) = inodes s"
  "mallocs (upd_file g f s) = mallocs s" "length (file_table (io (upd_file g f s))) = length (file_table (io s))"
  "g < length (file_table (io s)) \<Longrightarrow> file_table (io (upd_file g f s)) ! g = f (file_table (io s) ! g)"
  by (simp_all add: upd_file_def)

lemma upd_inode_sel [simp]:
  "disk (upd_inode p f s) = disk s" "part (upd_inode p f s) = part s" "io (upd_inode p f s) = io s"
  "mallocs (upd_inode p f s) = mallocs s" "inodes (upd_inode p f s) = (inodes s)(p := f (inodes s p))"
  by (simp_all add: upd_inode_def)


lemma patched_sector:
  fixes z :: nat
  assumes "length io_buf = 512" and "c \<le> 512 - z mod 512" and "c \<le> length src"
  defines "v \<equiv> take (z mod 512) io_buf @ take c src @ drop (z mod 512 + c) io_buf"
  shows "length v = 512"
    and "i div 512 = z div 512 \<Longrightarrow> i < z + c \<Longrightarrow> v ! (i mod 512) = (if i < z then io_buf ! (i mod 512) else src ! (i - z))"
proof -
  have m: "z mod 512 < 512" by simp
  show "length v = 512" using assms m by (simp add: v_def)
  assume d: "i div 512 = z div 512" and l: "i < z + c"
  have e: "i = 512 * (z div 512) + i mod 512" "z = 512 * (z div 512) + z mod 512"
    using mult_div_mod_eq [of 512 i] mult_div_mod_eq [of 512 z] unfolding d by (simp_all only:)
  then have lt: "i < z \<longleftrightarrow> i mod 512 < z mod 512" and df: "i - z = i mod 512 - z mod 512" by linarith+
  show "v ! (i mod 512) = (if i < z then io_buf ! (i mod 512) else src ! (i - z))"
  proof (cases "i < z")
    case True
    then show ?thesis using lt assms(1) m by (simp add: v_def nth_append)
  next
    case False
    then have "i - z < c" using l by linarith
    then show ?thesis using False lt df assms(1,3) m by (simp add: v_def nth_append)
  qed
qed

definition wrote :: "nat \<Rightarrow> ptr \<Rightarrow> nat \<Rightarrow> fsys \<Rightarrow> fsys" where
  "wrote g p n s = upd_file g (\<lambda>f. f\<lparr>fd_pos := fd_pos f + of_nat n\<rparr>) (upd_inode p (\<lambda>i. i\<lparr>i_size := i_size i + of_nat n\<rparr>) s)"

lemma wrote_sel [simp]:
  "disk (wrote g p n s) = disk s" "part (wrote g p n s) = part s" "mallocs (wrote g p n s) = mallocs s"
  "inodes (wrote g p n s) = (inodes s)(p := (inodes s p)\<lparr>i_size := i_size (inodes s p) + of_nat n\<rparr>)"
  "length (file_table (io (wrote g p n s))) = length (file_table (io s))"
  by (simp_all add: wrote_def)

lemma wrote_0: "wrote g p 0 s = s"
  by (simp add: wrote_def upd_file_def upd_inode_def)

lemma wrote_wrote:
  "g < length (file_table (io s)) \<Longrightarrow> wrote g p m ((wrote g p n (s\<lparr>disk := d1\<rparr>))\<lparr>disk := d2\<rparr>) = wrote g p (n + m) (s\<lparr>disk := d2\<rparr>)"
  by (simp add: wrote_def upd_file_def upd_inode_def add.assoc)

text \<open>One round of the loop.\<close>

lemma write_loop_step:
  assumes "full_sectors (disk s)" and z: "z = unat (i_size (inodes s p))" and zn: "z + n \<le> 71680" and ab: "length ab = 140"
    and n: "0 < n" "n \<le> length src" and lb: "ab ! (z div 512) \<le> max_lba"
  defines "c \<equiv> if n < 512 - z mod 512 then n else 512 - z mod 512"
  shows "\<exists>v. write_loop g p ab src n fw s =
       write_loop g p ab (drop c src) (n - c) False (wrote g p c (s\<lparr>disk := (disk s)(ab ! (z div 512) := v)\<rparr>)) \<and> length v = 512 \<and>
     (\<forall>i. i div 512 = z div 512 \<and> i < z + c \<and> (fw \<or> z \<le> i) \<longrightarrow> v ! (i mod 512) = (if i < z then sbyte (disk s) ab i else src ! (i - z)))"
proof -
  let ?q = "z div 512"
  define io_buf where "io_buf = (if fw then disk s (ab ! ?q) else replicate 512 0)"
  define v where "v = take (z mod 512) io_buf @ take c src @ drop (z mod 512 + c) io_buf"
  have m: "z mod 512 < 512" by simp
  have c: "c \<le> 512 - z mod 512" "c \<le> length src" "c \<le> n" using n by (auto simp: c_def)
  have l: "length io_buf = 512" using assms(1) by (simp add: io_buf_def full_sectors_def)
  have sec: "unat (i_size (inodes s p) div 512) = ?q" "unat (i_size (inodes s p) mod 512) = z mod 512"
    using z by (simp_all add: unat_div_distrib unat_mod_distrib)
  have q: "?q < 140" using zn n by (simp add: div_less_iff_less_mult)
  note ps = patched_sector [OF l c(1,2), folded v_def]
  have ld: "load ab ?q = Inr (ab ! ?q)" using q ab by simp
  have rd: "(if fw then disk_read (ab ! ?q) 1 s else Inr (replicate 512 0)) = Inr io_buf"
    using disk_read_1 [OF lb, of s] by (cases fw) (simp_all add: io_buf_def)
  have mc: "memcpy (drop (z mod 512) io_buf) src c = Inr (take c src @ drop (z mod 512 + c) io_buf)"
    using memcpy_eq [of c "drop (z mod 512) io_buf" src] l c m by (simp add: add.commute)
  have dw: "disk_write (ab ! ?q) (take (z mod 512) io_buf @ take c src @ drop (z mod 512 + c) io_buf) 1 s =
      Inr (s\<lparr>disk := (disk s)(ab ! ?q := v)\<rparr>)" unfolding v_def [symmetric] by (rule disk_write_1 [OF lb ps(1)])
  have "n \<noteq> 0" using n(1) by simp
  then have "write_loop g p ab src n fw s =
      write_loop g p ab (drop c src) (n - c) False (wrote g p c (s\<lparr>disk := (disk s)(ab ! ?q := v)\<rparr>))"
    unfolding write_loop.simps [of g p ab src n fw s] Let_def sec c_def [symmetric] ld bind_res_Inr rd mc dw wrote_def
    by (simp only: if_False)
  moreover have "v ! (i mod 512) = (if i < z then sbyte (disk s) ab i else src ! (i - z))"
    if "i div 512 = z div 512" "i < z + c" "fw \<or> z \<le> i" for i
    using ps(2) [OF that(1,2)] that(1,3) by (auto simp: io_buf_def sbyte_def)
  ultimately show ?thesis using ps(1) by (intro exI [of _ v]) simp
qed

lemma next_sector: "(z :: nat) + (512 - z mod 512) = 512 * (z div 512 + 1)"
proof -
  define q r where "q = z div 512" and "r = z mod 512"
  have "z = 512 * q + r" "r < 512" unfolding q_def r_def by simp_all
  then show ?thesis unfolding q_def [symmetric] r_def [symmetric] by simp
qed

lemma write_loop_eq:
  assumes "full_sectors (disk s)" and "g < length (file_table (io s))" and "z = unat (i_size (inodes s p))" and "z + n \<le> 71680"
    and "length ab = 140" and "n \<le> length src" and "n = 0 \<or> fw \<or> z mod 512 = 0"
    and "\<And>k. z div 512 \<le> k \<Longrightarrow> 512 * k < z + n \<Longrightarrow> ab ! k \<le> max_lba"
    and "\<And>j k. z div 512 \<le> j \<Longrightarrow> j < k \<Longrightarrow> 512 * k < z + n \<Longrightarrow> ab ! j \<noteq> ab ! k"
  shows "\<exists>d. write_loop g p ab src n fw s = Inr (wrote g p n (s\<lparr>disk := d\<rparr>)) \<and> full_sectors d \<and>
     (\<forall>i. z div 512 \<le> i div 512 \<and> i < z + n \<longrightarrow> sbyte d ab i = (if i < z then sbyte (disk s) ab i else src ! (i - z))) \<and>
     (\<forall>a. (\<forall>k. z div 512 \<le> k \<and> 512 * k < z + n \<longrightarrow> a \<noteq> ab ! k) \<longrightarrow> d a = disk s a)"
  using assms
proof (induction n arbitrary: s z src fw rule: less_induct)
  case (less n)
  show ?case
  proof (cases "n = 0")
    case True
    have "s\<lparr>disk := disk s\<rparr> = s" by simp
    then show ?thesis using True less.prems(1) by (intro exI [of _ "disk s"]) (simp add: write_loop.simps wrote_0)
  next
    case False
    define c where "c = (if n < 512 - z mod 512 then n else 512 - z mod 512)"
    let ?q = "z div 512"
    have m: "z mod 512 < 512" and e: "z = 512 * ?q + z mod 512" by simp_all
    have c: "0 < c" "c \<le> n" "c \<le> 512 - z mod 512" using False m by (auto simp: c_def)
    have qn: "512 * ?q < z + n" using False times_div_less_eq_dividend [of 512 z] by linarith
    then have lb: "ab ! ?q \<le> max_lba" using less.prems(8) [of ?q] by simp
    from write_loop_step [OF less.prems(1,3,4,5) _ less.prems(6) lb, of g fw, folded c_def] False obtain v where
      st: "write_loop g p ab src n fw s =
         write_loop g p ab (drop c src) (n - c) False (wrote g p c (s\<lparr>disk := (disk s)(ab ! ?q := v)\<rparr>))" and lv: "length v = 512" and
      v: "\<And>i. i div 512 = ?q \<Longrightarrow> i < z + c \<Longrightarrow> fw \<or> z \<le> i \<Longrightarrow> v ! (i mod 512) = (if i < z then sbyte (disk s) ab i else src ! (i - z))"
      by auto
    have fwi: "fw \<or> z \<le> i" if "i div 512 = ?q" for i
      using less.prems(7) False that e mult_div_mod_eq [of 512 i] by auto
    let ?d = "(disk s)(ab ! ?q := v)"
    have fd: "full_sectors ?d" using less.prems(1) lv by (simp add: full_sectors_def)
    have zc: "unat (i_size (inodes s p) + of_nat c) = z + c" using less.prems(3,4) c(2) by (simp add: unat_add_small)
    show ?thesis
    proof (cases "n = c")
      case True
      have b: "sbyte ?d ab i = (if i < z then sbyte (disk s) ab i else src ! (i - z))" if "?q \<le> i div 512" "i < z + n" for i
      proof -
        have "i < (?q + 1) * 512" using that(2) c(3) True next_sector [of z] by simp
        then have "i div 512 < ?q + 1" by (simp only: div_less_iff_less_mult zero_less_numeral)
        then have "i div 512 = ?q" using that(1) by simp
        with v [OF this _ fwi [OF this]] that True show ?thesis by (simp add: sbyte_def)
      qed
      have "write_loop g p ab src n fw s = Inr (wrote g p n (s\<lparr>disk := ?d\<rparr>))" using st True by (simp add: write_loop.simps)
      moreover have "?d a = disk s a" if "\<forall>k. ?q \<le> k \<and> 512 * k < z + n \<longrightarrow> a \<noteq> ab ! k" for a
        using that [rule_format, of ?q] qn by simp
      ultimately show ?thesis using fd b by blast
    next
      case False
      then have cl: "c = 512 - z mod 512" "c < n" using c(2) by (auto simp: c_def split: if_splits)
      then have z1: "z + c = 512 * (?q + 1)" using next_sector [of z] by simp
      have q1: "(z + c) div 512 = ?q + 1" "(z + c) mod 512 = 0" unfolding z1 by simp_all
      let ?s = "wrote g p c (s\<lparr>disk := ?d\<rparr>)"
      have "\<exists>d. write_loop g p ab (drop c src) (n - c) False ?s = Inr (wrote g p (n - c) (?s\<lparr>disk := d\<rparr>)) \<and> full_sectors d \<and>
         (\<forall>i. (z + c) div 512 \<le> i div 512 \<and> i < z + c + (n - c) \<longrightarrow>
            sbyte d ab i = (if i < z + c then sbyte (disk ?s) ab i else drop c src ! (i - (z + c)))) \<and>
         (\<forall>a. (\<forall>k. (z + c) div 512 \<le> k \<and> 512 * k < z + c + (n - c) \<longrightarrow> a \<noteq> ab ! k) \<longrightarrow> d a = disk ?s a)"
      proof (rule less.IH)
        show "n - c < n" using c(1) cl(2) by simp
        have "disk ?s = ?d" by simp
        then show "full_sectors (disk ?s)" using fd by (simp only:)
        show "z + c = unat (i_size (inodes ?s p))" using zc by simp
        show "z + c + (n - c) \<le> 71680" using less.prems(4) c(2) by simp
        show "ab ! k \<le> max_lba" if "(z + c) div 512 \<le> k" "512 * k < z + c + (n - c)" for k
          using less.prems(8) [of k] that q1(1) c(2) by simp
        show "ab ! j \<noteq> ab ! k" if "(z + c) div 512 \<le> j" "j < k" "512 * k < z + c + (n - c)" for j k
          using less.prems(9) [of j k] that q1(1) c(2) by simp
      qed (use fd less.prems c q1 in simp_all)
      then obtain d where d: "write_loop g p ab (drop c src) (n - c) False ?s = Inr (wrote g p (n - c) (?s\<lparr>disk := d\<rparr>))" "full_sectors d"
        "\<And>i. ?q + 1 \<le> i div 512 \<Longrightarrow> i < z + n \<Longrightarrow> sbyte d ab i = (if i < z + c then sbyte ?d ab i else drop c src ! (i - (z + c)))"
        "\<And>a. (\<And>k. ?q + 1 \<le> k \<Longrightarrow> 512 * k < z + n \<Longrightarrow> a \<noteq> ab ! k) \<Longrightarrow> d a = ?d a"
        using q1(1) c(2) by auto
      have dq: "d (ab ! ?q) = v" using d(4) [of "ab ! ?q"] less.prems(9) [of ?q] by simp
      have b: "sbyte d ab i = (if i < z then sbyte (disk s) ab i else src ! (i - z))" if "?q \<le> i div 512" "i < z + n" for i
      proof (cases "i div 512 = ?q")
        case True
        then have "i < z + c" using z1 mult_div_mod_eq [of 512 i] by simp
        then show ?thesis using v [OF True _ fwi [OF True]] dq True by (simp add: sbyte_def)
      next
        case False
        then have i: "?q + 1 \<le> i div 512" using that by simp
        then have "z + c \<le> i" using z1 mult_le_mono2 [OF i, of 512] times_div_less_eq_dividend [of 512 i] by linarith
        then show ?thesis using d(3) [OF i that(2)] c(2) less.prems(6) by (simp add: add.commute)
      qed
      have "d a = disk s a" if "\<forall>k. ?q \<le> k \<and> 512 * k < z + n \<longrightarrow> a \<noteq> ab ! k" for a
      proof -
        have "a \<noteq> ab ! ?q" using that [rule_format, of ?q] qn by simp
        then show ?thesis using d(4) [of a] that by simp
      qed
      moreover have "write_loop g p ab src n fw s = Inr (wrote g p n (s\<lparr>disk := d\<rparr>))"
        unfolding st d(1) wrote_wrote [OF less.prems(2)] using c(2) by simp
      ultimately show ?thesis using d(2) b by blast
    qed
  qed
qed

section \<open>Getting blocks\<close>

text \<open>The parts of the state an allocation changes: disk, block bitmap and i-nodes.\<close>

definition alloc_st :: "fsys \<Rightarrow> (u32 \<Rightarrow> u8 list) \<Rightarrow> bitmap \<Rightarrow> (ptr \<Rightarrow> inode) \<Rightarrow> fsys" where
  "alloc_st s d bm inos = s\<lparr>disk := d, part := (part s)\<lparr>block_bitmap := bm\<rparr>, inodes := inos\<rparr>"

lemma alloc_st_sel [simp]:
  "disk (alloc_st s d bm inos) = d" "part (alloc_st s d bm inos) = (part s)\<lparr>block_bitmap := bm\<rparr>"
  "inodes (alloc_st s d bm inos) = inos" "io (alloc_st s d bm inos) = io s" "mallocs (alloc_st s d bm inos) = mallocs s"
  by (simp_all add: alloc_st_def)

lemma alloc_st_id: "alloc_st s (disk s) (block_bitmap (part s)) (inodes s) = s"
  by (simp add: alloc_st_def)

lemma alloc_st_twice [simp]: "alloc_st (alloc_st s d bm inos) d' bm' inos' = alloc_st s d' bm' inos'"
  by (simp add: alloc_st_def)

text \<open>\<open>over xs i bs\<close>: \<open>bs\<close> written over \<open>xs\<close> from position \<open>i\<close> on.\<close>

definition over :: "'a list \<Rightarrow> nat \<Rightarrow> 'a list \<Rightarrow> 'a list" where
  "over xs i bs = take i xs @ bs @ drop (i + length bs) xs"

lemma over_Nil [simp]: "over xs i [] = xs"
  by (simp add: over_def)

lemma over_Cons: "i < length xs \<Longrightarrow> over (xs[i := b]) (Suc i) bs = over xs i (b # bs)"
  by (simp add: over_def take_Suc_conv_app_nth)

lemma over_length [simp]: "i + length bs \<le> length xs \<Longrightarrow> length (over xs i bs) = length xs"
  by (simp add: over_def)

lemma over_nth:
  "i + length bs \<le> length xs \<Longrightarrow> k < length xs \<Longrightarrow> over xs i bs ! k = (if i \<le> k \<and> k < i + length bs then bs ! (k - i) else xs ! k)"
  by (auto simp: over_def nth_append min_def)

text \<open>One block: allocated, entered into the i-node \<open>p\<close> at index \<open>i\<close>, bitmap sector written.\<close>

lemma alloc_one:
  assumes g: "geom_ok s" and f: "0 < nfree s"
  shows "\<exists>b bm d. block_bitmap_alloc s = Inr (b, alloc_st s (disk s) bm (inodes s)) \<and> b \<noteq> -1 \<and> b - data_lba s \<noteq> 0 \<and>
     b \<in> data_area s \<and> b \<notin> used s \<and> (\<forall>a. unat (table_lba s) \<le> unat a \<longrightarrow> d a = disk s a) \<and>
     (\<forall>inos. bitmap_sync (b - data_lba s) BLOCK_BITMAP (alloc_st s (disk s) bm inos) = Inr (alloc_st s d bm inos) \<and>
        geom_ok (alloc_st s d bm inos) \<and> data_area (alloc_st s d bm inos) = data_area s \<and>
        used (alloc_st s d bm inos) = insert b (used s) \<and> nfree (alloc_st s d bm inos) = nfree s - 1)"
proof -
  from alloc_block [OF g f] obtain b bm where
    b: "block_bitmap_alloc s = Inr (b, s\<lparr>part := (part s)\<lparr>block_bitmap := bm\<rparr>\<rparr>)" "b \<in> data_area s" "b \<notin> used s" "b - data_lba s \<noteq> 0"
      "geom_ok (s\<lparr>part := (part s)\<lparr>block_bitmap := bm\<rparr>\<rparr>)" "data_area (s\<lparr>part := (part s)\<lparr>block_bitmap := bm\<rparr>\<rparr>) = data_area s"
      "used (s\<lparr>part := (part s)\<lparr>block_bitmap := bm\<rparr>\<rparr>) = insert b (used s)"
      "nfree (s\<lparr>part := (part s)\<lparr>block_bitmap := bm\<rparr>\<rparr>) = nfree s - 1" by blast
  let ?s = "s\<lparr>part := (part s)\<lparr>block_bitmap := bm\<rparr>\<rparr>"
  have st: "?s = alloc_st s (disk s) bm (inodes s)" by (simp add: alloc_st_def)
  from sync_block_bitmap [OF b(5), of b] b(2,6) obtain d where
    d: "bitmap_sync (b - data_lba s) BLOCK_BITMAP ?s = Inr (?s\<lparr>disk := d\<rparr>)" "full_sectors d"
      "\<forall>a. unat (table_lba s) \<le> unat a \<longrightarrow> d a = disk s a" by auto
  have "bitmap_sync (b - data_lba s) BLOCK_BITMAP (alloc_st s (disk s) bm inos) = Inr (alloc_st s d bm inos)" for inos
  proof -
    have "bitmap_sync i ty (s1\<lparr>inodes := inos\<rparr>) = map_sum id (inodes_update (\<lambda>_. inos)) (bitmap_sync i ty s1)" for i ty s1
      by (simp add: bitmap_sync_def disk_write_def bind_res_def ASSERT_def Let_def split: bitmap_type.split)
    from this [of "b - data_lba s" BLOCK_BITMAP ?s] show ?thesis using d(1) by (simp add: alloc_st_def)
  qed
  moreover have "geom_ok (alloc_st s d bm inos)" "data_area (alloc_st s d bm inos) = data_area s"
    "used (alloc_st s d bm inos) = insert b (used s)" "nfree (alloc_st s d bm inos) = nfree s - 1" for inos
    using geom_cong [of "alloc_st s d bm inos" ?s] b(5-8) d(2) by simp_all
  ultimately show ?thesis
    using b(1-4) d(3) data_area_bounds(4) [OF g b(2)] st by (intro exI [of _ b] exI [of _ bm] exI [of _ d]) simp
qed

lemma set_block_alloc_st:
  "set_block p i b (alloc_st s d bm inos) = alloc_st s d bm (inos(p := (inos p)\<lparr>i_blocks := (i_blocks (inos p))[i := b]\<rparr>))"
  by (simp add: set_block_def upd_inode_def alloc_st_def)

lemma alloc_loop_blocks:
  assumes "geom_ok s" and "n \<le> nfree s" and "length (i_blocks (inodes s p)) = 13" and "bi + n \<le> 140" and "length ab = 140"
    and "\<And>k. bi \<le> k \<Longrightarrow> k < bi + n \<Longrightarrow> k < 12 \<Longrightarrow> i_blocks (inodes s p) ! k = 0"
  shows "\<exists>bs bm d. let s' = alloc_st s d bm ((inodes s)(p := (inodes s p)\<lparr>i_blocks := over (i_blocks (inodes s p)) bi (take (12 - bi) bs)\<rparr>)) in
     alloc_loop n bi p ab s = Inr (Some (over ab bi bs), s') \<and> length bs = n \<and> distinct bs \<and> set bs \<subseteq> data_area s \<and>
     set bs \<inter> used s = {} \<and> geom_ok s' \<and> used s' = used s \<union> set bs \<and> data_area s' = data_area s \<and> nfree s' = nfree s - n \<and>
     (\<forall>a. unat (table_lba s) \<le> unat a \<longrightarrow> d a = disk s a)"
  using assms
proof (induction n arbitrary: bi ab s)
  case 0
  show ?case
    by (rule exI [of _ "[]"], rule exI [of _ "block_bitmap (part s)"], rule exI [of _ "disk s"])
       (simp add: alloc_st_id 0 Let_def)
next
  case (Suc n)
  from alloc_one [OF Suc.prems(1)] Suc.prems(2) obtain b bm d where
    b: "block_bitmap_alloc s = Inr (b, alloc_st s (disk s) bm (inodes s))" "b \<noteq> -1" "b \<in> data_area s" "b \<notin> used s"
      "\<forall>a. unat (table_lba s) \<le> unat a \<longrightarrow> d a = disk s a"
      "\<forall>inos. bitmap_sync (b - data_lba s) BLOCK_BITMAP (alloc_st s (disk s) bm inos) = Inr (alloc_st s d bm inos) \<and>
        geom_ok (alloc_st s d bm inos) \<and> data_area (alloc_st s d bm inos) = data_area s \<and>
        used (alloc_st s d bm inos) = insert b (used s) \<and> nfree (alloc_st s d bm inos) = nfree s - 1" by force
  let ?ino = "inodes s p"
  define nbl where "nbl = (if bi < 12 then (i_blocks ?ino)[bi := b] else i_blocks ?ino)"
  define inos where "inos = (inodes s)(p := ?ino\<lparr>i_blocks := nbl\<rparr>)"
  let ?s = "alloc_st s d bm inos"
  note b6 = b(6) [rule_format, of inos]
  have z: "bi < 12 \<Longrightarrow> i_blocks ?ino ! bi = 0" and bi: "bi < 140" using Suc.prems(4,6) by simp_all
  have step: "alloc_loop (Suc n) bi p ab s = alloc_loop n (bi + 1) p (ab[bi := b]) ?s"
    using b(1,2) z b6 by (cases "bi < 12") (simp_all add: set_block_alloc_st inos_def nbl_def Let_def)
  have "\<exists>bs bm' d'. let s' = alloc_st ?s d' bm' ((inodes ?s)(p := (inodes ?s p)\<lparr>i_blocks := over (i_blocks (inodes ?s p)) (bi + 1) (take (12 - (bi + 1)) bs)\<rparr>)) in
     alloc_loop n (bi + 1) p (ab[bi := b]) ?s = Inr (Some (over (ab[bi := b]) (bi + 1) bs), s') \<and> length bs = n \<and> distinct bs \<and> set bs \<subseteq> data_area ?s \<and>
     set bs \<inter> used ?s = {} \<and> geom_ok s' \<and> used s' = used ?s \<union> set bs \<and> data_area s' = data_area ?s \<and> nfree s' = nfree ?s - n \<and>
     (\<forall>a. unat (table_lba ?s) \<le> unat a \<longrightarrow> d' a = disk ?s a)"
  proof (rule Suc.IH)
    show "i_blocks (inodes ?s p) ! k = 0" if "bi + 1 \<le> k" "k < bi + 1 + n" "k < 12" for k
      using Suc.prems(6) [of k] that by (simp add: inos_def nbl_def)
  qed (use b6 Suc.prems in \<open>simp_all add: inos_def nbl_def\<close>)
  then obtain bs bm' d' where
    ih: "alloc_loop n (bi + 1) p (ab[bi := b]) ?s = Inr (Some (over (ab[bi := b]) (bi + 1) bs),
        alloc_st s d' bm' (inos(p := (inos p)\<lparr>i_blocks := over (i_blocks (inos p)) (bi + 1) (take (12 - (bi + 1)) bs)\<rparr>)))"
      "length bs = n" "distinct bs" "set bs \<subseteq> data_area s" "set bs \<inter> insert b (used s) = {}"
      "geom_ok (alloc_st s d' bm' (inos(p := (inos p)\<lparr>i_blocks := over (i_blocks (inos p)) (bi + 1) (take (12 - (bi + 1)) bs)\<rparr>)))"
      "used (alloc_st s d' bm' (inos(p := (inos p)\<lparr>i_blocks := over (i_blocks (inos p)) (bi + 1) (take (12 - (bi + 1)) bs)\<rparr>))) = insert b (used s) \<union> set bs"
      "data_area (alloc_st s d' bm' (inos(p := (inos p)\<lparr>i_blocks := over (i_blocks (inos p)) (bi + 1) (take (12 - (bi + 1)) bs)\<rparr>))) = data_area s"
      "nfree (alloc_st s d' bm' (inos(p := (inos p)\<lparr>i_blocks := over (i_blocks (inos p)) (bi + 1) (take (12 - (bi + 1)) bs)\<rparr>))) = nfree s - 1 - n"
      "\<forall>a. unat (table_lba s) \<le> unat a \<longrightarrow> d' a = d a"
    using b6 unfolding Let_def by auto
  have "over nbl (bi + 1) (take (12 - (bi + 1)) bs) = over (i_blocks ?ino) bi (take (12 - bi) (b # bs))"
    using over_Cons [of bi "i_blocks ?ino" b "take (12 - (bi + 1)) bs"] Suc.prems(3) by (simp add: nbl_def take_Cons')
  then have e: "inos(p := (inos p)\<lparr>i_blocks := over (i_blocks (inos p)) (bi + 1) (take (12 - (bi + 1)) bs)\<rparr>) =
      (inodes s)(p := ?ino\<lparr>i_blocks := over (i_blocks ?ino) bi (take (12 - bi) (b # bs))\<rparr>)" by (simp add: inos_def)
  have e2: "over (ab[bi := b]) (bi + 1) bs = over ab bi (b # bs)" using over_Cons [of bi ab b bs] bi Suc.prems(5) by simp
  show ?case
    unfolding step Let_def
    using ih[unfolded e e2] b(3,4,5) by (intro exI [of _ "b # bs"] exI [of _ bm'] exI [of _ d']) (auto simp: insert_commute)
qed

text \<open>The blocks \<open>H\<close> to \<open>U - 1\<close> of the i-node \<open>ino\<close>, allocated.\<close>

lemma alloc_range:
  assumes "geom_ok s" and "U - H \<le> nfree s" and "ino = inodes s p" and "length (i_blocks ino) = 13" and "H \<le> U" "U \<le> 140" and "length ab = 140"
    and "\<And>k. H \<le> k \<Longrightarrow> k < 12 \<Longrightarrow> i_blocks ino ! k = 0"
  obtains bs bm d s' where
    "s' = alloc_st s d bm ((inodes s)(p := ino\<lparr>i_blocks := over (i_blocks ino) H (take (12 - H) bs)\<rparr>))"
    "alloc_loop (U - H) H p ab s = Inr (Some (over ab H bs), s')" "length bs = U - H" "distinct bs" "set bs \<subseteq> data_area s"
    "set bs \<inter> used s = {}" "geom_ok s'" "used s' = used s \<union> set bs" "data_area s' = data_area s"
    "\<forall>a. unat (table_lba s) \<le> unat a \<longrightarrow> d a = disk s a"
  using alloc_loop_blocks [OF assms(1,2), where p = p and ab = ab and bi = H] assms(3-8) unfolding Let_def by (elim meta_impE) auto

section \<open>The blocks of a file\<close>

text \<open>The addresses of the blocks of a file: the twelve of the i-node, then those of the table block, if there is one.\<close>

definition blks :: "(u32 \<Rightarrow> u8 list) \<Rightarrow> inode \<Rightarrow> u32 list" where
  "blks d ino = take 12 (i_blocks ino) @
     (if i_blocks ino ! 12 = 0 then replicate 128 0 else dec_words (d (i_blocks ino ! 12)) 0 128)"

lemma blks_nth:
  assumes "length (i_blocks ino) = 13"
  shows "length (blks d ino) = 140" and "k < 12 \<Longrightarrow> blks d ino ! k = i_blocks ino ! k"
  using assms by (simp_all add: blks_def dec_words_def nth_append)

text \<open>\<open>blocks_ok d us ino n\<close>: the first \<open>n\<close> blocks of \<open>ino\<close> are different blocks of \<open>us\<close>, the i-node has no other direct
  block, and it has a table block, in \<open>us\<close> and none of the \<open>n\<close>, exactly when \<open>n\<close> exceeds twelve.\<close>

definition blocks_ok :: "(u32 \<Rightarrow> u8 list) \<Rightarrow> u32 set \<Rightarrow> inode \<Rightarrow> nat \<Rightarrow> bool" where
  "blocks_ok d us ino n \<longleftrightarrow> length (i_blocks ino) = 13 \<and> (\<forall>k < 12. n \<le> k \<longrightarrow> i_blocks ino ! k = 0) \<and>
     distinct (take n (blks d ino)) \<and> set (take n (blks d ino)) \<subseteq> us \<and>
     (if n \<le> 12 then i_blocks ino ! 12 = 0 else i_blocks ino ! 12 \<in> us \<and> i_blocks ino ! 12 \<notin> set (take n (blks d ino)))"

lemma blocks_okD:
  assumes "blocks_ok d us ino n" and "n \<le> 140"
  shows "length (i_blocks ino) = 13" and "k < 12 \<Longrightarrow> n \<le> k \<Longrightarrow> i_blocks ino ! k = 0"
    and "k < n \<Longrightarrow> blks d ino ! k \<in> us" and "j < n \<Longrightarrow> k < n \<Longrightarrow> j \<noteq> k \<Longrightarrow> blks d ino ! j \<noteq> blks d ino ! k"
    and "n \<le> 12 \<Longrightarrow> i_blocks ino ! 12 = 0" and "12 < n \<Longrightarrow> i_blocks ino ! 12 \<in> us"
    and "12 < n \<Longrightarrow> k < n \<Longrightarrow> blks d ino ! k \<noteq> i_blocks ino ! 12"
proof -
  note a = assms(1) [unfolded blocks_ok_def]
  show l: "length (i_blocks ino) = 13" "k < 12 \<Longrightarrow> n \<le> k \<Longrightarrow> i_blocks ino ! k = 0" "n \<le> 12 \<Longrightarrow> i_blocks ino ! 12 = 0"
    "12 < n \<Longrightarrow> i_blocks ino ! 12 \<in> us" using a by auto
  note len = blks_nth(1) [OF l(1), of d]
  have m: "blks d ino ! k \<in> set (take n (blks d ino))" if "k < n" for k
    using that assms(2) len by (auto simp: in_set_conv_nth intro!: exI [of _ k])
  show "k < n \<Longrightarrow> blks d ino ! k \<in> us" using a m by blast
  show "12 < n \<Longrightarrow> k < n \<Longrightarrow> blks d ino ! k \<noteq> i_blocks ino ! 12" using a m [of k] by auto
  show "j < n \<Longrightarrow> k < n \<Longrightarrow> j \<noteq> k \<Longrightarrow> blks d ino ! j \<noteq> blks d ino ! k"
    using a assms(2) len by (auto simp: distinct_conv_nth)
qed

lemma blks_cong:
  assumes "i_blocks ino ! 12 \<noteq> 0 \<Longrightarrow> d' (i_blocks ino ! 12) = d (i_blocks ino ! 12)"
  shows "blks d' ino = blks d ino"
  using assms by (simp add: blks_def)

lemma used_area: "b \<in> used s \<Longrightarrow> b \<in> data_area s"
  by (simp add: used_def)

text \<open>What getting blocks for a file of \<open>H\<close> blocks that will have \<open>U\<close> leaves behind: \<open>bs\<close> are the new blocks, \<open>ab\<close> the addresses
  the transfer uses. A table block, new or old, is the only sector behind the i-node table that is written.\<close>

definition grown :: "fsys \<Rightarrow> inode \<Rightarrow> nat \<Rightarrow> nat \<Rightarrow> u32 list \<Rightarrow> u32 list \<Rightarrow> inode \<Rightarrow> fsys \<Rightarrow> bool" where
  "grown s ino H U ab bs ino1 s1 \<longleftrightarrow> length ab = 140 \<and> (\<forall>k. H \<le> Suc k \<and> k < U \<longrightarrow> ab ! k = blks (disk s1) ino1 ! k) \<and>
     take U (blks (disk s1) ino1) = take H (blks (disk s) ino) @ bs \<and> blocks_ok (disk s1) (used s1) ino1 U \<and> set bs \<inter> used s = {} \<and>
     (i_blocks ino1 ! 12 = i_blocks ino ! 12 \<or> i_blocks ino1 ! 12 \<notin> used s) \<and> (\<exists>bl. ino1 = ino\<lparr>i_blocks := bl\<rparr>) \<and>
     geom_ok s1 \<and> used s \<subseteq> used s1 \<and> data_area s1 = data_area s \<and>
     (\<forall>a. unat (table_lba s) \<le> unat a \<and> a \<noteq> i_blocks ino1 ! 12 \<longrightarrow> disk s1 a = disk s a)"

lemma blocks_ok_grown:
  assumes ok: "blocks_ok d us ino H" and t: "take U (blks d1 ino1) = take H (blks d ino) @ bs" and bs: "distinct bs" "set bs \<inter> us = {}"
    and us: "us \<union> set bs \<subseteq> us1" and l: "length (i_blocks ino1) = 13" and z: "\<And>k. k < 12 \<Longrightarrow> U \<le> k \<Longrightarrow> i_blocks ino1 ! k = 0"
    and tb: "if U \<le> 12 then i_blocks ino1 ! 12 = 0
       else i_blocks ino1 ! 12 \<in> us1 \<and> i_blocks ino1 ! 12 \<notin> set (take H (blks d ino)) \<and> i_blocks ino1 ! 12 \<notin> set bs"
  shows "blocks_ok d1 us1 ino1 U"
  using ok bs us tb l z unfolding blocks_ok_def t by (auto simp: disjoint_iff split: if_splits)

text \<open>A new block found by its index in the grown list.\<close>

lemma take_ext:
  assumes "length xs = 140" and "length ys = 140" and "H \<le> U" and "U \<le> 140" and "length bs = U - H"
    and "\<And>k. k < H \<Longrightarrow> xs ! k = ys ! k" and "\<And>k. H \<le> k \<Longrightarrow> k < U \<Longrightarrow> xs ! k = bs ! (k - H)"
  shows "take U xs = take H ys @ bs"
  by (rule nth_equalityI) (use assms in \<open>auto simp: nth_append\<close>)

text \<open>The four cases of \<open>write_blocks\<close>: no new block, only direct ones, the first ones of a new table, more in an old table.\<close>

lemma used_lba:
  assumes "geom_ok s" and "b \<in> used s"
  shows "b \<le> max_lba" and "b \<noteq> 0" and "unat (table_lba s) \<le> unat b"
  using data_area_bounds(1-3) [OF assms(1) used_area [OF assms(2)]] by simp_all

lemma write_blocks_same:
  assumes g: "geom_ok s" and ok: "blocks_ok (disk s) (used s) ino H" and ino: "ino = inodes s p" and H: "0 < H" "H \<le> 140"
  shows "\<exists>ab. write_blocks H H p s = Inr (Some ab, s) \<and> grown s ino H H ab [] ino s"
proof -
  note iv = blocks_okD [OF ok H(2)]
  note len = blks_nth [OF iv(1), where d = "disk s"]
  have gr: "grown s ino H H ab [] ino s" if "length ab = 140" "ab ! (H - 1) = blks (disk s) ino ! (H - 1)" for ab
  proof -
    have "ab ! k = blks (disk s) ino ! k" if "H \<le> Suc k" "k < H" for k
    proof -
      have "k = H - 1" using that by simp
      then show ?thesis using \<open>ab ! (H - 1) = _\<close> by simp
    qed
    then show ?thesis using that(1) ok g by (auto simp: grown_def intro: exI [of _ "i_blocks ino"])
  qed
  show ?thesis
  proof (cases "H \<le> 12")
    case True
    let ?ab = "(replicate 140 0)[H - 1 := i_blocks ino ! (H - 1)]"
    have "write_blocks H H p s = Inr (Some ?ab, s)" using True ino by (simp add: write_blocks_def Let_def)
    moreover have "?ab ! (H - 1) = blks (disk s) ino ! (H - 1)" using True H len(2) [of "H - 1"] by simp
    ultimately show ?thesis using gr [of ?ab] by auto
  next
    case False
    then have T: "i_blocks ino ! 12 \<in> used s" using iv(6) by simp
    note tl = used_lba [OF g T]
    let ?ab = "replicate 12 0 @ dec_words (disk s (i_blocks ino ! 12)) 0 128"
    have "write_blocks H H p s = Inr (Some ?ab, s)"
      using False ino tl(1,2) disk_read_1 [OF tl(1), of s] by (simp add: write_blocks_def Let_def)
    moreover have "\<not> H - 1 < 12" using False by linarith
    then have "?ab ! (H - 1) = blks (disk s) ino ! (H - 1)" "length ?ab = 140"
      using tl(2) iv(1) by (simp_all add: blks_def nth_append dec_words_def)
    ultimately show ?thesis using gr [of ?ab] by auto
  qed
qed

lemma write_blocks_direct:
  assumes g: "geom_ok s" and ok: "blocks_ok (disk s) (used s) ino H" and ino: "ino = inodes s p" and H: "0 < H" "H < U" "U \<le> 12"
    and f: "U - H \<le> nfree s"
  shows "\<exists>ab bs d bm ino1 s1. s1 = alloc_st s d bm ((inodes s)(p := ino1)) \<and> write_blocks H U p s = Inr (Some ab, s1) \<and>
     grown s ino H U ab bs ino1 s1"
proof -
  have H140: "H \<le> 140" using H by simp
  note iv = blocks_okD [OF ok H140]
  let ?b = "i_blocks ino ! (H - 1)" and ?ab = "(replicate 140 0)[H - 1 := i_blocks ino ! (H - 1)]"
  have "?b \<in> used s" using iv(3) [of "H - 1"] blks_nth(2) [OF iv(1), of "H - 1"] H by simp
  then have bn: "?b \<noteq> 0" using used_lba(2) [OF g] by simp
  have r: "H \<le> U" "U \<le> 140" "length ?ab = 140" using H by simp_all
  have z: "i_blocks ino ! k = 0" if "H \<le> k" "k < 12" for k using iv(2) that by simp
  obtain bs bm d s1 where
    s1: "s1 = alloc_st s d bm ((inodes s)(p := ino\<lparr>i_blocks := over (i_blocks ino) H (take (12 - H) bs)\<rparr>))" and
    bs: "alloc_loop (U - H) H p ?ab s = Inr (Some (over ?ab H bs), s1)" "length bs = U - H" "distinct bs" "set bs \<subseteq> data_area s"
      "set bs \<inter> used s = {}" "geom_ok s1" "used s1 = used s \<union> set bs" "data_area s1 = data_area s"
      "\<forall>a. unat (table_lba s) \<le> unat a \<longrightarrow> d a = disk s a"
    using alloc_range [OF g f ino iv(1) r z] by metis
  define ino1 where "ino1 = ino\<lparr>i_blocks := over (i_blocks ino) H bs\<rparr>"
  have tk: "take (12 - H) bs = bs" using bs(2) H by simp
  have e: "s1 = alloc_st s d bm ((inodes s)(p := ino1))" using s1 unfolding tk ino1_def .
  have l1: "length (i_blocks ino1) = 13" using bs(2) H iv(1) by (simp add: ino1_def)
  have bl: "i_blocks ino1 ! k = (if H \<le> k \<and> k < U then bs ! (k - H) else i_blocks ino ! k)" if "k < 13" for k
    using that bs(2) H iv(1) by (simp add: ino1_def over_nth)
  have t12: "i_blocks ino1 ! 12 = 0" "i_blocks ino ! 12 = 0" using bl [of 12] iv(5) H by simp_all
  have tu: "take U (blks (disk s1) ino1) = take H (blks (disk s) ino) @ bs"
    using blks_nth [OF l1] blks_nth [OF iv(1)] bl H bs(2) by (intro take_ext) simp_all
  have "write_blocks H U p s = Inr (Some (over ?ab H bs), s1)"
    using H iv(1) ino bn bs(1) by (simp add: write_blocks_def Let_def)
  moreover have "grown s ino H U (over ?ab H bs) bs ino1 s1"
    unfolding grown_def
  proof (intro conjI)
    show "\<forall>k. H \<le> Suc k \<and> k < U \<longrightarrow> over ?ab H bs ! k = blks (disk s1) ino1 ! k"
    proof (intro allI impI)
      fix k assume k: "H \<le> Suc k \<and> k < U"
      then consider "k = H - 1" | "H \<le> k" by linarith
      then show "over ?ab H bs ! k = blks (disk s1) ino1 ! k"
      proof cases
        case 1
        then have "\<not> H \<le> k" "k < 12" using H by simp_all
        then show ?thesis using 1 H bs(2) bl [of k] blks_nth(2) [OF l1, of k] by (simp add: over_nth)
      next
        case 2
        then show ?thesis using k H bs(2) bl [of k] blks_nth(2) [OF l1, of k] by (simp add: over_nth)
      qed
    qed
    show "blocks_ok (disk s1) (used s1) ino1 U"
      by (rule blocks_ok_grown [OF ok tu bs(3,5)]) (use bs(7) l1 bl iv(2) H t12 in auto)
    show "\<exists>bl. ino1 = ino\<lparr>i_blocks := bl\<rparr>" by (auto simp: ino1_def)
    show "length (over ?ab H bs) = 140" using bs(2) H by simp
    show "\<forall>a. unat (table_lba s) \<le> unat a \<and> a \<noteq> i_blocks ino1 ! 12 \<longrightarrow> disk s1 a = disk s a" using bs(9) e by simp
  qed (use tu bs t12 in auto)
  ultimately show ?thesis using e by blast
qed

text \<open>Writing the table block back.\<close>

lemma dec_table: "length ws = 128 \<Longrightarrow> dec_words (enc_words ws) 0 128 = ws"
  using dec_words_enc [of "[]" 0 ws "[]"] by simp

lemma table_written:
  assumes g: "geom_ok s" and T: "T \<in> used s" "i_blocks ino ! 12 = T" and l: "length (i_blocks ino) = 13" "length ab = 140"
  defines "s1 \<equiv> s\<lparr>disk := (disk s)(T := enc_words (drop 12 ab))\<rparr>"
  shows "disk_write T (enc_words (drop 12 ab)) 1 s = Inr s1" and "geom_ok s1" and "used s1 = used s" and "data_area s1 = data_area s"
    and "blks (disk s1) ino = take 12 (i_blocks ino) @ drop 12 ab"
proof -
  note tl = used_lba [OF g T(1)]
  show "disk_write T (enc_words (drop 12 ab)) 1 s = Inr s1" unfolding s1_def by (rule disk_write_1 [OF tl(1)]) (simp add: l(2))
  have "full_sectors (disk s1)" using geom_full [OF g] l(2) by (simp add: s1_def full_sectors_def)
  then show "geom_ok s1" "used s1 = used s" "data_area s1 = data_area s" using geom_cong [of s1 s] g by (simp_all add: s1_def)
  show "blks (disk s1) ino = take 12 (i_blocks ino) @ drop 12 ab" using T(2) tl(2) l dec_table [of "drop 12 ab"] by (simp add: blks_def s1_def)
qed

lemma write_blocks_more:
  assumes g: "geom_ok s" and ok: "blocks_ok (disk s) (used s) ino H" and ino: "ino = inodes s p" and H: "12 < H" "H < U" "U \<le> 140"
    and f: "U - H \<le> nfree s"
  shows "\<exists>ab bs d bm ino1 s1. s1 = alloc_st s d bm ((inodes s)(p := ino1)) \<and> write_blocks H U p s = Inr (Some ab, s1) \<and>
     grown s ino H U ab bs ino1 s1"
proof -
  have H140: "H \<le> 140" using H by simp
  note iv = blocks_okD [OF ok H140]
  let ?T = "i_blocks ino ! 12"
  have T: "?T \<in> used s" using iv(6) H by simp
  note tl = used_lba [OF g T]
  define ab0 where "ab0 = replicate 12 0 @ dec_words (disk s ?T) 0 128"
  have l0: "length ab0 = 140" by (simp add: ab0_def dec_words_def)
  have r: "H \<le> U" using H by simp
  have z: "i_blocks ino ! k = 0" if "H \<le> k" "k < 12" for k using that H by simp
  obtain bs bm d s2 where
    e0: "s2 = alloc_st s d bm ((inodes s)(p := ino\<lparr>i_blocks := over (i_blocks ino) H (take (12 - H) bs)\<rparr>))" and
    bs: "alloc_loop (U - H) H p ab0 s = Inr (Some (over ab0 H bs), s2)" "length bs = U - H" "distinct bs" "set bs \<subseteq> data_area s"
      "set bs \<inter> used s = {}" "geom_ok s2" "used s2 = used s \<union> set bs" "data_area s2 = data_area s"
      "\<forall>a. unat (table_lba s) \<le> unat a \<longrightarrow> d a = disk s a"
    using alloc_range [OF g f ino iv(1) r H(3) l0 z] by metis
  let ?ab = "over ab0 H bs"
  have l: "length ?ab = 140" using bs(2) H l0 by simp
  have e: "s2 = alloc_st s d bm ((inodes s)(p := ino))" using e0 H by simp
  have "?T \<in> used s2" using T bs(7) by simp
  note w = table_written [OF bs(6) this refl iv(1) l]
  let ?s1 = "s2\<lparr>disk := (disk s2)(?T := enc_words (drop 12 ?ab))\<rparr>"
  have e1: "?s1 = alloc_st s (d(?T := enc_words (drop 12 ?ab))) bm ((inodes s)(p := ino))" using e by (simp add: alloc_st_def)
  have old: "blks (disk s) ino = take 12 (i_blocks ino) @ drop 12 ab0" using tl(2) by (simp add: blks_def ab0_def)
  have nt: "blks (disk ?s1) ino ! k = (if k < H then blks (disk s) ino ! k else ?ab ! k)" if "k < 140" for k
    unfolding w(5) old using that H l l0 bs(2) iv(1) by (auto simp: nth_append over_nth)
  have tu: "take U (blks (disk ?s1) ino) = take H (blks (disk s) ino) @ bs"
    using blks_nth(1) [OF iv(1)] nt H bs(2) l0 by (intro take_ext) (simp_all add: over_nth)
  have "write_blocks H U p s = Inr (Some ?ab, ?s1)"
    using H ino tl(2) disk_read_1 [OF tl(1), of s] bs(1) w(1) by (simp add: write_blocks_def Let_def ab0_def)
  moreover have "grown s ino H U ?ab bs ino ?s1"
    unfolding grown_def
  proof (intro conjI)
    show "\<forall>k. H \<le> Suc k \<and> k < U \<longrightarrow> ?ab ! k = blks (disk ?s1) ino ! k"
    proof (intro allI impI)
      fix k assume "H \<le> Suc k \<and> k < U"
      then have k: "12 \<le> k" "k < 140" using H by simp_all
      then show "?ab ! k = blks (disk ?s1) ino ! k" unfolding w(5) using l iv(1) by (simp add: nth_append)
    qed
    have nd: "?T \<notin> set bs" using bs(5) T by blast
    have "?T \<notin> set (take H (blks (disk s) ino))" using ok H unfolding blocks_ok_def by auto
    then show "blocks_ok (disk ?s1) (used ?s1) ino U"
      by (intro blocks_ok_grown [OF ok tu bs(3,5)]) (use bs(7) w(3) iv(1,2) H T nd in auto)
    show "\<exists>bl. ino = ino\<lparr>i_blocks := bl\<rparr>" by (intro exI [of _ "i_blocks ino"]) simp
    show "\<forall>a. unat (table_lba s) \<le> unat a \<and> a \<noteq> ?T \<longrightarrow> disk ?s1 a = disk s a" using bs(9) e by simp
    show "used s \<subseteq> used ?s1" "data_area ?s1 = data_area s" using w(3,4) bs(7,8) by auto
  qed (use tu bs(5) w l in auto)
  ultimately show ?thesis using e1 by blast
qed

text \<open>The bit of a new table block is set in memory; \<^verbatim>\<open>file_write\<close> does not write it to disk.\<close>

text \<open>The block of a new table.\<close>

lemma alloc_table:
  assumes g: "geom_ok s" and f: "0 < nfree s" and ino: "ino = inodes s p"
  obtains T bmT sT s' where "sT = alloc_st s (disk s) bmT ((inodes s)(p := ino\<lparr>i_blocks := (i_blocks ino)[12 := T]\<rparr>))"
    "block_bitmap_alloc s = Inr (T, s')" "inodes s' = inodes s" "set_block p 12 T s' = sT" "T \<in> data_area s" "T \<notin> used s" "geom_ok sT" "data_area sT = data_area s"
    "used sT = insert T (used s)" "nfree sT = nfree s - 1"
proof -
  from alloc_block [OF g f] obtain T bmT where
    T: "block_bitmap_alloc s = Inr (T, s\<lparr>part := (part s)\<lparr>block_bitmap := bmT\<rparr>\<rparr>)" "T \<in> data_area s" "T \<notin> used s"
      "geom_ok (s\<lparr>part := (part s)\<lparr>block_bitmap := bmT\<rparr>\<rparr>)" "data_area (s\<lparr>part := (part s)\<lparr>block_bitmap := bmT\<rparr>\<rparr>) = data_area s"
      "used (s\<lparr>part := (part s)\<lparr>block_bitmap := bmT\<rparr>\<rparr>) = insert T (used s)" "nfree (s\<lparr>part := (part s)\<lparr>block_bitmap := bmT\<rparr>\<rparr>) = nfree s - 1" by blast
  define sT where "sT = alloc_st s (disk s) bmT ((inodes s)(p := ino\<lparr>i_blocks := (i_blocks ino)[12 := T]\<rparr>))"
  have cg: "part sT = part (s\<lparr>part := (part s)\<lparr>block_bitmap := bmT\<rparr>\<rparr>)" "disk sT = disk s" by (simp_all add: sT_def)
  have gT: "geom_ok sT" "data_area sT = data_area s" "used sT = insert T (used s)" "nfree sT = nfree s - 1"
    using geom_cong [OF cg(1)] T(4-7) geom_full [OF g] cg(2) by simp_all
  have "set_block p 12 T (s\<lparr>part := (part s)\<lparr>block_bitmap := bmT\<rparr>\<rparr>) = sT"
    by (simp add: set_block_def upd_inode_def sT_def alloc_st_def ino)
  from that [OF sT_def T(1) _ this T(2,3) gT] show ?thesis by simp
qed

lemma write_blocks_table:
  assumes g: "geom_ok s" and ok: "blocks_ok (disk s) (used s) ino H" and ino: "ino = inodes s p" and H: "0 < H" "H \<le> 12" "12 < U" "U \<le> 140"
    and f: "U - H < nfree s"
  shows "\<exists>ab bs d bm ino1 s1. s1 = alloc_st s d bm ((inodes s)(p := ino1)) \<and> write_blocks H U p s = Inr (Some ab, s1) \<and>
     grown s ino H U ab bs ino1 s1"
proof -
  have H140: "H \<le> 140" using H by simp
  note iv = blocks_okD [OF ok H140]
  have "0 < nfree s" using f by simp
  from alloc_table [OF g this ino] obtain T bmT sT s' where
    sT_def: "sT = alloc_st s (disk s) bmT ((inodes s)(p := ino\<lparr>i_blocks := (i_blocks ino)[12 := T]\<rparr>))" and
    T: "block_bitmap_alloc s = Inr (T, s')" "T \<in> data_area s" "T \<notin> used s" and s': "inodes s' = inodes s" and sb: "set_block p 12 T s' = sT" and
    gT: "geom_ok sT" "data_area sT = data_area s" "used sT = insert T (used s)" "nfree sT = nfree s - 1"
    by metis
  define inoT where "inoT = ino\<lparr>i_blocks := (i_blocks ino)[12 := T]\<rparr>"
  have cg: "disk sT = disk s" "inodes sT p = inoT" by (simp_all add: sT_def inoT_def)
  have lT: "length (i_blocks inoT) = 13" using iv(1) by (simp add: inoT_def)
  define ab0 where "ab0 = (replicate 140 0)[H - 1 := i_blocks ino ! (H - 1)]"
  have l0: "length ab0 = 140" by (simp add: ab0_def)
  have fT: "U - H \<le> nfree sT" using f gT(4) by simp
  have zT: "i_blocks inoT ! k = 0" if "H \<le> k" "k < 12" for k using iv(2) that by (simp add: inoT_def)
  have r: "H \<le> U" using H by simp
  obtain bs bm d s2 where
    e0: "s2 = alloc_st sT d bm ((inodes sT)(p := inoT\<lparr>i_blocks := over (i_blocks inoT) H (take (12 - H) bs)\<rparr>))" and
    bs: "alloc_loop (U - H) H p ab0 sT = Inr (Some (over ab0 H bs), s2)" "length bs = U - H" "distinct bs" "set bs \<subseteq> data_area sT"
      "set bs \<inter> used sT = {}" "geom_ok s2" "used s2 = used sT \<union> set bs" "data_area s2 = data_area sT"
      "\<forall>a. unat (table_lba sT) \<le> unat a \<longrightarrow> d a = disk sT a"
    using alloc_range [OF gT(1) fT cg(2) [symmetric] lT r H(4) l0 zT] by metis
  define ino1 where "ino1 = inoT\<lparr>i_blocks := over (i_blocks inoT) H (take (12 - H) bs)\<rparr>"
  let ?ab = "over ab0 H bs"
  have l: "length ?ab = 140" using bs(2) H l0 by simp
  have lt: "length (take (12 - H) bs) = 12 - H" using bs(2) H by simp
  have l1: "length (i_blocks ino1) = 13" using lT lt H by (simp add: ino1_def)
  have bl: "i_blocks ino1 ! k = (if k = 12 then T else if H \<le> k then bs ! (k - H) else i_blocks ino ! k)" if "k < 13" for k
    using that lt H lT iv(1) over_nth [of H "take (12 - H) bs" "i_blocks inoT" k] by (auto simp: ino1_def inoT_def)
  have T12: "i_blocks ino1 ! 12 = T" using bl [of 12] by simp
  have "T \<in> used s2" using gT(3) bs(7) by simp
  note w = table_written [OF bs(6) this T12 l1 l]
  let ?s1 = "s2\<lparr>disk := (disk s2)(T := enc_words (drop 12 ?ab))\<rparr>"
  have e1: "?s1 = alloc_st s (d(T := enc_words (drop 12 ?ab))) bm ((inodes s)(p := ino1))"
    using e0 by (simp add: alloc_st_def sT_def ino1_def inoT_def)
  have nt: "blks (disk ?s1) ino1 ! k = (if k < H then blks (disk s) ino ! k else ?ab ! k)" if "k < 140" for k
  proof (cases "k < 12")
    case True
    then show ?thesis
      using bl [of k] H l0 bs(2) blks_nth(2) [OF l1 True] blks_nth(2) [OF iv(1) True] by (simp add: over_nth)
  next
    case False
    then show ?thesis unfolding w(5) using that H l l1 by (simp add: nth_append)
  qed
  have tu: "take U (blks (disk ?s1) ino1) = take H (blks (disk s) ino) @ bs"
    using blks_nth(1) [OF iv(1)] blks_nth(1) [OF l1] nt H bs(2) l0 by (intro take_ext) (simp_all add: over_nth)
  have "T \<noteq> -1" using data_area_bounds(4) [OF g T(2)] .
  then have wb: "write_blocks H U p s = Inr (Some ?ab, ?s1)"
    using H ino T(1) iv(5) s' sb bs(1) w(1) by (simp add: write_blocks_def Let_def ab0_def)
  have "grown s ino H U ?ab bs ino1 ?s1"
    unfolding grown_def
  proof (intro conjI)
    show "\<forall>k. H \<le> Suc k \<and> k < U \<longrightarrow> ?ab ! k = blks (disk ?s1) ino1 ! k"
    proof (intro allI impI)
      fix k assume k: "H \<le> Suc k \<and> k < U"
      show "?ab ! k = blks (disk ?s1) ino1 ! k"
      proof (cases "H \<le> k")
        case True
        then show ?thesis using nt [of k] k H by simp
      next
        case False
        then have k1: "k = H - 1" "k < 12" using k H by simp_all
        then show ?thesis using nt [of k] False bs(2) H l0 blks_nth(2) [OF iv(1) k1(2)] by (simp add: over_nth ab0_def)
      qed
    qed
    have nd: "T \<notin> set bs" "set bs \<inter> used s = {}" using bs(5) gT(3) by auto
    have "T \<notin> set (take H (blks (disk s) ino))" using ok T(3) unfolding blocks_ok_def by auto
    then show "blocks_ok (disk ?s1) (used ?s1) ino1 U"
      by (intro blocks_ok_grown [OF ok tu bs(3) nd(2)]) (use bs(7) w(3) l1 H T12 nd gT(3) in auto)
    show "set bs \<inter> used s = {}" by (rule nd(2))
    show "\<exists>bl. ino1 = ino\<lparr>i_blocks := bl\<rparr>" by (auto simp: ino1_def inoT_def)
    show "\<forall>a. unat (table_lba s) \<le> unat a \<and> a \<noteq> i_blocks ino1 ! 12 \<longrightarrow> disk ?s1 a = disk s a"
      using bs(9) e0 T12 cg by (simp add: sT_def)
    show "used s \<subseteq> used ?s1" "data_area ?s1 = data_area s" using w(3,4) bs(7,8) gT(2,3) by auto
    show "i_blocks ino1 ! 12 = i_blocks ino ! 12 \<or> i_blocks ino1 ! 12 \<notin> used s" using T12 T(3) by simp
  qed (use tu w l in auto)
  then show ?thesis using e1 wb by blast
qed

lemma write_blocks_ok:
  assumes g: "geom_ok s" and ok: "blocks_ok (disk s) (used s) ino H" and ino: "ino = inodes s p" and H: "0 < H" "H \<le> U" "U \<le> 140"
    and f: "U - H < nfree s"
  shows "\<exists>ab bs d bm ino1 s1. s1 = alloc_st s d bm ((inodes s)(p := ino1)) \<and> write_blocks H U p s = Inr (Some ab, s1) \<and>
     grown s ino H U ab bs ino1 s1"
proof -
  have f': "U - H \<le> nfree s" and H140: "H \<le> 140" using f H by simp_all
  consider "U = H" | "H < U" "U \<le> 12" | "H \<le> 12" "12 < U" | "12 < H" "H < U" using H by linarith
  then show ?thesis
  proof cases
    case 1
    from write_blocks_same [OF g ok ino H(1) H140] obtain ab where ab: "write_blocks H H p s = Inr (Some ab, s)" "grown s ino H H ab [] ino s" by blast
    have "s = alloc_st s (disk s) (block_bitmap (part s)) ((inodes s)(p := ino))" using ino by (simp add: alloc_st_id)
    then show ?thesis using ab 1 by blast
  next
    case 2
    then show ?thesis by (rule write_blocks_direct [OF g ok ino H(1) _ _ f'])
  next
    case 3
    then show ?thesis by (rule write_blocks_table [OF g ok ino H(1) _ _ H(3) f])
  next
    case 4
    then show ?thesis by (rule write_blocks_more [OF g ok ino _ _ H(3) f'])
  qed
qed

section \<open>Files\<close>

definition nblk :: "inode \<Rightarrow> nat" where
  "nblk ino = (if i_blocks ino ! 0 = 0 then 0 else unat (i_size ino) div 512 + 1)"

text \<open>The invariant of a file, its bytes, and the sectors it occupies.\<close>

definition file_inv :: "fsys \<Rightarrow> inode \<Rightarrow> bool" where
  "file_inv s ino \<longleftrightarrow> unat (i_size ino) < 71680 \<and> (i_blocks ino ! 0 = 0 \<longrightarrow> i_size ino = 0) \<and>
     blocks_ok (disk s) (used s) ino (nblk ino)"

definition fbytes :: "fsys \<Rightarrow> inode \<Rightarrow> u8 list" where
  "fbytes s ino = map (sbyte (disk s) (blks (disk s) ino)) [0 ..< unat (i_size ino)]"

definition fblocks :: "fsys \<Rightarrow> inode \<Rightarrow> u32 set" where
  "fblocks s ino = set (take (nblk ino) (blks (disk s) ino)) \<union> (if nblk ino \<le> 12 then {} else {i_blocks ino ! 12})"

lemma file_invD:
  assumes "file_inv s ino"
  shows "unat (i_size ino) < 71680" and "i_blocks ino ! 0 = 0 \<Longrightarrow> i_size ino = 0" and "blocks_ok (disk s) (used s) ino (nblk ino)"
    and "nblk ino \<le> 140"
proof -
  show z: "unat (i_size ino) < 71680" and "i_blocks ino ! 0 = 0 \<Longrightarrow> i_size ino = 0" and "blocks_ok (disk s) (used s) ino (nblk ino)"
    using assms by (simp_all add: file_inv_def)
  have "unat (i_size ino) div 512 < 140" using z by (simp add: div_less_iff_less_mult)
  then show "nblk ino \<le> 140" by (simp add: nblk_def)
qed


text \<open>The first write gives the file its first block.\<close>

lemma first_block_eq:
  assumes g: "geom_ok s" and f: "0 < nfree s" and inv: "file_inv s (inodes s p)" and H: "H = unat (i_size (inodes s p)) div 512 + 1"
  shows "\<exists>d bm ino s1. s1 = alloc_st s d bm ((inodes s)(p := ino)) \<and> first_block p s = Inr (True, s1) \<and> geom_ok s1 \<and>
     blocks_ok d (used s1) ino H \<and> i_blocks ino ! 0 \<noteq> 0 \<and> i_blocks ino ! 12 = i_blocks (inodes s p) ! 12 \<and>
     (\<exists>bl. ino = (inodes s p)\<lparr>i_blocks := bl\<rparr>) \<and> fbytes s1 ino = fbytes s (inodes s p) \<and>
     (\<forall>a. unat (table_lba s) \<le> unat a \<longrightarrow> d a = disk s a) \<and> used s \<subseteq> used s1 \<and> data_area s1 = data_area s \<and> nfree s - 1 \<le> nfree s1 \<and>
     set (take H (blks d ino)) \<inter> used s \<subseteq> fblocks s (inodes s p)"
proof (cases "i_blocks (inodes s p) ! 0 = 0")
  case False
  have "(inodes s)(p := inodes s p) = inodes s" by simp
  moreover have "nblk (inodes s p) = H" using False H by (simp add: nblk_def)
  ultimately show ?thesis
    using False g file_invD(3) [OF inv]
    by (intro exI [of _ "disk s"] exI [of _ "block_bitmap (part s)"] exI [of _ "inodes s p"] exI [of _ s])
      (auto simp: first_block_def alloc_st_id fblocks_def intro: exI [of _ "i_blocks (inodes s p)"])
next
  case True
  from alloc_one [OF g f] obtain b bm d where
    b: "block_bitmap_alloc s = Inr (b, alloc_st s (disk s) bm (inodes s))" "b \<noteq> -1" "b - data_lba s \<noteq> 0" "b \<in> data_area s" "b \<notin> used s"
      "\<forall>a. unat (table_lba s) \<le> unat a \<longrightarrow> d a = disk s a"
      "\<forall>inos. bitmap_sync (b - data_lba s) BLOCK_BITMAP (alloc_st s (disk s) bm inos) = Inr (alloc_st s d bm inos) \<and>
        geom_ok (alloc_st s d bm inos) \<and> data_area (alloc_st s d bm inos) = data_area s \<and>
        used (alloc_st s d bm inos) = insert b (used s) \<and> nfree (alloc_st s d bm inos) = nfree s - 1" by force
  let ?bl = "(i_blocks (inodes s p))[0 := b]"
  let ?ino = "(inodes s p)\<lparr>i_blocks := ?bl\<rparr>"
  let ?s = "alloc_st s d bm ((inodes s)(p := ?ino))"
  note b7 = b(7) [rule_format, of "(inodes s)(p := ?ino)"]
  have nb: "nblk (inodes s p) = 0" using True by (simp add: nblk_def)
  note ok = blocks_okD [OF file_invD(3,4) [OF inv], unfolded nb]
  have b0: "b \<noteq> 0" by (rule data_area_bounds(3) [OF g b(4)])
  have z: "i_size (inodes s p) = 0" by (rule file_invD(2) [OF inv True])
  have H1: "H = 1" using H z by simp
  have tk: "take 1 (blks d ?ino) = [b]" using ok(1) by (cases "i_blocks (inodes s p)") (simp_all add: blks_def)
  have "blocks_ok d (used ?s) ?ino 1"
    unfolding blocks_ok_def tk using ok(1,2,5) b7 by auto
  moreover have "first_block p s = Inr (True, ?s)"
    using True b(1,2,3) b7 by (simp add: first_block_def set_block_alloc_st Let_def)
  ultimately show ?thesis
    using b0 ok(1) z b7 b(5,6) tk
    by (intro exI [of _ d] exI [of _ bm] exI [of _ ?ino] exI [of _ ?s]) (auto simp: fbytes_def H1 intro: exI [of _ ?bl])
qed


text \<open>Old bytes below the old size, then the new ones.\<close>

lemma grown_bytes:
  assumes "\<And>i. i < z \<Longrightarrow> f i = old i" and "\<And>i. z \<le> i \<Longrightarrow> i < z + n \<Longrightarrow> f i = src ! (i - z)" and "length src = n"
  shows "map f [0 ..< z + n] = map old [0 ..< z] @ src"
  by (rule nth_equalityI) (use assms in \<open>auto simp: nth_append\<close>)

text \<open>The transfer, once the blocks are there.\<close>

lemma write_data:
  assumes g: "geom_ok s" and gl: "g < length (file_table (io s))" and ino: "ino' = (inodes s p)\<lparr>i_size := i_size (inodes s p) + of_nat n\<rparr>"
    and ok: "blocks_ok (disk s) (used s) ino' U" and z: "z = unat (i_size (inodes s p))" "z + n < 71680" and U: "U = (z + n) div 512 + 1"
    and ab: "length ab = 140" "\<And>k. z div 512 \<le> k \<Longrightarrow> k < U \<Longrightarrow> ab ! k = blks (disk s) ino' ! k" and n: "n = length src"
  shows "\<exists>d. write_loop g p ab src n True s = Inr (wrote g p n (s\<lparr>disk := d\<rparr>)) \<and> full_sectors d \<and>
     (\<forall>i < z + n. sbyte d (blks (disk s) ino') i = (if i < z then sbyte (disk s) (blks (disk s) ino') i else src ! (i - z))) \<and>
     (\<forall>a. a \<notin> set (take U (blks (disk s) ino')) \<longrightarrow> d a = disk s a)"
proof -
  let ?bl = "blks (disk s) ino'"
  have "(z + n) div 512 < 140" using z(2) by (simp add: div_less_iff_less_mult)
  then have U140: "U \<le> 140" using U by simp
  note iv = blocks_okD [OF ok U140]
  have kU: "k < U" if "512 * k < z + n" for k
  proof -
    have "k \<le> (z + n) div 512" using that by (simp add: less_eq_div_iff_mult_less_eq mult.commute)
    then show ?thesis using U by simp
  qed
  have "\<exists>d. write_loop g p ab src n True s = Inr (wrote g p n (s\<lparr>disk := d\<rparr>)) \<and> full_sectors d \<and>
     (\<forall>i. z div 512 \<le> i div 512 \<and> i < z + n \<longrightarrow> sbyte d ab i = (if i < z then sbyte (disk s) ab i else src ! (i - z))) \<and>
     (\<forall>a. (\<forall>k. z div 512 \<le> k \<and> 512 * k < z + n \<longrightarrow> a \<noteq> ab ! k) \<longrightarrow> d a = disk s a)"
  proof (rule write_loop_eq [OF geom_full [OF g] gl z(1) _ ab(1)])
    show "ab ! k \<le> max_lba" if "z div 512 \<le> k" "512 * k < z + n" for k
      using ab(2) [OF that(1) kU] used_lba(1) [OF g iv(3) [OF kU]] that(2) by simp
    show "ab ! j \<noteq> ab ! k" if "z div 512 \<le> j" "j < k" "512 * k < z + n" for j k
    proof -
      have k: "k < U" by (rule kU [OF that(3)])
      then show ?thesis using ab(2) [of j] ab(2) [of k] iv(4) [of j k] that(1,2) by simp
    qed
  qed (use z n in simp_all)
  then obtain d where d: "write_loop g p ab src n True s = Inr (wrote g p n (s\<lparr>disk := d\<rparr>))" "full_sectors d"
    "\<And>i. z div 512 \<le> i div 512 \<Longrightarrow> i < z + n \<Longrightarrow> sbyte d ab i = (if i < z then sbyte (disk s) ab i else src ! (i - z))"
    "\<And>a. (\<And>k. z div 512 \<le> k \<Longrightarrow> 512 * k < z + n \<Longrightarrow> a \<noteq> ab ! k) \<Longrightarrow> d a = disk s a" by blast
  have kd: "i div 512 < U" if "i < z + n" for i
    by (rule kU) (use that times_div_less_eq_dividend [of 512 i] in linarith)
  have "sbyte d ?bl i = (if i < z then sbyte (disk s) ?bl i else src ! (i - z))" if "i < z + n" for i
  proof (cases "z div 512 \<le> i div 512")
    case True
    then have "ab ! (i div 512) = ?bl ! (i div 512)" using ab(2) kd [OF that] by simp
    then show ?thesis using d(3) [OF True that] by (simp add: sbyte_def)
  next
    case False
    have "d (?bl ! (i div 512)) = disk s (?bl ! (i div 512))"
    proof (rule d(4))
      fix k assume k: "z div 512 \<le> k" "512 * k < z + n"
      then show "?bl ! (i div 512) \<noteq> ab ! k" using ab(2) kU iv(4) [OF kd [OF that] kU [OF k(2)]] False by simp
    qed
    moreover have "i < z" using False div_le_mono [of z i 512] by linarith
    ultimately show ?thesis by (simp add: sbyte_def)
  qed
  moreover have "d a = disk s a" if "a \<notin> set (take U ?bl)" for a
  proof (rule d(4))
    fix k assume k: "z div 512 \<le> k" "512 * k < z + n"
    have "?bl ! k \<in> set (take U ?bl)" using kU [OF k(2)] U140 blks_nth(1) [OF iv(1)] by (auto simp: in_set_conv_nth intro!: exI [of _ k])
    then show "a \<noteq> ab ! k" using that ab(2) [OF k(1) kU [OF k(2)]] by auto
  qed
  ultimately show ?thesis using d(1,2) by blast
qed

lemma block_counts:
  fixes sz :: u32
  assumes "unat sz + n < 71680"
  shows "unat (sz div 512 + 1) = unat sz div 512 + 1" and "unat ((sz + of_nat n) div 512 + 1) = (unat sz + n) div 512 + 1"
proof -
  have q: "unat (sz div 512) = unat sz div 512" "unat sz div 512 < 140" using assms by (simp_all add: unat_div_distrib div_less_iff_less_mult)
  then show "unat (sz div 512 + 1) = unat sz div 512 + 1" by (subst unat_add_small) simp_all
  have "unat ((sz + of_nat n) div 512) = (unat sz + n) div 512" "(unat sz + n) div 512 < 140"
    using assms by (simp_all add: unat_div_distrib unat_add_small div_less_iff_less_mult)
  then show "unat ((sz + of_nat n) div 512 + 1) = (unat sz + n) div 512 + 1" by (subst unat_add_small) simp_all
qed

text \<open>Growing leaves the blocks the file had, and their bytes.\<close>

lemma grown_kept:
  assumes g: "geom_ok s" and ok: "blocks_ok (disk s) (used s) ino H" and HU: "0 < H" "H \<le> U" "U \<le> 140" and gr: "grown s ino H U ab bs ino' s'"
  shows "k < H \<Longrightarrow> blks (disk s') ino' ! k = blks (disk s) ino ! k"
    and "i div 512 < H \<Longrightarrow> sbyte (disk s') (blks (disk s') ino') i = sbyte (disk s) (blks (disk s) ino) i"
proof -
  note gr' = gr [unfolded grown_def]
  have tk: "take U (blks (disk s') ino') = take H (blks (disk s) ino) @ bs" and ok': "blocks_ok (disk s') (used s') ino' U"
    using gr' by blast+
  note ov = blocks_okD [OF ok' HU(3)]
  have hd: "blks (disk s') ino' ! k = blks (disk s) ino ! k" if "k < H" for k
  proof -
    have "blks (disk s') ino' ! k = (take H (blks (disk s) ino) @ bs) ! k" using tk that HU(2) nth_take [of k U "blks (disk s') ino'"] by simp
    then show ?thesis using that blks_nth(1) [OF blocks_okD(1) [OF ok], of "disk s"] HU by (simp add: nth_append)
  qed
  then show "k < H \<Longrightarrow> blks (disk s') ino' ! k = blks (disk s) ino ! k" .
  assume k: "i div 512 < H"
  then have kU: "i div 512 < U" using HU by simp
  have "blks (disk s') ino' ! (i div 512) \<in> used s" using hd [OF k] blocks_okD(3) [OF ok _ k] HU by simp
  then have "unat (table_lba s) \<le> unat (blks (disk s') ino' ! (i div 512))" using used_lba(3) [OF g] by simp
  moreover have "blks (disk s') ino' ! (i div 512) \<noteq> i_blocks ino' ! 12"
    using ov(7) [OF _ kU] ov(5) used_lba(2) [OF g \<open>_ \<in> used s\<close>] by (cases "12 < U") auto
  moreover have "disk s' a = disk s a" if "unat (table_lba s) \<le> unat a" "a \<noteq> i_blocks ino' ! 12" for a using gr' that by blast
  ultimately show "sbyte (disk s') (blks (disk s') ino') i = sbyte (disk s) (blks (disk s) ino) i" using hd [OF k] by (simp add: sbyte_def)
qed

text \<open>Data written into the blocks of a file leave its table alone.\<close>

lemma table_kept:
  assumes "blocks_ok d0 us ino U" and "U \<le> 140" and "\<And>a. a \<notin> set (take U (blks d0 ino)) \<Longrightarrow> d a = d0 a"
  shows "blks d ino = blks d0 ino"
proof (rule blks_cong, rule assms(3))
  assume "i_blocks ino ! 12 \<noteq> 0"
  then have "12 < U" using blocks_okD(5) [OF assms(1,2)] by (meson not_le_imp_less)
  then show "i_blocks ino ! 12 \<notin> set (take U (blks d0 ino))" using assms(1) unfolding blocks_ok_def by simp
qed

text \<open>The parts of \<^verbatim>\<open>file_write\<close> put together.\<close>

lemma file_write_calls:
  assumes p: "p = fd_inode_of g s" and zn: "z + length src < 71680" "z = unat (i_size (inodes s p))" "i_size (inodes s1 p) = i_size (inodes s p)"
    and m: "mallocs s = a # b # ps" "a \<noteq> NULL" "b \<noteq> NULL" and fb: "first_block p (s\<lparr>mallocs := ps\<rparr>) = Inr (True, s1)"
    and wb: "write_blocks (z div 512 + 1) ((z + length src) div 512 + 1) p s1 = Inr (Some ab, s2)"
    and wl: "write_loop g p ab src (length src) True (upd_file g (\<lambda>f. f\<lparr>fd_pos := i_size (inodes s2 p) - 1\<rparr>) s2) = Inr s4"
  shows "file_write g src (of_nat (length src)) s = bind_res (inode_sync (inodes s4 p) 512 s4) (\<lambda>s. Inr (int (length src), s))"
proof -
  let ?n = "length src" and ?sz = "i_size (inodes s p)"
  have w: "unat (?sz div 512 + 1) = z div 512 + 1" "unat ((?sz + of_nat ?n) div 512 + 1) = (z + ?n) div 512 + 1"
    using block_counts [of ?sz ?n] zn by simp_all
  have "(z + ?n) div 512 < 140" using zn(1) by (simp add: div_less_iff_less_mult)
  then have "(?sz + of_nat ?n) div 512 + 1 \<le> 140" using w(2) by (simp add: word_le_nat_alt)
  moreover have "\<not> ?sz + of_nat ?n > 512 * 140" using zn by (simp add: word_less_nat_alt unat_add_small)
  moreover have "unat (of_nat ?n :: u32) = ?n" "sint (of_nat ?n :: u32) = int ?n"
    using zn(1) sint_of_small [of "of_nat ?n"] by simp_all
  ultimately show ?thesis
    unfolding file_write_def Let_def p [symmetric] using m fb zn(3) w wb wl by (simp add: fs_malloc_def)
qed

text \<open>The blocks of a write: after the first block and \<open>write_blocks\<close> the file has the blocks it will use, its
  bytes are where they were, and no block in use of others is one of them or changed.\<close>

lemma blocks_ready:
  assumes g: "geom_ok s" and f: "n div 512 + 3 \<le> nfree s" and inv: "file_inv s (inodes s p)" and z: "z = unat (i_size (inodes s p))"
    and zn: "z + n < 71680" and HU: "H = z div 512 + 1" "U = (z + n) div 512 + 1"
  shows "\<exists>s1 s2 ab ino2. first_block p s = Inr (True, s1) \<and> i_size (inodes s1 p) = i_size (inodes s p) \<and>
     write_blocks H U p s1 = Inr (Some ab, s2) \<and> length ab = 140 \<and> (\<forall>k. H \<le> Suc k \<and> k < U \<longrightarrow> ab ! k = blks (disk s2) ino2 ! k) \<and>
     inodes s2 p = ino2 \<and> (\<exists>bl. ino2 = (inodes s p)\<lparr>i_blocks := bl\<rparr>) \<and> i_blocks ino2 ! 0 \<noteq> 0 \<and>
     geom_ok s2 \<and> blocks_ok (disk s2) (used s2) ino2 U \<and> data_area s2 = data_area s \<and> table_lba s2 = table_lba s \<and> io s2 = io s \<and>
     (\<forall>i < z. sbyte (disk s2) (blks (disk s2) ino2) i = sbyte (disk s) (blks (disk s) (inodes s p)) i) \<and>
     (\<forall>b \<in> used s. b \<notin> fblocks s (inodes s p) \<longrightarrow> b \<notin> set (take U (blks (disk s2) ino2)) \<and> disk s2 b = disk s b)"
proof -
  have f0: "0 < nfree s" using f by simp
  from first_block_eq [OF g f0 inv, of H] HU(1) z obtain d1 bm1 ino1 s1 where
    s1: "s1 = alloc_st s d1 bm1 ((inodes s)(p := ino1))" "first_block p s = Inr (True, s1)" "geom_ok s1" "blocks_ok d1 (used s1) ino1 H"
      "i_blocks ino1 ! 0 \<noteq> 0" "i_blocks ino1 ! 12 = i_blocks (inodes s p) ! 12" "\<exists>bl. ino1 = (inodes s p)\<lparr>i_blocks := bl\<rparr>"
      "fbytes s1 ino1 = fbytes s (inodes s p)" "\<forall>a. unat (table_lba s) \<le> unat a \<longrightarrow> d1 a = disk s a" "used s \<subseteq> used s1"
      "data_area s1 = data_area s" "nfree s - 1 \<le> nfree s1" "set (take H (blks d1 ino1)) \<inter> used s \<subseteq> fblocks s (inodes s p)"
    by blast
  have i1: "i_size ino1 = i_size (inodes s p)" and ip1: "inodes s1 p = ino1" "disk s1 = d1" using s1(1,7) by auto
  have hu: "0 < H" "H \<le> U" "U \<le> 140" "U - H \<le> n div 512 + 1"
    using zn less_mult_imp_div_less [of "z + n" 140 512] by (simp_all add: HU div_le_mono div_add1_eq [of z n 512])
  have f1: "U - H < nfree s1" using s1(12) f hu(4) by linarith
  have ok1: "blocks_ok (disk s1) (used s1) ino1 H" using s1(4) ip1(2) by simp
  from write_blocks_ok [OF s1(3) ok1 ip1(1) [symmetric] hu(1-3) f1] obtain ab bs d2 bm2 ino2 s2 where
    s2: "s2 = alloc_st s1 d2 bm2 ((inodes s1)(p := ino2))" "write_blocks H U p s1 = Inr (Some ab, s2)" and gr: "grown s1 ino1 H U ab bs ino2 s2"
    by blast
  note gr' = gr [unfolded grown_def ip1(2)] and kept = grown_kept [OF s1(3) ok1 hu(1-3) gr, unfolded ip1(2)]
  have ok2: "blocks_ok (disk s2) (used s2) ino2 U" and tk: "take U (blks (disk s2) ino2) = take H (blks d1 ino1) @ bs" using gr' by blast+
  have b0: "i_blocks ino2 ! 0 \<noteq> 0"
    using kept(1) [of 0] hu blks_nth(2) [OF blocks_okD(1) [OF ok2], of 0] blks_nth(2) [OF blocks_okD(1) [OF s1(4)], of 0] s1(5) by simp
  have "sbyte (disk s2) (blks (disk s2) ino2) i = sbyte (disk s) (blks (disk s) (inodes s p)) i" if "i < z" for i
  proof -
    have "sbyte (disk s2) (blks (disk s2) ino2) i = sbyte d1 (blks d1 ino1) i"
      using that by (intro kept(2)) (simp add: HU le_imp_less_Suc div_le_mono)
    then show ?thesis using arg_cong [OF s1(8), of "\<lambda>xs. xs ! i"] that i1 ip1(2) z by (simp add: fbytes_def)
  qed
  moreover have "b \<notin> set (take U (blks (disk s2) ino2)) \<and> disk s2 b = disk s b" if b: "b \<in> used s" "b \<notin> fblocks s (inodes s p)" for b
  proof -
    have u: "b \<in> used s1" using b(1) s1(10) by blast
    have "\<not> nblk (inodes s p) \<le> 12" if "b = i_blocks (inodes s p) ! 12"
      using blocks_okD(5) [OF file_invD(3,4) [OF inv]] used_lba(2) [OF g b(1)] that by auto
    then have "b \<noteq> i_blocks (inodes s p) ! 12" using b(2) by (auto simp: fblocks_def)
    then have "b \<noteq> i_blocks ino2 ! 12" using gr' u s1(6) by auto
    moreover have "b \<notin> set bs" using gr' u by blast
    ultimately show ?thesis using s1(1,9,13) b gr' tk used_lba(3) [OF g b(1)] by auto
  qed
  moreover have "\<exists>bl. ino2 = (inodes s p)\<lparr>i_blocks := bl\<rparr>" using s1(7) gr' by fastforce
  ultimately show ?thesis using s1(1,2,11) s2 gr' i1 ip1(1) b0 by (intro exI [of _ s1] exI [of _ s2] exI [of _ ab] exI [of _ ino2]) simp
qed

text \<open>\<^verbatim>\<open>file_write\<close> up to its last step, the \<^verbatim>\<open>inode_sync\<close>.\<close>

lemma file_write_steps:
  assumes g: "geom_ok s" and f: "length src div 512 + 3 \<le> nfree s" and p: "p = fd_inode_of g s" and gl: "g < length (file_table (io s))"
    and inv: "file_inv s (inodes s p)" and room: "unat (i_size (inodes s p)) + length src < 71680"
    and m: "mallocs s = a # b # ps" "a \<noteq> NULL" "b \<noteq> NULL"
  shows "\<exists>s4. file_write g src (of_nat (length src)) s = bind_res (inode_sync (inodes s4 p) 512 s4) (\<lambda>s. Inr (int (length src), s)) \<and>
     geom_ok s4 \<and> file_inv s4 (inodes s4 p) \<and> fbytes s4 (inodes s4 p) = fbytes s (inodes s p) @ src \<and>
     i_no (inodes s4 p) = i_no (inodes s p) \<and> table_lba s4 = table_lba s \<and> data_area s4 = data_area s \<and>
     (\<forall>b \<in> used s. b \<notin> fblocks s (inodes s p) \<longrightarrow> disk s4 b = disk s b)"
proof -
  let ?n = "length src" and ?s0 = "s\<lparr>mallocs := ps\<rparr>"
  define z where "z = unat (i_size (inodes s p))"
  define H where "H = z div 512 + 1"
  define U where "U = (z + ?n) div 512 + 1"
  have zn: "z + ?n < 71680" and U: "U \<le> 140" using room less_mult_imp_div_less [of "z + ?n" 140 512] by (simp_all add: z_def U_def)
  have g0: "geom_ok ?s0" "used ?s0 = used s" "data_area ?s0 = data_area s" "nfree ?s0 = nfree s"
    using geom_cong [of ?s0 s] geom_full [OF g] g by simp_all
  have i0: "file_inv ?s0 (inodes ?s0 p)" using inv g0(2) by (simp add: file_inv_def)
  have sel: "part ?s0 = part s" "disk ?s0 = disk s" "inodes ?s0 = inodes s" "io ?s0 = io s"
    "fblocks ?s0 (inodes s p) = fblocks s (inodes s p)" by (simp_all add: fblocks_def)
  from blocks_ready [OF g0(1) _ i0 _ zn H_def U_def, unfolded sel(3), unfolded g0(2-4) sel, OF f z_def] obtain s1 s2 ab ino2 where
    fb: "first_block p ?s0 = Inr (True, s1)" "i_size (inodes s1 p) = i_size (inodes s p)" "write_blocks H U p s1 = Inr (Some ab, s2)" and
    ab: "length ab = 140" "\<And>k. H \<le> Suc k \<Longrightarrow> k < U \<Longrightarrow> ab ! k = blks (disk s2) ino2 ! k" and
    ino2: "inodes s2 p = ino2" "\<exists>bl. ino2 = (inodes s p)\<lparr>i_blocks := bl\<rparr>" "i_blocks ino2 ! 0 \<noteq> 0" and
    s2: "geom_ok s2" "blocks_ok (disk s2) (used s2) ino2 U" "data_area s2 = data_area s" "table_lba s2 = table_lba s" "io s2 = io s" and
    old: "\<And>i. i < z \<Longrightarrow> sbyte (disk s2) (blks (disk s2) ino2) i = sbyte (disk s) (blks (disk s) (inodes s p)) i" and
    oth: "\<And>b. b \<in> used s \<Longrightarrow> b \<notin> fblocks s (inodes s p) \<Longrightarrow> b \<notin> set (take U (blks (disk s2) ino2)) \<and> disk s2 b = disk s b"
    by blast
  have i2: "i_size ino2 = i_size (inodes s p)" "i_no ino2 = i_no (inodes s p)" using ino2(2) by auto
  define ino' where "ino' = ino2\<lparr>i_size := i_size ino2 + of_nat ?n\<rparr>"
  let ?s3 = "upd_file g (\<lambda>f. f\<lparr>fd_pos := i_size (inodes s2 p) - 1\<rparr>) s2"
  have bk: "blks d ino' = blks d ino2" "i_blocks ino' = i_blocks ino2" for d by (simp_all add: ino'_def blks_def)
  have g3: "geom_ok ?s3" "used ?s3 = used s2" using geom_cong [of ?s3 s2] geom_full [OF s2(1)] s2(1) by simp_all
  have "\<exists>d. write_loop g p ab src ?n True ?s3 = Inr (wrote g p ?n (?s3\<lparr>disk := d\<rparr>)) \<and> full_sectors d \<and>
     (\<forall>i < z + ?n. sbyte d (blks (disk ?s3) ino') i = (if i < z then sbyte (disk ?s3) (blks (disk ?s3) ino') i else src ! (i - z))) \<and>
     (\<forall>a. a \<notin> set (take U (blks (disk ?s3) ino')) \<longrightarrow> d a = disk ?s3 a)"
  proof (rule write_data [OF g3(1)])
    show "g < length (file_table (io ?s3))" using gl s2(5) by simp
    show "ino' = (inodes ?s3 p)\<lparr>i_size := i_size (inodes ?s3 p) + of_nat ?n\<rparr>" using ino2(1) by (simp add: ino'_def)
    show "blocks_ok (disk ?s3) (used ?s3) ino' U" using s2(2) g3(2) by (simp add: blocks_ok_def bk)
    show "z = unat (i_size (inodes ?s3 p))" using ino2(1) i2(1) by (simp add: z_def)
    show "ab ! k = blks (disk ?s3) ino' ! k" if "z div 512 \<le> k" "k < U" for k using ab(2) [of k] that by (simp add: H_def bk)
  qed (use zn U_def ab(1) in simp_all)
  then obtain d where d: "write_loop g p ab src ?n True ?s3 = Inr (wrote g p ?n (?s3\<lparr>disk := d\<rparr>))" "full_sectors d"
    "\<And>i. i < z + ?n \<Longrightarrow> sbyte d (blks (disk s2) ino2) i = (if i < z then sbyte (disk s2) (blks (disk s2) ino2) i else src ! (i - z))"
    "\<And>a. a \<notin> set (take U (blks (disk s2) ino2)) \<Longrightarrow> d a = disk s2 a" by (auto simp: bk)
  define s4 where "s4 = wrote g p ?n (?s3\<lparr>disk := d\<rparr>)"
  have i4: "inodes s4 p = ino'" "disk s4 = d" "part s4 = part s2" using ino2(1) by (simp_all add: s4_def ino'_def)
  have fw: "file_write g src (of_nat ?n) s = bind_res (inode_sync (inodes s4 p) 512 s4) (\<lambda>s. Inr (int ?n, s))"
    by (rule file_write_calls [OF p zn z_def fb(2) m fb(1) fb(3) [unfolded H_def U_def]]) (use d(1) s4_def in simp_all)
  have bd: "blks d ino2 = blks (disk s2) ino2" by (rule table_kept [OF s2(2) U d(4)])
  have zz: "unat (i_size ino') = z + ?n" using i2(1) zn by (simp add: ino'_def z_def unat_add_small)
  have nU: "nblk ino' = U" using zz ino2(3) bk(2) by (simp add: nblk_def U_def)
  have g4: "geom_ok s4" "used s4 = used s2" "data_area s4 = data_area s"
    using geom_cong [OF i4(3)] s2(1,3) d(2) i4(2) by simp_all
  have inv4: "file_inv s4 ino'"
    using zz zn ino2(3) nU s2(2) bd g4(2) i4(2) by (simp add: file_inv_def blocks_ok_def bk)
  have fb4: "fbytes s4 ino' = fbytes s (inodes s p) @ src"
    unfolding fbytes_def zz i4(2) bk bd z_def [symmetric] by (rule grown_bytes) (use d(3) old in simp_all)
  have "disk s4 b = disk s b" if "b \<in> used s" "b \<notin> fblocks s (inodes s p)" for b
    using oth [OF that] d(4) [of b] i4(2) by simp
  then show ?thesis using fw g4 inv4 fb4 i4 s2(4) i2(2) by (intro exI [of _ s4]) (simp add: ino'_def)
qed

section \<open>Properties\<close>


text \<open>The two limits. An i-node across two sectors needs 1024 bytes, and the buffer of \<^verbatim>\<open>file_write\<close> has 512: the data is written,
  then memory behind the buffer is overwritten. A write that fills the file to the last byte trips an assertion, although the
  test at the start lets it through.\<close>

lemma file_write_straddles:
  assumes "geom_ok s" and "length src div 512 + 3 \<le> nfree s" and "p = fd_inode_of g s" and "g < length (file_table (io s))"
    and "file_inv s (inodes s p)" and "unat (i_size (inodes s p)) + length src < 71680"
    and "mallocs s = a # b # ps" and "a \<noteq> NULL" and "b \<noteq> NULL" and "pos_n (unat (i_no (inodes s p)) mod 256) = 2"
  shows "file_write g src (of_nat (length src)) s = Inl Bad_Access"
proof -
  from file_write_steps [OF assms(1-9)] obtain s4 where
    fw: "file_write g src (of_nat (length src)) s = bind_res (inode_sync (inodes s4 p) 512 s4) (\<lambda>s. Inr (int (length src), s))" and
    s4: "geom_ok s4" "i_no (inodes s4 p) = i_no (inodes s p)" by blast
  have "fs_ok s4" using s4(1) by (simp add: geom_ok_def Let_def)
  then show ?thesis using fw inode_sync_short [of s4 "inodes s4 p"] s4(2) assms(10) by simp
qed

lemma file_write_to_the_brim:
  assumes g: "geom_ok s" and f: "0 < nfree s" and p: "p = fd_inode_of g s" and inv: "file_inv s (inodes s p)"
    and full: "unat (i_size (inodes s p)) + length src = 71680" and m: "mallocs s = a # b # ps" "a \<noteq> NULL" "b \<noteq> NULL"
  shows "file_write g src (of_nat (length src)) s = Inl (Panic ''file_will_use_blocks <= 140'')"
proof -
  let ?s0 = "s\<lparr>mallocs := ps\<rparr>"
  have g0: "geom_ok ?s0" "0 < nfree ?s0" "file_inv ?s0 (inodes ?s0 p)"
    using geom_cong [of ?s0 s] geom_full [OF g] g f inv by (simp_all add: file_inv_def)
  from first_block_eq [OF g0 refl] obtain ino s1 where
    s1: "first_block p ?s0 = Inr (True, s1)" "inodes s1 p = ino" "i_size ino = i_size (inodes s p)" by force
  have u: "unat (i_size (inodes s p) + of_nat (length src)) = 71680" using full by (subst unat_add_small) simp_all
  then have e: "i_size (inodes s p) + of_nat (length src) = 71680" by (intro unsigned_word_eqI) simp
  then show ?thesis
    unfolding file_write_def Let_def p [symmetric] using m s1 by (simp add: fs_malloc_def)
qed





section \<open>Witnesses\<close>











end
