(* ===== verification/Path.thy ===== *)
theory Path
  imports Dir
begin

text \<open>
  Path names: \<^verbatim>\<open>path_parse\<close>, \<^verbatim>\<open>path_depth_cnt\<close> and \<^verbatim>\<open>search_file\<close> of \<^verbatim>\<open>fs/fs.c\<close>. A path is the list of
  its bytes with the terminator; the rest of a path is a suffix (\<open>None\<close> is \<^verbatim>\<open>NULL\<close>). \<^verbatim>\<open>name_store\<close> is a
  buffer of 16 bytes: a longer name is \<open>Bad_Access\<close>. Local variables the code does not initialise
  (\<open>name0\<close>, \<open>dir_e\<close>) are arguments.
\<close>

section \<open>Parsing\<close>

fun skip_slashes :: "u8 list \<Rightarrow> u8 list res" where
  "skip_slashes [] = Inl Bad_Access"
| "skip_slashes (c # cs) = (if c = 47 then skip_slashes cs else Inr (c # cs))"

fun parse_name :: "u8 list \<Rightarrow> nat \<Rightarrow> u8 list \<Rightarrow> (u8 list \<times> u8 list) res" where
  "parse_name [] i name_store = Inl Bad_Access"
| "parse_name (c # cs) i name_store =
     (if c \<noteq> 47 \<and> c \<noteq> 0 then bind_res (store name_store i c) (parse_name cs (i + 1)) else Inr (c # cs, name_store))"

definition path_parse :: "u8 list \<Rightarrow> u8 list \<Rightarrow> (u8 list option \<times> u8 list) res" where
  "path_parse pathname name_store =
     bind_res (load pathname 0) (\<lambda>c.
     bind_res (if c = 47 then skip_slashes (tl pathname) else Inr pathname) (\<lambda>pathname.
     bind_res (parse_name pathname 0 name_store) (\<lambda>(pathname, name_store).
     Inr (if hd pathname = 0 then None else Some pathname, name_store))))"

lemma skip_slashes_length: "skip_slashes p = Inr q \<Longrightarrow> length q \<le> length p"
  by (induction p) (auto split: if_splits intro: le_SucI)

lemma parse_name_length:
  "parse_name p i nm = Inr (q, nm') \<Longrightarrow> length q \<le> length p \<and> q \<noteq> [] \<and>
     (p \<noteq> [] \<and> hd p \<noteq> 47 \<and> hd p \<noteq> 0 \<longrightarrow> length q < length p) \<and> (hd q = 47 \<or> hd q = 0)"
proof (induction p i nm rule: parse_name.induct)
  case (2 c cs i nm)
  show ?case
  proof (cases "c \<noteq> 47 \<and> c \<noteq> 0")
    case True
    with 2(2) obtain nm1 where "store nm i c = Inr nm1" "parse_name cs (i + 1) nm1 = Inr (q, nm')"
      by (auto simp: bind_res_eq_Inr)
    with 2(1) [OF True] show ?thesis by fastforce
  qed (use 2 in auto)
qed simp

lemma skip_slashes_hd: "skip_slashes p = Inr q \<Longrightarrow> q \<noteq> [] \<and> hd q \<noteq> 47"
  by (induction p) (auto split: if_splits)

text \<open>What is left of a path is shorter.\<close>

lemma path_parse_shorter:
  assumes "path_parse p nm = Inr (Some q, nm')"
  shows "length q < length p"
proof -
  from assms obtain c r q' where
    l: "load p 0 = Inr c" and s: "(if c = 47 then skip_slashes (tl p) else Inr p) = Inr r" and
    n: "parse_name r 0 nm = Inr (q', nm')" and h: "hd q' \<noteq> 0" "q' = q"
    by (auto simp: path_parse_def bind_res_eq_Inr split: if_splits prod.splits)
  from l have p: "p \<noteq> []" "c = hd p" by (auto simp: load_eq_Inr hd_conv_nth)
  note pn = parse_name_length [OF n]
  show ?thesis
  proof (cases "c = 47")
    case True
    then have "length r \<le> length (tl p)" using s by (intro skip_slashes_length) simp
    then show ?thesis using pn h p(1) by (cases p) auto
  next
    case False
    then have "r = p" using s by simp
    moreover have "hd p \<noteq> 0"
    proof
      assume "hd p = 0"
      then have "q' = p" using n \<open>r = p\<close> p(1) by (cases p) auto
      then show False using h(1) \<open>hd p = 0\<close> by simp
    qed
    ultimately show ?thesis using pn h(2) p False by auto
  qed
qed

section \<open>Depth\<close>

definition zero_name :: "u8 list" where
  "zero_name = replicate MAX_FILE_NAME_LEN 0"

text \<open>With \<open>p\<close> \<^verbatim>\<open>NULL\<close> the name stays cleared and the next test ends the loop.\<close>

function depth_loop :: "u8 list option \<Rightarrow> u8 list \<Rightarrow> nat \<Rightarrow> nat res" where
  "depth_loop p name depth =
     bind_res (load name 0) (\<lambda>c.
     if c \<noteq> 0 then
       (case p of
          None \<Rightarrow> Inr (depth + 1)
        | Some p \<Rightarrow> bind_res (path_parse p zero_name) (\<lambda>(p, name). depth_loop p name (depth + 1)))
     else Inr depth)"
  by pat_completeness auto
termination
proof (relation "measure (\<lambda>(p, name, d). case p of None \<Rightarrow> 0 | Some q \<Rightarrow> length q + 1)", goal_cases)
  case (2 p name depth c q x r name')
  then show ?case using path_parse_shorter [of q zero_name _ name'] by (auto split: option.splits)
qed simp

definition path_depth_cnt :: "u8 list \<Rightarrow> u8 list \<Rightarrow> nat res" where
  "path_depth_cnt name0 pathname = bind_res (path_parse pathname name0) (\<lambda>(p, name). depth_loop p name 0)"

section \<open>Searching\<close>

record path_search_record =
  searched_path :: "u8 list"
  parent_dir :: ptr
  file_type :: u32

definition empty_record :: path_search_record where
  "empty_record = \<lparr>searched_path = replicate MAX_PATH_LEN 0, parent_dir = NULL, file_type = FT_UNKNOWN\<rparr>"

datatype search_end = Found_File int | Walked "u32" "dir_entry"

text \<open>
  The loop of \<^verbatim>\<open>search_file\<close>. \<open>Found_File\<close>: it returned (a regular file, or \<open>-1\<close>);
  \<open>Walked parent_inode_no dir_e\<close>: it ended behind the last name.
\<close>

function search_loop ::
  "u8 list option \<Rightarrow> u8 list \<Rightarrow> u32 \<Rightarrow> dir_entry \<Rightarrow> path_search_record \<Rightarrow> fsys \<Rightarrow> (search_end \<times> path_search_record \<times> fsys) res" where
  "search_loop sub_path name parent_inode_no dir_e rec s =
     bind_res (load name 0) (\<lambda>c.
     if c \<noteq> 0 then
       bind_res (strlen (searched_path rec)) (\<lambda>n.
       bind_res (ASSERT (n < 512) ''strlen(searched_record->searched_path) < 512'') (\<lambda>_.
       bind_res (strcat (searched_path rec) [47, 0]) (\<lambda>sp.
       bind_res (strcat sp name) (\<lambda>sp.
       let rec = rec\<lparr>searched_path := sp\<rparr> in
       bind_res (search_dir_entry (parent_dir rec) name s) (\<lambda>(r, s).
       case r of
         None \<Rightarrow> Inr (Found_File (-1), rec, s)
       | Some dir_e \<Rightarrow>
           bind_res (case sub_path of None \<Rightarrow> Inr (None, zero_name) | Some p \<Rightarrow> path_parse p zero_name) (\<lambda>(sub_path, name).
           if f_type dir_e = FT_DIRECTORY then
             let parent_inode_no = i_no (dinode s (parent_dir rec)) in
             bind_res (dir_open (de_no dir_e) (dir_close (parent_dir rec) s)) (\<lambda>(pdir, s).
             search_loop sub_path name parent_inode_no dir_e (rec\<lparr>parent_dir := pdir\<rparr>) s)
           else if f_type dir_e = FT_REGULAR then Inr (Found_File (sint (de_no dir_e)), rec\<lparr>file_type := FT_REGULAR\<rparr>, s)
           else search_loop sub_path name parent_inode_no dir_e rec s))))))
     else Inr (Walked parent_inode_no dir_e, rec, s))"
  by pat_completeness auto
termination
proof (relation "measure (\<lambda>(p, name, no, d, rec, s).
    (case p of None \<Rightarrow> 0 | Some q \<Rightarrow> 2 * length q + 2) + (if name ! 0 \<noteq> 0 then 1 else 0))", goal_cases)
  case (2 p name no d rec s c n u sp sp' rec' r rr s' de pn p' name' no' w pdir s'')
  then show ?case
    by (cases p) (auto simp: load_eq_Inr zero_name_def MAX_FILE_NAME_LEN_def dest: path_parse_shorter split: option.splits)
next
  case (3 p name no d rec s c n u sp sp' rec' r rr s' de pn p' name')
  then show ?case
    by (cases p) (auto simp: load_eq_Inr zero_name_def MAX_FILE_NAME_LEN_def dest: path_parse_shorter split: option.splits)
qed simp

declare search_loop.simps [simp del]
declare depth_loop.simps [simp del]

definition is_root_path :: "u8 list \<Rightarrow> bool res" where
  "is_root_path pathname =
     bind_res (strcmp pathname [47, 0]) (\<lambda>a.
     if a = 0 then Inr True
     else bind_res (strcmp pathname [47, 46, 0]) (\<lambda>b.
     if b = 0 then Inr True
     else bind_res (strcmp pathname [47, 46, 46, 0]) (\<lambda>c. Inr (c = 0))))"

definition search_file :: "dir_entry \<Rightarrow> u8 list \<Rightarrow> path_search_record \<Rightarrow> fsys \<Rightarrow> (int \<times> path_search_record \<times> fsys) res" where
  "search_file dir_e pathname rec s =
     bind_res (is_root_path pathname) (\<lambda>root.
     if root then
       Inr (0, rec\<lparr>parent_dir := root_dir s, file_type := FT_DIRECTORY, searched_path := (searched_path rec)[0 := 0]\<rparr>, s)
     else
       bind_res (strlen pathname) (\<lambda>path_len.
       bind_res (ASSERT (pathname ! 0 = 47 \<and> path_len > 1 \<and> path_len < MAX_PATH_LEN)
         ''pathname[0] == / && path_len > 1 && path_len < MAX_PATH_LEN'') (\<lambda>_.
       let rec = rec\<lparr>parent_dir := root_dir s, file_type := FT_UNKNOWN\<rparr> in
       bind_res (path_parse pathname zero_name) (\<lambda>(sub_path, name).
       bind_res (search_loop sub_path name 0 dir_e rec s) (\<lambda>(e, rec, s).
       case e of
         Found_File r \<Rightarrow> Inr (r, rec, s)
       | Walked parent_inode_no dir_e \<Rightarrow>
           bind_res (dir_open parent_inode_no (dir_close (parent_dir rec) s)) (\<lambda>(pdir, s).
           Inr (sint (de_no dir_e), rec\<lparr>parent_dir := pdir, file_type := FT_DIRECTORY\<rparr>, s)))))))"

section \<open>Properties\<close>

text \<open>A path of names, each behind one or more slashes.\<close>

definition valid_name :: "u8 list \<Rightarrow> bool" where
  "valid_name n \<longleftrightarrow> n \<noteq> [] \<and> length n \<le> MAX_FILE_NAME_LEN \<and> list_all (\<lambda>c. c \<noteq> 47 \<and> c \<noteq> 0) n"

definition path_str :: "(nat \<times> u8 list) list \<Rightarrow> u8 list" where
  "path_str segs = concat (map (\<lambda>(k, n). replicate (Suc k) 47 @ n) segs) @ [0]"

lemma path_str_simps [simp]:
  "path_str [] = [0]" "path_str ((k, n) # segs) = replicate (Suc k) 47 @ n @ path_str segs"
  by (simp_all add: path_str_def)

lemma path_str_hd: "path_str segs \<noteq> []" "hd (path_str segs) = (if segs = [] then 0 else 47)"
  by (cases segs; auto)+

lemma skip_slashes_replicate: "c \<noteq> 47 \<Longrightarrow> skip_slashes (replicate k 47 @ c # cs) = Inr (c # cs)"
  by (induction k) simp_all

lemma parse_name_eq:
  assumes "list_all (\<lambda>c. c \<noteq> 47 \<and> c \<noteq> 0) n" and "rest \<noteq> []" and "hd rest = 47 \<or> hd rest = 0"
    and "i + length n \<le> length nm"
  shows "parse_name (n @ rest) i nm = Inr (rest, take i nm @ n @ drop (i + length n) nm)"
  using assms
proof (induction n arbitrary: i nm)
  case Nil
  then show ?case by (cases rest) auto
next
  case (Cons c n)
  then have "parse_name (n @ rest) (Suc i) (nm[i := c]) = Inr (rest, take (Suc i) (nm[i := c]) @ n @ drop (Suc i + length n) (nm[i := c]))"
    by (intro Cons.IH) simp_all
  moreover have "take (Suc i) (nm[i := c]) = take i nm @ [c]" using Cons.prems(4) by (simp add: take_Suc_conv_app_nth)
  ultimately show ?case using Cons.prems by (simp add: store_def)
qed

lemma path_parse_eq:
  assumes "valid_name n" and "length nm = MAX_FILE_NAME_LEN"
  shows "path_parse (path_str ((k, n) # segs)) nm =
     Inr (if segs = [] then None else Some (path_str segs), n @ drop (length n) nm)"
proof -
  from assms(1) obtain c cs where n: "n = c # cs" "c \<noteq> 47" by (cases n) (auto simp: valid_name_def)
  have "tl (path_str ((k, n) # segs)) = replicate k 47 @ c # cs @ path_str segs" using n by simp
  then have s: "skip_slashes (tl (path_str ((k, n) # segs))) = Inr (n @ path_str segs)"
    using skip_slashes_replicate [OF n(2), of k "cs @ path_str segs"] n(1) by simp
  have "parse_name (n @ path_str segs) 0 nm = Inr (path_str segs, take 0 nm @ n @ drop (0 + length n) nm)"
    by (rule parse_name_eq) (use assms path_str_hd in \<open>auto simp: valid_name_def\<close>)
  then show ?thesis using s path_str_hd(2) [of segs] unfolding path_parse_def by simp
qed

lemma depth_loop_eq:
  assumes "list_all (\<lambda>(k, n). valid_name n) segs" and "0 < length nm" and "nm ! 0 \<noteq> 0"
  shows "depth_loop (if segs = [] then None else Some (path_str segs)) nm d = Inr (d + 1 + length segs)"
  using assms
proof (induction segs arbitrary: nm d)
  case Nil
  then show ?case by (subst depth_loop.simps) simp
next
  case (Cons a segs)
  obtain k n where a: "a = (k, n)" by (cases a)
  have v: "valid_name n" using Cons.prems(1) a by simp
  have pp: "path_parse (path_str (a # segs)) zero_name =
      Inr (if segs = [] then None else Some (path_str segs), n @ drop (length n) zero_name)"
    unfolding a by (rule path_parse_eq [OF v]) (simp add: zero_name_def)
  have "0 < length (n @ drop (length n) zero_name)" "(n @ drop (length n) zero_name) ! 0 \<noteq> 0"
    using v by (cases n; simp add: valid_name_def)+
  then have "depth_loop (if segs = [] then None else Some (path_str segs)) (n @ drop (length n) zero_name) (d + 1)
      = Inr (d + 1 + 1 + length segs)" using Cons.prems(1) by (intro Cons.IH) simp_all
  then show ?case using Cons.prems(2,3) pp by (subst depth_loop.simps) simp
qed

text \<open>C27: Splitting and counting: \<^verbatim>\<open>path_parse\<close> stores the first name of a path, however many slashes
  stand before it, and returns what is behind it (\<^verbatim>\<open>NULL\<close> at the end); \<^verbatim>\<open>path_depth_cnt\<close> returns the
  number of names, whatever its name buffer held.\<close>

theorem path_split_count:
  assumes "list_all (\<lambda>(k, n). valid_name n) ((k, n) # segs)" and "length name0 = MAX_FILE_NAME_LEN"
  shows "path_parse (path_str ((k, n) # segs)) name0 =
       Inr (if segs = [] then None else Some (path_str segs), n @ drop (length n) name0) \<and>
     path_depth_cnt name0 (path_str ((k, n) # segs)) = Inr (length ((k, n) # segs))"
proof -
  have v: "valid_name n" using assms(1) by simp
  note pp = path_parse_eq [OF v assms(2), of k segs]
  have "0 < length (n @ drop (length n) name0)" "(n @ drop (length n) name0) ! 0 \<noteq> 0"
    using v by (cases n; simp add: valid_name_def)+
  then have "depth_loop (if segs = [] then None else Some (path_str segs)) (n @ drop (length n) name0) 0
      = Inr (0 + 1 + length segs)" using assms(1) by (intro depth_loop_eq) simp_all
  then show ?thesis using pp by (simp add: path_depth_cnt_def)
qed

theorem path_split_count_witness:
  "path_parse [47, 97, 47, 47, 98, 99, 0] (replicate 16 7) = Inr (Some [47, 47, 98, 99, 0], 97 # replicate 15 7) \<and>
     path_depth_cnt (replicate 16 7) [47, 97, 47, 47, 98, 99, 0] = Inr 2"
  using path_split_count [of 0 "[97]" "[(1, [98, 99])]" "replicate 16 7"]
  by (simp add: valid_name_def MAX_FILE_NAME_LEN_def)

text \<open>The empty path leaves the buffer as it is: what the depth is depends on the stack.\<close>

lemma path_depth_empty: "c \<noteq> 0 \<Longrightarrow> path_depth_cnt (c # nm) [0] = Inr 1" "path_depth_cnt (0 # nm) [0] = Inr 0"
  by (simp_all add: path_depth_cnt_def path_parse_def depth_loop.simps)

end
