(* ===== verification/Format.thy ===== *)
theory Format
  imports Dir
begin

text \<open>
  Making and mounting a file system: \<^verbatim>\<open>partition_format\<close>, \<^verbatim>\<open>mount_partition\<close> and \<^verbatim>\<open>filesys_init\<close> of
  \<^verbatim>\<open>fs/fs.c\<close>, on the disk of \<open>fsys\<close>. \<open>pad\<close> is what the 460 bytes behind the fields of the super
  block on the stack hold.
\<close>

section \<open>Formatting\<close>

text \<open>The entries \<^verbatim>\<open>.\<close> and \<^verbatim>\<open>..\<close> of a new directory and its first sector.\<close>

definition dot_entry :: "u8 list \<Rightarrow> u32 \<Rightarrow> dir_entry" where
  "dot_entry nm no = \<lparr>filename = nm @ replicate (MAX_FILE_NAME_LEN - length nm) 0, de_no = no, f_type = FT_DIRECTORY\<rparr>"

definition new_dir_sector :: "u32 \<Rightarrow> u32 \<Rightarrow> u8 list" where
  "new_dir_sector self parent =
     enc_de (dot_entry [46] self) @ enc_de (dot_entry [46, 46] parent) @ replicate (SECTOR_SIZE - 2 * sizeof_dir_entry) 0"

definition inode_bitmap_sects_of :: u32 where
  "inode_bitmap_sects_of = DIV_ROUND_UP MAX_FILES_PER_PART BITS_PER_SECTOR"

definition inode_table_sects_of :: u32 where
  "inode_table_sects_of = DIV_ROUND_UP (of_nat sizeof_inode * MAX_FILES_PER_PART) (of_nat SECTOR_SIZE)"

text \<open>The number of blocks, which is the number of bits of the block bitmap.\<close>

definition block_bitmap_bit_len :: "u32 \<Rightarrow> u32" where
  "block_bitmap_bit_len cnt =
     (let used_sects = 1 + 1 + inode_bitmap_sects_of + inode_table_sects_of;
          free_sects = cnt - used_sects;
          block_bitmap_sects = DIV_ROUND_UP free_sects BITS_PER_SECTOR
      in free_sects - block_bitmap_sects)"

definition format_sb :: "u32 \<Rightarrow> u32 \<Rightarrow> super_block" where
  "format_sb start cnt =
     (let block_bitmap_sects = DIV_ROUND_UP (block_bitmap_bit_len cnt) BITS_PER_SECTOR;
          block_bitmap_lba = start + 2;
          inode_bitmap_lba = block_bitmap_lba + block_bitmap_sects;
          inode_table_lba = inode_bitmap_lba + inode_bitmap_sects_of
      in \<lparr>magic = 0x19980924, sb_sec_cnt = cnt, inode_cnt = MAX_FILES_PER_PART, part_lba_base = start,
          block_bitmap_lba = block_bitmap_lba, block_bitmap_sects = block_bitmap_sects,
          inode_bitmap_lba = inode_bitmap_lba, inode_bitmap_sects = inode_bitmap_sects_of,
          inode_table_lba = inode_table_lba, inode_table_sects = inode_table_sects_of,
          data_start_lba = inode_table_lba + inode_table_sects_of, root_inode_no = 0,
          dir_entry_size = of_nat sizeof_dir_entry\<rparr>)"

text \<open>The block bitmap: bit 0 is taken, the bits behind the last block too; then the bits of the last
  byte up to and including \<open>last_bit\<close> are cleared.\<close>

definition clear_low_bits :: "nat \<Rightarrow> u8 \<Rightarrow> u8" where
  "clear_low_bits last_bit b = fold (\<lambda>bit_idx b. b AND NOT (push_bit bit_idx 1)) [0 ..< last_bit + 1] b"

definition init_block_bitmap :: "u32 \<Rightarrow> u8 list \<Rightarrow> u8 list res" where
  "init_block_bitmap bit_len bf =
     bind_res (load bf 0) (\<lambda>b0.
     let bf = bf[0 := b0 OR 1];
         last_byte = unat (bit_len div 8);
         last_bit = unat (bit_len mod 8);
         last_size = SECTOR_SIZE - last_byte mod SECTOR_SIZE
     in
     bind_res (memset (drop last_byte bf) 0xff last_size) (\<lambda>r.
     let bf = take last_byte bf @ r in
     bind_res (load bf last_byte) (\<lambda>b.
     Inr (bf[last_byte := clear_low_bits last_bit b]))))"

text \<open>The table of i-nodes: number 0 is the root directory.\<close>

definition init_inode_table :: "super_block \<Rightarrow> u8 list \<Rightarrow> u8 list res" where
  "init_inode_table b bf =
     put_at bf 0 (enc_inode ((inode_init 0)\<lparr>i_size := dir_entry_size b * 2, i_blocks := (replicate 13 0)[0 := data_start_lba b]\<rparr>))"

definition partition_format :: "u8 list \<Rightarrow> u32 \<Rightarrow> u32 \<Rightarrow> fsys \<Rightarrow> fsys res" where
  "partition_format pad start cnt s =
     (let b = format_sb start cnt in
      bind_res (disk_write (start + 1) (enc_sb b pad) 1 s) (\<lambda>s.
      let sects = (if block_bitmap_sects b \<ge> inode_bitmap_sects b then block_bitmap_sects b else inode_bitmap_sects b);
          buf_size = (if sects \<ge> inode_table_sects b then sects else inode_table_sects b) * of_nat SECTOR_SIZE;
          (p, s) = fs_malloc s;
          zeros = replicate (unat buf_size) 0
      in
      if p = NULL then Inl Bad_Access
      else
        bind_res (init_block_bitmap (block_bitmap_bit_len cnt) zeros) (\<lambda>bf.
        bind_res (disk_write (block_bitmap_lba b) bf (unat (block_bitmap_sects b)) s) (\<lambda>s.
        bind_res (store zeros 0 (0 OR 1)) (\<lambda>bf.
        bind_res (disk_write (inode_bitmap_lba b) bf (unat (inode_bitmap_sects b)) s) (\<lambda>s.
        bind_res (init_inode_table b zeros) (\<lambda>bf.
        bind_res (disk_write (inode_table_lba b) bf (unat (inode_table_sects b)) s) (\<lambda>s.
        bind_res (put_at zeros 0 (enc_de (dot_entry [46] 0) @ enc_de (dot_entry [46, 46] 0))) (\<lambda>bf.
        disk_write (data_start_lba b) bf 1 s)))))))))"

section \<open>Mounting\<close>

text \<open>The callback of \<^verbatim>\<open>list_traversal\<close>; true ends the walk.\<close>

definition mount_partition :: "u8 list \<Rightarrow> u8 list \<times> partition \<Rightarrow> fsys \<Rightarrow> (bool \<times> fsys) res" where
  "mount_partition part_name np s =
     (let (name, p) = np in
      bind_res (strcmp name part_name) (\<lambda>r.
      if r = 0 then
        let (sb_buf, s) = fs_malloc s; (q, s) = fs_malloc s in
        bind_res (ASSERT (q \<noteq> NULL) ''alloc memory failed!'') (\<lambda>_.
        bind_res (ASSERT (sb_buf \<noteq> NULL) ''dst_ != NULL'') (\<lambda>_.
        bind_res (disk_read (start_lba p + 1) 1 s) (\<lambda>bs.
        let b = dec_sb bs; (q, s) = fs_malloc s in
        bind_res (ASSERT (q \<noteq> NULL) ''alloc memory failed!'') (\<lambda>_.
        bind_res (disk_read (block_bitmap_lba b) (unat (block_bitmap_sects b)) s) (\<lambda>bb.
        let (q, s) = fs_malloc s in
        bind_res (ASSERT (q \<noteq> NULL) ''alloc memory failed!'') (\<lambda>_.
        bind_res (disk_read (inode_bitmap_lba b) (unat (inode_bitmap_sects b)) s) (\<lambda>ib.
        Inr (True, s\<lparr>part := p\<lparr>sb := b,
          block_bitmap := \<lparr>btmp_bytes_len = block_bitmap_sects b * of_nat SECTOR_SIZE, bits = bb\<rparr>,
          inode_bitmap := \<lparr>btmp_bytes_len = inode_bitmap_sects b * of_nat SECTOR_SIZE, bits = ib\<rparr>,
          open_inodes := []\<rparr>\<rparr>))))))))
      else Inr (False, s)))"

fun mount_loop :: "u8 list \<Rightarrow> (u8 list \<times> partition) list \<Rightarrow> fsys \<Rightarrow> (bool \<times> fsys) res" where
  "mount_loop part_name [] s = Inr (False, s)"
| "mount_loop part_name (p # ps) s =
     bind_res (mount_partition part_name p s) (\<lambda>(found, s). if found then Inr (True, s) else mount_loop part_name ps s)"

text \<open>The partitions of the disk: one without a file system is formatted.\<close>

fun scan_parts :: "u8 list \<Rightarrow> (u32 \<times> u32) list \<Rightarrow> fsys \<Rightarrow> fsys res" where
  "scan_parts pad [] s = Inr s"
| "scan_parts pad ((start, cnt) # ps) s =
     bind_res
       (if cnt \<noteq> 0 then
          bind_res (disk_read (start + 1) 1 s) (\<lambda>bs.
          if magic (dec_sb bs) = 0x19980924 then Inr s else partition_format pad start cnt s)
        else Inr s) (scan_parts pad ps)"

text \<open>\<open>parts\<close>: start and size of the twelve partitions of the slave disk of the first channel
  (\<^verbatim>\<open>part_idx\<close> is never reset, so those of a second channel are not looked at); \<open>partition_list\<close>:
  the partitions found by \<^verbatim>\<open>ide_init\<close>, by name. Without \<^verbatim>\<open>sdb1\<close> \<^verbatim>\<open>cur_part\<close> stays \<^verbatim>\<open>NULL\<close>.\<close>

definition sdb1 :: "u8 list" where "sdb1 = [115, 100, 98, 49, 0, 0, 0, 0]"

definition filesys_init :: "u8 list \<Rightarrow> (u32 \<times> u32) list \<Rightarrow> (u8 list \<times> partition) list \<Rightarrow> fsys \<Rightarrow> fsys res" where
  "filesys_init pad parts partition_list s =
     (let (sb_buf, s) = fs_malloc s in
      bind_res (ASSERT (sb_buf \<noteq> NULL) ''alloc memory failed!'') (\<lambda>_.
      bind_res (scan_parts pad parts s) (\<lambda>s.
      bind_res (mount_loop sdb1 partition_list s) (\<lambda>(found, s).
      if \<not> found then Inl Bad_Access
      else
        bind_res (open_root_dir s) (\<lambda>s.
        Inr (s\<lparr>io := (io s)\<lparr>file_table := map (\<lambda>f. f\<lparr>fd_inode := NULL\<rparr>) (file_table (io s))\<rparr>\<rparr>))))))"

end
