(* ===== verification/Fs.thy ===== *)
theory Fs
  imports Path File Format
begin

text \<open>
  The system calls of \<^verbatim>\<open>fs/fs.c\<close>. Descriptors and results are C \<^verbatim>\<open>int\<close>s. A caller's buffer to
  write from is the list of its \<^verbatim>\<open>count\<close> bytes; bytes read are returned. \<open>name0\<close>, \<open>name1\<close>
  (\<^verbatim>\<open>path_depth_cnt\<close>) and \<open>dir_e\<close> (\<^verbatim>\<open>search_file\<close>) are what the uninitialised local variables of
  these calls hold. \<^verbatim>\<open>printk\<close> and \<^verbatim>\<open>sys_free\<close> have no counterpart; what \<^verbatim>\<open>sys_write\<close> sends to the
  console is returned. \<open>kbd\<close> is the address of \<^verbatim>\<open>kbd_buf\<close>.
\<close>

section \<open>Files\<close>

definition sys_open :: "u8 list \<Rightarrow> u8 list \<Rightarrow> dir_entry \<Rightarrow> u8 list \<Rightarrow> u8 \<Rightarrow> fsys \<Rightarrow> (int \<times> fsys) res" where
  "sys_open name0 name1 dir_e pathname flags s =
     bind_res (strlen pathname) (\<lambda>n.
     if n = 0 then Inl Bad_Access
     else if pathname ! (n - 1) = 47 then Inr (-1, s)
     else
       bind_res (ASSERT (flags \<le> 7) ''flags <= 7'') (\<lambda>_.
       bind_res (path_depth_cnt name0 pathname) (\<lambda>pathname_depth.
       bind_res (search_file dir_e pathname empty_record s) (\<lambda>(inode_no, rec, s).
       let found = (inode_no \<noteq> -1); creat = (ucast flags AND O_CREAT \<noteq> 0) in
       if file_type rec = FT_DIRECTORY then Inr (-1, dir_close (parent_dir rec) s)
       else
         bind_res (path_depth_cnt name1 (searched_path rec)) (\<lambda>path_searched_depth.
         if pathname_depth \<noteq> path_searched_depth then Inr (-1, dir_close (parent_dir rec) s)
         else if \<not> found \<and> \<not> creat then Inr (-1, dir_close (parent_dir rec) s)
         else if found \<and> creat then Inr (-1, dir_close (parent_dir rec) s)
         else if creat then
           bind_res (strrchr pathname 47) (\<lambda>r.
           case r of
             None \<Rightarrow> Inl Bad_Access
           | Some i \<Rightarrow>
               bind_res (file_create (parent_dir rec) (drop (i + 1) pathname) flags s) (\<lambda>(fd, s).
               Inr (fd, dir_close (parent_dir rec) s)))
         else file_open (of_int inode_no) flags s)))))"

text \<open>Closing the last end of a pipe also frees the page of its ring buffer (\<^verbatim>\<open>mfree_page\<close>, see
  \<open>Memory\<close>).\<close>

definition sys_close :: "int \<Rightarrow> fsys \<Rightarrow> (int \<times> fsys) res" where
  "sys_close fd s =
     (if fd > 2 then
        bind_res (fd_local2global (nat fd) (io s)) (\<lambda>global_fd.
        bind_res (is_pipe (nat fd) (io s)) (\<lambda>pipe.
        bind_res
          (if pipe then
             let s = upd_file global_fd (\<lambda>f. f\<lparr>fd_pos := fd_pos f - 1\<rparr>) s in
             Inr (0, if fd_pos (file_table (io s) ! global_fd) = 0 then upd_file global_fd (\<lambda>f. f\<lparr>fd_inode := NULL\<rparr>) s else s)
           else file_close global_fd s) (\<lambda>(ret, s).
        Inr (ret, s\<lparr>io := set_cur_fds ((cur_fds (io s))[nat fd := -1]) (io s)\<rparr>))))
      else Inr (-1, s))"

definition sys_write :: "int \<Rightarrow> u8 list \<Rightarrow> fsys \<Rightarrow> (int \<times> u8 list \<times> fsys) res" where
  "sys_write fd src s =
     (let count = of_nat (length src) :: u32;
          to_pipe = bind_res (pipe_write (nat fd) src (io s)) (\<lambda>(n, st). Inr (int n, [], s\<lparr>io := st\<rparr>))
      in
      if fd < 0 then Inr (-1, [], s)
      else
        bind_res (is_pipe (nat fd) (io s)) (\<lambda>pipe.
        if pipe then to_pipe
        else if fd = 1 then
          bind_res (memcpy (replicate 1024 0) src (length src)) (\<lambda>tmp_buf.
          bind_res (strlen tmp_buf) (\<lambda>n. Inr (sint count, take n tmp_buf, s)))
        else
          bind_res (fd_local2global (nat fd) (io s)) (\<lambda>fd_idx.
          let wr_file = file_table (io s) ! fd_idx in
          if fd_flag wr_file AND O_WRONLY \<noteq> 0 \<or> fd_flag wr_file AND O_RDWR \<noteq> 0 then
            bind_res (file_write fd_idx src count s) (\<lambda>(r, s). Inr (r, [], s))
          else
            Inr (-1, bytes_of (''sys_write: not allowed to write file without flag O_RDWR or O_WRONLY'' @ [CHR 0x0A]), s))))"

definition sys_read :: "ptr \<Rightarrow> int \<Rightarrow> u32 \<Rightarrow> fsys \<Rightarrow> (int \<times> u8 list \<times> fsys) res" where
  "sys_read kbd fd count s =
     (if fd < 0 \<or> fd = 1 \<or> fd = 2 then Inr (-1, [], s)
      else
        bind_res (is_pipe (nat fd) (io s)) (\<lambda>pipe.
        if pipe then
          bind_res (pipe_read (nat fd) (unat count) (io s)) (\<lambda>(bs, st). Inr (int (length bs), bs, s\<lparr>io := st\<rparr>))
        else if fd = 0 then
          bind_res (pipe_read_loop (unat count) (ioqs (io s) kbd) (ks (io s))) (\<lambda>(bs, ioq, k).
          Inr (if count = 0 then -1 else sint count, bs, s\<lparr>io := (io s)\<lparr>ioqs := (ioqs (io s))(kbd := ioq), ks := k\<rparr>\<rparr>))
        else
          bind_res (fd_local2global (nat fd) (io s)) (\<lambda>global_fd. file_read global_fd count s)))"

definition SEEK_SET :: u8 where [layout_simps]: "SEEK_SET = 1"
definition SEEK_CUR :: u8 where [layout_simps]: "SEEK_CUR = 2"
definition SEEK_END :: u8 where [layout_simps]: "SEEK_END = 3"

definition sys_lseek :: "int \<Rightarrow> u32 \<Rightarrow> u8 \<Rightarrow> fsys \<Rightarrow> (int \<times> fsys) res" where
  "sys_lseek fd offset whence s =
     (if fd < 0 then Inr (-1, s)
      else
        bind_res (ASSERT (whence > 0 \<and> whence < 4) ''whence > 0 && whence < 4'') (\<lambda>_.
        bind_res (fd_local2global (nat fd) (io s)) (\<lambda>global_fd.
        let pf = file_table (io s) ! global_fd in
        if fd_inode pf = NULL then Inl Bad_Access
        else
          let file_size = i_size (inodes s (fd_inode pf));
              new_pos = (if whence = SEEK_SET then offset
                         else if whence = SEEK_CUR then fd_pos pf + offset
                         else file_size + offset)
          in
          if sint new_pos < 0 \<or> sint new_pos > sint file_size - 1 then Inr (-1, s)
          else Inr (sint new_pos, upd_file global_fd (\<lambda>f. f\<lparr>fd_pos := new_pos\<rparr>) s))))"

definition file_in_use :: "int \<Rightarrow> fsys \<Rightarrow> bool" where
  "file_in_use inode_no s \<longleftrightarrow>
     list_ex (\<lambda>f. fd_inode f \<noteq> NULL \<and> of_int inode_no = i_no (inodes s (fd_inode f))) (take MAX_FILE_OPEN (file_table (io s)))"

definition sys_unlink :: "dir_entry \<Rightarrow> u8 list \<Rightarrow> fsys \<Rightarrow> (int \<times> fsys) res" where
  "sys_unlink dir_e pathname s =
     bind_res (strlen pathname) (\<lambda>n.
     bind_res (ASSERT (n < MAX_PATH_LEN) ''strlen(pathname) < MAX_PATH_LEN'') (\<lambda>_.
     bind_res (search_file dir_e pathname empty_record s) (\<lambda>(inode_no, rec, s).
     bind_res (ASSERT (inode_no \<noteq> 0) ''inode_no != 0'') (\<lambda>_.
     if inode_no = -1 then Inr (-1, dir_close (parent_dir rec) s)
     else if file_type rec = FT_DIRECTORY then Inr (-1, dir_close (parent_dir rec) s)
     else if file_in_use inode_no s then Inr (-1, dir_close (parent_dir rec) s)
     else
       let (io_buf, s) = fs_malloc s in
       if io_buf = NULL then Inr (-1, dir_close (parent_dir rec) s)
       else
         bind_res (delete_dir_entry (parent_dir rec) (of_int inode_no) s) (\<lambda>(_, s).
         bind_res (inode_release (of_int inode_no) s) (\<lambda>s.
         Inr (0, dir_close (parent_dir rec) s)))))))"

section \<open>Directories\<close>

definition sys_mkdir :: "u8 list \<Rightarrow> u8 list \<Rightarrow> dir_entry \<Rightarrow> u8 list \<Rightarrow> fsys \<Rightarrow> (int \<times> fsys) res" where
  "sys_mkdir name0 name1 dir_e pathname s =
     (let (io_buf, s) = fs_malloc s in
      if io_buf = NULL then Inr (-1, s)
      else
        bind_res (search_file dir_e pathname empty_record s) (\<lambda>(inode_no, rec, s).
        let rollback1 = (\<lambda>s. Inr (-1, dir_close (parent_dir rec) s)) in
        if inode_no \<noteq> -1 then rollback1 s
        else
          bind_res (path_depth_cnt name0 pathname) (\<lambda>pathname_depth.
          bind_res (path_depth_cnt name1 (searched_path rec)) (\<lambda>path_searched_depth.
          if pathname_depth \<noteq> path_searched_depth then rollback1 s
          else
            bind_res (strrchr (searched_path rec) 47) (\<lambda>r.
            case r of None \<Rightarrow> Inl Bad_Access | Some i \<Rightarrow>
            let dirname = drop (i + 1) (searched_path rec) in
            bind_res (inode_bitmap_alloc s) (\<lambda>(inode_no, s).
            if inode_no = -1 then rollback1 s
            else
              let rollback2 = (\<lambda>s. bind_res (set_inode_bit (of_int inode_no) 0 s) rollback1);
                  new_dir_inode = inode_init (of_int inode_no)
              in
              bind_res (block_bitmap_alloc s) (\<lambda>(block_lba, s).
              if block_lba = -1 then rollback2 s
              else
                let block_bitmap_idx = block_lba - data_start_lba (sb (part s)) in
                bind_res (ASSERT (block_bitmap_idx \<noteq> 0) ''block_bitmap_idx != 0'') (\<lambda>_.
                bind_res (bitmap_sync block_bitmap_idx BLOCK_BITMAP s) (\<lambda>s.
                let new_dir_inode = new_dir_inode\<lparr>i_blocks := (i_blocks new_dir_inode)[0 := block_lba]\<rparr> in
                bind_res (disk_write block_lba (new_dir_sector (of_int inode_no) (i_no (dinode s (parent_dir rec)))) 1 s) (\<lambda>s.
                let new_dir_inode = new_dir_inode\<lparr>i_size := 2 * dir_entry_size (sb (part s))\<rparr> in
                bind_res (create_dir_entry dirname (of_int inode_no) FT_DIRECTORY) (\<lambda>new_dir_entry.
                bind_res (sync_dir_entry (parent_dir rec) new_dir_entry s) (\<lambda>(ok, s).
                if \<not> ok then rollback2 s
                else
                  bind_res (inode_sync (dinode s (parent_dir rec)) 1024 s) (\<lambda>s.
                  bind_res (inode_sync new_dir_inode 1024 s) (\<lambda>s.
                  bind_res (bitmap_sync (of_int inode_no) INODE_BITMAP s) (\<lambda>s.
                  Inr (0, dir_close (parent_dir rec) s))))))))))))))))"

definition sys_opendir :: "dir_entry \<Rightarrow> u8 list \<Rightarrow> fsys \<Rightarrow> (ptr \<times> fsys) res" where
  "sys_opendir dir_e name s =
     bind_res (strlen name) (\<lambda>n.
     bind_res (ASSERT (n < MAX_PATH_LEN) ''strlen(name) < MAX_PATH_LEN'') (\<lambda>_.
     if name ! 0 = 47 \<and> (name ! 1 = 0 \<or> name ! 1 = 46) then Inr (root_dir s, s)
     else
       bind_res (search_file dir_e name empty_record s) (\<lambda>(inode_no, rec, s).
       bind_res
         (if inode_no = -1 then Inr (NULL, s)
          else if file_type rec = FT_REGULAR then Inr (NULL, s)
          else if file_type rec = FT_DIRECTORY then dir_open (of_int inode_no) s
          else Inr (NULL, s)) (\<lambda>(ret, s).
       Inr (ret, dir_close (parent_dir rec) s)))))"

definition sys_closedir :: "ptr \<Rightarrow> fsys \<Rightarrow> int \<times> fsys" where
  "sys_closedir d s = (if d \<noteq> NULL then (0, dir_close d s) else (-1, s))"

definition sys_readdir :: "ptr \<Rightarrow> fsys \<Rightarrow> (dir_entry option \<times> fsys) res" where
  "sys_readdir d s = bind_res (ASSERT (d \<noteq> NULL) ''dir != NULL'') (\<lambda>_. dir_read d s)"

definition sys_rewinddir :: "ptr \<Rightarrow> fsys \<Rightarrow> fsys" where
  "sys_rewinddir d s = s\<lparr>dirs := (dirs s)(d := (dirs s d)\<lparr>dir_pos := 0\<rparr>)\<rparr>"

definition sys_rmdir :: "dir_entry \<Rightarrow> u8 list \<Rightarrow> fsys \<Rightarrow> (int \<times> fsys) res" where
  "sys_rmdir dir_e pathname s =
     bind_res (search_file dir_e pathname empty_record s) (\<lambda>(inode_no, rec, s).
     bind_res (ASSERT (inode_no \<noteq> 0) ''inode_no != 0'') (\<lambda>_.
     bind_res
       (if inode_no = -1 then Inr (-1, s)
        else if file_type rec = FT_REGULAR then Inr (-1, s)
        else
          bind_res (dir_open (of_int inode_no) s) (\<lambda>(d, s).
          bind_res
            (if \<not> dir_is_empty d s then Inr (-1, s)
             else bind_res (dir_remove (parent_dir rec) d s) (\<lambda>(r, s). Inr (if r = 0 then 0 else -1, s))) (\<lambda>(retVal, s).
          Inr (retVal, dir_close d s)))) (\<lambda>(retVal, s).
     Inr (retVal, dir_close (parent_dir rec) s))))"

section \<open>The working directory\<close>

definition get_parent_dir_inode_nr :: "u32 \<Rightarrow> fsys \<Rightarrow> (u32 \<times> fsys) res" where
  "get_parent_dir_inode_nr child_inode_nr s =
     bind_res (inode_open child_inode_nr s) (\<lambda>(p, s).
     let block_lba = i_blocks (inodes s p) ! 0 in
     bind_res (ASSERT (block_lba \<ge> data_start_lba (sb (part s))) ''block_lba >= cur_part->sb->data_start_lba'') (\<lambda>_.
     let s = inode_close p s in
     bind_res (disk_read block_lba 1 s) (\<lambda>io_buf.
     let e = dec_de io_buf 1 in
     bind_res (ASSERT (de_no e < 4096 \<and> f_type e = FT_DIRECTORY) ''dir_e[1].i_no < 4096 && dir_e[1].f_type == FT_DIRECTORY'') (\<lambda>_.
     Inr (de_no e, s)))))"

primrec entry_of_no :: "nat \<Rightarrow> nat \<Rightarrow> u8 list \<Rightarrow> u32 \<Rightarrow> nat option" where
  "entry_of_no 0 k bf no = None"
| "entry_of_no (Suc n) k bf no = (if de_no (dec_de bf k) = no then Some k else entry_of_no n (k + 1) bf no)"

fun child_name_blocks :: "u32 list \<Rightarrow> nat \<Rightarrow> u32 \<Rightarrow> fsys \<Rightarrow> u8 list option res" where
  "child_name_blocks [] cnt c_inode_nr s = Inr None"
| "child_name_blocks (b # bs) cnt c_inode_nr s =
     (if b \<noteq> 0 then
        bind_res (disk_read b 1 s) (\<lambda>io_buf.
        case entry_of_no cnt 0 io_buf c_inode_nr of
          Some k \<Rightarrow> Inr (Some (drop (k * sizeof_dir_entry) io_buf))
        | None \<Rightarrow> child_name_blocks bs cnt c_inode_nr s)
      else child_name_blocks bs cnt c_inode_nr s)"

text \<open>\<open>Some path\<close>: 0, with the name appended to \<^verbatim>\<open>path\<close>; \<open>None\<close>: \<open>-1\<close>.\<close>

definition get_child_dir_name :: "u32 \<Rightarrow> u32 \<Rightarrow> u8 list \<Rightarrow> fsys \<Rightarrow> (u8 list option \<times> fsys) res" where
  "get_child_dir_name p_inode_nr c_inode_nr path s =
     bind_res (inode_open p_inode_nr s) (\<lambda>(p, s).
     let ino = inodes s p; block_cnt = (if i_blocks ino ! 12 \<noteq> 0 then 140 else 12) in
     bind_res (all_blocks_of ino s) (\<lambda>all_blocks.
     let s = inode_close p s in
     bind_res (dir_entrys_per_sec s) (\<lambda>cnt.
     bind_res (child_name_blocks (take block_cnt all_blocks) cnt c_inode_nr s) (\<lambda>r.
     case r of
       None \<Rightarrow> Inr (None, s)
     | Some nm \<Rightarrow>
         bind_res (strcat path [47, 0]) (\<lambda>path.
         bind_res (strcat path nm) (\<lambda>path. Inr (Some path, s)))))))"

definition clen :: "u8 list \<Rightarrow> nat" where
  "clen bs = length (takeWhile (\<lambda>c. c \<noteq> 0) bs)"

lemma strcpy_length: "strcpy d w = Inr r \<Longrightarrow> length r = length d"
  by (induction d w arbitrary: r rule: strcpy.induct) (auto simp: bind_res_eq_Inr split: if_splits)

lemma strcpy_clen: "strcpy d w = Inr r \<Longrightarrow> clen r = clen w \<and> clen r < length r"
  by (induction d w arbitrary: r rule: strcpy.induct) (auto simp: bind_res_eq_Inr clen_def split: if_splits)

lemma strcat_length: "strcat d w = Inr r \<Longrightarrow> length r = length d"
  by (induction d w arbitrary: r rule: strcat.induct) (auto simp: bind_res_eq_Inr dest: strcpy_length split: if_splits)

lemma strcat_clen: "strcat d w = Inr r \<Longrightarrow> clen r = clen d + clen w \<and> clen r < length r"
proof (induction d w arbitrary: r rule: strcat.induct)
  case (2 c d w)
  show ?case
  proof (cases "c = 0")
    case True
    then show ?thesis using 2(2) strcpy_clen [of "0 # d" w r] by (simp add: clen_def)
  next
    case False
    then obtain r' where "strcat d w = Inr r'" "r = c # r'" using 2(2) by (auto simp: bind_res_eq_Inr)
    then show ?thesis using 2(1) False by (simp add: clen_def)
  qed
qed simp

lemma get_child_dir_name_grows:
  assumes "get_child_dir_name p c path s = Inr (Some path', s')"
  shows "length path' = length path \<and> clen path < clen path' \<and> clen path' < length path'"
proof -
  from assms obtain q nm where "strcat path [47, 0] = Inr q" "strcat q nm = Inr path'"
    by (auto simp: get_child_dir_name_def bind_res_eq_Inr Let_def split: option.splits prod.splits)
  then show ?thesis using strcat_length strcat_clen by (fastforce simp: clen_def)
qed

text \<open>From the working directory up to the root; every round makes the path longer.\<close>

function getcwd_loop :: "u32 \<Rightarrow> u8 list \<Rightarrow> fsys \<Rightarrow> (u8 list option \<times> fsys) res" where
  "getcwd_loop child_inode_nr full_path_reverse s =
     (if child_inode_nr \<noteq> 0 then
        bind_res (get_parent_dir_inode_nr child_inode_nr s) (\<lambda>(parent_inode_nr, s).
        bind_res (get_child_dir_name parent_inode_nr child_inode_nr full_path_reverse s) (\<lambda>(r, s).
        case r of
          None \<Rightarrow> Inr (None, s)
        | Some full_path_reverse \<Rightarrow> getcwd_loop parent_inode_nr full_path_reverse s))
      else Inr (Some full_path_reverse, s))"
  by pat_completeness auto
termination
  by (relation "measure (\<lambda>(c, path, s). length path - clen path)") (auto dest!: get_child_dir_name_grows)

lemma strrchr_loop_bound:
  "strrchr_loop p ch i l = Inr (Some k) \<Longrightarrow> l = Some k \<or> i \<le> k \<and> k < i + clen p"
proof (induction p ch i l rule: strrchr_loop.induct)
  case (2 c str ch i l)
  then show ?case by (cases "c = 0") (force simp: clen_def split: if_splits)+
qed simp

lemma clen_cut: "i < clen p \<Longrightarrow> clen (p[i := 0]) = i"
proof (induction p arbitrary: i)
  case (Cons c p)
  then show ?case by (cases i) (auto simp: clen_def split: if_splits)
qed (simp add: clen_def)

text \<open>The names are turned round, the last one first.\<close>

function reverse_loop :: "u8 list \<Rightarrow> u8 list \<Rightarrow> u8 list res" where
  "reverse_loop full_path_reverse bf =
     bind_res (strrchr full_path_reverse 47) (\<lambda>r.
     case r of
       None \<Rightarrow> Inr bf
     | Some i \<Rightarrow>
         bind_res (strlen bf) (\<lambda>n.
         let len = unat (of_nat n :: u16) in
         bind_res (strcpy (drop len bf) (drop i full_path_reverse)) (\<lambda>r.
         reverse_loop (full_path_reverse[i := 0]) (take len bf @ r))))"
  by pat_completeness auto
termination
proof (relation "measure (\<lambda>(p, bf). clen p)", goal_cases)
  case (2 p bf r i n len r')
  then have "i < clen p" using strrchr_loop_bound [of p 47 0 None i] by (simp add: strrchr_def)
  then show ?case using clen_cut [of i p] by simp
qed simp

declare getcwd_loop.simps [simp del] reverse_loop.simps [simp del]

text \<open>\<open>bf\<close> is the caller's buffer; \<open>None\<close> is \<^verbatim>\<open>NULL\<close>.\<close>

definition sys_getcwd :: "u8 list \<Rightarrow> u32 \<Rightarrow> fsys \<Rightarrow> (u8 list option \<times> fsys) res" where
  "sys_getcwd bf sz s =
     (let (io_buf, s) = fs_malloc s in
      if io_buf = NULL then Inr (None, s)
      else
        let child_inode_nr = cwd_inode_nr (tasks (ks (io s)) (cur (ks (io s)))) in
        bind_res (ASSERT (sint child_inode_nr \<ge> 0 \<and> sint child_inode_nr < 4096) ''child_inode_nr >= 0 && child_inode_nr < 4096'') (\<lambda>_.
        if child_inode_nr = 0 then
          bind_res (store bf 0 47) (\<lambda>bf. bind_res (store bf 1 0) (\<lambda>bf. Inr (Some bf, s)))
        else
          bind_res (memset bf 0 (unat sz)) (\<lambda>bf.
          bind_res (getcwd_loop child_inode_nr (replicate MAX_PATH_LEN 0) s) (\<lambda>(r, s).
          case r of
            None \<Rightarrow> Inr (None, s)
          | Some full_path_reverse \<Rightarrow>
              bind_res (strlen full_path_reverse) (\<lambda>n.
              bind_res (ASSERT (n \<le> unat sz) ''strlen(full_path_reverse) <= size'') (\<lambda>_.
              bind_res (reverse_loop full_path_reverse bf) (\<lambda>bf. Inr (Some bf, s))))))))"

definition sys_chdir :: "dir_entry \<Rightarrow> u8 list \<Rightarrow> fsys \<Rightarrow> (int \<times> fsys) res" where
  "sys_chdir dir_e path s =
     bind_res (search_file dir_e path empty_record s) (\<lambda>(inode_no, rec, s).
     let (ret, s) =
       (if inode_no \<noteq> -1 \<and> file_type rec = FT_DIRECTORY then
          (0, s\<lparr>io := (io s)\<lparr>ks := upd_task (cur (ks (io s))) (\<lambda>t. t\<lparr>cwd_inode_nr := of_int inode_no\<rparr>) (ks (io s))\<rparr>\<rparr>)
        else (-1, s))
     in Inr (ret, dir_close (parent_dir rec) s))"

record stat =
  st_ino :: u32
  st_size :: u32
  st_filetype :: u32

definition sys_stat :: "dir_entry \<Rightarrow> u8 list \<Rightarrow> stat \<Rightarrow> fsys \<Rightarrow> (int \<times> stat \<times> fsys) res" where
  "sys_stat dir_e path bf s =
     bind_res (is_root_path path) (\<lambda>root.
     if root then Inr (0, \<lparr>st_ino = 0, st_size = i_size (dinode s (root_dir s)), st_filetype = FT_DIRECTORY\<rparr>, s)
     else
       bind_res (search_file dir_e path empty_record s) (\<lambda>(inode_no, rec, s).
       if inode_no \<noteq> -1 then
         bind_res (inode_open (of_int inode_no) s) (\<lambda>(p, s).
         let sz = i_size (inodes s p); s = inode_close p s in
         Inr (0, \<lparr>st_ino = of_int inode_no, st_size = sz, st_filetype = file_type rec\<rparr>, dir_close (parent_dir rec) s))
       else Inr (-1, bf, dir_close (parent_dir rec) s)))"

section \<open>Properties\<close>

lemma uint_le_of_unat: "unat (a :: u32) \<le> n \<Longrightarrow> uint a \<le> int n"
  using of_nat_mono [of "unat a" n] by simp

lemma sint_small_add:
  assumes "uint (a :: u32) \<le> 71680"
  shows "sint (a + b) = (if uint a + sint b < 2147483648 then uint a + sint b else uint a + sint b - 4294967296)"
proof -
  have b: "-2147483648 \<le> sint b" "sint b < 2147483648" using sint_greater_eq [of b] sint_less [of b] by simp_all
  have a: "0 \<le> uint a" by simp
  have r: "sint (of_int k :: u32) = k" if "-2147483648 \<le> k" "k < 2147483648" for k
    using that by (simp add: signed_of_int signed_take_bit_int_eq_self)
  have e: "of_int (uint a + sint b) = a + b" "of_int (uint a + sint b - 4294967296) = a + b" by simp_all
  show ?thesis
  proof (cases "uint a + sint b < 2147483648")
    case True
    then show ?thesis using r [of "uint a + sint b"] b a unfolding e(1) by simp
  next
    case False
    then show ?thesis using r [of "uint a + sint b - 4294967296"] b a assms unfolding e(2) by simp
  qed
qed

lemma sint_small: "uint (a :: u32) \<le> 71680 \<Longrightarrow> sint a = uint a"
  using sint_small_add [of a 0] by simp

text \<open>The position a seek asks for, as an integer.\<close>

definition seek_target :: "kfile \<Rightarrow> inode \<Rightarrow> u32 \<Rightarrow> u8 \<Rightarrow> int" where
  "seek_target f ino offset whence =
     (if whence = SEEK_SET then 0 else if whence = SEEK_CUR then uint (fd_pos f) else uint (i_size ino)) + sint offset"

text \<open>C28: Seeking: for every offset, \<^verbatim>\<open>sys_lseek\<close> moves to the position asked for, counted from the
  start, the current position or the end, exactly when it lies inside the file (the end of the file
  itself is refused); otherwise it returns \<open>-1\<close> and changes nothing. The sum never wraps into the
  file.\<close>

theorem sys_lseek_spec:
  assumes "0 \<le> fd" and "0 < whence" "whence < 4" and g: "fd_local2global (nat fd) (io s) = Inr g"
    and f: "f = file_table (io s) ! g" "fd_inode f \<noteq> NULL" "ino = inodes s (fd_inode f)"
    and sz: "unat (i_size ino) \<le> 71680" "unat (fd_pos f) \<le> 71680"
  shows "sys_lseek fd offset whence s =
     (if 0 \<le> seek_target f ino offset whence \<and> seek_target f ino offset whence < uint (i_size ino)
      then Inr (seek_target f ino offset whence, upd_file g (\<lambda>h. h\<lparr>fd_pos := of_int (seek_target f ino offset whence)\<rparr>) s)
      else Inr (-1, s))"
proof -
  note sz = uint_le_of_unat [OF sz(1), simplified] uint_le_of_unat [OF sz(2), simplified]
  let ?np = "if whence = SEEK_SET then offset else if whence = SEEK_CUR then fd_pos f + offset else i_size ino + offset"
  have t: "sint ?np = (if seek_target f ino offset whence < 2147483648 then seek_target f ino offset whence
      else seek_target f ino offset whence - 4294967296)"
    using sint_small_add [OF sz(1), of offset] sint_small_add [OF sz(2), of offset] sint_less [of offset]
    by (auto simp: seek_target_def)
  have b: "seek_target f ino offset whence < 4294967296" using sint_less [of offset] sz by (auto simp: seek_target_def)
  have e: "sys_lseek fd offset whence s = (if sint ?np < 0 \<or> sint ?np > uint (i_size ino) - 1 then Inr (-1, s)
      else Inr (sint ?np, upd_file g (\<lambda>f. f\<lparr>fd_pos := ?np\<rparr>) s))"
    unfolding sys_lseek_def using assms(1-3) g f(2) sint_small [OF sz(1)] by (simp add: f(1,3) [symmetric] Let_def)
  show ?thesis
  proof (cases "0 \<le> seek_target f ino offset whence \<and> seek_target f ino offset whence < uint (i_size ino)")
    case True
    then have st: "sint ?np = seek_target f ino offset whence" using t sz(1) by simp
    have "of_int (sint ?np) = ?np" by simp
    then have "?np = of_int (seek_target f ino offset whence)" unfolding st by (rule sym)
    then show ?thesis unfolding e using True st by simp
  next
    case False
    have "sint ?np < 0 \<or> sint ?np > uint (i_size ino) - 1"
      using False t b by (cases "seek_target f ino offset whence < 2147483648") auto
    then show ?thesis unfolding e using False by auto
  qed
qed

definition sample_seek :: fsys where
  "sample_seek = sample_fs\<lparr>inodes := (\<lambda>_. (inode_init 5)\<lparr>i_size := 100\<rparr>),
     io := set_cur_fds [0, 1, 2, 3, -1, -1, -1, -1]
       ((io sample_fs)\<lparr>file_table := (file_table (io sample_fs))[3 := \<lparr>fd_pos = 10, fd_flag = 0, fd_inode = 0xc0101000\<rparr>]\<rparr>)\<rparr>"

theorem sys_lseek_spec_witness:
  "sys_lseek 3 (-5) SEEK_END sample_seek = Inr (95, upd_file 3 (\<lambda>h. h\<lparr>fd_pos := 95\<rparr>) sample_seek) \<and>
   sys_lseek 3 100 SEEK_SET sample_seek = Inr (-1, sample_seek)"
proof -
  have g: "fd_local2global (nat 3) (io sample_seek) = Inr 3"
    by (simp add: fd_local2global_def sample_seek_def set_cur_fds_def upd_task_def MAX_FILE_OPEN_def)
  have f: "file_table (io sample_seek) ! 3 = \<lparr>fd_pos = 10, fd_flag = 0, fd_inode = 0xc0101000\<rparr>"
    by (simp add: sample_seek_def set_cur_fds_def sample_fs_def)
  have i: "inodes sample_seek 0xc0101000 = (inode_init 5)\<lparr>i_size := 100\<rparr>" by (simp add: sample_seek_def)
  note l = sys_lseek_spec [OF _ _ _ g f [symmetric], of _ "(inode_init 5)\<lparr>i_size := 100\<rparr>"]
  show ?thesis
    using l [of SEEK_END "-5"] l [of SEEK_SET "100"] i
    by (simp add: seek_target_def SEEK_END_def SEEK_SET_def SEEK_CUR_def)
qed

lemma strrchr_skip:
  assumes "0 \<notin> set p"
  shows "\<exists>l'. strrchr_loop (p @ q) ch i l = strrchr_loop q ch (i + length p) l'"
  using assms
proof (induction p arbitrary: i l)
  case (Cons c p)
  from Cons.IH [of "i + 1" "if int (unat ch) = sint c then Some i else l"] Cons.prems show ?case by simp
qed auto

lemma sint_u8_eq: "(47 = sint (c :: u8)) \<longleftrightarrow> c = 47"
  using sint_u8_inj [of 47 c] by auto

lemma strrchr_none: "0 \<notin> set n \<Longrightarrow> 47 \<notin> set n \<Longrightarrow> strrchr_loop (n @ 0 # z) 47 i l = Inr l"
  by (induction n arbitrary: i) (auto simp: sint_u8_eq)

lemma strrchr_last:
  assumes "0 \<notin> set p" "0 \<notin> set n" "47 \<notin> set n"
  shows "strrchr (p @ 47 # n @ 0 # z) 47 = Inr (Some (length p))"
proof -
  obtain l' where "strrchr_loop (p @ 47 # n @ 0 # z) 47 0 None = strrchr_loop (47 # n @ 0 # z) 47 (length p) l'"
    using strrchr_skip [OF assms(1), of "47 # n @ 0 # z" 47 0 None] by auto
  then show ?thesis using strrchr_none [OF assms(2,3)] by (simp add: strrchr_def)
qed

text \<open>\<open>slashed ns\<close>: every name behind a slash.\<close>

definition slashed :: "u8 list list \<Rightarrow> u8 list" where
  "slashed ns = concat (map (\<lambda>n. 47 # n) ns)"

definition plain :: "u8 list \<Rightarrow> bool" where
  "plain n \<longleftrightarrow> 0 \<notin> set n \<and> 47 \<notin> set n"

lemma slashed_nz: "list_all plain ns \<Longrightarrow> 0 \<notin> set (slashed ns)"
  by (induction ns) (auto simp: slashed_def plain_def)

lemma reverse_loop_eq:
  assumes "list_all plain ns" and "0 \<notin> set out" and "length out + length (slashed ns) \<le> length out + length z2"
    and "length out + length (slashed ns) < 65536"
  shows "reverse_loop (slashed ns @ 0 # z) (out @ 0 # z2) = Inr (out @ slashed (rev ns) @ 0 # drop (length (slashed ns)) z2)"
  using assms
proof (induction ns arbitrary: z out z2 rule: rev_induct)
  case Nil
  have "strrchr (0 # z) 47 = Inr None" by (simp add: strrchr_def)
  then show ?case by (subst reverse_loop.simps) (simp add: slashed_def)
next
  case (snoc n ns)
  let ?p = "slashed ns"
  have sl: "slashed (ns @ [n]) = ?p @ 47 # n" by (simp add: slashed_def)
  have pn: "0 \<notin> set ?p" "0 \<notin> set n" "47 \<notin> set n" using snoc.prems(1) slashed_nz [of ns] plain_def [of n] by auto
  have r: "strrchr (slashed (ns @ [n]) @ 0 # z) 47 = Inr (Some (length ?p))"
    unfolding sl using strrchr_last [OF pn] by simp
  have cut: "(slashed (ns @ [n]) @ 0 # z)[length ?p := 0] = ?p @ 0 # (n @ 0 # z)" unfolding sl by simp
  have u: "unat (of_nat (length out) :: u16) = length out"
    using snoc.prems(4) by (simp add: unsigned_of_nat take_bit_nat_eq_self)
  have "0 \<notin> set (47 # n)" using pn by simp
  then have cp: "strcpy (0 # z2) ((47 # n) @ 0 # z) = Inr ((47 # n) @ 0 # drop (Suc (length n)) z2)"
    using strcpy_cstr [of "47 # n" "0 # z2" z] snoc.prems(3) unfolding sl by simp
  have ih: "reverse_loop (?p @ 0 # (n @ 0 # z)) ((out @ 47 # n) @ 0 # drop (Suc (length n)) z2) =
      Inr ((out @ 47 # n) @ slashed (rev ns) @ 0 # drop (length ?p) (drop (Suc (length n)) z2))"
    by (rule snoc.IH) (use snoc.prems pn in \<open>auto simp: sl\<close>)
  have dp: "drop (length ?p) (slashed (ns @ [n]) @ 0 # z) = (47 # n) @ 0 # z" unfolding sl by simp
  have rv: "slashed (rev (ns @ [n])) = (47 # n) @ slashed (rev ns)" by (simp add: slashed_def)
  have "reverse_loop (slashed (ns @ [n]) @ 0 # z) (out @ 0 # z2) = 
     reverse_loop (?p @ 0 # (n @ 0 # z)) ((out @ 47 # n) @ 0 # drop (Suc (length n)) z2)"
    using r snoc.prems(2) u cp cut dp by (subst reverse_loop.simps) simp
  also have "\<dots> = Inr (out @ slashed (rev (ns @ [n])) @ 0 # drop (length (slashed (ns @ [n]))) z2)"
    unfolding ih rv sl by (simp add: add.commute)
  finally show ?case .
qed

text \<open>C29: The working directory: when the walk up to the root has collected the names (the innermost
  first), \<^verbatim>\<open>sys_getcwd\<close> returns the absolute path, from the root down, terminated, in the caller's
  buffer.\<close>

theorem sys_getcwd_spec:
  assumes m: "mallocs s = q # ps" "q \<noteq> NULL"
    and c: "c = cwd_inode_nr (tasks (ks (io s)) (cur (ks (io s))))" "c \<noteq> 0" "unat c < 4096"
    and up: "getcwd_loop c (replicate MAX_PATH_LEN 0) (s\<lparr>mallocs := ps\<rparr>) = Inr (Some (slashed ns @ 0 # z), s')"
    and ns: "list_all plain ns" and sz: "length (slashed ns) < unat sz" "unat sz \<le> length bf"
    and ml: "length (slashed ns) < 65536"
  shows "\<exists>r. sys_getcwd bf sz s = Inr (Some (slashed (rev ns) @ 0 # r), s')"
proof -
  have cs: "sint c = int (unat c)" using sint_of_small [of c] c(3) by simp
  have cu: "uint c < 4096" using uint_le_of_unat [of c 4095] c(3) by simp
  have "memset bf 0 (unat sz) = Inr (0 # (replicate (unat sz - 1) 0 @ drop (unat sz) bf))"
    using memset_eq [OF sz(2), of 0] sz(1) by (cases "unat sz") simp_all
  moreover have "reverse_loop (slashed ns @ 0 # z) ([] @ 0 # (replicate (unat sz - 1) 0 @ drop (unat sz) bf)) =
      Inr ([] @ slashed (rev ns) @ 0 # drop (length (slashed ns)) (replicate (unat sz - 1) 0 @ drop (unat sz) bf))"
    by (rule reverse_loop_eq) (use ns sz ml in auto)
  moreover have "strlen (slashed ns @ 0 # z) = Inr (length (slashed ns))" using strlen_cstr [OF slashed_nz [OF ns]] by simp
  ultimately show ?thesis
    using m c(2,3) cs cu up sz(1) unfolding sys_getcwd_def fs_malloc_def by (simp add: c(1) [symmetric] Let_def)
qed

text \<open>A working directory \<^verbatim>\<open>/a\<close>: i-node 5 in block 713, root in block 712.\<close>

definition sample_cwd :: fsys where
  "sample_cwd = sample_fs\<lparr>
     disk := (\<lambda>_. replicate 512 0)(712 := enc_de (dot_entry [46] 0) @ enc_de (dot_entry [46, 46] 0) @
         enc_de (dot_entry [97] 5) @ replicate 440 0, 713 := new_dir_sector 5 0),
     part := (part sample_fs)\<lparr>open_inodes := [0xc0101000, 0xc0102000]\<rparr>,
     inodes := (\<lambda>_. inode_init 0)
       (0xc0101000 := (inode_init 0)\<lparr>i_open_cnts := 1, i_blocks := (replicate 13 0)[0 := 712]\<rparr>,
        0xc0102000 := (inode_init 5)\<lparr>i_open_cnts := 1, i_blocks := (replicate 13 0)[0 := 713]\<rparr>),
     io := (io sample_fs)\<lparr>ks := upd_task (cur (ks (io sample_fs))) (\<lambda>t. t\<lparr>cwd_inode_nr := 5\<rparr>) (ks (io sample_fs))\<rparr>\<rparr>"

lemma len_dot: "length nm \<le> 16 \<Longrightarrow> length (filename (dot_entry nm no)) = 16"
  by (simp add: dot_entry_def MAX_FILE_NAME_LEN_def)

lemma dec_712: "dec_de (disk sample_cwd 712) 0 = dot_entry [46] 0" "dec_de (disk sample_cwd 712) 1 = dot_entry [46, 46] 0"
    "dec_de (disk sample_cwd 712) 2 = dot_entry [97] 5" "drop 48 (disk sample_cwd 712) = enc_de (dot_entry [97] 5) @ replicate 440 0"
proof -
  have d: "disk sample_cwd 712 = enc_de (dot_entry [46] 0) @ enc_de (dot_entry [46, 46] 0) @ enc_de (dot_entry [97] 5) @ replicate 440 0"
    by (simp add: sample_cwd_def)
  show "dec_de (disk sample_cwd 712) 0 = dot_entry [46] 0"
    unfolding d using dec_de_enc [OF len_dot, of "[46]" "[]" 0] by simp
  show "dec_de (disk sample_cwd 712) 1 = dot_entry [46, 46] 0"
    unfolding d using dec_de_enc [OF len_dot, of "[46, 46]" "enc_de (dot_entry [46] 0)" 1] len_dot [of "[46]" 0] by simp
  show "dec_de (disk sample_cwd 712) 2 = dot_entry [97] 5"
    unfolding d using dec_de_enc [OF len_dot, of "[97]" "enc_de (dot_entry [46] 0) @ enc_de (dot_entry [46, 46] 0)" 2]
      len_dot [of "[46]" 0] len_dot [of "[46, 46]" 0] by simp
  show "drop 48 (disk sample_cwd 712) = enc_de (dot_entry [97] 5) @ replicate 440 0"
    unfolding d using len_dot [of "[46]" 0] len_dot [of "[46, 46]" 0] by simp
qed

lemma dec_713: "dec_de (disk sample_cwd 713) 1 = dot_entry [46, 46] 0"
proof -
  have d: "disk sample_cwd 713 = new_dir_sector 5 0" by (simp add: sample_cwd_def)
  show ?thesis
    unfolding d new_dir_sector_def using dec_de_enc [OF len_dot, of "[46, 46]" "enc_de (dot_entry [46] 5)" 1] len_dot [of "[46]" 5] by simp
qed

lemma sample_up:
  "get_parent_dir_inode_nr 5 (sample_cwd\<lparr>mallocs := ps\<rparr>) = Inr (0, sample_cwd\<lparr>mallocs := ps\<rparr>)"
proof -
  let ?s = "sample_cwd\<lparr>mallocs := ps\<rparr>"
  have f: "find_open (inodes ?s) (open_inodes (part ?s)) 5 = Some 0xc0102000"
    by (simp add: sample_cwd_def inode_init_def)
  have c: "i_open_cnts (inodes ?s 0xc0102000) \<noteq> 0" "i_blocks (inodes ?s 0xc0102000) ! 0 = 713"
    by (simp_all add: sample_cwd_def)
  have p: "data_start_lba (sb (part ?s)) = 712" by (simp add: sample_cwd_def sample_fs_def sample_sb_def)
  have r: "disk_read 713 1 ?s = Inr (disk sample_cwd 713)" by (subst disk_read_1) (simp_all add: max_lba_def)
  show ?thesis
    unfolding get_parent_dir_inode_nr_def inode_open_again [OF f] bind_res_Inr prod.case Let_def inode_close_again [OF c(1)]
    using c(2) p r dec_713
    by (simp add: upd_inode_def dot_entry_def)
qed

lemma sample_name:
  "get_child_dir_name 0 5 (replicate MAX_PATH_LEN 0) (sample_cwd\<lparr>mallocs := ps\<rparr>) =
     Inr (Some (slashed [[97]] @ 0 # replicate 509 0), sample_cwd\<lparr>mallocs := ps\<rparr>)"
proof -
  let ?s = "sample_cwd\<lparr>mallocs := ps\<rparr>"
  have f: "find_open (inodes ?s) (open_inodes (part ?s)) 0 = Some 0xc0101000"
    by (simp add: sample_cwd_def inode_init_def)
  have c: "i_open_cnts (inodes ?s 0xc0101000) \<noteq> 0" "i_blocks (inodes ?s 0xc0101000) = 712 # replicate 12 0"
    using replicate_Suc [of 12 "0 :: u32"] by (simp_all add: sample_cwd_def)
  have p: "dir_entrys_per_sec ?s = Inr 21" by (simp add: dir_entrys_per_sec_def sample_cwd_def sample_fs_def sample_sb_def SECTOR_SIZE_def)
  have r: "disk_read 712 1 ?s = Inr (disk sample_cwd 712)" by (subst disk_read_1) (simp_all add: max_lba_def)
  have "entry_of_no (Suc (Suc (Suc 18))) 0 (disk sample_cwd 712) 5 = Some 2"
    unfolding entry_of_no.simps using dec_712(1-2) dec_712(3) [unfolded numeral_2_eq_2] by (simp add: dot_entry_def)
  then have e: "entry_of_no 21 0 (disk sample_cwd 712) 5 = Some 2" by simp
  have "strcat (cstr [] (replicate 511 0)) (cstr [47] []) = Inr (cstr ([] @ [47]) (drop 1 (replicate 511 0)))"
    using strcat_cstr [of "[]" "[47]" "replicate 511 0" "[]"] by simp
  then have s1: "strcat (replicate MAX_PATH_LEN 0) [47, 0] = Inr (cstr [47] (replicate 510 0))"
    using replicate_Suc [of 511 "0 :: u8"] by (simp add: MAX_PATH_LEN_def)
  have w: "drop 48 (disk sample_cwd 712) = cstr [97] (replicate 14 0 @ enc32 5 @ enc32 FT_DIRECTORY @ replicate 440 0)"
    unfolding dec_712(4) using replicate_Suc [of 14 "0 :: u8"] by (simp add: enc_de_def dot_entry_def MAX_FILE_NAME_LEN_def)
  have s2: "strcat (cstr [47] (replicate 510 0)) (drop 48 (disk sample_cwd 712)) = Inr (cstr [47, 97] (replicate 509 0))"
    unfolding w using strcat_cstr [of "[47]" "[97]" "replicate 510 0"] by simp
  show ?thesis
    unfolding get_child_dir_name_def inode_open_again [OF f] bind_res_Inr prod.case Let_def inode_close_again [OF c(1)]
    using c(2) p r e s1 s2
    by (simp add: upd_inode_def all_blocks_of_def sizeof_dir_entry_def slashed_def)
qed

theorem sys_getcwd_spec_witness:
  "\<exists>r. sys_getcwd (replicate 64 7) 64 sample_cwd =
     Inr (Some (slashed (rev [[97]]) @ 0 # r), sample_cwd\<lparr>mallocs := tl (mallocs sample_fs)\<rparr>)"
proof -
  let ?ps = "tl (mallocs sample_fs)"
  have "getcwd_loop 5 (replicate MAX_PATH_LEN 0) (sample_cwd\<lparr>mallocs := ?ps\<rparr>) =
      Inr (Some (slashed [[97]] @ 0 # replicate 509 0), sample_cwd\<lparr>mallocs := ?ps\<rparr>)"
    using sample_up [of ?ps] sample_name [of ?ps] by (simp add: getcwd_loop.simps [of 5] getcwd_loop.simps [of 0])
  then show ?thesis
    by (intro sys_getcwd_spec [where q = "0xc0101000" and c = 5])
       (simp_all add: sample_cwd_def sample_fs_def upd_task_def slashed_def plain_def)
qed

end
