(* ===== verification/MemFree.thy ===== *)
theory MemFree
  imports MemPages
begin

text \<open>
  Giving pages back: \<^verbatim>\<open>pfree\<close>, \<^verbatim>\<open>page_table_pte_remove\<close> and \<^verbatim>\<open>mfree_page\<close> of
  \<^verbatim>\<open>kernel/memory.c\<close>, and the round trip with \<^verbatim>\<open>malloc_page\<close>. The definitions are in \<open>Memory\<close>, the
  facts about tables and pools in \<open>MemPages\<close>.
\<close>

section \<open>One page\<close>

definition pool_frames :: "pool \<Rightarrow> u32 set" where
  "pool_frames p = frame_of p ` {..< nbits (pool_bitmap p)}"

lemma free_in_pool: "free_frames p \<subseteq> pool_frames p"
  by (auto simp: free_frames_def pool_frames_def)

lemma pool_frames_shape: "pool_shape p' = pool_shape p \<Longrightarrow> pool_frames p' = pool_frames p"
  by (auto simp: pool_frames_def pool_shape_def frame_of_def)

lemma pfree_kernel:
  assumes wf: "pool_wf (kernel_pool m)" and f: "f \<in> pool_frames (kernel_pool m)" and u: "f < phy_addr_start (user_pool m)"
  shows "\<exists>p'. pfree f m = Inr (m\<lparr>kernel_pool := p'\<rparr>) \<and> pool_wf p' \<and> pool_shape p' = pool_shape (kernel_pool m) \<and>
     free_frames p' = insert f (free_frames (kernel_pool m))"
proof -
  let ?p = "kernel_pool m" and ?b = "pool_bitmap (kernel_pool m)"
  obtain n where n: "f = frame_of ?p n" "n < nbits ?b" using f by (auto simp: pool_frames_def)
  have bw: "bitmap_wf ?b" using wf by (simp add: pool_wf_def)
  note un = unat_frame_of [OF wf n(2)]
  have "unat ((f - phy_addr_start ?p) div PG_SIZE) = n"
    unfolding n(1) unat_div_distrib using un by (simp add: unat_sub_small PG_SIZE_def)
  then have ix: "(f - phy_addr_start ?p) div PG_SIZE = of_nat n" by auto
  from bm.put_one [OF bw n(2), of 0] obtain b' where
    b': "bitmap_set ?b (of_nat n) 0 = Inr b'" "bitmap_wf b'" "nbits b' = nbits ?b"
      "\<forall>k < nbits ?b. bit_at b' k = (if k = n then False else bit_at ?b k)" by auto
  let ?p' = "?p\<lparr>pool_bitmap := b'\<rparr>"
  have fo: "frame_of ?p' = frame_of ?p" by (rule ext) (simp add: frame_of_def)
  have "{k. k < nbits b' \<and> \<not> bit_at b' k} = insert n {k. k < nbits ?b \<and> \<not> bit_at ?b k}" using b'(3,4) n(2) by (auto split: if_splits)
  then have ff: "free_frames ?p' = insert f (free_frames ?p)" unfolding free_frames_def fo n(1) by simp
  have "pfree f m = Inr (m\<lparr>kernel_pool := ?p'\<rparr>)"
    using leD [of "phy_addr_start (user_pool m)" f] u b'(1) ix by (auto simp: pfree_def Let_def set_pool_def)
  then show ?thesis using ff b' wf by (intro exI [of _ ?p'] conjI) (simp_all add: pool_wf_def pool_shape_def)
qed

text \<open>The cached translations after \<^verbatim>\<open>invlpg\<close>: the one of the page with the current stack is gone.\<close>

definition stack_dropped :: "mem \<Rightarrow> u32 \<rightharpoonup> u32" where
  "stack_dropped m = (mtlb m)(cur_stack m AND 0xfffff000 := None)"

lemma pte_remove_spec:
  assumes ok: "tables_ok (mphys m) (mcr3 m)" and v: "PDE_IDX v \<noteq> 1023" and w: "walk (mphys m) (mcr3 m) v = Some p"
  shows "\<exists>ph. page_table_pte_remove v m = Inr (m\<lparr>mphys := ph, mtlb := stack_dropped m\<rparr>) \<and> tables_ok ph (mcr3 m) \<and>
     table_frames ph (mcr3 m) = table_frames (mphys m) (mcr3 m) \<and> low_shared ph (mcr3 m) = shared m \<and>
     (\<forall>w. PDE_IDX w \<noteq> 1023 \<longrightarrow> walk ph (mcr3 m) w =
        (if vpage (shared m) w = vpage (shared m) v then None else walk (mphys m) (mcr3 m) w))"
proof -
  let ?a = "pte_addr (mphys m) (mcr3 m) v" and ?c = "mcr3 m"
  let ?x = "mphys m ?a AND NOT PG_P_1"
  have sm: "self_mapped (mphys m) ?c" using ok by (simp add: tables_ok_def)
  have pr: "pde_of (mphys m) ?c v AND PG_P_1 \<noteq> 0" using w by (auto simp: walk_alt split: if_splits)
  have e: "page_table_pte_remove v m = Inr (m\<lparr>mphys := (mphys m)(?a := ?x), mtlb := stack_dropped m\<rparr>)"
    unfolding page_table_pte_remove_def Let_def vload_def vstore_def walk_pte_ptr [OF sm]
    using pr by (simp add: invlpg_def stack_dropped_def)
  have x: "?x AND PG_P_1 = 0" by (simp add: and.assoc)
  show ?thesis
    using e pte_write(1,5) [OF ok v pr] table_frames_pte [OF ok v pr] pte_write_walk [OF ok v pr, of _ ?x] x
    by (intro exI [of _ "(mphys m)(?a := ?x)"]) (simp del: fun_upd_apply)
qed

lemma addr_v2p_walk: "self_mapped phys cr3 \<Longrightarrow> walk phys cr3 v = Some p \<Longrightarrow> addr_v2p phys cr3 v = Inr p"
  using walk_pte_ptr [of phys cr3 v]
  by (auto simp: addr_v2p_def vload_def walk_alt [of phys cr3 v] split: if_splits)

section \<open>A run of pages\<close>

text \<open>\<open>fs\<close> are the frames behind the pages from \<open>v\<close> on; they are kernel frames, hold no table, and
  no other page is mapped to one of them.\<close>

definition freeable :: "u32 \<Rightarrow> mem \<Rightarrow> u32 list \<Rightarrow> bool" where
  "freeable v m fs \<longleftrightarrow> distinct fs \<and> set fs \<subseteq> pool_frames (kernel_pool m) \<and> set fs \<inter> table_frames (mphys m) (mcr3 m) = {} \<and>
     (\<forall>f \<in> set fs. f < phy_addr_start (user_pool m)) \<and>
     (\<forall>k < length fs. walk (mphys m) (mcr3 m) (v + of_nat k * PG_SIZE) = Some (fs ! k)) \<and>
     (\<forall>w p. PDE_IDX w \<noteq> 1023 \<longrightarrow> walk (mphys m) (mcr3 m) w = Some p \<longrightarrow> p AND 0xfffff000 \<in> set fs \<longrightarrow>
        (\<exists>k < length fs. vpage (shared m) w = v + of_nat k * PG_SIZE \<and> p AND 0xfffff000 = fs ! k))"

text \<open>The machine after \<open>fs\<close> were given back.\<close>

definition pages_unmapped :: "u32 \<Rightarrow> mem \<Rightarrow> mem \<Rightarrow> u32 list \<Rightarrow> bool" where
  "pages_unmapped v m m' fs \<longleftrightarrow> mcr3 m' = mcr3 m \<and> cur_stack m' = cur_stack m \<and>
     mtlb m' = (if fs = [] then mtlb m else stack_dropped m) \<and> low_shared (mphys m') (mcr3 m) = shared m \<and> kernel_vaddr m' = kernel_vaddr m \<and> user_pool m' = user_pool m \<and>
     free_frames (kernel_pool m') = free_frames (kernel_pool m) \<union> set fs \<and>
     table_frames (mphys m') (mcr3 m) = table_frames (mphys m) (mcr3 m) \<and>
     (\<forall>k < length fs. walk (mphys m') (mcr3 m) (v + of_nat k * PG_SIZE) = None) \<and>
     (\<forall>w. PDE_IDX w \<noteq> 1023 \<and> (\<forall>k < length fs. vpage (shared m) w \<noteq> v + of_nat k * PG_SIZE) \<longrightarrow>
        walk (mphys m') (mcr3 m) w = walk (mphys m) (mcr3 m) w)"

lemma freeable_frame:
  assumes "pool_wf (kernel_pool m)" and "freeable v m fs" and "f \<in> set fs"
  shows "f AND 0xfff = 0" and "f AND 0xfffff000 = f" and "f mod PG_SIZE = 0" and "phy_addr_start (kernel_pool m) \<le> f"
proof -
  obtain n where n: "f = frame_of (kernel_pool m) n" "n < nbits (pool_bitmap (kernel_pool m))"
    using assms(2,3) by (auto simp: freeable_def pool_frames_def)
  note u = unat_frame_of [OF assms(1) n(2)]
  show a: "f AND 0xfff = 0" unfolding n(1) by (rule frame_of_aligned(1) [OF assms(1) n(2)])
  have m: "unat f mod 4096 = 0" unfolding n(1) u using assms(1) by (simp add: pool_wf_def)
  have "unat (f AND 0xfffff000) = unat f" unfolding unat_page using m by auto
  then show "f AND 0xfffff000 = f" by (rule unsigned_word_eqI)
  have "unat (f mod PG_SIZE) = unat (0 :: u32)" using m by (simp add: unat_mod_distrib PG_SIZE_def)
  then show "f mod PG_SIZE = 0" by (rule unsigned_word_eqI)
  show "phy_addr_start (kernel_pool m) \<le> f" unfolding word_le_nat_alt n(1) u by simp
qed

lemma user_frame_ge:
  assumes "pool_wf p" and "f \<in> free_frames p"
  shows "phy_addr_start p \<le> f"
  using free_frames_bounds(1) [OF assms] by (simp add: word_le_nat_alt)

lemma unmap_step:
  assumes wf: "mem_wf m" and v: "PDE_IDX v \<noteq> 1023" "vpage (shared m) v = v" and fa: "freeable v m (f # fs)"
    and nv: "\<And>k. k < length fs \<Longrightarrow> v + of_nat (Suc k) * PG_SIZE \<noteq> v"
    and pg: "\<And>k. k < length fs \<Longrightarrow> vpage (shared m) (v + of_nat (Suc k) * PG_SIZE) = v + of_nat (Suc k) * PG_SIZE"
      "\<And>k. k < length fs \<Longrightarrow> PDE_IDX (v + of_nat (Suc k) * PG_SIZE) \<noteq> 1023"
  shows "\<exists>p' ph. pfree f m = Inr (m\<lparr>kernel_pool := p'\<rparr>) \<and>
     page_table_pte_remove v (m\<lparr>kernel_pool := p'\<rparr>) = Inr (m\<lparr>kernel_pool := p', mphys := ph, mtlb := stack_dropped m\<rparr>) \<and>
     pool_shape p' = pool_shape (kernel_pool m) \<and> mem_wf (m\<lparr>kernel_pool := p', mphys := ph, mtlb := stack_dropped m\<rparr>) \<and>
     free_frames p' = insert f (free_frames (kernel_pool m)) \<and> table_frames ph (mcr3 m) = table_frames (mphys m) (mcr3 m) \<and>
     low_shared ph (mcr3 m) = shared m \<and>
     (\<forall>w. PDE_IDX w \<noteq> 1023 \<longrightarrow> walk ph (mcr3 m) w =
        (if vpage (shared m) w = v then None else walk (mphys m) (mcr3 m) w)) \<and>
     freeable (v + PG_SIZE) (m\<lparr>kernel_pool := p', mphys := ph, mtlb := stack_dropped m\<rparr>) fs"
proof -
  have w: "tables_ok (mphys m) (mcr3 m)" "pool_wf (kernel_pool m)" "pool_wf (user_pool m)" using wf by (simp_all add: mem_wf_def)
  have f: "f \<in> pool_frames (kernel_pool m)" "f < phy_addr_start (user_pool m)" "f \<notin> table_frames (mphys m) (mcr3 m)"
    "walk (mphys m) (mcr3 m) v = Some f" using fa by (auto simp: freeable_def dest: spec [of _ 0])
  from pfree_kernel [OF w(2) f(1,2)] obtain p' where
    p': "pfree f m = Inr (m\<lparr>kernel_pool := p'\<rparr>)" "pool_wf p'" "pool_shape p' = pool_shape (kernel_pool m)"
      "free_frames p' = insert f (free_frames (kernel_pool m))" by blast
  from pte_remove_spec [of "m\<lparr>kernel_pool := p'\<rparr>" v f] w(1) v f(4) obtain ph where
    ph: "page_table_pte_remove v (m\<lparr>kernel_pool := p'\<rparr>) = Inr (m\<lparr>kernel_pool := p', mphys := ph, mtlb := stack_dropped m\<rparr>)"
      "tables_ok ph (mcr3 m)" "table_frames ph (mcr3 m) = table_frames (mphys m) (mcr3 m)" "low_shared ph (mcr3 m) = shared m" and
    wk: "\<And>w. PDE_IDX w \<noteq> 1023 \<Longrightarrow> walk ph (mcr3 m) w =
        (if vpage (shared m) w = v then None else walk (mphys m) (mcr3 m) w)" by (auto simp: stack_dropped_def)
  let ?m = "m\<lparr>kernel_pool := p', mphys := ph, mtlb := stack_dropped m\<rparr>"
  have own: "\<exists>k < length fs. vpage (shared m) x = v + of_nat (Suc k) * PG_SIZE \<and> p AND 0xfffff000 = fs ! k"
    if x: "PDE_IDX x \<noteq> 1023" "walk ph (mcr3 m) x = Some p" "p AND 0xfffff000 \<in> set (f # fs)" for x p
  proof -
    have a: "vpage (shared m) x \<noteq> v" "walk (mphys m) (mcr3 m) x = Some p" using wk [OF x(1)] x(2) by (auto split: if_splits)
    then obtain k where k: "k < length (f # fs)" "vpage (shared m) x = v + of_nat k * PG_SIZE" "p AND 0xfffff000 = (f # fs) ! k"
      using fa x(1,3) unfolding freeable_def by blast
    then obtain j where "k = Suc j" using a(1) by (cases k) auto
    with k show ?thesis by (intro exI [of _ j]) (simp del: of_nat_Suc)
  qed
  have fn: "f \<notin> set fs" using fa by (simp add: freeable_def)
  have "f \<notin> mapped_frames ph (mcr3 m)" using own fn by (fastforce simp: mapped_frames_def)
  moreover have "mapped_frames ph (mcr3 m) \<subseteq> mapped_frames (mphys m) (mcr3 m)"
    using wk by (fastforce simp: mapped_frames_def split: if_splits)
  moreover have "f \<notin> free_frames (user_pool m)" using user_frame_ge [OF w(3), of f] f(2) by auto
  ultimately have "mem_wf ?m" using wf ph(2,3) p'(2,4) f(3) by (auto simp: mem_wf_def)
  moreover have "freeable (v + PG_SIZE) ?m fs"
    unfolding freeable_def
  proof (intro conjI allI impI)
    show "distinct fs" "set fs \<subseteq> pool_frames (kernel_pool ?m)" "set fs \<inter> table_frames (mphys ?m) (mcr3 ?m) = {}"
      "\<forall>f \<in> set fs. f < phy_addr_start (user_pool ?m)"
      using fa ph(3) pool_frames_shape [OF p'(3)] by (auto simp: freeable_def)
  next
    fix k assume k: "k < length fs"
    have "walk (mphys m) (mcr3 m) (v + of_nat (Suc k) * PG_SIZE) = Some (fs ! k)"
      using fa k unfolding freeable_def by (auto dest: spec [of _ "Suc k"] simp del: of_nat_Suc)
    then show "walk (mphys ?m) (mcr3 ?m) (v + PG_SIZE + of_nat k * PG_SIZE) = Some (fs ! k)"
      unfolding next_page using wk [OF pg(2) [OF k]] pg(1) [OF k] nv [OF k] by (simp del: of_nat_Suc)
  next
    fix x p assume "PDE_IDX x \<noteq> 1023" "walk (mphys ?m) (mcr3 ?m) x = Some p" "p AND 0xfffff000 \<in> set fs"
    then show "\<exists>k < length fs. vpage (shared ?m) x = v + PG_SIZE + of_nat k * PG_SIZE \<and> p AND 0xfffff000 = fs ! k"
      unfolding next_page using own [of x p] ph(4) by simp
  qed
  ultimately show ?thesis using p' ph wk by (intro exI [of _ p'] exI [of _ ph]) simp
qed

lemma pages_unmapped_Cons:
  assumes v: "PDE_IDX v \<noteq> 1023" "vpage (shared m) v = v" and nv: "\<And>k. k < length fs \<Longrightarrow> v + of_nat (Suc k) * PG_SIZE \<noteq> v"
    and wk: "\<And>w. PDE_IDX w \<noteq> 1023 \<Longrightarrow> walk ph (mcr3 m) w = (if vpage (shared m) w = v then None else walk (mphys m) (mcr3 m) w)"
    and ff: "free_frames p' = insert f (free_frames (kernel_pool m))" "table_frames ph (mcr3 m) = table_frames (mphys m) (mcr3 m)"
      "low_shared ph (mcr3 m) = shared m"
    and r: "pages_unmapped (v + PG_SIZE) (m\<lparr>kernel_pool := p', mphys := ph, mtlb := stack_dropped m\<rparr>) m' fs"
  shows "pages_unmapped v m m' (f # fs)"
proof -
  have o: "walk (mphys m') (mcr3 m) w = walk ph (mcr3 m) w"
    if "PDE_IDX w \<noteq> 1023" "\<And>k. k < length fs \<Longrightarrow> vpage (shared m) w \<noteq> v + of_nat (Suc k) * PG_SIZE" for w
    using r that ff(3) unfolding pages_unmapped_def next_page by simp
  have a: "walk (mphys m') (mcr3 m) (v + of_nat k * PG_SIZE) = None" if "k < Suc (length fs)" for k
  proof (cases k)
    case 0
    then show ?thesis using o [OF v(1)] nv wk [OF v(1)] v(2) by force
  next
    case (Suc j)
    then show ?thesis using r that unfolding pages_unmapped_def next_page by (simp del: of_nat_Suc)
  qed
  have b: "walk (mphys m') (mcr3 m) w = walk (mphys m) (mcr3 m) w"
    if w: "PDE_IDX w \<noteq> 1023" "\<And>k. k < Suc (length fs) \<Longrightarrow> vpage (shared m) w \<noteq> v + of_nat k * PG_SIZE" for w
    using o [OF w(1)] w(2) [of 0] w(2) [of "Suc _"] wk [OF w(1)] by (simp del: of_nat_Suc)
  show ?thesis
    unfolding pages_unmapped_def using r ff a b by (auto simp: pages_unmapped_def stack_dropped_def)
qed

lemma run_vpage:
  assumes "unat v mod 4096 = 0" and "unat v + n * 4096 \<le> 4290772992" and "4194304 \<le> unat v" and "k < n"
  shows "vpage sh (v + of_nat k * PG_SIZE) = v + of_nat k * PG_SIZE"
proof -
  have le: "unat v + Suc (n - 1) * 4096 \<le> 4290772992" and k: "k \<le> n - 1" using assms(2,4) by simp_all
  note st = page_step [OF assms(1) le k]
  show ?thesis using page_step_high [OF assms(3) st(1)] st(3) by (simp add: vpage_high)
qed

lemma unmap_pages_spec:
  assumes "mem_wf m" and "unat v mod 4096 = 0" and "unat v + length fs * 4096 \<le> 4290772992" and "4194304 \<le> unat v"
    and "freeable v m fs" and "\<And>f. f \<in> set fs \<Longrightarrow> ok f"
  shows "\<exists>m'. unmap_pages (length fs) ok txt v m = Inr m' \<and> mem_wf m' \<and> pages_unmapped v m m' fs"
  using assms
proof (induction fs arbitrary: v m)
  case Nil
  then show ?case by (intro exI [of _ m]) (simp add: pages_unmapped_def)
next
  case (Cons f fs)
  have le: "unat v + Suc (length fs) * 4096 \<le> 4290772992" using Cons.prems(3) by simp
  note st = page_step [OF Cons.prems(2) le]
  have v0: "PDE_IDX v \<noteq> 1023" "vpage (shared m) v = v"
    using st(2) [of 0] run_vpage [OF Cons.prems(2-4), of 0] by simp_all
  have nv: "v + of_nat (Suc k) * PG_SIZE \<noteq> v" if "k < length fs" for k
    using st(1) [of "Suc k"] that by (metis Suc_leI add_cancel_right_right mult_is_0 nat.distinct(1) zero_neq_numeral)
  have wf: "tables_ok (mphys m) (mcr3 m)" "pool_wf (kernel_pool m)" using Cons.prems(1) by (simp_all add: mem_wf_def)
  have pgs: "vpage (shared m) (v + of_nat (Suc k) * PG_SIZE) = v + of_nat (Suc k) * PG_SIZE"
    "PDE_IDX (v + of_nat (Suc k) * PG_SIZE) \<noteq> 1023" if "k < length fs" for k
    using st(2) [of "Suc k"] run_vpage [OF Cons.prems(2-4), of "Suc k"] that by auto
  from unmap_step [OF Cons.prems(1) v0(1,2) Cons.prems(5) nv pgs] obtain p' ph where
    s: "pfree f m = Inr (m\<lparr>kernel_pool := p'\<rparr>)"
      "page_table_pte_remove v (m\<lparr>kernel_pool := p'\<rparr>) = Inr (m\<lparr>kernel_pool := p', mphys := ph, mtlb := stack_dropped m\<rparr>)"
      "mem_wf (m\<lparr>kernel_pool := p', mphys := ph, mtlb := stack_dropped m\<rparr>)" and
    ff: "free_frames p' = insert f (free_frames (kernel_pool m))" "table_frames ph (mcr3 m) = table_frames (mphys m) (mcr3 m)"
      "low_shared ph (mcr3 m) = shared m" and
    wk: "\<And>w. PDE_IDX w \<noteq> 1023 \<Longrightarrow> walk ph (mcr3 m) w = (if vpage (shared m) w = v then None else walk (mphys m) (mcr3 m) w)" and
    fa: "freeable (v + PG_SIZE) (m\<lparr>kernel_pool := p', mphys := ph, mtlb := stack_dropped m\<rparr>) fs" by blast
  let ?m = "m\<lparr>kernel_pool := p', mphys := ph, mtlb := stack_dropped m\<rparr>"
  have "\<exists>m'. unmap_pages (length fs) ok txt (v + PG_SIZE) ?m = Inr m' \<and> mem_wf m' \<and> pages_unmapped (v + PG_SIZE) ?m m' fs"
  proof (cases "fs = []")
    case True
    then show ?thesis using s(3) by (intro exI [of _ ?m]) (simp add: pages_unmapped_def)
  next
    case False
    then have u: "unat (v + PG_SIZE) = unat v + 4096" using st(1) [of 1] by (simp add: Suc_le_eq)
    show ?thesis using Cons.prems(2,4,6) le by (intro Cons.IH [OF s(3) _ _ _ fa]) (simp_all add: u)
  qed
  then obtain m' where r: "unmap_pages (length fs) ok txt (v + PG_SIZE) ?m = Inr m'" "mem_wf m'"
    "pages_unmapped (v + PG_SIZE) ?m m' fs" by blast
  have w0: "walk (mphys m) (mcr3 m) v = Some f" using Cons.prems(5) by (auto simp: freeable_def dest: spec [of _ 0])
  have "unmap_pages (length (f # fs)) ok txt v m = Inr m'"
    using addr_v2p_walk [OF _ w0] wf(1) freeable_frame(3) [OF wf(2) Cons.prems(5), of f] Cons.prems(6) [of f] s(1,2) r(1)
    by (simp add: tables_ok_def ASSERT_def)
  moreover have "pages_unmapped v m m' (f # fs)" by (rule pages_unmapped_Cons [OF v0(1,2) nv wk ff r(3)])
  ultimately show ?case using r(2) by blast
qed

lemma vaddr_remove_kernel:
  assumes run: "va_run (kernel_vaddr m) r n" and n: "0 < n" "unat pg_cnt = n"
    and v: "v = vaddr_start (kernel_vaddr m) + of_nat r * PG_SIZE"
  shows "\<exists>b. vaddr_remove PF_KERNEL v pg_cnt m = Inr (m\<lparr>kernel_vaddr := (kernel_vaddr m)\<lparr>vaddr_bitmap := b\<rparr>\<rparr>) \<and>
     bitmap_wf b \<and> nbits b = nbits (vaddr_bitmap (kernel_vaddr m)) \<and>
     (\<forall>k < nbits b. bit_at b k \<longleftrightarrow> \<not> (r \<le> k \<and> k < r + n) \<and> bit_at (vaddr_bitmap (kernel_vaddr m)) k)"
proof -
  from set_bits_spec [of "vaddr_bitmap (kernel_vaddr m)" r n 0] run obtain b where
    b: "set_bits n (vaddr_bitmap (kernel_vaddr m)) (of_nat r) 0 = Inr b" "bitmap_wf b"
      "nbits b = nbits (vaddr_bitmap (kernel_vaddr m))"
      "\<forall>k < nbits b. bit_at b k = (if r \<le> k \<and> k < r + n then False else bit_at (vaddr_bitmap (kernel_vaddr m)) k)"
    by (auto simp: va_run_def)
  have "unat ((v - vaddr_start (kernel_vaddr m)) div PG_SIZE) = r"
    using va_run_start(1) [OF run n(1), folded v] unfolding unat_div_distrib by (simp add: unat_sub_small PG_SIZE_def)
  then have "(v - vaddr_start (kernel_vaddr m)) div PG_SIZE = of_nat r" by auto
  then have "vaddr_remove PF_KERNEL v pg_cnt m = Inr (m\<lparr>kernel_vaddr := (kernel_vaddr m)\<lparr>vaddr_bitmap := b\<rparr>\<rparr>)"
    using b(1) n(2) by (simp add: vaddr_remove_def set_vaddr_def Let_def)
  then show ?thesis using b by (intro exI [of _ b]) auto
qed

lemma mfree_page_spec:
  assumes wf: "mem_wf m" and fa: "freeable v m fs" and n: "length fs = n" "unat pg_cnt = n" "0 < n"
    and run: "va_run (kernel_vaddr m) r n" and v: "v = vaddr_start (kernel_vaddr m) + of_nat r * PG_SIZE"
    and lo: "0x102000 \<le> phy_addr_start (kernel_pool m)"
  shows "\<exists>m1 b. mfree_page PF_KERNEL v pg_cnt m = Inr (m1\<lparr>kernel_vaddr := (kernel_vaddr m)\<lparr>vaddr_bitmap := b\<rparr>\<rparr>) \<and>
     mem_wf m1 \<and> pages_unmapped v m m1 fs \<and> nbits b = nbits (vaddr_bitmap (kernel_vaddr m)) \<and>
     (\<forall>k < nbits b. bit_at b k \<longleftrightarrow> \<not> (r \<le> k \<and> k < r + n) \<and> bit_at (vaddr_bitmap (kernel_vaddr m)) k)"
proof -
  let ?f = "fs ! 0" and ?ok = "\<lambda>a. a \<ge> phy_addr_start (kernel_pool m) \<and> a < phy_addr_start (user_pool m)"
  have w: "self_mapped (mphys m) (mcr3 m)" "pool_wf (kernel_pool m)" using wf by (simp_all add: mem_wf_def tables_ok_def)
  note vs = va_run_start [OF run n(3), folded v] and ff = freeable_frame [OF w(2) fa]
  have f: "?f \<in> set fs" "walk (mphys m) (mcr3 m) v = Some ?f" using fa n by (auto simp: freeable_def dest: spec [of _ 0])
  have ub: "x < phy_addr_start (user_pool m)" if "x \<in> set fs" for x using fa that by (simp add: freeable_def)
  let ?t = "''(pg_phy_addr % PG_SIZE == 0) && pg_phy_addr >= kernel_pool.phy_addr_start && pg_phy_addr < user_pool.phy_addr_start''"
  have "\<exists>m'. unmap_pages (unat pg_cnt) ?ok ?t v m = Inr m' \<and> mem_wf m' \<and> pages_unmapped v m m' fs"
    unfolding n(2) n(1) [symmetric] using vs(3-5) n ff(4) ub by (intro unmap_pages_spec [OF wf _ _ _ fa]) auto
  then obtain m1 where m1: "unmap_pages (unat pg_cnt) ?ok ?t v m = Inr m1" "mem_wf m1" "pages_unmapped v m m1 fs" by blast
  have kv: "kernel_vaddr m1 = kernel_vaddr m" using m1(3) by (simp add: pages_unmapped_def)
  from vaddr_remove_kernel [of m1 r n pg_cnt v] run n v obtain b where
    b: "vaddr_remove PF_KERNEL v pg_cnt m1 = Inr (m1\<lparr>kernel_vaddr := (kernel_vaddr m)\<lparr>vaddr_bitmap := b\<rparr>\<rparr>)"
      "nbits b = nbits (vaddr_bitmap (kernel_vaddr m))"
      "\<forall>k < nbits b. bit_at b k \<longleftrightarrow> \<not> (r \<le> k \<and> k < r + n) \<and> bit_at (vaddr_bitmap (kernel_vaddr m)) k" unfolding kv by blast
  have "unat (v mod PG_SIZE) = unat (0 :: u32)" using vs(3) by (simp add: unat_mod_distrib PG_SIZE_def)
  then have a: "v mod PG_SIZE = 0" "1 \<le> pg_cnt" "0x102000 \<le> ?f" "\<not> phy_addr_start (user_pool m) \<le> ?f"
    using n ff(4) [OF f(1)] lo ub [OF f(1)] by (auto simp: word_le_nat_alt word_less_nat_alt intro: unsigned_word_eqI)
  have "mfree_page PF_KERNEL v pg_cnt m = Inr (m1\<lparr>kernel_vaddr := (kernel_vaddr m)\<lparr>vaddr_bitmap := b\<rparr>\<rparr>)"
    unfolding mfree_page_def using addr_v2p_walk [OF w(1) f(2)] a ff(3) [OF f(1)] m1(1) b(1) by (simp add: ASSERT_def)
  then show ?thesis using m1(2,3) b(2,3) by blast
qed

section \<open>The virtual pool across an allocation\<close>

lemma palloc_vaddr: "palloc pf m = Inr (f, m') \<Longrightarrow> kernel_vaddr m' = kernel_vaddr m \<and> mtlb m' = mtlb m \<and> cur_stack m' = cur_stack m"
  by (cases pf) (auto simp: palloc_def Let_def set_pool_def bind_res_def split: sum.splits if_splits)

lemma page_table_add_vaddr: "page_table_add v pa m = Inr m' \<Longrightarrow>
     kernel_vaddr m' = kernel_vaddr m \<and> mtlb m' = mtlb m \<and> cur_stack m' = cur_stack m"
  by (auto simp: page_table_add_def Let_def bind_res_def split: sum.splits if_splits dest!: palloc_vaddr)

lemma map_pages_vaddr: "map_pages n pf v m = Inr (x, m') \<Longrightarrow>
     kernel_vaddr m' = kernel_vaddr m \<and> mtlb m' = mtlb m \<and> cur_stack m' = cur_stack m"
proof (induction n arbitrary: v m)
  case (Suc n)
  then show ?case
    by (auto simp: bind_res_def split: sum.splits if_splits dest!: palloc_vaddr page_table_add_vaddr Suc.IH)
qed simp

lemma malloc_page_vaddr:
  assumes "malloc_page PF_KERNEL pg_cnt m = Inr (v, m')" and "v \<noteq> 0"
    and "vaddr_get PF_KERNEL pg_cnt m = Inr (u, m1)"
  shows "kernel_vaddr m' = kernel_vaddr m1" and "mtlb m' = mtlb m1" and "cur_stack m' = cur_stack m1"
  using assms by (auto simp: malloc_page_def bind_res_def split: sum.splits if_splits prod.splits dest!: map_pages_vaddr)

lemma walk_same_page:
  assumes "walk phys cr3 w = Some p" and "walk phys cr3 x = Some q"
    and "vpage (low_shared phys cr3) w = vpage (low_shared phys cr3) x"
  shows "p AND 0xfffff000 = q AND 0xfffff000"
proof -
  have e: "y AND 0xfffff000 = phys (pte_addr phys cr3 z) AND 0xfffff000" if "walk phys cr3 z = Some y" for y z
    using that page_plus_offset [of "phys (pte_addr phys cr3 z) AND 0xfffff000" z]
    by (auto simp: walk_alt and.assoc split: if_splits)
  show ?thesis using e [OF assms(1)] e [OF assms(2)] vpage_pte(2) [OF assms(3)] by simp
qed

lemma walk_None_page:
  assumes "vpage (low_shared phys cr3) w = vpage (low_shared phys cr3) x"
  shows "walk phys cr3 w = None \<longleftrightarrow> walk phys cr3 x = None"
  using vpage_pte [OF assms] by (simp add: walk_alt)

text \<open>What an allocation mapped can be freed: the frames were free, so nothing else is mapped to them.\<close>

lemma mapped_freeable:
  assumes wf: "mem_wf m" and pm: "pages_mapped n PF_KERNEL v m m' fs" and wf': "mem_wf m'"
    and v: "unat v mod 4096 = 0" "unat v + n * 4096 \<le> 4290772992" "4194304 \<le> unat v"
    and lo: "\<And>f. f \<in> pool_frames (kernel_pool m) \<Longrightarrow> f < phy_addr_start (user_pool m)"
  shows "freeable v m' fs"
  unfolding freeable_def
proof (intro conjI allI impI ballI)
  have sh: "pool_shape (kernel_pool m') = pool_shape (kernel_pool m)" "phy_addr_start (user_pool m') = phy_addr_start (user_pool m)"
    using pm by (simp_all add: pages_mapped_def same_shape_def pool_shape_def)
  have fs: "set fs \<subseteq> free_frames (kernel_pool m)" "length fs = n" "mcr3 m' = mcr3 m" using pm by (simp_all add: pages_mapped_def)
  have ls: "shared m' = shared m" using pm by (simp add: pages_mapped_def)
  show "distinct fs" using pm by (simp add: pages_mapped_def)
  show "set fs \<subseteq> pool_frames (kernel_pool m')" using fs(1) free_in_pool unfolding pool_frames_shape [OF sh(1)] by blast
  have "table_frames (mphys m') (mcr3 m) \<subseteq> (table_frames (mphys m) (mcr3 m) \<union> free_frames (kernel_pool m)) - set fs"
    using pm unfolding pages_mapped_def by blast
  then show "set fs \<inter> table_frames (mphys m') (mcr3 m') = {}" unfolding fs(3) by blast
  show "f < phy_addr_start (user_pool m')" if "f \<in> set fs" for f unfolding sh(2) using that lo fs(1) free_in_pool by blast
  show "walk (mphys m') (mcr3 m') (v + of_nat k * PG_SIZE) = Some (fs ! k)" if "k < length fs" for k
    using pm that fs by (simp add: pages_mapped_def)
  fix w p assume w: "PDE_IDX w \<noteq> 1023" "walk (mphys m') (mcr3 m') w = Some p" "p AND 0xfffff000 \<in> set fs"
  show "\<exists>k < length fs. vpage (shared m') w = v + of_nat k * PG_SIZE \<and> p AND 0xfffff000 = fs ! k"
  proof (cases "\<exists>k < n. vpage (shared m) w = v + of_nat k * PG_SIZE")
    case True
    then obtain k where k: "k < n" "vpage (shared m) w = v + of_nat k * PG_SIZE" by blast
    have ps: "vpage (shared m) (v + of_nat k * PG_SIZE) = v + of_nat k * PG_SIZE" by (rule run_vpage [OF v k(1)])
    have "walk (mphys m') (mcr3 m') (v + of_nat k * PG_SIZE) = Some (fs ! k)" using pm k(1) fs(3) by (simp add: pages_mapped_def)
    then have "p AND 0xfffff000 = fs ! k AND 0xfffff000"
      using walk_same_page [OF w(2), of "v + of_nat k * PG_SIZE" "fs ! k"] k(2) ps ls by simp
    moreover have "fs ! k AND 0xfffff000 = fs ! k"
    proof (rule frame_page)
      show "pool_wf (kernel_pool m)" using wf by (simp add: mem_wf_def)
      show "fs ! k \<in> free_frames (kernel_pool m)" using fs(1,2) k(1) nth_mem [of k fs] by blast
    qed
    ultimately show ?thesis using k fs(2) ls by auto
  next
    case False
    then have "walk (mphys m) (mcr3 m) w = Some p" using pm w(1,2) fs(3) by (auto simp: pages_mapped_def)
    then have "p AND 0xfffff000 \<in> mapped_frames (mphys m) (mcr3 m)" unfolding mapped_frames_def using w(1) by blast
    then show ?thesis using wf w(3) fs(1) by (auto simp: mem_wf_def)
  qed
qed

lemma walk_restored:
  assumes pm: "pages_mapped n PF_KERNEL v m m1 fs" and pu: "pages_unmapped v m1 m2 fs"
    and un: "\<And>k. k < n \<Longrightarrow> walk (mphys m) (mcr3 m) (v + of_nat k * PG_SIZE) = None"
    and v: "unat v mod 4096 = 0" "unat v + n * 4096 \<le> 4290772992" "4194304 \<le> unat v"
  shows "PDE_IDX w = 1023 \<or> walk (mphys m2) (mcr3 m) w = walk (mphys m) (mcr3 m) w"
proof -
  have fs: "length fs = n" "mcr3 m1 = mcr3 m" "shared m1 = shared m" using pm by (simp_all add: pages_mapped_def)
  have ls: "low_shared (mphys m2) (mcr3 m) = shared m" using pu fs by (simp add: pages_unmapped_def)
  have "walk (mphys m2) (mcr3 m) w = walk (mphys m) (mcr3 m) w" if w: "PDE_IDX w \<noteq> 1023"
  proof (cases "\<exists>k < n. vpage (shared m) w = v + of_nat k * PG_SIZE")
    case True
    then obtain k where k: "k < n" "vpage (shared m) w = v + of_nat k * PG_SIZE" by blast
    have e: "vpage (shared m) w = vpage (shared m) (v + of_nat k * PG_SIZE)" using k(2) run_vpage [OF v k(1)] by simp
    have "walk (mphys m2) (mcr3 m) (v + of_nat k * PG_SIZE) = None" using pu k(1) fs by (simp add: pages_unmapped_def)
    then show ?thesis
      using walk_None_page [of "mphys m2" "mcr3 m", unfolded ls, OF e] walk_None_page [of "mphys m" "mcr3 m", OF e] un [OF k(1)] by simp
  next
    case False
    then show ?thesis using pm pu w fs by (auto simp: pages_mapped_def pages_unmapped_def)
  qed
  then show ?thesis by blast
qed

section \<open>Properties\<close>

text \<open>C8: Pages go round: what \<^verbatim>\<open>malloc_page\<close> handed out to the kernel, \<^verbatim>\<open>mfree_page\<close> takes back without
  tripping one of its assertions. Afterwards the page tables translate every address as before the
  allocation (also in the directory the kernel boots in, where the first 4 MB share a table), the
  pages of the run are free again in the virtual pool, every frame the pages had is free again in the
  physical pool (frames used for new page tables stay tables), and the invariant holds. Of the
  translations the processor has cached, only that of the page with the current stack is dropped
  (\<^verbatim>\<open>invlpg\<close> is given the stack slot of \<^verbatim>\<open>vaddr\<close>): a cached translation of a freed page stays.\<close>

theorem kernel_pages_roundtrip:
  fixes v :: u32
  assumes wf: "mem_wf m" and run: "va_run (kernel_vaddr m) r n" and n: "unat pg_cnt = n" "0 < n" "n < 3840"
    and sc: "bitmap_scan (vaddr_bitmap (kernel_vaddr m)) pg_cnt = Inr (int r)"
    and free: "free_run (vaddr_bitmap (kernel_vaddr m)) r n"
    and fr: "2 * n \<le> card (free_frames (kernel_pool m))"
    and v: "v = vaddr_start (kernel_vaddr m) + of_nat r * PG_SIZE"
    and un: "\<And>k. k < n \<Longrightarrow> walk (mphys m) (mcr3 m) (v + of_nat k * PG_SIZE) = None"
    and lo: "0x102000 \<le> phy_addr_start (kernel_pool m)"
    and hi: "\<And>f. f \<in> pool_frames (kernel_pool m) \<Longrightarrow> f < phy_addr_start (user_pool m)"
  shows "\<exists>m1 m2. malloc_page PF_KERNEL pg_cnt m = Inr (v, m1) \<and> mfree_page PF_KERNEL v pg_cnt m1 = Inr m2 \<and> mem_wf m2 \<and>
     (\<forall>w. PDE_IDX w = 1023 \<or> walk (mphys m2) (mcr3 m2) w = walk (mphys m) (mcr3 m) w) \<and>
     table_frames (mphys m2) (mcr3 m2) \<union> free_frames (kernel_pool m2) =
       table_frames (mphys m) (mcr3 m) \<union> free_frames (kernel_pool m) \<and>
     bm.used_set (vaddr_bitmap (kernel_vaddr m2)) = bm.used_set (vaddr_bitmap (kernel_vaddr m)) \<and>
     mtlb m2 = (mtlb m)(cur_stack m AND 0xfffff000 := None)"
proof -
  note vs = va_run_start [OF run n(2), folded v]
  from malloc_page_kernel [OF wf run n sc fr] un obtain m1 fs where
    m1: "malloc_page PF_KERNEL pg_cnt m = Inr (v, m1)" "mem_wf m1" "pages_mapped n PF_KERNEL v m m1 fs" unfolding v by blast
  from vaddr_get_kernel [OF run n(2,1) sc] obtain b where
    b: "vaddr_get PF_KERNEL pg_cnt m = Inr (v, m\<lparr>kernel_vaddr := (kernel_vaddr m)\<lparr>vaddr_bitmap := b\<rparr>\<rparr>)" "bitmap_wf b"
      "nbits b = nbits (vaddr_bitmap (kernel_vaddr m))"
      "\<forall>k < nbits b. bit_at b k \<longleftrightarrow> r \<le> k \<and> k < r + n \<or> bit_at (vaddr_bitmap (kernel_vaddr m)) k" unfolding v by blast
  have kv: "kernel_vaddr m1 = (kernel_vaddr m)\<lparr>vaddr_bitmap := b\<rparr>" "mtlb m1 = mtlb m" "cur_stack m1 = cur_stack m"
    using malloc_page_vaddr [OF m1(1) vs(2) b(1)] by simp_all
  have fa: "freeable v m1 fs" by (rule mapped_freeable [OF wf m1(3,2) vs(3-5) hi])
  have s1: "phy_addr_start (kernel_pool m1) = phy_addr_start (kernel_pool m)" "length fs = n" "mcr3 m1 = mcr3 m"
    using m1(3) by (simp_all add: pages_mapped_def same_shape_def pool_shape_def)
  have run1: "va_run (kernel_vaddr m1) r n" using run b(2,3) by (simp add: va_run_def kv)
  from mfree_page_spec [OF m1(2) fa s1(2) n(1,2) run1] v lo obtain m2 b2 where
    m2: "mfree_page PF_KERNEL v pg_cnt m1 = Inr (m2\<lparr>kernel_vaddr := (kernel_vaddr m1)\<lparr>vaddr_bitmap := b2\<rparr>\<rparr>)"
      "mem_wf m2" "pages_unmapped v m1 m2 fs" "nbits b2 = nbits b"
      "\<forall>k < nbits b2. bit_at b2 k \<longleftrightarrow> \<not> (r \<le> k \<and> k < r + n) \<and> bit_at b k" by (auto simp: kv s1)
  have nb: "\<not> bit_at (vaddr_bitmap (kernel_vaddr m)) x" if "r \<le> x" "x < r + n" for x
    using free [unfolded free_run_def, rule_format, of "x - r"] that by simp
  have "bm.used_set b2 = bm.used_set (vaddr_bitmap (kernel_vaddr m))"
    using m2(4,5) b(3,4) nb unfolding bm_used_set by auto
  moreover have "PDE_IDX w = 1023 \<or> walk (mphys m2) (mcr3 m) w = walk (mphys m) (mcr3 m) w" for w
    by (rule walk_restored [OF m1(3) m2(3) un vs(3-5)])
  moreover have "set fs \<subseteq> free_frames (kernel_pool m)" using m1(3) by (simp add: pages_mapped_def)
  then have "table_frames (mphys m2) (mcr3 m) \<union> free_frames (kernel_pool m2) =
      table_frames (mphys m) (mcr3 m) \<union> free_frames (kernel_pool m)"
    using m1(3) m2(3) by (auto simp: pages_mapped_def pages_unmapped_def s1(3))
  moreover have "fs \<noteq> []" using s1(2) n(2) by auto
  then have "mtlb m2 = (mtlb m)(cur_stack m AND 0xfffff000 := None)"
    using m2(3) kv by (simp add: pages_unmapped_def stack_dropped_def)
  moreover have "mcr3 m2 = mcr3 m" using m2(3) s1(3) by (simp add: pages_unmapped_def)
  ultimately show ?thesis
    using m1(1) m2(1,2)
    by (intro exI [of _ m1] exI [of _ "m2\<lparr>kernel_vaddr := (kernel_vaddr m1)\<lparr>vaddr_bitmap := b2\<rparr>\<rparr>"]) simp
qed

theorem kernel_pages_roundtrip_witness:
  "\<exists>m1 m2. malloc_page PF_KERNEL 1 sample_mem = Inr (0xc0101000, m1) \<and> mfree_page PF_KERNEL 0xc0101000 1 m1 = Inr m2 \<and>
     mem_wf m2 \<and>
     (\<forall>w. PDE_IDX w = 1023 \<or> walk (mphys m2) (mcr3 m2) w = walk (mphys sample_mem) (mcr3 sample_mem) w) \<and>
     table_frames (mphys m2) (mcr3 m2) \<union> free_frames (kernel_pool m2) =
       table_frames (mphys sample_mem) (mcr3 sample_mem) \<union> free_frames (kernel_pool sample_mem) \<and>
     bm.used_set (vaddr_bitmap (kernel_vaddr m2)) = bm.used_set (vaddr_bitmap (kernel_vaddr sample_mem)) \<and>
     mtlb m2 = (mtlb sample_mem)(cur_stack sample_mem AND 0xfffff000 := None)"
proof (rule kernel_pages_roundtrip [where r = 1 and n = 1])
  let ?b = "\<lparr>btmp_bytes_len = 1, bits = [1]\<rparr>"
  show "mem_wf sample_mem" by (rule sample_mem_wf)
  show "va_run (kernel_vaddr sample_mem) 1 1" by (simp add: va_run_def sample_mem_def bitmap_wf_def K_HEAP_START_def)
  have "(LEAST n. \<not> bit_at ?b n) = 1" by (rule Least_equality) (auto simp: bit_at_def Suc_le_eq intro: ccontr)
  then have "bitmap_scan ?b 1 = Inr (int 1)"
    using bitmap_scan_one [of ?b 1] by (simp add: bitmap_wf_def bit_at_def)
  then show "bitmap_scan (vaddr_bitmap (kernel_vaddr sample_mem)) 1 = Inr (int 1)" by (simp add: sample_mem_def)
  show "free_run (vaddr_bitmap (kernel_vaddr sample_mem)) 1 1" by (simp add: sample_mem_def bit_at_def)
  show "2 * 1 \<le> card (free_frames (kernel_pool sample_mem))" by (simp add: sample_card)
  show "(0xc0101000 :: u32) = vaddr_start (kernel_vaddr sample_mem) + of_nat 1 * PG_SIZE"
    by (simp add: sample_mem_def K_HEAP_START_def PG_SIZE_def)
  show "walk (mphys sample_mem) (mcr3 sample_mem) (0xc0101000 + of_nat k * PG_SIZE) = None" if "k < 1" for k
    using that sample_unmapped by (simp add: sample_mem_def)
  show "0x102000 \<le> phy_addr_start (kernel_pool sample_mem)" by (simp add: sample_mem_def sample_pool_def)
  show "f < phy_addr_start (user_pool sample_mem)" if pf: "f \<in> pool_frames (kernel_pool sample_mem)" for f
  proof -
    have pw: "pool_wf (sample_pool 0x200000)" by (rule sample_pool_wf; simp)
    have nb: "nbits (pool_bitmap (sample_pool 0x200000)) = 8" "kernel_pool sample_mem = sample_pool 0x200000"
      by (simp_all add: sample_pool_def sample_mem_def)
    obtain k where k: "f = frame_of (sample_pool 0x200000) k" "k < 8"
      using pf unfolding pool_frames_def nb by auto
    then have "unat f = 0x200000 + k * 4096" using unat_frame_of [OF pw, of k] by (simp add: sample_pool_def)
    with k(2) show ?thesis by (simp add: sample_mem_def sample_pool_def word_less_nat_alt)
  qed
qed simp_all

end
