(* ===== verification/Thread.thy ===== *)
theory Thread
  imports Sync MemHeap CString
begin

text \<open>
  Tasks: creation, identifiers and exit of threads (\<^verbatim>\<open>thread/thread.c\<close>) and the creation of processes
  (\<^verbatim>\<open>userprog/process.c\<close>).

  The state \<open>kern\<close> puts the scheduler (\<open>sc\<close>) and memory management together: \<open>mem_view\<close> is the memory
  state as the running task sees it (its page directory, its virtual pool, its block descriptors) and
  \<open>put_mem\<close> writes it back, so the operations of \<open>Memory\<close> apply (\<open>in_mem\<close>). Each PCB has its
  virtual address pool (\<open>uvaddr\<close>, with the address of its bitmap in \<open>vbits\<close>) and its block descriptors
  (\<open>udescs\<close>). Kernel stacks are frames by address (\<open>tstacks\<close>, \<open>istacks\<close>); code is named, not
  addressed. What a task does when it first gets the processor (\<open>kont\<close>, see \<open>Sched\<close>) is what its thread
  stack returns to. The lock of the pid pool is a flag: taking it while it is held is \<open>Blocks\<close>.
\<close>

section \<open>State\<close>

datatype code = Kernel_Thread | Start_Process | Idle | Intr_Exit | User_Code u32 | No_Code

record thread_stack =
  ts_ebp :: u32
  ts_ebx :: u32
  ts_edi :: u32
  ts_esi :: u32
  ts_eip :: code
  ts_function :: code
  func_arg :: u32

record intr_stack =
  is_edi :: u32
  is_esi :: u32
  is_ebp :: u32
  esp_dummy :: u32
  is_ebx :: u32
  is_edx :: u32
  is_ecx :: u32
  is_eax :: u32
  is_gs :: u32
  is_fs :: u32
  is_es :: u32
  is_ds :: u32
  is_eip :: u32
  is_cs :: u32
  is_eflags :: u32
  is_esp :: u32
  is_ss :: u32

record kern =
  sc :: ksync
  kpool :: pool
  upool :: pool
  kvaddr :: virtual_addr
  karenas :: "u32 \<Rightarrow> arena"
  kdescs :: "mem_block_desc list"
  uvaddr :: "ptr \<Rightarrow> virtual_addr"
  vbits :: "ptr \<Rightarrow> u32"
  udescs :: "ptr \<Rightarrow> mem_block_desc list"
  pid_bitmap :: bitmap
  pid_start :: u32
  pid_locked :: bool
  tstacks :: "u32 \<Rightarrow> thread_stack"
  istacks :: "u32 \<Rightarrow> intr_stack"

abbreviation the_task :: "'a kern_scheme \<Rightarrow> ptr \<Rightarrow> task_struct" where
  "the_task k p \<equiv> tasks (sc k) p"

definition upd_sc :: "(ksync \<Rightarrow> ksync) \<Rightarrow> 'a kern_scheme \<Rightarrow> 'a kern_scheme" where
  "upd_sc f k = k\<lparr>sc := f (sc k)\<rparr>"

definition set_task :: "ptr \<Rightarrow> (task_struct \<Rightarrow> task_struct) \<Rightarrow> 'a kern_scheme \<Rightarrow> 'a kern_scheme" where
  "set_task p f k = k\<lparr>sc := upd_task p f (sc k)\<rparr>"

definition mem_view :: "'a kern_scheme \<Rightarrow> mem" where
  "mem_view k =
     \<lparr>mphys = phys (sc k), mcr3 = cr3 (sc k), mtlb = tlb (sc k), kernel_pool = kpool k, user_pool = upool k, kernel_vaddr = kvaddr k,
      userprog_vaddr = uvaddr k (cur (sc k)), cur_pgdir = pgdir (the_task k (cur (sc k))), cur_stack = cur (sc k),
      arenas = karenas k, k_block_descs = kdescs k, u_block_desc = udescs k (cur (sc k))\<rparr>"

definition put_mem :: "mem \<Rightarrow> 'a kern_scheme \<Rightarrow> 'a kern_scheme" where
  "put_mem m k =
     k\<lparr>sc := (sc k)\<lparr>phys := mphys m, tlb := mtlb m\<rparr>, kpool := kernel_pool m, upool := user_pool m, kvaddr := kernel_vaddr m,
       karenas := arenas m, kdescs := k_block_descs m, uvaddr := (uvaddr k)(cur (sc k) := userprog_vaddr m),
       udescs := (udescs k)(cur (sc k) := u_block_desc m)\<rparr>"

definition in_mem :: "(mem \<Rightarrow> ('b \<times> mem) res) \<Rightarrow> 'a kern_scheme \<Rightarrow> ('b \<times> 'a kern_scheme) res" where
  "in_mem f k = bind_res (f (mem_view k)) (\<lambda>(a, m). Inr (a, put_mem m k))"

definition in_mem0 :: "(mem \<Rightarrow> mem res) \<Rightarrow> 'a kern_scheme \<Rightarrow> 'a kern_scheme res" where
  "in_mem0 f k = bind_res (f (mem_view k)) (\<lambda>m. Inr (put_mem m k))"

definition in_sched :: "(ksync \<Rightarrow> ksync res) \<Rightarrow> 'a kern_scheme \<Rightarrow> 'a kern_scheme res" where
  "in_sched f k = bind_res (f (sc k)) (\<lambda>s. Inr (k\<lparr>sc := s\<rparr>))"

section \<open>Process identifiers\<close>

definition pid_pool_init :: "'a kern_scheme \<Rightarrow> 'a kern_scheme res" where
  "pid_pool_init k =
     bind_res (bitmap_init \<lparr>btmp_bytes_len = 128, bits = replicate 128 0\<rparr>) (\<lambda>b.
     Inr (k\<lparr>pid_start := 1, pid_bitmap := b, pid_locked := False\<rparr>))"

definition pid_lock_acquire :: "'a kern_scheme \<Rightarrow> 'a kern_scheme res" where
  "pid_lock_acquire k = (if pid_locked k then Inl Blocks else Inr (k\<lparr>pid_locked := True\<rparr>))"

definition allocate_pid :: "'a kern_scheme \<Rightarrow> (pid_t \<times> 'a kern_scheme) res" where
  "allocate_pid k =
     bind_res (pid_lock_acquire k) (\<lambda>k.
     bind_res (bitmap_scan (pid_bitmap k) 1) (\<lambda>bit_idx.
     bind_res (bitmap_set (pid_bitmap k) (of_int bit_idx) 1) (\<lambda>b.
     Inr (ucast (of_int bit_idx + pid_start k), k\<lparr>pid_bitmap := b, pid_locked := False\<rparr>))))"

definition release_pid :: "pid_t \<Rightarrow> 'a kern_scheme \<Rightarrow> 'a kern_scheme res" where
  "release_pid pd k =
     bind_res (pid_lock_acquire k) (\<lambda>k.
     bind_res (bitmap_set (pid_bitmap k) (scast pd - pid_start k) 0) (\<lambda>b.
     Inr (k\<lparr>pid_bitmap := b, pid_locked := False\<rparr>)))"

definition fork_pid :: "'a kern_scheme \<Rightarrow> (pid_t \<times> 'a kern_scheme) res" where
  "fork_pid k = allocate_pid k"

text \<open>\<^verbatim>\<open>list_traversal\<close> over all tasks returns the first one for which the callback returns true.\<close>

definition pid_check :: "'a sched_scheme \<Rightarrow> int \<Rightarrow> ptr \<Rightarrow> bool" where
  "pid_check s n p \<longleftrightarrow> sint (pid (tasks s p)) = n"

definition pid2thread :: "int \<Rightarrow> 'a sched_scheme \<Rightarrow> ptr" where
  "pid2thread n s = (case find (pid_check s n) (thread_all_list s) of None \<Rightarrow> NULL | Some p \<Rightarrow> p)"

section \<open>Threads\<close>

definition TASK_NAME_LEN :: nat where [layout_simps]: "TASK_NAME_LEN = 16"

text \<open>\<^verbatim>\<open>self_kstack\<close> is a pointer to 32-bit words: the sizes are subtracted four times over.\<close>

definition sizeof_intr_stack :: u32 where [layout_simps]: "sizeof_intr_stack = 76"
definition sizeof_thread_stack :: u32 where [layout_simps]: "sizeof_thread_stack = 32"

definition thread_create :: "ptr \<Rightarrow> code \<Rightarrow> u32 \<Rightarrow> 'a kern_scheme \<Rightarrow> 'a kern_scheme" where
  "thread_create p function arg k =
     (let ks = self_kstack (the_task k p) - 4 * sizeof_intr_stack - 4 * sizeof_thread_stack;
          k = set_task p (\<lambda>t. t\<lparr>self_kstack := ks\<rparr>) k
      in k\<lparr>tstacks := (tstacks k)(ks := \<lparr>ts_ebp = 0, ts_ebx = 0, ts_edi = 0, ts_esi = 0, ts_eip = Kernel_Thread,
             ts_function = function, func_arg = arg\<rparr>),
           sc := (sc k)\<lparr>kont := (kont (sc k))(p := First_Run)\<rparr>\<rparr>)"

text \<open>\<^verbatim>\<open>memset\<close> makes the status 0, which is \<^verbatim>\<open>TASK_RUNNING\<close>. A \<^verbatim>\<open>NULL\<close> page fails its assertion; a name
  longer than 15 characters runs over the fields behind it.\<close>

definition new_task :: "pid_t \<Rightarrow> string \<Rightarrow> task_status \<Rightarrow> u8 \<Rightarrow> ptr \<Rightarrow> task_struct" where
  "new_task pd name st prio p =
     \<lparr>self_kstack = p + PG_SIZE, pid = pd, status = st, task_name = name, priority = prio, ticks = prio, elapsed_ticks = 0,
      pgdir = NULL, fd_table = [0, 1, 2, -1, -1, -1, -1, -1], cwd_inode_nr = 0, parent_pid = -1, exit_status = 0,
      stack_magic = STACK_MAGIC\<rparr>"

definition init_thread :: "ptr \<Rightarrow> string \<Rightarrow> u8 \<Rightarrow> 'a kern_scheme \<Rightarrow> 'a kern_scheme res" where
  "init_thread p name prio k =
     (if p = NULL then Inl (Panic ''dst_ != NULL'')
      else
        bind_res (allocate_pid k) (\<lambda>(pd, k).
        if length name < TASK_NAME_LEN then
          Inr (set_task p (\<lambda>_. new_task pd name (if p = main_thread (sc k) then TASK_RUNNING else TASK_READY) prio p) k)
        else Inl Bad_Access))"

definition enqueue_task :: "ptr \<Rightarrow> 'a kern_scheme \<Rightarrow> 'a kern_scheme res" where
  "enqueue_task p k =
     bind_res (ASSERT (p \<notin> set (thread_ready_list (sc k))) ''!elem_find(&thread_ready_list, &thread->general_tag)'') (\<lambda>_.
     let k = upd_sc (\<lambda>s. s\<lparr>thread_ready_list := thread_ready_list s @ [p]\<rparr>) k in
     bind_res (ASSERT (p \<notin> set (thread_all_list (sc k))) ''!elem_find(&thread_all_list, &thread->all_list_tag)'') (\<lambda>_.
     Inr (upd_sc (\<lambda>s. s\<lparr>thread_all_list := thread_all_list s @ [p]\<rparr>) k)))"

definition thread_start :: "string \<Rightarrow> u8 \<Rightarrow> code \<Rightarrow> u32 \<Rightarrow> 'a kern_scheme \<Rightarrow> (ptr \<times> 'a kern_scheme) res" where
  "thread_start name prio function arg k =
     bind_res (in_mem (get_kernel_pages 1) k) (\<lambda>(thread, k).
     bind_res (init_thread thread name prio k) (\<lambda>k.
     bind_res (enqueue_task thread (thread_create thread function arg k)) (\<lambda>k.
     Inr (thread, k))))"

definition make_main_thread :: "'a kern_scheme \<Rightarrow> 'a kern_scheme res" where
  "make_main_thread k =
     (let k = upd_sc (\<lambda>s. s\<lparr>main_thread := cur s\<rparr>) k in
      bind_res (init_thread (main_thread (sc k)) ''main'' 31 k) (\<lambda>k.
      bind_res (ASSERT (main_thread (sc k) \<notin> set (thread_all_list (sc k))) ''!elem_find(&thread_all_list, &main_thread->all_list_tag)'') (\<lambda>_.
      Inr (upd_sc (\<lambda>s. s\<lparr>thread_all_list := thread_all_list s @ [main_thread s]\<rparr>) k))))"

text \<open>The end of a task. Its PCB is read (for the pid) after its page was given back.\<close>

definition thread_exit :: "ptr \<Rightarrow> bool \<Rightarrow> 'a kern_scheme \<Rightarrow> 'a kern_scheme res" where
  "thread_exit thread_over need_schedule k =
     (let k = upd_sc (\<lambda>s. set_stat thread_over TASK_DIED (snd (intr_disable s))) k;
          k = upd_sc (\<lambda>s. s\<lparr>thread_ready_list := remove1 thread_over (thread_ready_list s)\<rparr>) k
      in bind_res
           (if pgdir (the_task k thread_over) \<noteq> NULL then in_mem0 (mfree_page PF_KERNEL (pgdir (the_task k thread_over)) 1) k
            else Inr k) (\<lambda>k.
         let k = upd_sc (\<lambda>s. s\<lparr>thread_all_list := remove1 thread_over (thread_all_list s)\<rparr>) k in
         bind_res
           (if thread_over \<noteq> main_thread (sc k) then in_mem0 (mfree_page PF_KERNEL thread_over 1) k else Inr k) (\<lambda>k.
         bind_res (release_pid (pid (the_task k thread_over)) k) (\<lambda>k.
         if need_schedule then
           bind_res (in_sched schedule k) (\<lambda>k. Inr (upd_sc resume k))
         else Inr k))))"

section \<open>Processes\<close>

definition USER_STACK3_VADDR :: u32 where [layout_simps]: "USER_STACK3_VADDR = 0xc0000000 - 0x1000"
definition USER_VADDR_START :: u32 where [layout_simps]: "USER_VADDR_START = 0x8048000"
definition default_prio :: u8 where [layout_simps]: "default_prio = 31"
definition SELECTOR_U_CODE :: u32 where [layout_simps]: "SELECTOR_U_CODE = push_bit 3 5 + push_bit 2 0 + 3"
definition SELECTOR_U_DATA :: u32 where [layout_simps]: "SELECTOR_U_DATA = push_bit 3 6 + push_bit 2 0 + 3"

text \<open>\<^verbatim>\<open>memcpy\<close> of \<open>n\<close> words within the loaded address space.\<close>

primrec copy_words :: "nat \<Rightarrow> u32 \<Rightarrow> u32 \<Rightarrow> u32 \<Rightarrow> phys_mem \<Rightarrow> phys_mem res" where
  "copy_words 0 dr dst src ph = Inr ph"
| "copy_words (Suc n) dr dst src ph =
     bind_res (vload ph dr src) (\<lambda>x.
     bind_res (vstore ph dr dst x) (\<lambda>ph. copy_words n dr (dst + 4) (src + 4) ph))"

definition create_page_dir :: "mem \<Rightarrow> (u32 \<times> mem) res" where
  "create_page_dir m =
     bind_res (get_kernel_pages 1 m) (\<lambda>(page_dir_vaddr, m).
     if page_dir_vaddr = 0 then Inr (0, m)
     else
       bind_res (copy_words 256 (mcr3 m) (page_dir_vaddr + 0x300 * 4) (0xfffff000 + 0x300 * 4) (mphys m)) (\<lambda>ph.
       bind_res (addr_v2p ph (mcr3 m) page_dir_vaddr) (\<lambda>new_page_dir_phy_addr.
       bind_res (vstore ph (mcr3 m) (page_dir_vaddr + 4 * 1023) (new_page_dir_phy_addr OR PG_US_U OR PG_RW_W OR PG_P_1)) (\<lambda>ph.
       Inr (page_dir_vaddr, m\<lparr>mphys := ph\<rparr>)))))"

definition bitmap_pg_cnt :: u32 where
  "bitmap_pg_cnt = DIV_ROUND_UP ((0xc0000000 - USER_VADDR_START) div PG_SIZE div 8) PG_SIZE"

definition create_user_vaddr_bitmap :: "ptr \<Rightarrow> 'a kern_scheme \<Rightarrow> 'a kern_scheme res" where
  "create_user_vaddr_bitmap p k =
     bind_res (in_mem (get_kernel_pages bitmap_pg_cnt) k) (\<lambda>(bits_addr, k).
     if bits_addr = NULL then Inl (Panic ''dst_ != NULL'')
     else
       bind_res (bitmap_init \<lparr>btmp_bytes_len = (0xc0000000 - USER_VADDR_START) div PG_SIZE div 8,
         bits = replicate (unat (bitmap_pg_cnt * PG_SIZE)) 0\<rparr>) (\<lambda>b.
       Inr (k\<lparr>vbits := (vbits k)(p := bits_addr),
              uvaddr := (uvaddr k)(p := \<lparr>vaddr_bitmap = b, vaddr_start = USER_VADDR_START\<rparr>)\<rparr>)))"

definition process_execute :: "u32 \<Rightarrow> string \<Rightarrow> 'a kern_scheme \<Rightarrow> 'a kern_scheme res" where
  "process_execute filename name k =
     bind_res (in_mem (get_kernel_pages 1) k) (\<lambda>(thread, k).
     bind_res (init_thread thread name default_prio k) (\<lambda>k.
     bind_res (create_user_vaddr_bitmap thread k) (\<lambda>k.
     let k = thread_create thread Start_Process filename k in
     bind_res (in_mem create_page_dir k) (\<lambda>(pd, k).
     let k = set_task thread (\<lambda>t. t\<lparr>pgdir := pd\<rparr>) k;
         k = k\<lparr>udescs := (udescs k)(thread := block_desc_init)\<rparr>;
         old_status = fst (intr_disable (sc k));
         k = upd_sc (\<lambda>s. snd (intr_disable s)) k
     in bind_res (enqueue_task thread k) (\<lambda>k.
        Inr (upd_sc (\<lambda>s. snd (intr_set_status old_status s)) k))))))"

text \<open>The first code of a process: it builds the frame with which the interrupt return enters user mode.\<close>

definition start_process :: "u32 \<Rightarrow> 'a kern_scheme \<Rightarrow> 'a kern_scheme res" where
  "start_process function k =
     (let p = cur (sc k);
          ks = self_kstack (the_task k p) + 4 * sizeof_thread_stack;
          k = set_task p (\<lambda>t. t\<lparr>self_kstack := ks\<rparr>) k
      in bind_res (in_mem (get_a_page PF_USER USER_STACK3_VADDR) k) (\<lambda>(pg, k).
         Inr (k\<lparr>istacks := (istacks k)(ks :=
           \<lparr>is_edi = 0, is_esi = 0, is_ebp = 0, esp_dummy = 0, is_ebx = 0, is_edx = 0, is_ecx = 0, is_eax = 0,
            is_gs = 0, is_fs = SELECTOR_U_DATA, is_es = SELECTOR_U_DATA, is_ds = SELECTOR_U_DATA,
            is_eip = function, is_cs = SELECTOR_U_CODE, is_eflags = push_bit 12 0 OR push_bit 1 1 OR EFLAGS_IF,
            is_esp = pg + PG_SIZE, is_ss = SELECTOR_U_DATA\<rparr>)\<rparr>)))"

text \<open>\<open>init_entry\<close> is the address of \<^verbatim>\<open>init\<close>; its process is created first and gets pid 1.\<close>

definition thread_init :: "u32 \<Rightarrow> 'a kern_scheme \<Rightarrow> 'a kern_scheme res" where
  "thread_init init_entry k =
     bind_res (pid_pool_init (upd_sc (\<lambda>s. s\<lparr>thread_ready_list := [], thread_all_list := []\<rparr>) k)) (\<lambda>k.
     bind_res (process_execute init_entry ''init'' k) (\<lambda>k.
     bind_res (make_main_thread k) (\<lambda>k.
     bind_res (thread_start ''idle'' 10 Idle 0 k) (\<lambda>(t, k).
     Inr (upd_sc (\<lambda>s. s\<lparr>idle_thread := t\<rparr>) k)))))"

section \<open>The task list\<close>

text \<open>What \<^verbatim>\<open>sys_ps\<close> writes. A column is 15 characters wide; its buffer has 16 bytes.\<close>

definition pad_print :: "u8 list \<Rightarrow> vararg \<Rightarrow> u8 list res" where
  "pad_print format v =
     bind_res (vsprintf format [v]) (\<lambda>txt.
     bind_res (memcpy (replicate 16 0) txt (length txt)) (\<lambda>b.
     bind_res (strlen b) (\<lambda>n.
     Inr (take 15 (take n b @ replicate (16 - n) 32)))))"

definition status_text :: "task_status \<Rightarrow> string" where
  "status_text st = (case st of
      TASK_RUNNING \<Rightarrow> ''RUNNING'' | TASK_READY \<Rightarrow> ''READY'' | TASK_BLOCKED \<Rightarrow> ''BLOCKED'' | TASK_WAITING \<Rightarrow> ''WAITING''
    | TASK_HANGING \<Rightarrow> ''HANGING'' | TASK_DIED \<Rightarrow> ''DIED'')"

definition elem2thread_info :: "task_struct \<Rightarrow> u8 list res" where
  "elem2thread_info t =
     bind_res (pad_print [37, 100, 0] (Arg_Int (scast (pid t)))) (\<lambda>c1.
     bind_res (if parent_pid t = -1 then pad_print [37, 115, 0] (Arg_Str (bytes_of ''NULL'' @ [0]))
               else pad_print [37, 100, 0] (Arg_Int (scast (parent_pid t)))) (\<lambda>c2.
     bind_res (pad_print [37, 115, 0] (Arg_Str (bytes_of (status_text (status t)) @ [0]))) (\<lambda>c3.
     bind_res (pad_print [37, 120, 0] (Arg_Int (elapsed_ticks t))) (\<lambda>c4.
     bind_res (ASSERT (length (task_name t) < 17) ''strlen(pthread->name) < 17'') (\<lambda>_.
     bind_res (memcpy (replicate 16 0) (bytes_of (task_name t)) (length (task_name t))) (\<lambda>out_pad.
     bind_res (strcat out_pad [10, 0]) (\<lambda>out_pad.
     bind_res (strlen out_pad) (\<lambda>n.
     Inr (c1 @ c2 @ c3 @ c4 @ take n out_pad)))))))))"

fun ps_lines :: "ptr list \<Rightarrow> 'a sched_scheme \<Rightarrow> u8 list res" where
  "ps_lines [] s = Inr []"
| "ps_lines (p # ps) s =
     bind_res (elem2thread_info (tasks s p)) (\<lambda>l. bind_res (ps_lines ps s) (\<lambda>ls. Inr (l @ ls)))"

definition sys_ps :: "'a sched_scheme \<Rightarrow> u8 list res" where
  "sys_ps s =
     bind_res (ps_lines (thread_all_list s) s) (\<lambda>ls.
     Inr (bytes_of ''PID            PPID           STAT           TICKS          COMMAND'' @ [10] @ ls))"

end
