(* ===== verification/PageDir.thy ===== *)
theory PageDir
  imports Thread MemFree
begin

text \<open>
  The page directory of a new process: \<^verbatim>\<open>create_page_dir\<close> of \<^verbatim>\<open>userprog/process.c\<close> (defined in
  \<open>Thread\<close>). The upper quarter of the directory is copied word by word through the recursive mapping;
  the last entry is redirected to the new directory itself.
\<close>

section \<open>Words of a page\<close>

lemma walk_word:
  assumes w: "walk ph dr v = Some f" and al: "v AND 0xfffff000 = v" "f AND 0xfff = 0" and i: "unat i < 1024"
  shows "walk ph dr (v + i * 4) = Some (f + i * 4)"
proof -
  have e: "(v + i * 4) AND 0xfffff000 = v AND 0xfffff000" using word_in_page(1) [OF al(1) i] al(1) by simp
  then have pa: "pde_of ph dr (v + i * 4) = pde_of ph dr v" "pte_addr ph dr (v + i * 4) = pte_addr ph dr v"
    by (simp_all add: page_eq pte_addr_def pde_of_entry)
  have v0: "v AND 0xfff = 0" using word_in_page(2) [OF al(1), of 0] by simp
  show ?thesis
    using w v0 word_in_page(2) [OF al(1) i] unfolding walk_alt [of _ _ v] walk_alt [of _ _ "v + i * 4"] pa
    by (auto split: if_splits)
qed

lemma walk_dir_word:
  assumes "self_mapped ph dr" and "unat i < 1024"
  shows "walk ph dr (0xfffff000 + i * 4) = Some (pd_base dr + i * 4)"
proof -
  have u: "unat (i * 4194304) = unat i * 4194304" using assms(2) by (simp add: unat_mult_small)
  have "unat (PDE_IDX (i * 4194304)) = unat i" unfolding unat_PDE_IDX u by simp
  then have p: "PDE_IDX (i * 4194304) = i" by (rule unsigned_word_eqI)
  show ?thesis using walk_pde_ptr [OF assms(1), of "i * 4194304"] by (simp add: pde_ptr_def p)
qed

lemma copy_words_spec:
  fixes f v :: u32
  assumes "tables_ok ph dr" and "f \<notin> table_frames ph dr" and "f AND 0xfff = 0" and "v AND 0xfffff000 = v"
    and "walk ph dr v = Some f" and "j + n \<le> 1024"
  shows "\<exists>ph'. copy_words n dr (v + of_nat j * 4) (0xfffff000 + of_nat j * 4) ph = Inr ph' \<and>
     (\<forall>a. a AND 0xfffff000 \<noteq> f \<longrightarrow> ph' a = ph a) \<and>
     (\<forall>i < 1024. ph' (f + of_nat i * 4) = (if j \<le> i \<and> i < j + n then ph (pd_base dr + of_nat i * 4) else ph (f + of_nat i * 4)))"
  using assms
proof (induction n arbitrary: j ph)
  case (Suc n)
  have sm: "self_mapped ph dr" using Suc.prems(1) by (simp add: tables_ok_def)
  have fp: "f AND 0xfffff000 = f" using entry_frame(3) [OF Suc.prems(3)] .
  have nb: "f \<noteq> pd_base dr" using Suc.prems(2) by (auto simp: table_frames_def)
  have j: "unat (of_nat j :: u32) = j" "unat (of_nat j :: u32) < 1024" using Suc.prems(6) by simp_all
  let ?x = "ph (pd_base dr + of_nat j * 4)"
  let ?ph = "ph(f + of_nat j * 4 := ?x)"
  have a0: "(f + of_nat j * 4) AND 0xfffff000 = f" by (rule word_in_page(1) [OF fp j(2)])
  have st: "vload ph dr (0xfffff000 + of_nat j * 4) = Inr ?x" "vstore ph dr (v + of_nat j * 4) ?x = Inr ?ph"
    using walk_dir_word [OF sm j(2)] walk_word [OF Suc.prems(5,4,3) j(2)] by (simp_all add: vload_def vstore_def)
  have fw: "tables_ok ?ph dr" "table_frames ?ph dr = table_frames ph dr" "walk ?ph dr w = walk ph dr w" for w
    using Suc.prems(2) a0 by (intro frame_writes [OF Suc.prems(1), of "{f}"]; auto)+
  have p: "f \<notin> table_frames ?ph dr" "walk ?ph dr v = Some f" "Suc j + n \<le> 1024" using fw(2,3) Suc.prems(2,5,6) by simp_all
  from Suc.IH [OF fw(1) p(1) Suc.prems(3,4) p(2,3)] obtain ph' where
    r: "copy_words n dr (v + of_nat (Suc j) * 4) (0xfffff000 + of_nat (Suc j) * 4) ?ph = Inr ph'"
      "\<forall>a. a AND 0xfffff000 \<noteq> f \<longrightarrow> ph' a = ?ph a"
      "\<forall>i < 1024. ph' (f + of_nat i * 4) =
        (if Suc j \<le> i \<and> i < Suc j + n then ?ph (pd_base dr + of_nat i * 4) else ?ph (f + of_nat i * 4))" by blast
  have nx: "y + of_nat j * 4 + 4 = y + of_nat (Suc j) * 4" for y :: u32 by (simp add: algebra_simps)
  have "copy_words (Suc n) dr (v + of_nat j * 4) (0xfffff000 + of_nat j * 4) ph = Inr ph'"
    using st r(1) unfolding copy_words.simps nx by simp
  moreover have "\<forall>a. a AND 0xfffff000 \<noteq> f \<longrightarrow> ph' a = ph a" using r(2) a0 by auto
  moreover have "ph' (f + of_nat i * 4) =
      (if j \<le> i \<and> i < j + Suc n then ph (pd_base dr + of_nat i * 4) else ph (f + of_nat i * 4))" if i: "i < 1024" for i
  proof -
    have ui: "unat (of_nat i :: u32) = i" "unat (of_nat i :: u32) < 1024" using i by simp_all
    then have inj: "(of_nat i :: u32) = of_nat j \<longleftrightarrow> i = j" using j(1) by metis
    have "pd_base dr + of_nat i * 4 \<noteq> f + of_nat j * 4" using pd_word_page [OF ui(2), of dr] a0 nb by auto
    moreover have "f + of_nat i * 4 = f + of_nat j * 4 \<longleftrightarrow> i = j"
      using entry_inj [OF ui(2) j(2), of f f] fp inj by simp
    ultimately show ?thesis using r(3) [rule_format, OF i] by auto
  qed
  ultimately show ?case by blast
qed auto

section \<open>The new directory\<close>

lemma dir_page:
  assumes "pool_wf p" and "f \<in> free_frames p"
  shows "f AND 0xfff = 0" and "pd_base f = f"
  using frame_of_aligned(1) [OF assms(1)] frame_page [OF assms] assms(2) by (auto simp: free_frames_def pd_base_def)

text \<open>A directory whose upper entries are those of another, and that maps itself, translates the
  addresses behind those entries in the same way.\<close>

lemma shared_walk:
  assumes "pd_base f = f" and "pd_entry ph f (PDE_IDX w) = pd_entry ph dr (PDE_IDX w)"
  shows "walk ph f w = walk ph dr w"
  using assms by (simp add: walk_alt pte_addr_def pde_of_entry)

text \<open>What the two writes make of a cleared frame \<open>f\<close> behind the page \<open>v\<close>.\<close>

lemma fill_dir:
  fixes f v dr :: u32
  defines "e \<equiv> f OR PG_US_U OR PG_RW_W OR PG_P_1"
  assumes ok: "tables_ok ph dr" and nt: "f \<notin> table_frames ph dr" and fa: "f AND 0xfff = 0" "pd_base f = f"
    and va: "v AND 0xfffff000 = v" and wv: "walk ph dr v = Some f" and z: "\<And>a. a AND 0xfffff000 = f \<Longrightarrow> ph a = 0"
  shows "\<exists>ph1 ph2. copy_words 256 dr (v + 0x300 * 4) (0xfffff000 + 0x300 * 4) ph = Inr ph1 \<and>
     addr_v2p ph1 dr v = Inr f \<and> vstore ph1 dr (v + 4 * 1023) e = Inr ph2 \<and>
     (\<forall>a. a AND 0xfffff000 \<noteq> f \<longrightarrow> ph2 a = ph a) \<and>
     (\<forall>i < 1024. pd_entry ph2 f (of_nat i) = (if i < 768 then 0 else if i < 1023 then pd_entry ph2 dr (of_nat i) else e))"
proof -
  have fp: "f AND 0xfffff000 = f" using fa(2) by (simp add: pd_base_def)
  have "768 + 256 \<le> (1024 :: nat)" by simp
  from copy_words_spec [OF ok nt fa(1) va wv this] obtain ph1 where
    c: "copy_words 256 dr (v + 0x300 * 4) (0xfffff000 + 0x300 * 4) ph = Inr ph1"
      "\<forall>a. a AND 0xfffff000 \<noteq> f \<longrightarrow> ph1 a = ph a"
      "\<forall>i < 1024. ph1 (f + of_nat i * 4) =
        (if 768 \<le> i \<and> i < 1024 then ph (pd_base dr + of_nat i * 4) else ph (f + of_nat i * 4))" by auto
  let ?ph = "ph1(f + 1023 * 4 := e)"
  have a0: "(f + 1023 * 4) AND 0xfffff000 = f" using word_in_page(1) [OF fp, of 1023] by simp
  have fw: "tables_ok ph1 dr" "walk ph1 dr w = walk ph dr w" for w
    using nt c(2) by (intro frame_writes [OF ok, of "{f}"]; auto)+
  have v2p: "addr_v2p ph1 dr v = Inr f" using fw wv by (intro addr_v2p_walk) (simp_all add: tables_ok_def)
  have vs: "vstore ph1 dr (v + 4 * 1023) e = Inr ?ph"
    using walk_word [OF wv va fa(1), of 1023] fw(2) by (simp add: vstore_def)
  have out: "?ph a = ph a" if "a AND 0xfffff000 \<noteq> f" for a using that c(2) a0 by auto
  have "pd_entry ?ph f (of_nat i) = (if i < 768 then 0 else if i < 1023 then pd_entry ?ph dr (of_nat i) else e)"
    if i: "i < 1024" for i
  proof -
    have ui: "unat (of_nat i :: u32) = i" "unat (of_nat i :: u32) < 1024" using i by simp_all
    have d: "?ph (pd_base dr + of_nat i * 4) = ph (pd_base dr + of_nat i * 4)"
      using out pd_word_page [OF ui(2), of dr] nt by (auto simp: table_frames_def simp del: fun_upd_apply)
    have "(of_nat i :: u32) = 1023 \<longleftrightarrow> unat (of_nat i :: u32) = unat (1023 :: u32)" by (auto intro: unsigned_word_eqI)
    then have l: "f + of_nat i * 4 = f + 1023 * 4 \<longleftrightarrow> i = 1023"
      using entry_inj [OF ui(2), of 1023 f f] fp ui(1) by simp
    have q: "?ph (f + of_nat i * 4) = (if i = 1023 then e else ph1 (f + of_nat i * 4))" unfolding fun_upd_apply l ..
    have p: "ph1 (f + of_nat i * 4) = (if 768 \<le> i then ph (pd_base dr + of_nat i * 4) else 0)"
      using c(3) [rule_format, OF i] z [OF word_in_page(1) [OF fp ui(2)]] i by simp
    show ?thesis unfolding pd_entry_def fa(2) q p d using i by simp
  qed
  then show ?thesis using c(1) v2p vs out by (intro exI [of _ ph1] exI [of _ ?ph]) (simp del: fun_upd_apply)
qed

lemma create_page_dir_spec:
  fixes v :: u32
  assumes wf: "mem_wf m" and run: "va_run (kernel_vaddr m) r 1"
    and sc: "bitmap_scan (vaddr_bitmap (kernel_vaddr m)) 1 = Inr (int r)"
    and fr: "2 \<le> card (free_frames (kernel_pool m))" and ul: "\<not> pool_locked (kernel_pool m)"
    and v: "v = vaddr_start (kernel_vaddr m) + of_nat r * PG_SIZE" and un: "walk (mphys m) (mcr3 m) v = None"
  shows "\<exists>m' f. create_page_dir m = Inr (v, m') \<and> mem_wf m' \<and> pages_mapped 1 PF_KERNEL v m m' [f] \<and>
     (\<forall>i < 1024. pd_entry (mphys m') f (of_nat i) =
        (if i < 768 then 0 else if i < 1023 then pd_entry (mphys m') (mcr3 m) (of_nat i)
         else f OR PG_US_U OR PG_RW_W OR PG_P_1))"
proof -
  have "unat (1 :: u32) = 1" by simp
  from get_kernel_pages_spec [OF wf run this _ _ sc _ ul v] fr un obtain m1 fs where
    g: "get_kernel_pages 1 m = Inr (v, m1)" "mem_wf m1" "pages_mapped 1 PF_KERNEL v m m1 fs"
      "\<forall>a. a AND 0xfffff000 \<in> set fs \<longrightarrow> mphys m1 a = 0" by auto
  obtain f where fs: "fs = [f]" using g(3) by (auto simp: pages_mapped_def length_Suc_conv)
  have pw: "pool_wf (kernel_pool m)" "tables_ok (mphys m1) (mcr3 m1)" using wf g(2) by (simp_all add: mem_wf_def)
  have c3: "mcr3 m1 = mcr3 m" and ff: "f \<in> free_frames (kernel_pool m)" and wv: "walk (mphys m1) (mcr3 m1) v = Some f"
    and nt: "f \<notin> table_frames (mphys m1) (mcr3 m1)"
    using g(3) unfolding fs pages_mapped_def by auto
  note vs = va_run_start [OF run zero_less_one, folded v] and fa = dir_page [OF pw(1) ff]
  have va: "v AND 0xfffff000 = v" using page_step(3) [of v 0 0] vs(3,4) by simp
  have "mphys m1 a = 0" if "a AND 0xfffff000 = f" for a using g(4) that by (simp add: fs)
  from fill_dir [OF pw(2) nt fa va wv this] obtain ph1 ph where
    c: "copy_words 256 (mcr3 m1) (v + 0x300 * 4) (0xfffff000 + 0x300 * 4) (mphys m1) = Inr ph1"
      "addr_v2p ph1 (mcr3 m1) v = Inr f" "vstore ph1 (mcr3 m1) (v + 4 * 1023) (f OR PG_US_U OR PG_RW_W OR PG_P_1) = Inr ph" and
    out: "\<And>a. a AND 0xfffff000 \<notin> {f} \<Longrightarrow> ph a = mphys m1 a" and
    en: "\<forall>i < 1024. pd_entry ph f (of_nat i) = (if i < 768 then 0 else if i < 1023 then pd_entry ph (mcr3 m1) (of_nat i)
        else f OR PG_US_U OR PG_RW_W OR PG_P_1)" by auto
  have fw: "tables_ok ph (mcr3 m1)" "table_frames ph (mcr3 m1) = table_frames (mphys m1) (mcr3 m1)"
    "walk ph (mcr3 m1) w = walk (mphys m1) (mcr3 m1) w" "low_shared ph (mcr3 m1) = shared m1" for w
    using nt out by (intro frame_writes [OF pw(2), of "{f}"]; blast)+
  have "create_page_dir m = Inr (v, m1\<lparr>mphys := ph\<rparr>)"
    unfolding create_page_dir_def using g(1) vs(2) c by simp
  moreover have "mem_wf (m1\<lparr>mphys := ph\<rparr>)" using g(2) fw by (simp add: mem_wf_def mapped_frames_def)
  moreover have "pages_mapped 1 PF_KERNEL v m (m1\<lparr>mphys := ph\<rparr>) [f]"
    using g(3) fw unfolding fs c3 by (simp add: pages_mapped_def same_shape_def)
  ultimately show ?thesis using en c3 by (intro exI [of _ "m1\<lparr>mphys := ph\<rparr>"] exI [of _ f]) simp
qed

section \<open>Properties\<close>

text \<open>C7: A new process sees the kernel and nothing else: \<^verbatim>\<open>create_page_dir\<close> returns a fresh kernel page;
  in the address space of the directory it holds every address below 3 GB is unmapped, every address
  of the kernel (up to the last 4 MB) translates as in the running address space, and the last entry
  maps the directory itself, as \<^verbatim>\<open>pte_ptr\<close> and \<^verbatim>\<open>pde_ptr\<close> need. The running address space keeps its
  invariant and gains only the page of the directory.\<close>

theorem create_page_dir_shares_kernel:
  fixes v :: u32
  assumes "mem_wf m" and "va_run (kernel_vaddr m) r 1"
    and "bitmap_scan (vaddr_bitmap (kernel_vaddr m)) 1 = Inr (int r)"
    and "2 \<le> card (free_frames (kernel_pool m))" and "\<not> pool_locked (kernel_pool m)"
    and "v = vaddr_start (kernel_vaddr m) + of_nat r * PG_SIZE" and "walk (mphys m) (mcr3 m) v = None"
  shows "\<exists>m' f. create_page_dir m = Inr (v, m') \<and> mem_wf m' \<and> pages_mapped 1 PF_KERNEL v m m' [f] \<and>
     self_mapped (mphys m') f \<and>
     (\<forall>w. walk (mphys m') f w = None \<or> 768 \<le> unat (PDE_IDX w)) \<and>
     (\<forall>w. walk (mphys m') f w = walk (mphys m') (mcr3 m') w \<or> unat (PDE_IDX w) < 768 \<or> unat (PDE_IDX w) = 1023)"
proof -
  from create_page_dir_spec [OF assms] obtain m' f where
    c: "create_page_dir m = Inr (v, m')" "mem_wf m'" "pages_mapped 1 PF_KERNEL v m m' [f]" and
    e: "\<And>i. i < 1024 \<Longrightarrow> pd_entry (mphys m') f (of_nat i) =
        (if i < 768 then 0 else if i < 1023 then pd_entry (mphys m') (mcr3 m) (of_nat i)
         else f OR PG_US_U OR PG_RW_W OR PG_P_1)" by blast
  have ff: "f \<in> free_frames (kernel_pool m)" "mcr3 m' = mcr3 m" using c(3) by (simp_all add: pages_mapped_def)
  have "pool_wf (kernel_pool m)" using assms(1) by (simp add: mem_wf_def)
  note fa = dir_page [OF this ff(1)]
  have pe: "pd_entry (mphys m') f (PDE_IDX w) = (if unat (PDE_IDX w) < 768 then 0 else if unat (PDE_IDX w) < 1023 then
      pd_entry (mphys m') (mcr3 m) (PDE_IDX w) else f OR PG_US_U OR PG_RW_W OR PG_P_1)" for w
    using e [OF PDE_IDX_lt [of w]] by simp
  have "self_mapped (mphys m') f"
    using e [of 1023] entry_frame(1,2) [OF fa(1)] fa(2) by (simp add: self_mapped_def pd_entry_def)
  moreover have "walk (mphys m') f w = None \<or> 768 \<le> unat (PDE_IDX w)" for w
    using pe [of w] by (cases "unat (PDE_IDX w) < 768") (simp_all add: walk_alt pde_of_entry)
  moreover have "walk (mphys m') f w = walk (mphys m') (mcr3 m') w \<or> unat (PDE_IDX w) < 768 \<or> unat (PDE_IDX w) = 1023" for w
    using pe [of w] shared_walk [OF fa(2), of "mphys m'" w "mcr3 m"] PDE_IDX_lt [of w] ff(2)
    by (cases "768 \<le> unat (PDE_IDX w) \<and> unat (PDE_IDX w) < 1023") auto
  ultimately show ?thesis using c by blast
qed

theorem create_page_dir_shares_kernel_witness:
  "\<exists>m' f. create_page_dir sample_mem = Inr (0xc0101000, m') \<and> mem_wf m' \<and> pages_mapped 1 PF_KERNEL 0xc0101000 sample_mem m' [f] \<and>
     self_mapped (mphys m') f \<and>
     (\<forall>w. walk (mphys m') f w = None \<or> 768 \<le> unat (PDE_IDX w)) \<and>
     (\<forall>w. walk (mphys m') f w = walk (mphys m') (mcr3 m') w \<or> unat (PDE_IDX w) < 768 \<or> unat (PDE_IDX w) = 1023)"
proof (rule create_page_dir_shares_kernel [where r = 1])
  let ?b = "\<lparr>btmp_bytes_len = 1, bits = [1]\<rparr>"
  show "mem_wf sample_mem" by (rule sample_mem_wf)
  show "va_run (kernel_vaddr sample_mem) 1 1" by (simp add: va_run_def sample_mem_def bitmap_wf_def K_HEAP_START_def)
  have "(LEAST n. \<not> bit_at ?b n) = 1" by (rule Least_equality) (auto simp: bit_at_def Suc_le_eq intro: ccontr)
  then have "bitmap_scan ?b 1 = Inr (int 1)"
    using bitmap_scan_one [of ?b 1] by (simp add: bitmap_wf_def bit_at_def)
  then show "bitmap_scan (vaddr_bitmap (kernel_vaddr sample_mem)) 1 = Inr (int 1)" by (simp add: sample_mem_def)
  show "2 \<le> card (free_frames (kernel_pool sample_mem))" by (simp add: sample_card)
  show "\<not> pool_locked (kernel_pool sample_mem)" by (simp add: sample_mem_def sample_pool_def)
  show "(0xc0101000 :: u32) = vaddr_start (kernel_vaddr sample_mem) + of_nat 1 * PG_SIZE"
    by (simp add: sample_mem_def K_HEAP_START_def PG_SIZE_def)
  show "walk (mphys sample_mem) (mcr3 sample_mem) 0xc0101000 = None"
    using sample_unmapped by (simp add: sample_mem_def)
qed

end
