(* ===== verification/Process.thy ===== *)
theory Process
  imports Thread Fs
begin

text \<open>
  Processes: \<^verbatim>\<open>userprog/fork.c\<close>, \<^verbatim>\<open>userprog/wait_exit.c\<close> and \<^verbatim>\<open>userprog/exec.c\<close>.

  The state \<open>proc\<close> adds the file system to \<open>kern\<close>. The file system calls of \<open>Fs\<close> run on it with the
  scheduler state put in and taken back (\<open>in_fs\<close>); the copy kept inside \<open>pfs\<close> is not looked at. One pass of
  the loop of \<^verbatim>\<open>sys_wait\<close> is a definition: a task that goes to sleep in it takes the next pass when it is
  woken. Memory is words: a byte is part of the word at its address with the two low bits cleared.
\<close>

record proc = kern +
  pfs :: fsys

definition fs_view :: "proc \<Rightarrow> fsys" where
  "fs_view k = (pfs k)\<lparr>io := (io (pfs k))\<lparr>ks := sc k\<rparr>\<rparr>"

definition put_fs :: "fsys \<Rightarrow> proc \<Rightarrow> proc" where
  "put_fs s k = k\<lparr>pfs := s, sc := ks (io s)\<rparr>"

definition in_fs :: "(fsys \<Rightarrow> ('b \<times> fsys) res) \<Rightarrow> proc \<Rightarrow> ('b \<times> proc) res" where
  "in_fs f k = bind_res (f (fs_view k)) (\<lambda>(a, s). Inr (a, put_fs s k))"

section \<open>Fork\<close>

definition intr_frame :: "ptr \<Rightarrow> u32" where
  "intr_frame p = p + PG_SIZE - sizeof_intr_stack"

text \<open>\<^verbatim>\<open>memcpy\<close> of the page of a PCB: the task structure and the frames on its kernel stack.\<close>

definition copy_pcb_page :: "ptr \<Rightarrow> ptr \<Rightarrow> proc \<Rightarrow> proc" where
  "copy_pcb_page child parent k =
     (let src = (\<lambda>a. if a AND 0xfffff000 = child then parent + (a - child) else a) in
      (set_task child (\<lambda>_. the_task k parent) k)
        \<lparr>uvaddr := (uvaddr k)(child := uvaddr k parent), vbits := (vbits k)(child := vbits k parent),
         udescs := (udescs k)(child := udescs k parent),
         tstacks := (\<lambda>a. tstacks k (src a)), istacks := (\<lambda>a. istacks k (src a))\<rparr>)"

text \<open>The result is whether it succeeded.\<close>

definition copy_pcb_vaddrbitmap_stack0 :: "ptr \<Rightarrow> ptr \<Rightarrow> proc \<Rightarrow> (bool \<times> proc) res" where
  "copy_pcb_vaddrbitmap_stack0 child parent k =
     bind_res (fork_pid (copy_pcb_page child parent k)) (\<lambda>(pd, k).
     let k = set_task child (\<lambda>t. t\<lparr>pid := pd, elapsed_ticks := 0, status := TASK_READY, ticks := priority t,
               parent_pid := pid (the_task k parent)\<rparr>) k;
         k = k\<lparr>udescs := (udescs k)(child := block_desc_init)\<rparr>
     in bind_res (in_mem (get_kernel_pages bitmap_pg_cnt) k) (\<lambda>(vaddr_btmp, k).
        if vaddr_btmp = NULL then Inr (False, k)
        else
          let k = k\<lparr>vbits := (vbits k)(child := vaddr_btmp)\<rparr> in
          bind_res (ASSERT (length (task_name (the_task k child)) < 11) ''strlen(child_thread->name) < 11'') (\<lambda>_.
          Inr (True, set_task child (\<lambda>t. t\<lparr>task_name := task_name t @ ''_fork''\<rparr>) k))))"

text \<open>The addresses of the pages marked in a virtual address pool, from the lowest bit on.\<close>

definition pool_pages :: "virtual_addr \<Rightarrow> u32 list" where
  "pool_pages va =
     map (\<lambda>i. of_nat i * PG_SIZE + vaddr_start va)
       (filter (\<lambda>i. bit (bits (vaddr_bitmap va) ! (i div 8)) (i mod 8)) [0..<8 * unat (btmp_bytes_len (vaddr_bitmap va))])"

definition copy_page :: "u32 \<Rightarrow> u32 \<Rightarrow> proc \<Rightarrow> proc res" where
  "copy_page dst src k =
     bind_res (copy_words 1024 (cr3 (sc k)) dst src (phys (sc k))) (\<lambda>ph. Inr (upd_sc (\<lambda>s. s\<lparr>phys := ph\<rparr>) k))"

fun copy_body_stack3 :: "u32 list \<Rightarrow> ptr \<Rightarrow> ptr \<Rightarrow> u32 \<Rightarrow> proc \<Rightarrow> proc res" where
  "copy_body_stack3 [] child parent buf_page k = Inr k"
| "copy_body_stack3 (prog_vaddr # pages) child parent buf_page k =
     bind_res (copy_page buf_page prog_vaddr k) (\<lambda>k.
     bind_res (in_sched (page_dir_activate child) k) (\<lambda>k.
     bind_res (in_mem (get_a_page_without_opvaddrbitmap PF_USER prog_vaddr) k) (\<lambda>(_, k).
     bind_res (copy_page prog_vaddr buf_page k) (\<lambda>k.
     bind_res (in_sched (page_dir_activate parent) k) (copy_body_stack3 pages child parent buf_page)))))"

definition build_child_stack :: "ptr \<Rightarrow> proc \<Rightarrow> proc" where
  "build_child_stack child k =
     (let f = intr_frame child;
          top = f - 20;
          k = k\<lparr>istacks := (istacks k)(f := (istacks k f)\<lparr>is_eax := 0\<rparr>)\<rparr>;
          k = set_task child (\<lambda>t. t\<lparr>self_kstack := top\<rparr>) k
      in k\<lparr>tstacks := (tstacks k)(top := (tstacks k top)\<lparr>ts_eip := Intr_Exit\<rparr>),
           sc := (sc k)\<lparr>kont := (kont (sc k))(child := Intr_Return (is_eflags (istacks k f)))\<rparr>\<rparr>)"

fun update_inode_open_cnts :: "nat list \<Rightarrow> ptr \<Rightarrow> fsys \<Rightarrow> fsys res" where
  "update_inode_open_cnts [] thread s = Inr s"
| "update_inode_open_cnts (local_fd # fds) thread s =
     bind_res (load (fd_table (tasks (ks (io s)) thread)) local_fd) (\<lambda>global_fd.
     bind_res (ASSERT (sint global_fd < int MAX_FILE_OPEN) ''global_fd < MAX_FILE_OPEN'') (\<lambda>_.
     bind_res
       (if global_fd \<noteq> -1 then
          bind_res (is_pipe local_fd (io s)) (\<lambda>pipe.
          if pipe then Inr (upd_file (unat global_fd) (\<lambda>f. f\<lparr>fd_pos := fd_pos f + 1\<rparr>) s)
          else
            let ip = fd_inode (file_table (io s) ! unat global_fd) in
            if ip = NULL then Inl Bad_Access else Inr (upd_inode ip (\<lambda>i. i\<lparr>i_open_cnts := i_open_cnts i + 1\<rparr>) s))
        else Inr s) (update_inode_open_cnts fds thread)))"

definition copy_process :: "ptr \<Rightarrow> ptr \<Rightarrow> proc \<Rightarrow> (bool \<times> proc) res" where
  "copy_process child parent k =
     bind_res (in_mem (get_kernel_pages 1) k) (\<lambda>(buf_page, k).
     if buf_page = NULL then Inr (False, k)
     else
       bind_res (copy_pcb_vaddrbitmap_stack0 child parent k) (\<lambda>(ok, k).
       if \<not> ok then Inr (False, k)
       else
         bind_res (in_mem create_page_dir k) (\<lambda>(pd, k).
         let k = set_task child (\<lambda>t. t\<lparr>pgdir := pd\<rparr>) k in
         if pd = NULL then Inr (False, k)
         else
           bind_res (copy_body_stack3 (pool_pages (uvaddr k parent)) child parent buf_page k) (\<lambda>k.
           bind_res (in_fs (\<lambda>s. bind_res (update_inode_open_cnts [3..<MAX_FILES_OPEN_PER_PROC] child s) (\<lambda>s. Inr ((), s)))
             (build_child_stack child k)) (\<lambda>(_, k).
           bind_res (in_mem0 (mfree_page PF_KERNEL buf_page 1) k) (\<lambda>k. Inr (True, k)))))))"

definition sys_fork :: "proc \<Rightarrow> (pid_t \<times> proc) res" where
  "sys_fork k =
     (let parent = cur (sc k) in
      bind_res (in_mem (get_kernel_pages 1) k) (\<lambda>(child, k).
      if child = NULL then Inr (-1, k)
      else
        bind_res (ASSERT (intr_get_status (sc k) = INTR_OFF \<and> pgdir (the_task k parent) \<noteq> NULL)
          ''INTR_OFF == intr_get_status() && parent_thread->pgdir != NULL'') (\<lambda>_.
        bind_res (copy_process child parent k) (\<lambda>(ok, k).
        if \<not> ok then Inr (-1, k)
        else bind_res (enqueue_task child k) (\<lambda>k. Inr (pid (the_task k child), k))))))"

section \<open>Exit and wait\<close>

text \<open>Giving back the frames of the pages and tables of the user half of the loaded address space.\<close>

fun free_ptes :: "nat list \<Rightarrow> u32 \<Rightarrow> mem \<Rightarrow> mem res" where
  "free_ptes [] first_pte m = Inr m"
| "free_ptes (pte_idx # is) first_pte m =
     bind_res (vload (mphys m) (mcr3 m) (first_pte + 4 * of_nat pte_idx)) (\<lambda>pte.
     bind_res (if pte AND 0x00000001 \<noteq> 0 then free_a_phy_page (pte AND 0xfffff000) m else Inr m) (free_ptes is first_pte))"

fun free_pdes :: "nat list \<Rightarrow> u32 \<Rightarrow> mem \<Rightarrow> mem res" where
  "free_pdes [] pgdir_vaddr m = Inr m"
| "free_pdes (pde_idx # is) pgdir_vaddr m =
     bind_res (vload (mphys m) (mcr3 m) (pgdir_vaddr + 4 * of_nat pde_idx)) (\<lambda>pde.
     bind_res
       (if pde AND 0x00000001 \<noteq> 0 then
          bind_res (free_ptes [0..<1024] (pte_ptr (of_nat pde_idx * 0x400000)) m) (\<lambda>m.
          free_a_phy_page (pde AND 0xfffff000) m)
        else Inr m) (free_pdes is pgdir_vaddr))"

fun close_fds :: "nat list \<Rightarrow> ptr \<Rightarrow> proc \<Rightarrow> proc res" where
  "close_fds [] thread k = Inr k"
| "close_fds (local_fd # fds) thread k =
     bind_res (load (fd_table (the_task k thread)) local_fd) (\<lambda>fd.
     bind_res
       (if fd \<noteq> -1 then
          bind_res (is_pipe local_fd (io (fs_view k))) (\<lambda>pipe.
          if pipe then
            bind_res (fd_local2global local_fd (io (fs_view k))) (\<lambda>global_fd.
            let k = put_fs (upd_file global_fd (\<lambda>f. f\<lparr>fd_pos := fd_pos f - 1\<rparr>) (fs_view k)) k;
                f = file_table (io (pfs k)) ! global_fd
            in if fd_pos f = 0 then
                 bind_res (in_mem0 (mfree_page PF_KERNEL (fd_inode f) 1) k) (\<lambda>k.
                 Inr (put_fs (upd_file global_fd (\<lambda>f. f\<lparr>fd_inode := NULL\<rparr>) (fs_view k)) k))
               else Inr k)
          else bind_res (in_fs (sys_close (int local_fd)) k) (\<lambda>(_, k). Inr k))
        else Inr k) (close_fds fds thread))"

definition release_prog_resource :: "ptr \<Rightarrow> proc \<Rightarrow> proc res" where
  "release_prog_resource p k =
     bind_res (in_mem0 (free_pdes [0..<768] (pgdir (the_task k p))) k) (\<lambda>k.
     bind_res (in_mem0 (mfree_page PF_KERNEL (vbits k p) (btmp_bytes_len (vaddr_bitmap (uvaddr k p)) div PG_SIZE)) k) (\<lambda>k.
     close_fds [3..<MAX_FILES_OPEN_PER_PROC] p k))"

definition find_child :: "'a sched_scheme \<Rightarrow> pid_t \<Rightarrow> ptr \<Rightarrow> bool" where
  "find_child s ppid p \<longleftrightarrow> parent_pid (tasks s p) = ppid"

definition find_hanging_child :: "'a sched_scheme \<Rightarrow> pid_t \<Rightarrow> ptr \<Rightarrow> bool" where
  "find_hanging_child s ppid p \<longleftrightarrow> parent_pid (tasks s p) = ppid \<and> stat_of s p = TASK_HANGING"

definition init_adopt_a_child :: "pid_t \<Rightarrow> ptr \<Rightarrow> 'a sched_scheme \<Rightarrow> 'a sched_scheme" where
  "init_adopt_a_child pd p s =
     (if parent_pid (tasks s p) = pd then upd_task p (\<lambda>t. t\<lparr>parent_pid := 1\<rparr>) s else s)"

definition adopt_children :: "pid_t \<Rightarrow> 'a sched_scheme \<Rightarrow> 'a sched_scheme" where
  "adopt_children pd s = fold (init_adopt_a_child pd) (thread_all_list s) s"

datatype wait_result = Reaped pid_t u8 | No_Child | Asleep

definition sys_wait_try :: "'a kern_scheme \<Rightarrow> (wait_result \<times> 'a kern_scheme) res" where
  "sys_wait_try k =
     (let ppid = pid (the_task k (cur (sc k))) in
      case find (find_hanging_child (sc k) ppid) (thread_all_list (sc k)) of
        Some child \<Rightarrow>
          let st = exit_status (the_task k child); child_pid = pid (the_task k child) in
          bind_res (thread_exit child False k) (\<lambda>k. Inr (Reaped child_pid st, k))
      | None \<Rightarrow>
          (case find (find_child (sc k) ppid) (thread_all_list (sc k)) of
             None \<Rightarrow> Inr (No_Child, k)
           | Some _ \<Rightarrow> bind_res (in_sched (thread_block TASK_WAITING) k) (\<lambda>k. Inr (Asleep, k))))"

text \<open>The end of \<^verbatim>\<open>sys_exit\<close>: waking the parent and hanging.\<close>

definition exit_notify :: "'a sched_scheme \<Rightarrow> 'a sched_scheme res" where
  "exit_notify s =
     (let parent = pid2thread (sint (parent_pid (tasks s (cur s)))) s in
      if parent = NULL then Inl Bad_Access
      else
        bind_res (if stat_of s parent = TASK_WAITING then thread_unblock parent s else Inr s) (\<lambda>s.
        thread_block TASK_HANGING s))"

definition sys_exit :: "u32 \<Rightarrow> proc \<Rightarrow> proc res" where
  "sys_exit st k =
     (let child = cur (sc k);
          k = set_task child (\<lambda>t. t\<lparr>exit_status := ucast st\<rparr>) k
      in if parent_pid (the_task k child) = -1 then Inl (Panic ''sys_exit: child_thread->parent_pid is -1'')
         else
           bind_res (release_prog_resource child (upd_sc (adopt_children (pid (the_task k child))) k)) (\<lambda>k.
           in_sched exit_notify k))"

section \<open>Exec\<close>

definition rd16 :: "u8 list \<Rightarrow> nat \<Rightarrow> u16" where
  "rd16 bs off = ucast (bs ! off) OR push_bit 8 (ucast (bs ! (off + 1)))"

record Elf32_Ehdr =
  e_ident :: "u8 list"
  e_type :: u16
  e_machine :: u16
  e_version :: u32
  e_entry :: u32
  e_phoff :: u32
  e_phentsize :: u16
  e_phnum :: u16

definition ehdr_of :: "u8 list \<Rightarrow> Elf32_Ehdr" where
  "ehdr_of bs = \<lparr>e_ident = take 16 bs, e_type = rd16 bs 16, e_machine = rd16 bs 18, e_version = rd32 bs 20, e_entry = rd32 bs 24,
     e_phoff = rd32 bs 28, e_phentsize = rd16 bs 42, e_phnum = rd16 bs 44\<rparr>"

record Elf32_Phdr =
  p_type :: u32
  p_offset :: u32
  p_vaddr :: u32
  p_filesz :: u32

definition phdr_of :: "u8 list \<Rightarrow> Elf32_Phdr" where
  "phdr_of bs = \<lparr>p_type = rd32 bs 0, p_offset = rd32 bs 4, p_vaddr = rd32 bs 8, p_filesz = rd32 bs 16\<rparr>"

definition put_byte :: "phys_mem \<Rightarrow> u32 \<Rightarrow> u8 \<Rightarrow> phys_mem" where
  "put_byte ph a b =
     (let w = a AND NOT 3; sh = 8 * unat (a AND 3) in
      ph(w := (ph w AND NOT (push_bit sh 0xff)) OR push_bit sh (ucast b)))"

fun put_bytes :: "u8 list \<Rightarrow> u32 \<Rightarrow> u32 \<Rightarrow> phys_mem \<Rightarrow> phys_mem res" where
  "put_bytes [] dr v ph = Inr ph"
| "put_bytes (b # bs) dr v ph =
     (case walk ph dr v of None \<Rightarrow> Inl Bad_Access | Some p \<Rightarrow> put_bytes bs dr (v + 1) (put_byte ph p b))"

definition occupy_pages :: "u32 \<Rightarrow> u32 \<Rightarrow> u32" where
  "occupy_pages vaddr filesz =
     (let size_in_first_page = PG_SIZE - (vaddr AND 0xfff) in
      if filesz > size_in_first_page then DIV_ROUND_UP (filesz - size_in_first_page) PG_SIZE + 1 else 1)"

primrec alloc_segment :: "nat \<Rightarrow> u32 \<Rightarrow> mem \<Rightarrow> (bool \<times> mem) res" where
  "alloc_segment 0 vaddr_page m = Inr (True, m)"
| "alloc_segment (Suc n) vaddr_page m =
     bind_res (vload (mphys m) (mcr3 m) (pde_ptr vaddr_page)) (\<lambda>pde.
     bind_res
       (if pde AND 0x00000001 = 0 then Inr True
        else bind_res (vload (mphys m) (mcr3 m) (pte_ptr vaddr_page)) (\<lambda>pte. Inr (pte AND 0x00000001 = 0))) (\<lambda>absent.
     bind_res (if absent then get_a_page PF_USER vaddr_page m else Inr (1, m)) (\<lambda>(pg, m).
     if pg = 0 then Inr (False, m) else alloc_segment n (vaddr_page + PG_SIZE) m)))"

text \<open>\<open>kbd\<close> is the address of the keyboard buffer, which \<^verbatim>\<open>sys_read\<close> needs for descriptor 0.\<close>

definition segment_load :: "ptr \<Rightarrow> int \<Rightarrow> u32 \<Rightarrow> u32 \<Rightarrow> u32 \<Rightarrow> proc \<Rightarrow> (bool \<times> proc) res" where
  "segment_load kbd fd offset filesz vaddr k =
     bind_res (in_mem (alloc_segment (unat (occupy_pages vaddr filesz)) (vaddr AND 0xfffff000)) k) (\<lambda>(ok, k).
     if \<not> ok then Inr (False, k)
     else
       bind_res (in_fs (sys_lseek fd offset SEEK_SET) k) (\<lambda>(_, k).
       bind_res (in_fs (\<lambda>s. bind_res (sys_read kbd fd filesz s) (\<lambda>(n, bs, s). Inr (bs, s))) k) (\<lambda>(bs, k).
       bind_res (put_bytes bs (cr3 (sc k)) vaddr (phys (sc k))) (\<lambda>ph.
       Inr (True, upd_sc (\<lambda>s. s\<lparr>phys := ph\<rparr>) k)))))"

definition read_n :: "ptr \<Rightarrow> int \<Rightarrow> nat \<Rightarrow> proc \<Rightarrow> (u8 list option \<times> proc) res" where
  "read_n kbd fd n k =
     in_fs (\<lambda>s. bind_res (sys_read kbd fd (of_nat n) s) (\<lambda>(r, bs, s). Inr (if r = int n then Some bs else None, s))) k"

primrec load_segments :: "nat \<Rightarrow> ptr \<Rightarrow> int \<Rightarrow> u32 \<Rightarrow> u16 \<Rightarrow> proc \<Rightarrow> (bool \<times> proc) res" where
  "load_segments 0 kbd fd off ent k = Inr (True, k)"
| "load_segments (Suc n) kbd fd off ent k =
     bind_res (in_fs (sys_lseek fd off SEEK_SET) k) (\<lambda>(_, k).
     bind_res (read_n kbd fd (unat ent) k) (\<lambda>(r, k).
     case r of
       None \<Rightarrow> Inr (False, k)
     | Some bs \<Rightarrow>
         let ph = phdr_of bs in
         bind_res (if p_type ph = 1 then segment_load kbd fd (p_offset ph) (p_filesz ph) (p_vaddr ph) k else Inr (True, k)) (\<lambda>(ok, k).
         if \<not> ok then Inr (False, k) else load_segments n kbd fd (off + ucast ent) ent k)))"

definition elf_magic :: "u8 list" where
  "elf_magic = [0x7f, 0x45, 0x4c, 0x46, 1, 1, 1]"

definition elf_ok :: "Elf32_Ehdr \<Rightarrow> bool" where
  "elf_ok h \<longleftrightarrow> take 7 (e_ident h) = elf_magic \<and> e_type h = 2 \<and> e_machine h = 3 \<and> e_version h = 1 \<and>
     e_phnum h \<le> 1024 \<and> e_phentsize h = 32"

text \<open>\<open>load\<close> of \<^verbatim>\<open>exec.c\<close>: the entry point, or \<open>-1\<close>. The three first arguments are what the uninitialised locals
  of \<^verbatim>\<open>sys_open\<close> hold.\<close>

definition load_elf :: "u8 list \<Rightarrow> u8 list \<Rightarrow> dir_entry \<Rightarrow> ptr \<Rightarrow> u8 list \<Rightarrow> proc \<Rightarrow> (u32 \<times> proc) res" where
  "load_elf name0 name1 de kbd pathname k =
     bind_res (in_fs (sys_open name0 name1 de pathname 0) k) (\<lambda>(fd, k).
     if fd = -1 then Inr (-1, k)
     else
       bind_res (read_n kbd fd 52 k) (\<lambda>(r, k).
       bind_res
         (case r of
            None \<Rightarrow> Inr (-1, k)
          | Some bs \<Rightarrow>
              let h = ehdr_of bs in
              if \<not> elf_ok h then Inr (-1, k)
              else
                bind_res (load_segments (unat (e_phnum h)) kbd fd (e_phoff h) (e_phentsize h) k) (\<lambda>(ok, k).
                Inr (if ok then e_entry h else -1, k))) (\<lambda>(ret, k).
       bind_res (in_fs (sys_close fd) k) (\<lambda>(_, k). Inr (ret, k)))))"

text \<open>\<open>argc\<close> entries of the array at \<open>argv\<close> are not \<^verbatim>\<open>NULL\<close>. On success the process continues at the entry point
  through the frame on its kernel stack: the result is \<open>None\<close>; \<open>Some (-1)\<close> is the error return.\<close>

definition sys_execv :: "u8 list \<Rightarrow> u8 list \<Rightarrow> dir_entry \<Rightarrow> ptr \<Rightarrow> u8 list \<Rightarrow> u32 \<Rightarrow> u32 \<Rightarrow> proc \<Rightarrow> (int option \<times> proc) res" where
  "sys_execv name0 name1 de kbd path argv argc k =
     bind_res (load_elf name0 name1 de kbd path k) (\<lambda>(entry_point, k).
     if entry_point = -1 then Inr (Some (-1), k)
     else if length path < TASK_NAME_LEN then Inl Bad_Access
     else
       let p = cur (sc k);
           nm = map (\<lambda>c. char_of (unat c)) (takeWhile (\<lambda>c. c \<noteq> 0) (take (TASK_NAME_LEN - 1) path));
           k = set_task p (\<lambda>t. t\<lparr>task_name := nm\<rparr>) k;
           f = intr_frame p
       in Inr (None, k\<lparr>istacks := (istacks k)(f := (istacks k f)\<lparr>is_ebx := argv, is_ecx := argc,
                is_eip := entry_point, is_esp := 0xc0000000\<rparr>)\<rparr>))"

section \<open>Finding a task by its pid\<close>

definition pids_ok :: "'a sched_scheme \<Rightarrow> bool" where
  "pids_ok s \<longleftrightarrow> distinct (map (\<lambda>p. pid (tasks s p)) (thread_all_list s))"

lemma find_unique:
  assumes "x \<in> set xs" and "P x" and "\<And>y. y \<in> set xs \<Longrightarrow> P y \<Longrightarrow> y = x"
  shows "find P xs = Some x"
  using assms
proof (induction xs)
  case (Cons a xs)
  show ?case
  proof (cases "P a")
    case True
    then have "a = x" using Cons.prems(3) [of a] by simp
    then show ?thesis using True by simp
  next
    case False
    then have "x \<in> set xs" using Cons.prems(1,2) by auto
    then have "find P xs = Some x" by (rule Cons.IH [OF _ Cons.prems(2) Cons.prems(3)]) simp_all
    then show ?thesis using False by simp
  qed
qed simp

lemma pid2thread_eq:
  assumes "pids_ok s" and "q \<in> set (thread_all_list s)"
  shows "pid2thread (sint (pid (tasks s q))) s = q"
proof -
  have "y = q" if "y \<in> set (thread_all_list s)" "sint (pid (tasks s y)) = sint (pid (tasks s q))" for y
    using assms that signed_word_eqI [of "pid (tasks s y)" "pid (tasks s q)"]
    by (auto simp: pids_ok_def distinct_map inj_on_def)
  then have "find (pid_check s (sint (pid (tasks s q)))) (thread_all_list s) = Some q"
    using assms(2) by (intro find_unique) (auto simp: pid_check_def)
  then show ?thesis by (simp add: pid2thread_def)
qed

section \<open>The pages of a segment\<close>

lemma unat_round_up:
  fixes x :: u32
  assumes "unat x + 4095 < 4294967296"
  shows "unat (DIV_ROUND_UP x PG_SIZE) = (unat x + 4095) div 4096"
proof -
  have a: "x + PG_SIZE - 1 = x + 4095" by (simp add: PG_SIZE_def)
  have "unat (x + 4095) = unat x + 4095" using assms by (subst unat_add_small) simp_all
  then show ?thesis unfolding DIV_ROUND_UP_def a unat_div_distrib by (simp add: PG_SIZE_def)
qed

lemma unat_occupy_pages:
  fixes vaddr filesz :: u32
  assumes "unat filesz + 4096 \<le> 4294967296"
  shows "unat (occupy_pages vaddr filesz) =
     (if unat filesz > 4096 - unat vaddr mod 4096
      then (unat filesz - (4096 - unat vaddr mod 4096) + 4095) div 4096 + 1 else 1)"
proof -
  have o: "unat (vaddr AND 0xfff) = unat vaddr mod 4096" by (rule unat_offset)
  have m: "unat vaddr mod 4096 < 4096" by simp
  have sz: "unat (PG_SIZE - (vaddr AND 0xfff)) = 4096 - unat vaddr mod 4096"
    using m o by (subst unat_sub_small) (simp_all add: PG_SIZE_def)
  show ?thesis
  proof (cases "unat filesz > 4096 - unat vaddr mod 4096")
    case True
    let ?l = "filesz - (PG_SIZE - (vaddr AND 0xfff))"
    have l: "unat ?l = unat filesz - (4096 - unat vaddr mod 4096)" using True sz by (subst unat_sub_small) simp_all
    have lt: "unat ?l + 4095 < 4294967296" unfolding l using assms m True by linarith
    have "unat (DIV_ROUND_UP ?l PG_SIZE) = (unat ?l + 4095) div 4096" by (rule unat_round_up [OF lt])
    moreover have "(unat ?l + 4095) div 4096 < 1048576" using lt by (simp add: div_less_iff_less_mult)
    ultimately have "unat (DIV_ROUND_UP ?l PG_SIZE + 1) = (unat ?l + 4095) div 4096 + 1" by (subst unat_add_small) simp_all
    then have "unat (occupy_pages vaddr filesz) = (unat ?l + 4095) div 4096 + 1"
      using True sz by (simp only: occupy_pages_def word_less_nat_alt Let_def if_True)
    then show ?thesis unfolding l using True by (simp only: if_True)
  next
    case False
    then show ?thesis using sz by (simp add: occupy_pages_def word_less_nat_alt Let_def)
  qed
qed

lemma pages_cover:
  fixes v f off q l :: nat
  assumes "off < 4096" and "off \<le> v" and "4096 - off < f" and "l = f - (4096 - off)" and "q * 4096 < l + 4096" and "l \<le> q * 4096"
  shows "v - off + (q + 1 - 1) * 4096 < v + f \<and> v + f \<le> v - off + (q + 1) * 4096"
proof -
  obtain w where w: "v = off + w" using assms(2) le_Suc_ex by blast
  obtain g where g: "f = (4096 - off) + g" using assms(3) by (metis le_Suc_ex less_imp_le)
  have "l = g" using assms(4) g by simp
  then show ?thesis using assms(1,5,6) w g by (simp add: algebra_simps)
qed

text \<open>C31: The pages a segment needs: \<^verbatim>\<open>segment_load\<close> computes the number of pages from the one that holds the
  first byte to the one that holds the last, neither fewer nor more.\<close>

theorem occupy_pages_exact:
  fixes vaddr filesz :: u32
  assumes "0 < unat filesz" and "unat vaddr + unat filesz + 4096 \<le> 4294967296"
  shows "unat (vaddr AND 0xfffff000) + (unat (occupy_pages vaddr filesz) - 1) * 4096 < unat vaddr + unat filesz \<and>
     unat vaddr + unat filesz \<le> unat (vaddr AND 0xfffff000) + unat (occupy_pages vaddr filesz) * 4096"
proof -
  have b: "unat (vaddr AND 0xfffff000) = unat vaddr - unat vaddr mod 4096" unfolding unat_page by (simp add: minus_mod_eq_div_mult)
  have oc: "unat (occupy_pages vaddr filesz) = (if unat filesz > 4096 - unat vaddr mod 4096
      then (unat filesz - (4096 - unat vaddr mod 4096) + 4095) div 4096 + 1 else 1)"
    using assms(2) by (intro unat_occupy_pages) simp
  have m: "unat vaddr mod 4096 < 4096" "unat vaddr mod 4096 \<le> unat vaddr" by simp_all
  show ?thesis
  proof (cases "unat filesz > 4096 - unat vaddr mod 4096")
    case True
    let ?l = "unat filesz - (4096 - unat vaddr mod 4096)"
    have "(?l + 4095) div 4096 * 4096 < ?l + 4096" "?l \<le> (?l + 4095) div 4096 * 4096"
      using div_mult_mod_eq [of "?l + 4095" 4096] mod_less_divisor [of 4096 "?l + 4095"] by linarith+
    then show ?thesis unfolding b oc if_P [OF True] by (rule pages_cover [OF m True refl])
  next
    case False
    then have "unat filesz \<le> 4096 - unat vaddr mod 4096" by (rule leI)
    then show ?thesis unfolding b oc if_not_P [OF False] using assms(1) m by (intro conjI) linarith+
  qed
qed

theorem occupy_pages_exact_witness:
  "unat ((0x8048ffc :: u32) AND 0xfffff000) + (unat (occupy_pages 0x8048ffc 9) - 1) * 4096 < unat (0x8048ffc :: u32) + unat (9 :: u32) \<and>
     unat (0x8048ffc :: u32) + unat (9 :: u32) \<le> unat ((0x8048ffc :: u32) AND 0xfffff000) + unat (occupy_pages 0x8048ffc 9) * 4096"
  by (rule occupy_pages_exact) simp_all

end
