(* ===== verification/ThreadSpec.thy ===== *)
theory ThreadSpec
  imports Process
begin

text \<open>
  Creating tasks and their identifiers: the pid pool of \<^verbatim>\<open>thread/thread.c\<close> is one more client of the
  bitmap contract, and \<^verbatim>\<open>thread_start\<close> puts a new task under the invariants of the scheduler.
\<close>

section \<open>The pid pool\<close>

definition pid_pool_wf :: "'a kern_scheme \<Rightarrow> bool" where
  "pid_pool_wf k \<longleftrightarrow> bitmap_wf (pid_bitmap k) \<and> nbits (pid_bitmap k) = 1024 \<and> pid_start k = 1 \<and> \<not> pid_locked k"

lemma allocate_pid_spec:
  assumes wf: "pid_pool_wf k" and nf: "bm.used_set (pid_bitmap k) \<noteq> {..< 1024}"
  shows "\<exists>n b. allocate_pid k = Inr (of_nat (Suc n), k\<lparr>pid_bitmap := b\<rparr>) \<and> n < 1024 \<and> n \<notin> bm.used_set (pid_bitmap k) \<and>
     {..< n} \<subseteq> bm.used_set (pid_bitmap k) \<and> pid_pool_wf (k\<lparr>pid_bitmap := b\<rparr>) \<and>
     bm.used_set b = insert n (bm.used_set (pid_bitmap k))"
proof -
  have w: "bitmap_wf (pid_bitmap k)" "nbits (pid_bitmap k) = 1024" "pid_start k = 1" "\<not> pid_locked k"
    using wf unfolding pid_pool_wf_def by blast+
  from bm.take_bit_spec [OF w(1)] nf w(2) obtain n b where
    n: "bitmap_scan (pid_bitmap k) 1 = Inr (int n)" "n < 1024" "n \<notin> bm.used_set (pid_bitmap k)"
      "{..< n} \<subseteq> bm.used_set (pid_bitmap k)" "bitmap_set (pid_bitmap k) (of_nat n) 1 = Inr b" "bitmap_wf b"
      "nbits b = 1024" "bm.used_set b = insert n (bm.used_set (pid_bitmap k))" by auto
  have u: "(ucast (of_nat n + 1 :: u32) :: pid_t) = of_nat (Suc n)"
  proof -
    have "(of_nat n + 1 :: u32) = of_nat (Suc n)" by simp
    then show ?thesis using n(2) by (simp only: unsigned_of_nat) (simp add: take_bit_nat_eq_self)
  qed
  have "allocate_pid k = Inr (of_nat (Suc n), k\<lparr>pid_bitmap := b\<rparr>)"
    using n(1,5) w(3,4) u by (simp add: allocate_pid_def pid_lock_acquire_def)
  then show ?thesis using n w by (intro exI [of _ n] exI [of _ b]) (simp add: pid_pool_wf_def)
qed

lemma release_pid_spec:
  assumes wf: "pid_pool_wf k" and n: "n < 1024"
  shows "\<exists>b. release_pid (of_nat (Suc n)) k = Inr (k\<lparr>pid_bitmap := b\<rparr>) \<and> pid_pool_wf (k\<lparr>pid_bitmap := b\<rparr>) \<and>
     bm.used_set b = bm.used_set (pid_bitmap k) - {n}"
proof -
  have w: "bitmap_wf (pid_bitmap k)" "nbits (pid_bitmap k) = 1024" "pid_start k = 1" "\<not> pid_locked k"
    using wf unfolding pid_pool_wf_def by blast+
  from bm.put_used_set(2) [OF w(1), of n] w(2) n obtain b where
    b: "bitmap_set (pid_bitmap k) (of_nat n) 0 = Inr b" "bitmap_wf b" "nbits b = 1024"
      "bm.used_set b = bm.used_set (pid_bitmap k) - {n}" by auto
  have "sint (of_nat (Suc n) :: pid_t) = int (Suc n)" 
    using n by (simp only: signed_of_nat) (simp add: signed_take_bit_int_eq_self)
  then have "(scast (of_nat (Suc n) :: pid_t) :: u32) = of_int (int (Suc n))" by (metis scast_eq)
  then have "(scast (of_nat (Suc n) :: pid_t) :: u32) - 1 = of_nat n" by simp
  then have "release_pid (of_nat (Suc n)) k = Inr (k\<lparr>pid_bitmap := b\<rparr>)"
    using b(1) w(3,4) by (simp add: release_pid_def pid_lock_acquire_def del: of_nat_Suc)
  then show ?thesis using b w by (intro exI [of _ b]) (simp add: pid_pool_wf_def)
qed

text \<open>Identifiers of the tasks: pairwise different and taken in the pool.\<close>

definition pid_inv :: "'a kern_scheme \<Rightarrow> bool" where
  "pid_inv k \<longleftrightarrow> pid_pool_wf k \<and> pids_ok (sc k) \<and>
     (\<forall>p \<in> set (thread_all_list (sc k)). \<exists>n \<in> bm.used_set (pid_bitmap k). pid (the_task k p) = of_nat (Suc n))"

lemma pid_of_inj: "n < 1024 \<Longrightarrow> i < 1024 \<Longrightarrow> (of_nat (Suc n) :: pid_t) = of_nat (Suc i) \<longleftrightarrow> n = i"
proof
  assume a: "n < 1024" "i < 1024" "(of_nat (Suc n) :: pid_t) = of_nat (Suc i)"
  have "unat (of_nat (Suc n) :: pid_t) = Suc n" "unat (of_nat (Suc i) :: pid_t) = Suc i"
    using a(1,2) by (simp_all add: unat_of_nat take_bit_nat_eq_self del: of_nat_Suc)
  with a(3) show "n = i" by simp
qed simp

text \<open>A task that is added with a fresh identifier.\<close>

lemma pid_inv_add:
  assumes inv: "pid_inv k" and n: "n < 1024" "n \<notin> bm.used_set (pid_bitmap k)" and v: "v \<notin> set (thread_all_list (sc k))"
    and k': "pid_pool_wf k'" "bm.used_set (pid_bitmap k') = insert n (bm.used_set (pid_bitmap k))"
      "thread_all_list (sc k') = thread_all_list (sc k) @ [v]" "pid (the_task k' v) = of_nat (Suc n)"
      "\<And>p. p \<noteq> v \<Longrightarrow> pid (the_task k' p) = pid (the_task k p)"
  shows "pid_inv k'"
proof -
  have u: "m < 1024" if "m \<in> bm.used_set (pid_bitmap k)" for m
    using that inv by (auto simp: bm_used_set pid_inv_def pid_pool_wf_def)
  have ne: "pid (the_task k p) \<noteq> of_nat (Suc n)" if "p \<in> set (thread_all_list (sc k))" for p
    using inv that pid_of_inj [OF n(1)] n(2) u unfolding pid_inv_def by metis
  have pv: "p \<noteq> v" if "p \<in> set (thread_all_list (sc k))" for p using that v by auto
  have mp: "map (\<lambda>p. pid (the_task k' p)) (thread_all_list (sc k)) = map (\<lambda>p. pid (the_task k p)) (thread_all_list (sc k))"
    using k'(5) pv by simp
  have "pids_ok (sc k')"
    unfolding pids_ok_def k'(3) map_append mp using inv ne k'(4) by (auto simp: pids_ok_def pid_inv_def simp del: of_nat_Suc)
  moreover have "\<exists>m \<in> insert n (bm.used_set (pid_bitmap k)). pid (the_task k' p) = of_nat (Suc m)"
    if "p \<in> set (thread_all_list (sc k) @ [v])" for p
    using inv that k'(4) k'(5) [of p] by (cases "p = v") (auto simp: pid_inv_def simp del: of_nat_Suc)
  ultimately show ?thesis using k'(1) unfolding pid_inv_def k'(2,3) by blast
qed

section \<open>Starting a thread\<close>

lemma mem_view_simps [simp]:
  "mphys (mem_view k) = phys (sc k)" "mcr3 (mem_view k) = cr3 (sc k)" "kernel_pool (mem_view k) = kpool k"
  "kernel_vaddr (mem_view k) = kvaddr k" "user_pool (mem_view k) = upool k"
  by (simp_all add: mem_view_def)

lemma put_mem_simps [simp]:
  "sc (put_mem m k) = (sc k)\<lparr>phys := mphys m, tlb := mtlb m\<rparr>" "pid_bitmap (put_mem m k) = pid_bitmap k"
  "pid_pool_wf (put_mem m k) = pid_pool_wf k" "tstacks (put_mem m k) = tstacks k"
  by (simp_all add: put_mem_def pid_pool_wf_def)

lemma pid_start_wf: "pid_pool_wf ((put_mem m k)\<lparr>pid_bitmap := b\<rparr>) = pid_pool_wf (k\<lparr>pid_bitmap := b\<rparr>)"
  by (simp add: pid_pool_wf_def put_mem_def)

text \<open>The state after a thread was started in the page \<open>v\<close>; \<open>m\<close> is the memory with that page, \<open>b\<close> the pid bitmap.\<close>

definition started :: "ptr \<Rightarrow> string \<Rightarrow> u8 \<Rightarrow> code \<Rightarrow> u32 \<Rightarrow> pid_t \<Rightarrow> bitmap \<Rightarrow> mem \<Rightarrow> 'a kern_scheme \<Rightarrow> 'a kern_scheme" where
  "started v name prio fn arg pd b m k =
     (let t = new_task pd name TASK_READY prio v;
          ks = v + PG_SIZE - 4 * sizeof_intr_stack - 4 * sizeof_thread_stack
      in (put_mem m k)\<lparr>pid_bitmap := b,
           tstacks := (tstacks k)(ks := \<lparr>ts_ebp = 0, ts_ebx = 0, ts_edi = 0, ts_esi = 0, ts_eip = Kernel_Thread,
             ts_function = fn, func_arg = arg\<rparr>),
           sc := (sc k)\<lparr>phys := mphys m, tlb := mtlb m, tasks := (tasks (sc k))(v := t\<lparr>self_kstack := ks\<rparr>),
             thread_ready_list := thread_ready_list (sc k) @ [v], thread_all_list := thread_all_list (sc k) @ [v],
             kont := (kont (sc k))(v := First_Run)\<rparr>\<rparr>)"

lemma thread_start_eq:
  assumes g: "get_kernel_pages 1 (mem_view k) = Inr (v, m)" and v: "v \<noteq> NULL" "v \<noteq> main_thread (sc k)"
    and nl: "v \<notin> set (thread_ready_list (sc k))" "v \<notin> set (thread_all_list (sc k))" and nm: "length name < TASK_NAME_LEN"
    and p: "allocate_pid (put_mem m k) = Inr (pd, (put_mem m k)\<lparr>pid_bitmap := b\<rparr>)"
  shows "thread_start name prio fn arg k = Inr (v, started v name prio fn arg pd b m k)"
proof -
  let ?k = "put_mem m k"
  have i: "init_thread v name prio ?k = Inr (set_task v (\<lambda>_. new_task pd name TASK_READY prio v) (?k\<lparr>pid_bitmap := b\<rparr>))"
    using p v nm by (simp add: init_thread_def)
  show ?thesis
    using g i nl by (simp add: thread_start_def in_mem_def enqueue_task_def thread_create_def set_task_def upd_sc_def
        upd_task_def ASSERT_def Let_def started_def new_task_def)
qed

lemma started_simps [simp]:
  "thread_ready_list (sc (started v name prio fn arg pd b m k)) = thread_ready_list (sc k) @ [v]"
  "thread_all_list (sc (started v name prio fn arg pd b m k)) = thread_all_list (sc k) @ [v]"
  "pid_bitmap (started v name prio fn arg pd b m k) = b"
  "the_task (started v name prio fn arg pd b m k) p = (if p = v then (new_task pd name TASK_READY prio v)
     \<lparr>self_kstack := v + PG_SIZE - 4 * sizeof_intr_stack - 4 * sizeof_thread_stack\<rparr> else the_task k p)"
  "cur (sc (started v name prio fn arg pd b m k)) = cur (sc k)"
  "idle_thread (sc (started v name prio fn arg pd b m k)) = idle_thread (sc k)"
  "pid_pool_wf (started v name prio fn arg pd b m k) = pid_pool_wf (k\<lparr>pid_bitmap := b\<rparr>)"
  by (simp_all add: started_def Let_def pid_pool_wf_def put_mem_def)

lemma started_sched:
  assumes "tasks_ok (sc k)" and "ready_ok (sc k)" and "v \<noteq> NULL" and "v \<notin> set (thread_all_list (sc k))"
  shows "tasks_ok (sc (started v name prio fn arg pd b m k))" and "ready_ok (sc (started v name prio fn arg pd b m k))"
proof -
  have r: "v \<notin> set (thread_ready_list (sc k))" using assms(2,4) by (auto simp: ready_ok_def)
  show "tasks_ok (sc (started v name prio fn arg pd b m k))"
    using assms by (auto simp: tasks_ok_def new_task_def)
  show "ready_ok (sc (started v name prio fn arg pd b m k))"
    using assms(2,4) r by (auto simp: ready_ok_def new_task_def)
qed

section \<open>Properties\<close>

text \<open>C11: Starting a thread: when the kernel has a page and an identifier left, \<^verbatim>\<open>thread_start\<close> returns the page
  it put the PCB in (the invariant of the page tables holds in the directory the kernel boots in, where the only
  call is made); no assertion fails, because the page was not mapped and the PCBs of all tasks are.
  The new task stands at the end of both lists, is ready, will run its function, and has the lowest free
  pid, which leads back to it; the other tasks are untouched and the invariants of the task lists and
  the identifiers are kept.\<close>

theorem thread_start_registers:
  fixes v :: u32 and k :: kern
  assumes wf: "mem_wf (mem_view k)" and run: "va_run (kvaddr k) r 1"
    and scan: "bitmap_scan (vaddr_bitmap (kvaddr k)) 1 = Inr (int r)"
    and fr: "2 \<le> card (free_frames (kpool k))" and ul: "\<not> pool_locked (kpool k)"
    and v: "v = vaddr_start (kvaddr k) + of_nat r * PG_SIZE" and un: "walk (phys (sc k)) (cr3 (sc k)) v = None"
    and pcb: "\<And>p. p \<in> set (thread_all_list (sc k)) \<Longrightarrow> walk (phys (sc k)) (cr3 (sc k)) p \<noteq> None"
    and inv: "tasks_ok (sc k)" "ready_ok (sc k)" "pid_inv k" "main_thread (sc k) \<in> set (thread_all_list (sc k))"
    and nf: "bm.used_set (pid_bitmap k) \<noteq> {..< 1024}" and nm: "length name < TASK_NAME_LEN"
  shows "\<exists>k' n. thread_start name prio fn arg k = Inr (v, k') \<and>
     thread_ready_list (sc k') = thread_ready_list (sc k) @ [v] \<and>
     thread_all_list (sc k') = thread_all_list (sc k) @ [v] \<and>
     status (the_task k' v) = TASK_READY \<and> task_name (the_task k' v) = name \<and>
     tstacks k' (self_kstack (the_task k' v)) = \<lparr>ts_ebp = 0, ts_ebx = 0, ts_edi = 0, ts_esi = 0, ts_eip = Kernel_Thread,
        ts_function = fn, func_arg = arg\<rparr> \<and>
     pid (the_task k' v) = of_nat (Suc n) \<and> n \<notin> bm.used_set (pid_bitmap k) \<and> {..< n} \<subseteq> bm.used_set (pid_bitmap k) \<and>
     pid2thread (sint (pid (the_task k' v))) (sc k') = v \<and>
     (\<forall>p. p = v \<or> the_task k' p = the_task k p) \<and> tasks_ok (sc k') \<and> ready_ok (sc k') \<and> pid_inv k'"
proof -
  have nv: "v \<notin> set (thread_all_list (sc k))" using pcb un by blast
  have rn: "v \<notin> set (thread_ready_list (sc k))" using nv inv(2) by (auto simp: ready_ok_def)
  have "unat (1 :: u32) = 1" by simp
  from get_kernel_pages_spec [where m = "mem_view k", OF wf _ this, of r v] run scan fr ul v un obtain m where
    g: "get_kernel_pages 1 (mem_view k) = Inr (v, m)" by auto
  have v0: "v \<noteq> NULL" using va_run_start(2) [OF run zero_less_one] v by simp
  have pw: "pid_pool_wf (put_mem m k)" using inv(3) by (simp add: pid_inv_def)
  from allocate_pid_spec [OF pw] nf obtain n b where
    n: "allocate_pid (put_mem m k) = Inr (of_nat (Suc n), (put_mem m k)\<lparr>pid_bitmap := b\<rparr>)" "n < 1024"
      "n \<notin> bm.used_set (pid_bitmap k)" "{..< n} \<subseteq> bm.used_set (pid_bitmap k)" "pid_pool_wf ((put_mem m k)\<lparr>pid_bitmap := b\<rparr>)"
      "bm.used_set b = insert n (bm.used_set (pid_bitmap k))" by auto
  let ?k' = "started v name prio fn arg (of_nat (Suc n)) b m k"
  have e: "thread_start name prio fn arg k = Inr (v, ?k')"
    using inv(4) nv by (intro thread_start_eq [OF g v0 _ rn nv nm n(1)]) auto
  have pi: "pid_inv ?k'"
    using n(5,6) by (intro pid_inv_add [OF inv(3) n(2,3) nv]) (simp_all add: new_task_def pid_start_wf del: of_nat_Suc)
  then have "pid2thread (sint (pid (the_task ?k' v))) (sc ?k') = v"
    by (intro pid2thread_eq) (simp_all add: pid_inv_def)
  then show ?thesis
    using e pi n(3,4) started_sched [OF inv(1,2) v0 nv]
    by (intro exI [of _ ?k'] exI [of _ n]) (simp add: new_task_def started_def Let_def del: of_nat_Suc)
qed

text \<open>The kernel at start-up: one task, whose PCB lies at 0xc009e000 in the first megabyte, in the loader's directory, and one
  identifier in use.\<close>

definition sample_kern :: kern where
  "sample_kern = \<lparr>sc = \<lparr>eflags = 2, cur = 0xc009e000, tasks = (\<lambda>_. sample_task TASK_RUNNING), thread_ready_list = [],
       thread_all_list = [0xc009e000], main_thread = 0xc009e000, idle_thread = 0xc009e000, total_ticks = 0,
       kont = (\<lambda>_. First_Run), phys = sample_pt, cr3 = 0x100000, tlb = Map.empty, tss_esp0 = 0, semas = (\<lambda>_. \<lparr>sema_value = 1, waiters = []\<rparr>),
       locks = (\<lambda>_. \<lparr>holder = 0, holder_repeat_nr = 0\<rparr>), pc = (\<lambda>_. Run)\<rparr>,
     kpool = sample_pool 0x200000, upool = sample_pool 0x300000, kvaddr = kernel_vaddr sample_mem, karenas = arenas sample_mem,
     kdescs = block_desc_init, uvaddr = (\<lambda>_. userprog_vaddr sample_mem), vbits = (\<lambda>_. 0), udescs = (\<lambda>_. block_desc_init),
     pid_bitmap = \<lparr>btmp_bytes_len = 128, bits = 1 # replicate 127 0\<rparr>, pid_start = 1, pid_locked = False,
     tstacks = (\<lambda>_. \<lparr>ts_ebp = 0, ts_ebx = 0, ts_edi = 0, ts_esi = 0, ts_eip = No_Code, ts_function = No_Code, func_arg = 0\<rparr>),
     istacks = (\<lambda>_. \<lparr>is_edi = 0, is_esi = 0, is_ebp = 0, esp_dummy = 0, is_ebx = 0, is_edx = 0, is_ecx = 0, is_eax = 0, is_gs = 0,
       is_fs = 0, is_es = 0, is_ds = 0, is_eip = 0, is_cs = 0, is_eflags = 0, is_esp = 0, is_ss = 0\<rparr>)\<rparr>"

theorem thread_start_registers_witness:
  "\<exists>k' n. thread_start ''idle'' 10 Idle 0 sample_kern = Inr (0xc0101000, k') \<and>
     thread_ready_list (sc k') = thread_ready_list (sc sample_kern) @ [0xc0101000] \<and>
     thread_all_list (sc k') = thread_all_list (sc sample_kern) @ [0xc0101000] \<and>
     status (the_task k' 0xc0101000) = TASK_READY \<and> task_name (the_task k' 0xc0101000) = ''idle'' \<and>
     tstacks k' (self_kstack (the_task k' 0xc0101000)) = \<lparr>ts_ebp = 0, ts_ebx = 0, ts_edi = 0, ts_esi = 0,
        ts_eip = Kernel_Thread, ts_function = Idle, func_arg = 0\<rparr> \<and>
     pid (the_task k' 0xc0101000) = of_nat (Suc n) \<and> n \<notin> bm.used_set (pid_bitmap sample_kern) \<and>
     {..< n} \<subseteq> bm.used_set (pid_bitmap sample_kern) \<and>
     pid2thread (sint (pid (the_task k' 0xc0101000))) (sc k') = 0xc0101000 \<and>
     (\<forall>p. p = 0xc0101000 \<or> the_task k' p = the_task sample_kern p) \<and> tasks_ok (sc k') \<and> ready_ok (sc k') \<and> pid_inv k'"
proof (rule thread_start_registers [where r = 1])
  let ?b = "\<lparr>btmp_bytes_len = 1, bits = [1]\<rparr>"
  have mv: "mem_view sample_kern = sample_mem"
    by (simp add: mem_view_def sample_kern_def sample_mem_def sample_task_def)
  show "mem_wf (mem_view sample_kern)" unfolding mv by (rule sample_mem_wf)
  show "va_run (kvaddr sample_kern) 1 1"
    by (simp add: va_run_def sample_kern_def sample_mem_def bitmap_wf_def K_HEAP_START_def)
  have "(LEAST n. \<not> bit_at ?b n) = 1" by (rule Least_equality) (auto simp: bit_at_def Suc_le_eq intro: ccontr)
  then have "bitmap_scan ?b 1 = Inr (int 1)"
    using bitmap_scan_one [of ?b 1] by (simp add: bitmap_wf_def bit_at_def)
  then show "bitmap_scan (vaddr_bitmap (kvaddr sample_kern)) 1 = Inr (int 1)" by (simp add: sample_kern_def sample_mem_def)
  show "2 \<le> card (free_frames (kpool sample_kern))" using sample_card by (simp add: sample_kern_def sample_mem_def)
  show "\<not> pool_locked (kpool sample_kern)" by (simp add: sample_kern_def sample_pool_def)
  show "(0xc0101000 :: u32) = vaddr_start (kvaddr sample_kern) + of_nat 1 * PG_SIZE"
    by (simp add: sample_kern_def sample_mem_def K_HEAP_START_def PG_SIZE_def)
  show "walk (phys (sc sample_kern)) (cr3 (sc sample_kern)) 0xc0101000 = None"
    using sample_unmapped by (simp add: sample_kern_def)
  show "walk (phys (sc sample_kern)) (cr3 (sc sample_kern)) p \<noteq> None" if "p \<in> set (thread_all_list (sc sample_kern))" for p
    using that by (simp add: sample_kern_def walk_def PDE_IDX_def PTE_IDX_def sample_pt_def setup_page_def boot_dir_def PG_P_1_def)
  show "tasks_ok (sc sample_kern)" "ready_ok (sc sample_kern)" "main_thread (sc sample_kern) \<in> set (thread_all_list (sc sample_kern))"
    by (simp_all add: tasks_ok_def ready_ok_def sample_kern_def sample_task_def)
  have pb: "pid_bitmap sample_kern = \<lparr>btmp_bytes_len = 128, bits = 1 # replicate 127 0\<rparr>" unfolding sample_kern_def by (rule kern.simps)
  have b0: "bit_at (pid_bitmap sample_kern) 0" "\<not> bit_at (pid_bitmap sample_kern) 1" "nbits (pid_bitmap sample_kern) = 1024"
    unfolding pb by (simp_all add: bit_at_def)
  have "1 \<notin> bm.used_set (pid_bitmap sample_kern)" using b0(2) unfolding bm_used_set by simp
  moreover have "(1 :: nat) \<in> {..< 1024}" unfolding lessThan_iff by simp
  ultimately show "bm.used_set (pid_bitmap sample_kern) \<noteq> {..< 1024}" by metis
  have z: "\<exists>n \<in> bm.used_set (pid_bitmap sample_kern). (1 :: pid_t) = of_nat (Suc n)"
    using b0 by (intro bexI [of _ 0]) (simp_all only: bm_used_set, simp_all)
  have l: "thread_all_list (sc sample_kern) = [0xc009e000]" "pid (the_task sample_kern p) = 1" for p
    by (simp_all add: sample_kern_def sample_task_def)
  have "pid_pool_wf sample_kern" by (simp add: pid_pool_wf_def bitmap_wf_def sample_kern_def)
  then show "pid_inv sample_kern" unfolding pid_inv_def pids_ok_def l using z by simp
  show "length ''idle'' < TASK_NAME_LEN" by (simp add: TASK_NAME_LEN_def)
qed

end
