(* ===== verification/ExitSpec.thy ===== *)
theory ExitSpec
  imports Process PageDir
begin

text \<open>
  Exit: what \<^verbatim>\<open>sys_exit\<close> of \<^verbatim>\<open>userprog/wait_exit.c\<close> (defined in \<open>Process\<close>) does to the tasks. The release of the
  resources changes memory and the descriptor table of the exiting process only (\<open>same_tasks\<close>), adoption changes parents
  only, so the parent that is woken finds the process it waited for.
\<close>

section \<open>Waking the parent\<close>


section \<open>What releasing the resources leaves alone\<close>

text \<open>\<open>same_tasks s s'\<close>: the tasks differ at most in their descriptor tables; the lists and the running task are the same.\<close>

definition same_tasks :: "ksync \<Rightarrow> ksync \<Rightarrow> bool" where
  "same_tasks s s' \<longleftrightarrow> cur s' = cur s \<and> thread_all_list s' = thread_all_list s \<and> thread_ready_list s' = thread_ready_list s \<and>
     idle_thread s' = idle_thread s \<and> cr3 s' = cr3 s \<and> (\<forall>p. (tasks s' p)\<lparr>fd_table := []\<rparr> = (tasks s p)\<lparr>fd_table := []\<rparr>)"

lemma same_tasks_refl [simp]: "same_tasks s s"
  by (simp add: same_tasks_def)




lemma put_file_life [simp]: "sc (put_fs (upd_file g f (fs_view k)) k) = sc k"
  by (simp add: put_fs_def upd_file_def fs_view_def)








section \<open>Adoption\<close>

text \<open>Adoption changes only who the parent is: the status of nobody changes, so a waiting \<^verbatim>\<open>init\<close> is not woken
  when it inherits a child that already hangs.\<close>

lemma adopt_children_fold:
  "distinct ps \<Longrightarrow> tasks (fold (init_adopt_a_child pd) ps s) =
     (\<lambda>p. if p \<in> set ps \<and> parent_pid (tasks s p) = pd then (tasks s p)\<lparr>parent_pid := 1\<rparr> else tasks s p)"
proof (induction ps arbitrary: s)
  case (Cons q ps)
  then show ?case by (cases "parent_pid (tasks s q) = pd") (auto simp: init_adopt_a_child_def)
qed simp


lemma adopt_children_tasks:
  assumes "distinct (thread_all_list s)"
  shows "tasks (adopt_children pd s) =
     (\<lambda>p. if p \<in> set (thread_all_list s) \<and> parent_pid (tasks s p) = pd then (tasks s p)\<lparr>parent_pid := 1\<rparr> else tasks s p)"
  unfolding adopt_children_def by (rule adopt_children_fold [OF assms])

lemma adoption_wakes_nobody:
  assumes "distinct (thread_all_list s)"
  shows "stat_of (adopt_children pd s) p = stat_of s p"
  by (simp add: adopt_children_tasks [OF assms])

section \<open>Exit and the waiting parent\<close>














end
