(* ===== verification/Partition.thy ===== *)
theory Partition
  imports Interrupts FsLayout
begin

text \<open>
  The start of the disk driver: \<^verbatim>\<open>identify_disk\<close>, \<^verbatim>\<open>partition_scan\<close> and \<^verbatim>\<open>ide_init\<close> of \<^verbatim>\<open>device/ide.c\<close>.

  Partition tables are read through \<open>ide_read\<close> of \<open>Ide\<close>. A chain of extended partitions that runs in
  a circle makes \<^verbatim>\<open>partition_scan\<close> call itself for ever: the loop is a partial function, \<open>None\<close> if it does
  not end. The partition list holds the partitions themselves instead of pointers. The sector buffer
  and the messages have no counterpart.
\<close>

section \<open>Data\<close>

record pte =
  fs_type :: u8
  pte_start :: u32
  pte_cnt :: u32

record prt =
  prt_start :: u32
  prt_cnt :: u32
  prt_name :: "u8 list"

record hdisk =
  hd_name :: "u8 list"
  hd_dev :: ide_disk
  prim_parts :: "prt list"
  logic_parts :: "prt list"

text \<open>What \<^verbatim>\<open>partition_scan\<close> works on: the disk, its channel and the global variables.\<close>

record pscan =
  hdk :: hdisk
  chan_ide :: ide
  ext_lba_base :: u32
  p_no :: u8
  l_no :: u8
  partition_list :: "prt list"

definition pte_of :: "u8 list \<Rightarrow> nat \<Rightarrow> pte" where
  "pte_of bs i = \<lparr>fs_type = bs ! (446 + 16 * i + 4), pte_start = rd32 bs (446 + 16 * i + 8), pte_cnt = rd32 bs (446 + 16 * i + 12)\<rparr>"

definition partition_table :: "u8 list \<Rightarrow> pte list" where
  "partition_table bs = map (pte_of bs) [0, 1, 2, 3]"

section \<open>Partitions\<close>

definition read_table :: "u32 \<Rightarrow> pscan \<Rightarrow> (pte list \<times> pscan) res" where
  "read_table lba st =
     bind_res (ide_read (hd_dev (hdk st)) lba 1 (chan_ide st)) (\<lambda>(bs, c).
     Inr (partition_table bs, st\<lparr>chan_ide := c\<rparr>))"

text \<open>\<^verbatim>\<open>sprintf(name, "%s%d", hd->name, n)\<close> into the 8 bytes of a name.\<close>

definition name_part :: "u8 list \<Rightarrow> nat \<Rightarrow> prt \<Rightarrow> prt res" where
  "name_part hname n p =
     bind_res (vsprintf [37, 115, 37, 100, 0] [Arg_Str hname, Arg_Int (of_nat n)]) (\<lambda>txt.
     bind_res (memcpy (prt_name p) txt (length txt)) (\<lambda>nm. Inr (p\<lparr>prt_name := nm\<rparr>)))"

definition add_primary :: "u32 \<Rightarrow> pte \<Rightarrow> pscan \<Rightarrow> pscan res" where
  "add_primary ext_lba p st =
     bind_res (load (prim_parts (hdk st)) (unat (p_no st))) (\<lambda>q.
     bind_res (name_part (hd_name (hdk st)) (unat (p_no st) + 1) (q\<lparr>prt_start := ext_lba + pte_start p, prt_cnt := pte_cnt p\<rparr>)) (\<lambda>q.
     let st = st\<lparr>hdk := (hdk st)\<lparr>prim_parts := (prim_parts (hdk st))[unat (p_no st) := q]\<rparr>,
                 partition_list := partition_list st @ [q], p_no := p_no st + 1\<rparr>
     in bind_res (ASSERT (p_no st < 4) ''p_no < 4'') (\<lambda>_. Inr st)))"

text \<open>The result is whether \<^verbatim>\<open>partition_scan\<close> returns at once.\<close>

definition add_logical :: "u32 \<Rightarrow> pte \<Rightarrow> pscan \<Rightarrow> (bool \<times> pscan) res" where
  "add_logical ext_lba p st =
     bind_res (load (logic_parts (hdk st)) (unat (l_no st))) (\<lambda>q.
     bind_res (name_part (hd_name (hdk st)) (unat (l_no st) + 5) (q\<lparr>prt_start := ext_lba + pte_start p, prt_cnt := pte_cnt p\<rparr>)) (\<lambda>q.
     let st = st\<lparr>hdk := (hdk st)\<lparr>logic_parts := (logic_parts (hdk st))[unat (l_no st) := q]\<rparr>,
                 partition_list := partition_list st @ [q], l_no := l_no st + 1\<rparr>
     in Inr (l_no st \<ge> 8, st)))"

definition add_partition :: "u32 \<Rightarrow> pte \<Rightarrow> pscan \<Rightarrow> (bool \<times> pscan) res" where
  "add_partition ext_lba p st =
     (if ext_lba = 0 then bind_res (add_primary ext_lba p st) (\<lambda>st. Inr (False, st)) else add_logical ext_lba p st)"

text \<open>The address of the next table: relative to the start of the extended partition, which is noted
  at the first one.\<close>

definition enter_extended :: "pte \<Rightarrow> pscan \<Rightarrow> u32 \<times> pscan" where
  "enter_extended p st =
     (if ext_lba_base st \<noteq> 0 then (pte_start p + ext_lba_base st, st)
      else (pte_start p, st\<lparr>ext_lba_base := pte_start p\<rparr>))"

partial_function (option) scan_entries :: "u32 \<Rightarrow> pte list \<Rightarrow> pscan \<Rightarrow> pscan res option" where
  "scan_entries ext_lba ps st =
     (case ps of
        [] \<Rightarrow> Some (Inr st)
      | p # ps \<Rightarrow>
          if fs_type p = 5 then
            (case read_table (fst (enter_extended p st)) (snd (enter_extended p st)) of
               Inl e \<Rightarrow> Some (Inl e)
             | Inr (ps', st') \<Rightarrow>
                 Option.bind (scan_entries (fst (enter_extended p st)) ps' st') (\<lambda>r.
                 case r of Inl e \<Rightarrow> Some (Inl e) | Inr st'' \<Rightarrow> scan_entries ext_lba ps st''))
          else if fs_type p \<noteq> 0 then
            (case add_partition ext_lba p st of
               Inl e \<Rightarrow> Some (Inl e)
             | Inr (full, st') \<Rightarrow> if full then Some (Inr st') else scan_entries ext_lba ps st')
          else scan_entries ext_lba ps st)"

definition partition_scan :: "u32 \<Rightarrow> pscan \<Rightarrow> pscan res" where
  "partition_scan ext_lba st =
     bind_res (read_table ext_lba st) (\<lambda>(ps, st). loop_end (scan_entries ext_lba ps st))"

section \<open>Initialisation\<close>

text \<open>The result is what is printed: serial number, model and number of sectors.\<close>

definition identify_disk :: "ide_disk \<Rightarrow> ide \<Rightarrow> ((u8 list \<times> u8 list \<times> u32) \<times> ide) res" where
  "identify_disk dk c =
     bind_res (cmd_out CMD_IDENTIFY (select_disk dk c)) (\<lambda>c.
     bind_res (disk_done c) (\<lambda>c.
     bind_res (busy_wait c) (\<lambda>(ok, c).
     if \<not> ok then Inl (Panic ''identify failed!!!'')
     else bind_res (read_from_sector 1 c) (\<lambda>(id_info, c).
          Inr ((swap_pairs_bytes (take 20 (drop 20 id_info)), swap_pairs_bytes (take 40 (drop 54 id_info)), rd32 id_info 120), c)))))"

record ide_channel =
  ch_name :: "u8 list"
  port_base :: u16
  irq_no :: u8
  ch_ide :: ide
  devices :: "hdisk list"

record ide_sys =
  channels :: "ide_channel list"
  channel_cnt :: u8
  s_ext_base :: u32
  s_partitions :: "prt list"
  idt_table :: "u32 list"

text \<open>One disk of a channel: named \<^verbatim>\<open>sda\<close>, \<^verbatim>\<open>sdb\<close> and so on, identified, and scanned unless it is the
  first of its channel. The counters \<^verbatim>\<open>p_no\<close> and \<^verbatim>\<open>l_no\<close> start at 0 for every disk, \<^verbatim>\<open>ext_lba_base\<close> does not.\<close>

definition init_disk :: "nat \<Rightarrow> nat \<Rightarrow> ide_sys \<Rightarrow> ide_sys res" where
  "init_disk channel_no d s =
     bind_res (load (channels s) channel_no) (\<lambda>ch.
     bind_res (load (devices ch) d) (\<lambda>h.
     bind_res (memcpy (hd_name h) [115, 100, of_nat (97 + channel_no * 2 + d)] 3) (\<lambda>nm.
     let h = h\<lparr>hd_name := nm, hd_dev := \<lparr>dev_no = of_nat d\<rparr>\<rparr> in
     bind_res (identify_disk (hd_dev h) (ch_ide ch)) (\<lambda>(info, c).
     let st = \<lparr>hdk = h, chan_ide = c, ext_lba_base = s_ext_base s, p_no = 0, l_no = 0, partition_list = s_partitions s\<rparr> in
     bind_res (if d \<noteq> 0 then partition_scan 0 st else Inr st) (\<lambda>st.
     let ch = ch\<lparr>ch_ide := chan_ide st, devices := (devices ch)[d := hdk st]\<rparr> in
     Inr (s\<lparr>channels := (channels s)[channel_no := ch], s_ext_base := ext_lba_base st, s_partitions := partition_list st\<rparr>))))))"

text \<open>\<open>handler\<close> is the address of \<^verbatim>\<open>intr_hd_handler\<close>. Only channels 0 and 1 get a port and a vector.\<close>

definition init_channel :: "u32 \<Rightarrow> nat \<Rightarrow> ide_sys \<Rightarrow> ide_sys res" where
  "init_channel handler channel_no s =
     bind_res (load (channels s) channel_no) (\<lambda>ch.
     bind_res (vsprintf (bytes_of ''ide%d'' @ [0]) [Arg_Int (of_nat channel_no)]) (\<lambda>txt.
     bind_res (memcpy (ch_name ch) txt (length txt)) (\<lambda>nm.
     let ch = ch\<lparr>ch_name := nm\<rparr>;
         ch = (if channel_no = 0 then ch\<lparr>port_base := 0x1f0, irq_no := 0x20 + 14\<rparr>
               else if channel_no = 1 then ch\<lparr>port_base := 0x170, irq_no := 0x20 + 15\<rparr> else ch);
         ch = ch\<lparr>ch_ide := (ch_ide ch)\<lparr>expecting_intr := False, ch_locked := False, done_val := 0\<rparr>\<rparr>
     in bind_res (register_handler (irq_no ch) handler (idt_table s)) (\<lambda>tbl.
        let s = s\<lparr>channels := (channels s)[channel_no := ch], idt_table := tbl\<rparr> in
        bind_res (init_disk channel_no 0 s) (init_disk channel_no 1)))))"

fun init_channels :: "u32 \<Rightarrow> nat list \<Rightarrow> ide_sys \<Rightarrow> ide_sys res" where
  "init_channels handler [] s = Inr s"
| "init_channels handler (n # ns) s = bind_res (init_channel handler n s) (init_channels handler ns)"

definition ide_init :: "u32 \<Rightarrow> u8 \<Rightarrow> ide_sys \<Rightarrow> ide_sys res" where
  "ide_init handler hd_cnt s =
     bind_res (ASSERT (hd_cnt > 0) ''hd_cnt > 0'') (\<lambda>_.
     let s = s\<lparr>s_partitions := [], channel_cnt := ucast (DIV_ROUND_UP (ucast hd_cnt) 2)\<rparr> in
     init_channels handler [0..<unat (channel_cnt s)] s)"

section \<open>What a scan finds\<close>

text \<open>A disk whose first table has primary partitions followed by an extended one, with a chain of tables
  in it, each with a logical partition first and the link to the next table second.\<close>

definition data_entry :: "pte \<Rightarrow> bool" where
  "data_entry p \<longleftrightarrow> fs_type p \<noteq> 5 \<and> fs_type p \<noteq> 0"

fun ebr_chain :: "(u32 \<Rightarrow> u8 list) \<Rightarrow> u32 \<Rightarrow> u32 \<Rightarrow> (u32 \<times> u32) list \<Rightarrow> bool" where
  "ebr_chain d base lba [] \<longleftrightarrow> False"
| "ebr_chain d base lba ((s, c) # ls) \<longleftrightarrow>
     (let es = partition_table (d lba) in
      lba \<noteq> 0 \<and> lba \<le> max_lba \<and> data_entry (es ! 0) \<and> s = lba + pte_start (es ! 0) \<and> c = pte_cnt (es ! 0) \<and>
      fs_type (es ! 2) = 0 \<and> fs_type (es ! 3) = 0 \<and>
      (if ls = [] then fs_type (es ! 1) = 0
       else fs_type (es ! 1) = 5 \<and> ebr_chain d base (pte_start (es ! 1) + base) ls))"

text \<open>The partitions with their names: the disk's name and a number.\<close>

definition part_name :: "u8 list \<Rightarrow> nat \<Rightarrow> u8 list" where
  "part_name w n = w @ itoa (of_nat n) 10 @ replicate (8 - length w - length (itoa (of_nat n) 10)) 0"

fun named :: "u8 list \<Rightarrow> nat \<Rightarrow> (u32 \<times> u32) list \<Rightarrow> prt list" where
  "named w n [] = []"
| "named w n ((s, c) # ps) = \<lparr>prt_start = s, prt_cnt = c, prt_name = part_name w n\<rparr> # named w (n + 1) ps"

lemma named_append: "named w n (ps @ qs) = named w n ps @ named w (n + length ps) qs"
  by (induction ps arbitrary: n) auto

definition unnamed_from :: "nat \<Rightarrow> prt list \<Rightarrow> bool" where
  "unnamed_from n ps \<longleftrightarrow> list_all (\<lambda>p. prt_name p = replicate 8 0) (drop n ps)"

definition scan_ok :: "u8 list \<Rightarrow> (u32 \<Rightarrow> u8 list) \<Rightarrow> pscan \<Rightarrow> bool" where
  "scan_ok w d st \<longleftrightarrow> ide_ok (chan_ide st) \<and> sector_of (hd_dev (hdk st)) (chan_ide st) = d \<and>
     0 \<notin> set w \<and> length w = 3 \<and> take 4 (hd_name (hdk st)) = w @ [0] \<and>
     length (prim_parts (hdk st)) = 4 \<and> length (logic_parts (hdk st)) = 8 \<and>
     unnamed_from (unat (p_no st)) (prim_parts (hdk st)) \<and> unnamed_from (unat (l_no st)) (logic_parts (hdk st))"

lemma itoa_short: "n \<le> 12 \<Longrightarrow> length (itoa (of_nat n) 10) \<le> 2"
proof -
  have "list_all (\<lambda>n. length (itoa (of_nat n) 10) \<le> 2) [0..<13]" by code_simp
  then show "n \<le> 12 \<Longrightarrow> length (itoa (of_nat n) 10) \<le> 2" by (auto simp: list_all_iff)
qed

lemma name_part_eq:
  assumes "0 \<notin> set w" and "length w = 3" and "take 4 h = w @ [0]" and "n \<le> 12" and "prt_name p = replicate 8 0"
  shows "name_part h n p = Inr (p\<lparr>prt_name := part_name w n\<rparr>)"
proof -
  let ?i = "itoa (of_nat n) 10"
  have h: "h = cstr w (drop 4 h)" using assms(3) append_take_drop_id [of 4 h] by simp
  have l: "strlen h = Inr 3" using strlen_cstr [OF assms(1), of "drop 4 h"] h assms(2) by simp
  have t: "take 3 h = w" using h assms(2) by (metis append_eq_conv_conj)
  have s: "\<not> sint (of_nat n :: u32) < 0" using assms(4) by (simp add: sint_of_small)
  have v: "vsprintf [37, 115, 37, 100, 0] [Arg_Str h, Arg_Int (of_nat n)] = Inr (w @ ?i)"
    using l t s by simp
  have "length (w @ ?i) \<le> 8" using itoa_short [OF assms(4)] assms(2) by simp
  then show ?thesis unfolding name_part_def v bind_res_Inr using assms(5) memcpy_eq [of "length (w @ ?i)" "replicate 8 0" "w @ ?i"]
    by (simp add: part_name_def)
qed

lemma unnamed_fromD: "unnamed_from n ps \<Longrightarrow> n < length ps \<Longrightarrow> prt_name (ps ! n) = replicate 8 0"
  by (simp add: unnamed_from_def list_all_iff Cons_nth_drop_Suc [symmetric])

lemma unnamed_from_upd:
  assumes "unnamed_from n ps"
  shows "unnamed_from (Suc n) (ps[n := q])"
proof -
  have "drop (Suc n) (ps[n := q]) = drop (Suc n) ps" by simp
  also have "\<dots> = tl (drop n ps)" by (simp add: drop_Suc tl_drop)
  finally have "drop (Suc n) (ps[n := q]) = tl (drop n ps)" .
  then show ?thesis using assms by (cases "drop n ps") (simp_all add: unnamed_from_def)
qed

lemma add_primary_ok:
  assumes "scan_ok w d st" and "unat (p_no st) < 3"
  shows "\<exists>st'. add_partition 0 p st = Inr (False, st') \<and> scan_ok w d st' \<and> unat (p_no st') = Suc (unat (p_no st)) \<and>
     l_no st' = l_no st \<and> ext_lba_base st' = ext_lba_base st \<and>
     partition_list st' = partition_list st @ named w (unat (p_no st) + 1) [(pte_start p, pte_cnt p)]"
proof -
  let ?n = "unat (p_no st)" and ?q = "prim_parts (hdk st) ! unat (p_no st)"
  note ok = assms(1) [unfolded scan_ok_def]
  have n: "unat (p_no st + 1) = Suc ?n" using assms(2) by (simp add: unat_word_ariths)
  have ld: "load (prim_parts (hdk st)) ?n = Inr ?q" using ok assms(2) by simp
  have "prt_name ?q = replicate 8 0" using unnamed_fromD ok assms(2) by simp
  then have nm: "name_part (hd_name (hdk st)) (?n + 1) (?q\<lparr>prt_start := 0 + pte_start p, prt_cnt := pte_cnt p\<rparr>)
      = Inr (?q\<lparr>prt_start := pte_start p, prt_cnt := pte_cnt p, prt_name := part_name w (?n + 1)\<rparr>)"
    using ok assms(2) by (subst name_part_eq [of w]) simp_all
  have lt: "p_no st + 1 < 4" using n assms(2) by (simp add: word_less_nat_alt)
  show ?thesis
    unfolding add_partition_def add_primary_def ld bind_res_Inr nm
    using ok n lt unnamed_from_upd [of ?n "prim_parts (hdk st)"] by (simp add: scan_ok_def Let_def)
qed

lemma add_logical_ok:
  assumes "scan_ok w d st" and "unat (l_no st) < 8" and "lba \<noteq> 0"
  shows "\<exists>st'. add_partition lba p st = Inr (7 \<le> unat (l_no st), st') \<and> scan_ok w d st' \<and> unat (l_no st') = Suc (unat (l_no st)) \<and>
     p_no st' = p_no st \<and> ext_lba_base st' = ext_lba_base st \<and>
     partition_list st' = partition_list st @ named w (unat (l_no st) + 5) [(lba + pte_start p, pte_cnt p)]"
proof -
  let ?n = "unat (l_no st)" and ?q = "logic_parts (hdk st) ! unat (l_no st)"
  note ok = assms(1) [unfolded scan_ok_def]
  have n: "unat (l_no st + 1) = Suc ?n" using assms(2) by (simp add: unat_word_ariths)
  have ld: "load (logic_parts (hdk st)) ?n = Inr ?q" using ok assms(2) by simp
  have "prt_name ?q = replicate 8 0" using unnamed_fromD ok assms(2) by simp
  then have nm: "name_part (hd_name (hdk st)) (?n + 5) (?q\<lparr>prt_start := lba + pte_start p, prt_cnt := pte_cnt p\<rparr>)
      = Inr (?q\<lparr>prt_start := lba + pte_start p, prt_cnt := pte_cnt p, prt_name := part_name w (?n + 5)\<rparr>)"
    using ok assms(2) by (subst name_part_eq [of w]) simp_all
  have le: "(8 \<le> l_no st + 1) = (7 \<le> ?n)" using n by (simp add: word_le_nat_alt)
  show ?thesis
    unfolding add_partition_def add_logical_def ld bind_res_Inr nm
    using ok n le assms(3) unnamed_from_upd [of ?n "logic_parts (hdk st)"] by (simp add: scan_ok_def Let_def)
qed

lemma read_table_ok:
  assumes "scan_ok w d st" and "lba \<le> max_lba"
  shows "\<exists>c. read_table lba st = Inr (partition_table (d lba), st\<lparr>chan_ide := c\<rparr>) \<and> scan_ok w d (st\<lparr>chan_ide := c\<rparr>)"
proof -
  have "unat lba + 1 \<le> Suc (unat max_lba)" using assms(2) by (simp add: word_le_nat_alt)
  from drv.rd_spec [OF _ _ _ this, of "chan_ide st" "hd_dev (hdk st)"] obtain c where
    "ide_read (hd_dev (hdk st)) lba 1 (chan_ide st) = Inr (sectors d lba 1, c)" "ide_ok c" "sector_of (hd_dev (hdk st)) c = d"
    using assms(1) by (auto simp: scan_ok_def serves_def)
  then show ?thesis using assms(1) by (intro exI [of _ c]) (simp add: read_table_def scan_ok_def sectors_def)
qed

lemma scan_entries_simps:
  "scan_entries lba [] st = Some (Inr st)"
  "fs_type p = 0 \<Longrightarrow> scan_entries lba (p # ps) st = scan_entries lba ps st"
  "data_entry p \<Longrightarrow> add_partition lba p st = Inr (full, st') \<Longrightarrow>
     scan_entries lba (p # ps) st = (if full then Some (Inr st') else scan_entries lba ps st')"
  "fs_type p = 5 \<Longrightarrow> read_table (fst (enter_extended p st)) (snd (enter_extended p st)) = Inr (es, st') \<Longrightarrow>
     scan_entries (fst (enter_extended p st)) es st' = Some (Inr st'') \<Longrightarrow>
     scan_entries lba (p # ps) st = scan_entries lba ps st''"
  by (subst scan_entries.simps, simp add: data_entry_def)+

lemma scan_entries_zeros: "list_all (\<lambda>p. fs_type p = 0) ps \<Longrightarrow> scan_entries lba ps st = Some (Inr st)"
  by (induction ps) (simp_all add: scan_entries_simps)

lemma partition_table_4: "partition_table bs = [partition_table bs ! 0, partition_table bs ! 1, partition_table bs ! 2, partition_table bs ! 3]"
  by (simp add: partition_table_def)

text \<open>The chain of an extended partition.\<close>

lemma scan_chain:
  assumes "ebr_chain d base lba ls" and "scan_ok w d st" and "ext_lba_base st = base" and "base \<noteq> 0"
    and "unat (l_no st) + length ls \<le> 8"
  shows "\<exists>st1 st'. read_table lba st = Inr (partition_table (d lba), st1) \<and>
     scan_entries lba (partition_table (d lba)) st1 = Some (Inr st') \<and> scan_ok w d st' \<and>
     p_no st' = p_no st \<and> unat (l_no st') = unat (l_no st) + length ls \<and> ext_lba_base st' = base \<and>
     partition_list st' = partition_list st @ named w (unat (l_no st) + 5) ls"
  using assms
proof (induction ls arbitrary: lba st)
  case (Cons a ls)
  obtain s c where a: "a = (s, c)" by (cases a)
  let ?es = "partition_table (d lba)"
  have ch: "lba \<noteq> 0" "lba \<le> max_lba" "data_entry (?es ! 0)" "s = lba + pte_start (?es ! 0)" "c = pte_cnt (?es ! 0)"
    "fs_type (?es ! 2) = 0" "fs_type (?es ! 3) = 0"
    "if ls = [] then fs_type (?es ! 1) = 0 else fs_type (?es ! 1) = 5 \<and> ebr_chain d base (pte_start (?es ! 1) + base) ls"
    using Cons.prems(1) unfolding a ebr_chain.simps Let_def by blast+
  obtain c1 where r: "read_table lba st = Inr (?es, st\<lparr>chan_ide := c1\<rparr>)" "scan_ok w d (st\<lparr>chan_ide := c1\<rparr>)"
    using read_table_ok [OF Cons.prems(2) ch(2)] by blast
  let ?st1 = "st\<lparr>chan_ide := c1\<rparr>"
  have "unat (l_no ?st1) < 8" using Cons.prems(5) by simp
  from add_logical_ok [OF r(2) this ch(1), of "?es ! 0"] obtain st2 where
    ad: "add_partition lba (?es ! 0) ?st1 = Inr (7 \<le> unat (l_no st), st2)" and
    st2: "scan_ok w d st2" "unat (l_no st2) = Suc (unat (l_no st))" "p_no st2 = p_no st" "ext_lba_base st2 = base"
      "partition_list st2 = partition_list st @ named w (unat (l_no st) + 5) [(s, c)]"
    using ch(4,5) Cons.prems(3) by auto
  note s0 = scan_entries_simps(3) [OF ch(3) ad]
  have z: "list_all (\<lambda>p. fs_type p = 0) [?es ! 2, ?es ! 3]" using ch by simp
  show ?case
  proof (cases "ls = []")
    case True
    have "scan_entries lba ?es ?st1 = Some (Inr st2)"
      using s0 scan_entries_zeros [of "[?es ! 1, ?es ! 2, ?es ! 3]" lba st2] ch True by (subst partition_table_4) simp
    then show ?thesis using r(1) st2 True a by auto
  next
    case False
    let ?l = "pte_start (?es ! 1) + base"
    have five: "fs_type (?es ! 1) = 5" "ebr_chain d base ?l ls" using ch(8) False by simp_all
    have n: "\<not> 7 \<le> unat (l_no st)" "unat (l_no st2) + length ls \<le> 8" using Cons.prems(5) False st2(2) by (cases ls; simp)+
    from Cons.IH [OF five(2) st2(1,4) Cons.prems(4) n(2)] obtain st3 st' where
      i: "read_table ?l st2 = Inr (partition_table (d ?l), st3)" "scan_entries ?l (partition_table (d ?l)) st3 = Some (Inr st')"
        "scan_ok w d st'" "p_no st' = p_no st2" "unat (l_no st') = unat (l_no st2) + length ls" "ext_lba_base st' = base"
        "partition_list st' = partition_list st2 @ named w (unat (l_no st2) + 5) ls" by blast
    have e: "enter_extended (?es ! 1) st2 = (?l, st2)" using st2(4) Cons.prems(4) by (simp add: enter_extended_def)
    have "scan_entries lba (?es ! 1 # [?es ! 2, ?es ! 3]) st2 = scan_entries lba [?es ! 2, ?es ! 3] st'"
      using scan_entries_simps(4) [OF five(1), of st2 "partition_table (d ?l)" st3 st'] i(1,2) e by simp
    then have "scan_entries lba ?es ?st1 = Some (Inr st')"
      using s0 n(1) scan_entries_zeros [OF z] by (subst partition_table_4) simp
    then show ?thesis using r(1) i st2 a by (intro exI [of _ ?st1] exI [of _ st']) (simp add: named_append [of _ _ "[(s, c)]", simplified])
  qed
qed simp


lemma scan_primaries:
  assumes "list_all data_entry ps" and "scan_ok w d st" and "unat (p_no st) + length ps \<le> 3"
  shows "\<exists>st'. scan_entries 0 (ps @ qs) st = scan_entries 0 qs st' \<and> scan_ok w d st' \<and> l_no st' = l_no st \<and>
     unat (p_no st') = unat (p_no st) + length ps \<and> ext_lba_base st' = ext_lba_base st \<and>
     partition_list st' = partition_list st @ named w (unat (p_no st) + 1) (map (\<lambda>p. (pte_start p, pte_cnt p)) ps)"
  using assms
proof (induction ps arbitrary: st)
  case Nil
  then show ?case by auto
next
  case (Cons p ps)
  have "unat (p_no st) < 3" using Cons.prems(3) by simp
  from add_primary_ok [OF Cons.prems(2) this, of p] obtain st1 where
    ad: "add_partition 0 p st = Inr (False, st1)" and
    st1: "scan_ok w d st1" "unat (p_no st1) = Suc (unat (p_no st))" "l_no st1 = l_no st" "ext_lba_base st1 = ext_lba_base st"
      "partition_list st1 = partition_list st @ named w (unat (p_no st) + 1) [(pte_start p, pte_cnt p)]" by blast
  have "scan_entries 0 ((p # ps) @ qs) st = scan_entries 0 (ps @ qs) st1"
    using scan_entries_simps(3) [OF _ ad] Cons.prems(1) by simp
  moreover have "unat (p_no st1) + length ps \<le> 3" using st1(2) Cons.prems(3) by simp
  ultimately show ?case using Cons.IH [OF _ st1(1)] Cons.prems(1) st1 by auto
qed

text \<open>C30: The partition scan: on a disk with at most three primary partitions and an extended one whose
  chain of tables holds at most eight logical partitions, \<^verbatim>\<open>partition_scan\<close> ends and appends exactly these
  to the partition list, with absolute start sectors and sizes, numbered from 1 and from 5.\<close>

theorem partition_scan_finds:
  assumes "scan_ok w d st" and "p_no st = 0" and "l_no st = 0" and "ext_lba_base st = 0"
    and "partition_table (d 0) = ps @ x # zs" and "list_all data_entry ps" and "fs_type x = 5"
    and "list_all (\<lambda>p. fs_type p = 0) zs" and "pte_start x \<noteq> 0"
    and "ebr_chain d (pte_start x) (pte_start x) ls" and "length ls \<le> 8"
  shows "\<exists>st'. partition_scan 0 st = Inr st' \<and>
     partition_list st' = partition_list st @ named w 1 (map (\<lambda>p. (pte_start p, pte_cnt p)) ps) @ named w 5 ls"
proof -
  obtain c where r: "read_table 0 st = Inr (ps @ x # zs, st\<lparr>chan_ide := c\<rparr>)" "scan_ok w d (st\<lparr>chan_ide := c\<rparr>)"
    using read_table_ok [OF assms(1), of 0] assms(5) by auto
  let ?st = "st\<lparr>chan_ide := c\<rparr>"
  have "length (ps @ x # zs) = 4" unfolding assms(5) [symmetric] by (simp add: partition_table_def)
  then have "unat (p_no ?st) + length ps \<le> 3" using assms(2) by simp
  from scan_primaries [OF assms(6) r(2) this, of "x # zs"] obtain st1 where
    p: "scan_entries 0 (ps @ x # zs) ?st = scan_entries 0 (x # zs) st1" "scan_ok w d st1" "l_no st1 = 0" "ext_lba_base st1 = 0"
      "partition_list st1 = partition_list st @ named w 1 (map (\<lambda>p. (pte_start p, pte_cnt p)) ps)"
    using assms(2,3,4) by auto
  let ?b = "pte_start x" and ?st2 = "st1\<lparr>ext_lba_base := pte_start x\<rparr>"
  have e: "enter_extended x st1 = (?b, ?st2)" using p(4) by (simp add: enter_extended_def)
  have s2: "scan_ok w d ?st2" "ext_lba_base ?st2 = ?b" "unat (l_no ?st2) + length ls \<le> 8"
    using p(2,3) assms(11) by (simp_all add: scan_ok_def)
  from scan_chain [OF assms(10) s2(1,2) assms(9) s2(3)] obtain st3 st' where
    c: "read_table ?b ?st2 = Inr (partition_table (d ?b), st3)" "scan_entries ?b (partition_table (d ?b)) st3 = Some (Inr st')"
      "partition_list st' = partition_list st1 @ named w 5 ls" using p(3) by auto
  have "scan_entries 0 (x # zs) st1 = scan_entries 0 zs st'"
    using scan_entries_simps(4) [OF assms(7), of st1 "partition_table (d ?b)" st3 st'] c(1,2) e by simp
  then have "partition_scan 0 st = Inr st'"
    unfolding partition_scan_def using r(1) p(1) scan_entries_zeros [OF assms(8)] by (simp add: loop_end_def)
  then show ?thesis using c(3) p(5) by simp
qed

text \<open>A disk with a primary partition, an extended one, and two logical ones in it.\<close>

definition entry_bytes :: "u8 \<Rightarrow> u32 \<Rightarrow> u32 \<Rightarrow> u8 list" where
  "entry_bytes t s c = replicate 4 0 @ t # replicate 3 0 @ enc32 s @ enc32 c"

definition table_bytes :: "u8 list \<Rightarrow> u8 list \<Rightarrow> u8 list" where
  "table_bytes e0 e1 = replicate 446 0 @ e0 @ e1 @ replicate 32 0 @ [0x55, 0xaa]"

definition sample_media :: "u32 \<Rightarrow> u8 list" where
  "sample_media a =
     (if a = 0 then table_bytes (entry_bytes 0x83 63 1000) (entry_bytes 5 2000 5000)
      else if a = 2000 then table_bytes (entry_bytes 0x66 63 900) (entry_bytes 5 1000 1000)
      else if a = 3000 then table_bytes (entry_bytes 0x66 63 800) (entry_bytes 0 0 0)
      else replicate 512 0)"

definition blank_prt :: prt where
  "blank_prt = \<lparr>prt_start = 0, prt_cnt = 0, prt_name = replicate 8 0\<rparr>"

definition sample_scan :: pscan where
  "sample_scan = \<lparr>hdk = \<lparr>hd_name = [115, 100, 98, 0, 0, 0, 0, 0], hd_dev = \<lparr>dev_no = 1\<rparr>,
       prim_parts = replicate 4 blank_prt, logic_parts = replicate 8 blank_prt\<rparr>,
     chan_ide = sample_ide\<lparr>media := (\<lambda>_. sample_media)\<rparr>, ext_lba_base = 0, p_no = 0, l_no = 0, partition_list = []\<rparr>"

lemma length_table_bytes: "length (table_bytes (entry_bytes t s c) (entry_bytes t' s' c')) = 512"
  by (simp add: table_bytes_def entry_bytes_def enc32_def)

lemma sample_scan_ok: "scan_ok [115, 100, 98] sample_media sample_scan"
  using less_trans [OF mod_less_divisor, of 4 29999]
  by (simp add: scan_ok_def sample_scan_def ide_ok_def sample_ide_def drive_ok_def at_rest_def full_sectors_def sector_of_def unnamed_from_def blank_prt_def sample_media_def list_all_iff length_table_bytes)

lemma sample_tables:
  "partition_table (sample_media 0) = [\<lparr>fs_type = 0x83, pte_start = 63, pte_cnt = 1000\<rparr>, \<lparr>fs_type = 5, pte_start = 2000, pte_cnt = 5000\<rparr>,
     \<lparr>fs_type = 0, pte_start = 0, pte_cnt = 0\<rparr>, \<lparr>fs_type = 0, pte_start = 0, pte_cnt = 0\<rparr>]"
  "partition_table (sample_media 2000) = [\<lparr>fs_type = 0x66, pte_start = 63, pte_cnt = 900\<rparr>, \<lparr>fs_type = 5, pte_start = 1000, pte_cnt = 1000\<rparr>,
     \<lparr>fs_type = 0, pte_start = 0, pte_cnt = 0\<rparr>, \<lparr>fs_type = 0, pte_start = 0, pte_cnt = 0\<rparr>]"
  "partition_table (sample_media 3000) = [\<lparr>fs_type = 0x66, pte_start = 63, pte_cnt = 800\<rparr>, \<lparr>fs_type = 0, pte_start = 0, pte_cnt = 0\<rparr>,
     \<lparr>fs_type = 0, pte_start = 0, pte_cnt = 0\<rparr>, \<lparr>fs_type = 0, pte_start = 0, pte_cnt = 0\<rparr>]"
  by code_simp+

theorem partition_scan_finds_witness:
  "\<exists>st'. partition_scan 0 sample_scan = Inr st' \<and>
     partition_list st' = named [115, 100, 98] 1 [(63, 1000)] @ named [115, 100, 98] 5 [(2063, 900), (3063, 800)]"
  using partition_scan_finds [OF sample_scan_ok, of "[\<lparr>fs_type = 0x83, pte_start = 63, pte_cnt = 1000\<rparr>]" "\<lparr>fs_type = 5, pte_start = 2000, pte_cnt = 5000\<rparr>"
    "[\<lparr>fs_type = 0, pte_start = 0, pte_cnt = 0\<rparr>, \<lparr>fs_type = 0, pte_start = 0, pte_cnt = 0\<rparr>]" "[(2063, 900), (3063, 800)]"]
  by (simp add: sample_tables data_entry_def max_lba_def sample_scan_def)

text \<open>The assertion is tested after the counter has grown: a fourth primary partition stops the kernel,
  although the array has room for it.\<close>

lemma four_primaries_panic:
  assumes "scan_ok w d st" and "p_no st = 3" and "data_entry p"
  shows "scan_entries 0 (p # ps) st = Some (Inl (Panic ''p_no < 4''))"
proof -
  note ok = assms(1) [unfolded scan_ok_def]
  let ?q = "prim_parts (hdk st) ! 3"
  have "prt_name ?q = replicate 8 0" using unnamed_fromD [of 3 "prim_parts (hdk st)"] ok assms(2) by simp
  then have "name_part (hd_name (hdk st)) 4 (?q\<lparr>prt_start := pte_start p, prt_cnt := pte_cnt p\<rparr>)
      = Inr (?q\<lparr>prt_start := pte_start p, prt_cnt := pte_cnt p, prt_name := part_name w 4\<rparr>)"
    using ok by (subst name_part_eq [of w]) simp_all
  then have "add_partition 0 p st = Inl (Panic ''p_no < 4'')"
    using ok assms(2) by (simp add: add_partition_def add_primary_def Let_def)
  then show ?thesis using assms(3) by (subst scan_entries.simps) (simp add: data_entry_def)
qed

end
