(* ===== verification/CmdLine.thy ===== *)
theory CmdLine
  imports Path
begin

text \<open>
  The command line of the shell: \<^verbatim>\<open>readline\<close> and \<^verbatim>\<open>cmd_parse\<close> of \<^verbatim>\<open>shell/shell.c\<close>, and the clean-up of
  path names of \<^verbatim>\<open>shell/buildin_cmd.c\<close>.

  \<^verbatim>\<open>readline\<close> is called with \<^verbatim>\<open>buf\<close> = \<^verbatim>\<open>cmd_line\<close>. The bytes that \<^verbatim>\<open>read\<close> delivers are a list; when it is
  used up the shell waits for a key (\<open>Blocks\<close>). \<open>out\<close> is what was sent to the console since it was
  last cleared. A pointer into the line is its index; \<^verbatim>\<open>argv\<close> is a list of 16 such pointers, \<open>None\<close> for
  \<^verbatim>\<open>NULL\<close>.
\<close>

section \<open>Reading a line\<close>

definition cmd_len :: nat where [layout_simps]: "cmd_len = 128"
definition MAX_ARG_NR :: nat where [layout_simps]: "MAX_ARG_NR = 16"

text \<open>What \<^verbatim>\<open>printf("[rabbit@localhost %s]$ ", cwd_cache)\<close> writes.\<close>

definition print_prompt :: "u8 list \<Rightarrow> u8 list res" where
  "print_prompt cwd_cache =
     vsprintf (bytes_of ''[rabbit@localhost %s]$ '' @ [0]) [Arg_Str cwd_cache]"

text \<open>The loop of ctrl-u: the line is cleared down to its second byte.\<close>

primrec erase_line :: "nat \<Rightarrow> u8 list \<Rightarrow> u8 list \<Rightarrow> (u8 list \<times> u8 list) res" where
  "erase_line 0 b out = Inr (b, out)"
| "erase_line (Suc p) b out = bind_res (store b (Suc p) 0) (\<lambda>b. erase_line p b (out @ [8]))"

fun readline_loop ::
  "u8 list \<Rightarrow> u8 list \<Rightarrow> nat \<Rightarrow> nat \<Rightarrow> u8 list \<Rightarrow> u8 list \<Rightarrow> (u8 list \<times> u8 list \<times> u8 list) res" where
  "readline_loop cwd_cache [] count pos b out = Inl Blocks"
| "readline_loop cwd_cache (k # keys) count pos b out =
     bind_res (store b pos k) (\<lambda>b.
     if pos < count then
       if k = 10 \<or> k = 13 then
         bind_res (store b pos 0) (\<lambda>b. Inr (keys, b, out @ [10]))
       else if k = 8 then
         bind_res (load b 0) (\<lambda>c.
         if c \<noteq> 8 then
           if pos = 0 then Inl Bad_Access
           else readline_loop cwd_cache keys count (pos - 1) b (out @ [8])
         else readline_loop cwd_cache keys count pos b out)
       else if k = 11 then
         bind_res (store b pos 0) (\<lambda>b.
         bind_res (print_prompt cwd_cache) (\<lambda>prompt.
         bind_res (vsprintf [37, 115, 0] [Arg_Str b]) (\<lambda>line.
         readline_loop cwd_cache keys count pos b (prompt @ line))))
       else if k = 20 then
         bind_res (erase_line pos b out) (\<lambda>(b, out). readline_loop cwd_cache keys count 0 b out)
       else readline_loop cwd_cache keys count (pos + 1) b (out @ [k])
     else
       Inr (keys, b, out @ bytes_of (''readline: can`t find enter_key in the cmd_line, max num of char is 128'' @ [CHR 0x0A])))"

definition readline :: "u8 list \<Rightarrow> u8 list \<Rightarrow> nat \<Rightarrow> u8 list \<Rightarrow> u8 list \<Rightarrow> (u8 list \<times> u8 list \<times> u8 list) res" where
  "readline cwd_cache keys count b out =
     bind_res (ASSERT (count > 0) ''buf != NULL && count > 0'') (\<lambda>_. readline_loop cwd_cache keys count 0 b out)"

section \<open>Splitting a line into words\<close>

function skip_tokens :: "u8 list \<Rightarrow> u8 \<Rightarrow> nat \<Rightarrow> nat res" where
  "skip_tokens b token next =
     bind_res (load b next) (\<lambda>c. if c = token then skip_tokens b token (next + 1) else Inr next)"
  by pat_completeness auto
termination by (relation "measure (\<lambda>(b, t, i). length b - i)") (auto simp: load_eq_Inr)

function skip_word :: "u8 list \<Rightarrow> u8 \<Rightarrow> nat \<Rightarrow> nat res" where
  "skip_word b token next =
     bind_res (load b next) (\<lambda>c. if c \<noteq> 0 \<and> c \<noteq> token then skip_word b token (next + 1) else Inr next)"
  by pat_completeness auto
termination by (relation "measure (\<lambda>(b, t, i). length b - i)") (auto simp: load_eq_Inr)

declare skip_tokens.simps [simp del] skip_word.simps [simp del]

lemma skip_tokens_le: "skip_tokens b t i = Inr j \<Longrightarrow> i \<le> j \<and> j < length b \<and> b ! j \<noteq> t"
proof (induction b t i rule: skip_tokens.induct)
  case (1 b t i)
  from 1(2) obtain c where c: "load b i = Inr c" by (subst (asm) skip_tokens.simps) (auto simp: bind_res_eq_Inr)
  show ?case
  proof (cases "c = t")
    case True
    then show ?thesis using 1(1) [OF c] 1(2) c by (subst (asm) (2) skip_tokens.simps) auto
  next
    case False
    then show ?thesis using 1(2) c by (subst (asm) skip_tokens.simps) (auto simp: load_eq_Inr)
  qed
qed

lemma skip_word_le: "skip_word b t i = Inr j \<Longrightarrow> i \<le> j \<and> j < length b \<and> (b ! j = 0 \<or> b ! j = t)"
proof (induction b t i rule: skip_word.induct)
  case (1 b t i)
  from 1(2) obtain c where c: "load b i = Inr c" by (subst (asm) skip_word.simps) (auto simp: bind_res_eq_Inr)
  show ?case
  proof (cases "c \<noteq> 0 \<and> c \<noteq> t")
    case True
    then show ?thesis using 1(1) [OF c] 1(2) c by (subst (asm) (2) skip_word.simps) auto
  next
    case False
    then show ?thesis using 1(2) c by (subst (asm) skip_word.simps) (auto simp: load_eq_Inr)
  qed
qed

text \<open>A word starts at a byte that is not the token and not 0, so the end of the word lies behind its start.\<close>

lemma skip_word_less:
  assumes "skip_word b t i = Inr j" and "i < length b" and "b ! i \<noteq> 0" and "b ! i \<noteq> t"
  shows "i < j"
  using assms skip_word_le [OF assms(1)] by (cases "i = j") auto

function parse_loop ::
  "u8 \<Rightarrow> nat \<Rightarrow> nat option list \<Rightarrow> nat \<Rightarrow> u8 list \<Rightarrow> (int \<times> nat option list \<times> u8 list) res" where
  "parse_loop token next argv argc b =
     bind_res (load b next) (\<lambda>c.
     if c \<noteq> 0 then
       bind_res (skip_tokens b token next) (\<lambda>start.
       if b ! start = 0 then Inr (int argc, argv, b)
       else
         bind_res (store argv argc (Some start)) (\<lambda>argv.
         bind_res (skip_word b token start) (\<lambda>e.
         let (b', next) = (if b ! e \<noteq> 0 then (b[e := 0], e + 1) else (b, e)) in
         if argc > MAX_ARG_NR then Inr (-1, argv, b') else parse_loop token next argv (argc + 1) b')))
     else Inr (int argc, argv, b))"
  by pat_completeness auto
termination
proof (relation "measure (\<lambda>(t, i, argv, n, b). length b - i)", goal_cases)
  case (2 token "next" argv argc b c start argv' e p b' next')
  have s: "next \<le> start" "start < length b" "b ! start \<noteq> token" using skip_tokens_le [OF 2(3)] by simp_all
  have "start < e" using skip_word_less [OF 2(6) s(2)] 2(4) s(3) by simp
  moreover have "e < length b" using skip_word_le [OF 2(6)] by simp
  moreover have "e \<le> next'" "length b' = length b" using 2(7,8) by (auto split: if_splits)
  ultimately show ?case using s by simp
qed simp

declare parse_loop.simps [simp del]

definition cmd_parse :: "nat \<Rightarrow> u8 \<Rightarrow> u8 list \<Rightarrow> (int \<times> nat option list \<times> u8 list) res" where
  "cmd_parse cmd_str token b = parse_loop token cmd_str (replicate MAX_ARG_NR None) 0 b"

section \<open>The line editor\<close>

text \<open>
  What the keys up to the next Enter make of a line: backspace takes the last character away, ctrl-u
  all of them, ctrl-l none, every other key appends one. \<open>None\<close>: no Enter, or the line gets as long
  as the buffer.
\<close>

fun edited :: "nat \<Rightarrow> u8 list \<Rightarrow> u8 list \<Rightarrow> (u8 list \<times> u8 list) option" where
  "edited count line [] = None"
| "edited count line (k # keys) =
     (if count \<le> length line then None
      else if k = 10 \<or> k = 13 then Some (line, keys)
      else if k = 8 then edited count (butlast line) keys
      else if k = 11 then edited count line keys
      else if k = 20 then edited count [] keys
      else edited count (line @ [k]) keys)"

lemma vsprintf_text: "list_all (\<lambda>c. c \<noteq> 0 \<and> c \<noteq> 37) w \<Longrightarrow>
    vsprintf (w @ f) ap = bind_res (vsprintf f ap) (\<lambda>r. Inr (w @ r))"
proof (induction w)
  case Nil
  then show ?case by (cases "vsprintf f ap") simp_all
next
  case (Cons c w)
  then show ?case by (simp add: bind_res_assoc)
qed

lemma print_prompt_cstr:
  assumes "0 \<notin> set w"
  shows "print_prompt (cstr w r) = Inr (bytes_of ''[rabbit@localhost '' @ w @ bytes_of '']$ '')"
proof -
  have t: "bytes_of ''[rabbit@localhost %s]$ '' @ [0] = bytes_of ''[rabbit@localhost '' @ 37 # 115 # bytes_of '']$ '' @ [0]"
    by (simp add: bytes_of_def)
  have p: "list_all (\<lambda>c. c \<noteq> 0 \<and> c \<noteq> 37) (bytes_of ''[rabbit@localhost '')" "list_all (\<lambda>c. c \<noteq> 0 \<and> c \<noteq> 37) (bytes_of '']$ '')"
    by (simp_all add: bytes_of_def)
  show ?thesis
    unfolding print_prompt_def t vsprintf_text [OF p(1)]
    using vsprintf_text [OF p(2), of "[0]" "[]"] assms by simp
qed

lemma strlen_ex: "0 \<in> set b \<Longrightarrow> \<exists>n. strlen b = Inr n"
  by (induction b) auto

lemma erase_line_eq:
  "p < length b \<Longrightarrow> \<exists>b' out'. erase_line p b out = Inr (b', out') \<and> length b' = length b"
proof (induction p arbitrary: b out)
  case (Suc p)
  then show ?case using Suc.IH [of "b[Suc p := 0]" "out @ [8]"] by simp
qed simp

lemma take_Suc_upd: "n < length b \<Longrightarrow> take (Suc n) (b[n := c]) = take n b @ [c]"
  by (simp add: take_Suc_conv_app_nth)

lemma readline_loop_edits:
  assumes "edited count line keys = Some (line', keys')" and "count = cmd_len" and "0 \<notin> set w"
    and "length b = cmd_len" and "take (length line) b = line" and "8 \<notin> set line"
  shows "\<exists>b' out'. readline_loop (cstr w r) keys count (length line) b out = Inr (keys', b', out') \<and>
     length b' = cmd_len \<and> take (Suc (length line')) b' = line' @ [0]"
  using assms
proof (induction count line keys arbitrary: b out rule: edited.induct)
  case (2 count line k keys)
  let ?n = "length line" and ?b = "b[length line := k]"
  have n1: "?n < count" using "2.prems"(1) by (cases "count \<le> length line") simp_all
  then have n: "?n < count" "?n < length b" using "2.prems"(2,4) by simp_all
  have tk: "take ?n ?b = line" "take (Suc ?n) ?b = line @ [k]" "length ?b = cmd_len"
    using "2.prems"(4,5) n by (simp_all add: take_Suc_upd)
  have st: "store b ?n k = Inr ?b" using n by simp
  consider (enter) "k = 10 \<or> k = 13" | (bs) "k = 8" | (clr) "k = 11" | (kill) "k = 20"
    | (char) "k \<noteq> 10" "k \<noteq> 13" "k \<noteq> 8" "k \<noteq> 11" "k \<noteq> 20" by blast
  then show ?case
  proof cases
    case enter
    then show ?thesis using "2.prems"(1,4,5) n st by (auto simp: take_Suc_upd)
  next
    case bs
    show ?thesis
    proof (cases "line = []")
      case True
      have b0: "?b ! 0 = 8" "0 < length ?b" using True n bs by simp_all
      have "\<exists>b' out'. readline_loop (cstr w r) keys count (length (butlast line)) ?b out = Inr (keys', b', out') \<and>
          length b' = cmd_len \<and> take (Suc (length line')) b' = line' @ [0]"
        by (rule "2.IH"(1)) (use "2.prems" n bs True tk in auto)
      then show ?thesis using True bs st b0 n by simp
    next
      case False
      then have "?b ! 0 = line ! 0" using "2.prems"(5) n by (metis length_greater_0_conv nth_take tk(1))
      then have b0: "?b ! 0 \<noteq> 8" "0 < length ?b" using False "2.prems"(6) n by (auto simp: in_set_conv_nth)
      have "take (length (butlast line)) ?b = butlast line" using tk(1) False by (metis butlast_conv_take length_butlast nat_le_linear take_all_iff take_butlast take_take min.absorb1 diff_le_self)
      then have "\<exists>b' out'. readline_loop (cstr w r) keys count (length (butlast line)) ?b (out @ [8]) = Inr (keys', b', out') \<and>
          length b' = cmd_len \<and> take (Suc (length line')) b' = line' @ [0]"
        by (intro "2.IH"(1)) (use "2.prems" n bs tk in \<open>auto dest: in_set_butlastD\<close>)
      then show ?thesis using False bs st b0 n by simp
    qed
  next
    case clr
    let ?b0 = "?b[?n := 0]"
    have z: "0 \<in> set ?b0" using n by (simp add: set_update_memI)
    obtain m where m: "strlen ?b0 = Inr m" using strlen_ex [OF z] by blast
    have "take ?n ?b0 = line" using tk(1) by simp
    then have "\<exists>b' out'. readline_loop (cstr w r) keys count (length line) ?b0
          ((bytes_of ''[rabbit@localhost '' @ w @ bytes_of '']$ '') @ take m ?b0) = Inr (keys', b', out') \<and>
        length b' = cmd_len \<and> take (Suc (length line')) b' = line' @ [0]"
      by (intro "2.IH"(2)) (use "2.prems" n clr in auto)
    then show ?thesis using clr st n m print_prompt_cstr [OF "2.prems"(3), of r] by simp
  next
    case kill
    obtain b1 out1 where e: "erase_line ?n ?b out = Inr (b1, out1)" "length b1 = length ?b"
      using erase_line_eq [of ?n ?b out] n by auto
    have "\<exists>b' out'. readline_loop (cstr w r) keys count (length ([] :: u8 list)) b1 out1 = Inr (keys', b', out') \<and>
        length b' = cmd_len \<and> take (Suc (length line')) b' = line' @ [0]"
      by (rule "2.IH"(3)) (use "2.prems" n kill e tk in auto)
    then show ?thesis using kill st n e by simp
  next
    case char
    have "\<exists>b' out'. readline_loop (cstr w r) keys count (length (line @ [k])) ?b (out @ [k]) = Inr (keys', b', out') \<and>
        length b' = cmd_len \<and> take (Suc (length line')) b' = line' @ [0]"
      by (rule "2.IH"(4)) (use "2.prems" n char tk in auto)
    then show ?thesis using char st n by simp
  qed
qed simp

text \<open>C32: Line editing: \<^verbatim>\<open>readline\<close> leaves in the buffer the line that the keys up to Enter make
  (backspace, ctrl-u and ctrl-l included), with a terminator, and consumes exactly these keys, as long
  as the line stays shorter than the buffer.\<close>

theorem readline_edits:
  assumes "edited cmd_len [] keys = Some (line, keys')" and "0 \<notin> set w" and "length b = cmd_len"
  shows "\<exists>b' out'. readline (cstr w r) keys cmd_len b out = Inr (keys', b', out') \<and>
     length b' = cmd_len \<and> take (length line + 1) b' = line @ [0]"
  using readline_loop_edits [OF assms(1) refl assms(2,3), of r out] by (simp add: readline_def cmd_len_def)

theorem readline_edits_witness:
  "\<exists>b' out'. readline [47, 0] [108, 116, 8, 115, 10, 97] cmd_len (replicate 128 0) [] = Inr ([97], b', out') \<and>
     length b' = cmd_len \<and> take (Suc (Suc (Suc 0))) b' = [108, 115, 0]"
  using readline_edits [of "[108, 116, 8, 115, 10, 97]" "[108, 115]" "[97]" "[47]" "replicate 128 0" "[]" "[]"]
  by (simp add: cmd_len_def)

text \<open>The bound is tested after \<^verbatim>\<open>read\<close> has stored its byte: the 129th character is stored behind the buffer.\<close>

lemma readline_fills:
  assumes "list_all (\<lambda>k. k \<notin> {8, 10, 11, 13, 20}) keys" and "length b = cmd_len" and "n \<le> cmd_len"
    and "cmd_len < n + length keys"
  shows "readline_loop cwd keys cmd_len n b out = Inl Bad_Access"
  using assms
proof (induction keys arbitrary: n b out)
  case (Cons k keys)
  show ?case
  proof (cases "n < cmd_len")
    case True
    have "readline_loop cwd keys cmd_len (n + 1) (b[n := k]) (out @ [k]) = Inl Bad_Access"
      by (rule Cons.IH) (use Cons.prems True in auto)
    then show ?thesis using True Cons.prems by simp
  next
    case False
    then show ?thesis using Cons.prems by (simp add: store_def)
  qed
qed simp

lemma readline_overflow:
  assumes "list_all (\<lambda>k. k \<notin> {8, 10, 11, 13, 20}) keys" and "length b = cmd_len" and "cmd_len < length keys"
  shows "readline cwd keys cmd_len b out = Inl Bad_Access"
  using readline_fills [OF assms(1,2), of 0] assms(3) by (simp add: readline_def cmd_len_def)


section \<open>The words of a line\<close>

fun split_at :: "u8 \<Rightarrow> u8 list \<Rightarrow> u8 list list" where
  "split_at t [] = [[]]"
| "split_at t (c # s) =
     (if c = t then [] # split_at t s else (c # hd (split_at t s)) # tl (split_at t s))"

definition words_of :: "u8 \<Rightarrow> u8 list \<Rightarrow> u8 list list" where
  "words_of t s = filter (\<lambda>w. w \<noteq> []) (split_at t s)"

lemma split_at_ne: "split_at t s \<noteq> []"
  by (cases s) simp_all

lemma split_at_word: "t \<notin> set w \<Longrightarrow> split_at t w = [w]"
  by (induction w) auto

lemma split_at_app: "t \<notin> set w \<Longrightarrow> split_at t (w @ t # s) = w # split_at t s"
  by (induction w) auto

lemma words_of_simps:
  "words_of t [] = []" "words_of t (t # s) = words_of t s"
  "t \<notin> set w \<Longrightarrow> w \<noteq> [] \<Longrightarrow> words_of t w = [w]"
  "t \<notin> set w \<Longrightarrow> w \<noteq> [] \<Longrightarrow> words_of t (w @ t # s) = w # words_of t s"
  by (simp_all add: words_of_def split_at_word split_at_app)

lemma words_of_tokens: "words_of t (replicate k t @ s) = words_of t s"
  by (induction k) (simp_all add: words_of_simps)

lemma skip_tokens_eq: "c \<noteq> t \<Longrightarrow> skip_tokens (pre @ replicate k t @ c # s) t (length pre) = Inr (length pre + k)"
proof (induction k arbitrary: pre)
  case 0
  then show ?case by (subst skip_tokens.simps) (simp add: nth_append)
next
  case (Suc k)
  then show ?case using Suc.IH [of "pre @ [t]"] by (subst skip_tokens.simps) (simp add: nth_append)
qed

lemma skip_word_eq:
  "0 \<notin> set w \<Longrightarrow> t \<notin> set w \<Longrightarrow> c = 0 \<or> c = t \<Longrightarrow> skip_word (pre @ w @ c # s) t (length pre) = Inr (length pre + length w)"
proof (induction w arbitrary: pre)
  case Nil
  then show ?case by (subst skip_word.simps) (auto simp: nth_append)
next
  case (Cons a w)
  then show ?case using Cons.IH [of "pre @ [a]"] by (subst skip_word.simps) (auto simp: nth_append)
qed

text \<open>The pieces of a line: leading tokens, then nothing or a word, and behind it nothing or a token.\<close>

lemma line_cases:
  obtains (blank) k where "s = replicate k t"
  | (last) k w where "s = replicate k t @ w" "w \<noteq> []" "t \<notin> set w"
  | (more) k w s' where "s = replicate k t @ w @ t # s'" "w \<noteq> []" "t \<notin> set w"
proof -
  define k r where "k = length (takeWhile (\<lambda>c. c = t) s)" and "r = dropWhile (\<lambda>c. c = t) s"
  define w q where "w = takeWhile (\<lambda>c. c \<noteq> t) r" and "q = dropWhile (\<lambda>c. c \<noteq> t) r"
  have "takeWhile (\<lambda>c. c = t) s = replicate k t"
    unfolding k_def by (rule replicate_length_same [symmetric]) (auto dest: set_takeWhileD)
  then have s: "s = replicate k t @ r" using takeWhile_dropWhile_id [of "\<lambda>c. c = t" s] by (simp add: r_def)
  have r: "r = w @ q" by (simp add: w_def q_def)
  have nt: "t \<notin> set w" by (auto simp: w_def dest: set_takeWhileD)
  have hr: "hd r \<noteq> t" if "r \<noteq> []" using that hd_dropWhile [of "\<lambda>c. c = t" s] by (simp add: r_def)
  have hq: "hd q = t" if "q \<noteq> []" using that hd_dropWhile [of "\<lambda>c. c \<noteq> t" r] by (simp add: q_def)
  show thesis
  proof (cases "r = []")
    case True
    then show thesis using blank [of k] s by simp
  next
    case False
    then have w: "w \<noteq> []" using hr by (cases r) (simp_all add: w_def)
    show thesis
    proof (cases q)
      case Nil
      then show thesis using last [of k w] s r w nt by simp
    next
      case (Cons d q')
      then show thesis using more [of k w q'] s r w nt hq by simp
    qed
  qed
qed

text \<open>\<open>args_at argv n b ws\<close>: from entry \<open>n\<close> on, \<^verbatim>\<open>argv\<close> points at the strings \<open>ws\<close> in \<open>b\<close>.\<close>

definition string_at :: "u8 list \<Rightarrow> nat \<Rightarrow> u8 list \<Rightarrow> bool" where
  "string_at b p w \<longleftrightarrow> take (length w + 1) (drop p b) = w @ [0]"

fun args_at :: "nat option list \<Rightarrow> nat \<Rightarrow> u8 list \<Rightarrow> u8 list list \<Rightarrow> bool" where
  "args_at argv n b [] \<longleftrightarrow> True"
| "args_at argv n b (w # ws) \<longleftrightarrow>
     (case argv ! n of None \<Rightarrow> False | Some p \<Rightarrow> string_at b p w) \<and> args_at argv (Suc n) b ws"

lemma string_at_app: "string_at (pre @ w @ 0 # r) (length pre) w"
  by (simp add: string_at_def)

text \<open>One round of the loop: tokens, a word and the byte behind it.\<close>

lemma parse_loop_word:
  assumes "w \<noteq> []" and "t \<notin> set w" and "0 \<notin> set w" and "t \<noteq> 0" and "c = 0 \<or> c = t"
    and "argc < length argv" and "length argv = MAX_ARG_NR"
  shows "parse_loop t (length pre) argv argc (pre @ replicate k t @ w @ c # s) =
     parse_loop t (length pre + k + length w + (if c = 0 then 0 else 1)) (argv[argc := Some (length pre + k)]) (argc + 1)
       (pre @ replicate k t @ w @ 0 # s)"
proof -
  obtain a w' where w: "w = a # w'" "a \<noteq> 0" "a \<noteq> t" using assms(1-3) by (cases w) auto
  let ?b = "pre @ replicate k t @ w @ c # s"
  have l: "load ?b (length pre) = Inr (if k = 0 then a else t)"
    using w by (cases k) (simp_all add: load_def nth_append)
  have s1: "skip_tokens ?b t (length pre) = Inr (length pre + k)"
    using skip_tokens_eq [of a t pre k "w' @ c # s"] w by simp
  have b1: "?b ! (length pre + k) = a" using w by (simp add: nth_append)
  have s2: "skip_word ?b t (length pre + k) = Inr (length pre + k + length w)"
    using skip_word_eq [of w t c "pre @ replicate k t" s] assms(2,3,5) by simp
  have b2: "?b ! (length pre + k + length w) = c" by (simp add: nth_append)
  have u: "?b[length pre + k + length w := 0] = pre @ replicate k t @ w @ 0 # s"
    by (simp add: list_update_append)
  have m: "\<not> argc > MAX_ARG_NR" "store argv argc (Some (length pre + k)) = Inr (argv[argc := Some (length pre + k)])"
    using assms(6,7) by simp_all
  show ?thesis
    by (subst parse_loop.simps)
      (use l s1 b1 s2 b2 u m w assms(4) in \<open>simp add: Let_def split: if_splits\<close>)
qed

lemma parse_loop_words:
  assumes "0 \<notin> set s" and "t \<noteq> 0" and "length argv = MAX_ARG_NR" and "argc + length (words_of t s) \<le> MAX_ARG_NR"
  shows "\<exists>argv' s'. parse_loop t (length pre) argv argc (pre @ s @ 0 # r) =
       Inr (int (argc + length (words_of t s)), argv', pre @ s' @ 0 # r) \<and> length s' = length s \<and>
     length argv' = MAX_ARG_NR \<and> take argc argv' = take argc argv \<and>
     drop (argc + length (words_of t s)) argv' = drop (argc + length (words_of t s)) argv \<and>
     args_at argv' argc (pre @ s' @ 0 # r) (words_of t s)"
  using assms
proof (induction "length s" arbitrary: s pre argv argc rule: less_induct)
  case less
  show ?case
  proof (cases rule: line_cases [of s t])
    case (blank k)
    then have ws: "words_of t s = []" using words_of_tokens [of t k "[]"] by (simp add: words_of_simps)
    have "parse_loop t (length pre) argv argc (pre @ s @ 0 # r) = Inr (int argc, argv, pre @ s @ 0 # r)"
    proof (cases k)
      case 0
      then show ?thesis using blank by (subst parse_loop.simps) (simp add: nth_append)
    next
      case (Suc n)
      have "skip_tokens (pre @ s @ 0 # r) t (length pre) = Inr (length pre + k)"
        using skip_tokens_eq [of 0 t pre k r] blank less.prems(2) by simp
      moreover have "(pre @ s @ 0 # r) ! (length pre + k) = 0" using blank by (simp add: nth_append)
      moreover have "load (pre @ s @ 0 # r) (length pre) = Inr t" using blank Suc by (simp add: load_def nth_append)
      ultimately show ?thesis using less.prems(2) by (subst parse_loop.simps) simp
    qed
    then show ?thesis using ws less.prems(3) by auto
  next
    case (last k w)
    have ws: "words_of t s = [w]" using words_of_tokens [of t k w] last by (simp add: words_of_simps)
    have z: "0 \<notin> set w" using less.prems(1) last by simp
    have n: "argc < length argv" using less.prems(3,4) ws by simp
    have "parse_loop t (length pre) argv argc (pre @ s @ 0 # r) =
        parse_loop t (length pre + k + length w) (argv[argc := Some (length pre + k)]) (argc + 1) (pre @ s @ 0 # r)"
      using parse_loop_word [OF last(2,3) z less.prems(2) _ n less.prems(3), of 0 pre k r] last(1) by simp
    also have "\<dots> = Inr (int (argc + 1), argv[argc := Some (length pre + k)], pre @ s @ 0 # r)"
      using last(1) by (subst parse_loop.simps) (simp add: load_def nth_append)
    finally show ?thesis using ws less.prems(3) n last(1) string_at_app [of "pre @ replicate k t" w r] by auto
  next
    case (more k w s')
    let ?pre = "pre @ replicate k t @ w @ [0]" and ?argv = "argv[argc := Some (length pre + k)]"
    have ws: "words_of t s = w # words_of t s'" using words_of_tokens [of t k "w @ t # s'"] more by (simp add: words_of_simps)
    have z: "0 \<notin> set w" "0 \<notin> set s'" using less.prems(1) more by simp_all
    have n: "argc < length argv" using less.prems(3,4) ws by simp
    have step: "parse_loop t (length pre) argv argc (pre @ s @ 0 # r) =
        parse_loop t (length ?pre) ?argv (argc + 1) (?pre @ s' @ 0 # r)"
      using parse_loop_word [OF more(2,3) z(1) less.prems(2) _ n less.prems(3), of t pre k "s' @ 0 # r"] more(1) less.prems(2)
      by (simp add: add.assoc)
    have "length s' < length s" "argc + 1 + length (words_of t s') \<le> MAX_ARG_NR" "length ?argv = MAX_ARG_NR"
      using more(1) less.prems(3,4) ws by simp_all
    from less.hyps [OF this(1) z(2) less.prems(2) this(3) this(2), of ?pre] obtain argv' s'' where
      p: "parse_loop t (length ?pre) ?argv (argc + 1) (?pre @ s' @ 0 # r) =
         Inr (int (argc + 1 + length (words_of t s')), argv', ?pre @ s'' @ 0 # r)" "length s'' = length s'"
        "length argv' = MAX_ARG_NR" "take (argc + 1) argv' = take (argc + 1) ?argv"
        "drop (argc + 1 + length (words_of t s')) argv' = drop (argc + 1 + length (words_of t s')) ?argv"
        "args_at argv' (argc + 1) (?pre @ s'' @ 0 # r) (words_of t s')" by blast
    have a: "argv' ! argc = Some (length pre + k)" 
      using arg_cong [OF p(4), of "\<lambda>l. l ! argc"] n by simp
    have tk: "take argc argv' = take argc argv"
      using arg_cong [OF p(4), of "take argc"] by (simp add: min_def)
    show ?thesis
      by (rule exI [of _ argv'], rule exI [of _ "replicate k t @ w @ 0 # s''"])
        (use step p a tk ws more(1) string_at_app [of "pre @ replicate k t" w "s'' @ 0 # r"] in auto)
  qed
qed

text \<open>C23: Words: on a line with at most 16 words \<^verbatim>\<open>cmd_parse\<close> returns their number, \<^verbatim>\<open>argv\<close> points at
  them in order, each cut out as a string in the line, and the other entries are \<^verbatim>\<open>NULL\<close>; the bytes
  before and behind the line are left alone.\<close>

theorem cmd_parse_words:
  assumes "0 \<notin> set s" and "t \<noteq> 0" and "length (words_of t s) \<le> MAX_ARG_NR"
  shows "\<exists>argv s'. cmd_parse (length pre) t (pre @ s @ 0 # r) =
       Inr (int (length (words_of t s)), argv, pre @ s' @ 0 # r) \<and> length s' = length s \<and>
     args_at argv 0 (pre @ s' @ 0 # r) (words_of t s) \<and>
     drop (length (words_of t s)) argv = replicate (MAX_ARG_NR - length (words_of t s)) None"
  using parse_loop_words [OF assms(1,2), of "replicate MAX_ARG_NR None" 0 pre r] assms(3)
  by (auto simp: cmd_parse_def)

theorem cmd_parse_words_witness:
  "\<exists>argv s'. cmd_parse 1 32 [7, 32, 108, 115, 32, 32, 45, 108, 32, 0, 9] = Inr (2, argv, 7 # s' @ [0, 9]) \<and>
     length s' = length [32, 108, 115, 32, 32, 45, 108, 32 :: u8] \<and> args_at argv 0 (7 # s' @ [0, 9]) [[108, 115], [45, 108]] \<and> drop (Suc (Suc 0)) argv = replicate 14 None"
  using cmd_parse_words [of "[32, 108, 115, 32, 32, 45, 108, 32]" 32 "[7]" "[9]"]
  by (simp add: words_of_def MAX_ARG_NR_def)

text \<open>With more words the 17th pointer is stored behind \<^verbatim>\<open>argv\<close> before the count is tested.\<close>

lemma cmd_parse_overflow:
  "cmd_parse 0 32 (concat (replicate 17 [97, 32]) @ [0]) = Inl Bad_Access"
  by code_simp

end
