(* ===== verification/Shell.thy ===== *)
theory Shell
  imports Fs CmdLine
begin

text \<open>
  The shell: cleaning up path names and the built-in commands of \<^verbatim>\<open>shell/buildin_cmd.c\<close>, and the main loop
  of \<^verbatim>\<open>shell/shell.c\<close>.

  The state \<open>shell\<close> holds the global buffers, what was sent to the console since it was cleared, and the
  state of the file system behind the system calls. An entry of \<^verbatim>\<open>argv\<close> points into \<^verbatim>\<open>cmd_line\<close> or at
  \<^verbatim>\<open>final_path\<close>. What lies outside is collected in \<open>env\<close>: the result of \<^verbatim>\<open>fork\<close> in the parent, what a
  program loaded by \<^verbatim>\<open>execv\<close> does until it exits (its exit status, its console output and the file system it
  leaves), what \<^verbatim>\<open>ps\<close> and \<^verbatim>\<open>help\<close> print, the page a pipe gets and the uninitialised locals of the
  file system calls. A failing \<^verbatim>\<open>assert\<close> (\<^verbatim>\<open>user_spin\<close>) is \<open>Panic\<close>. A loop that does not end is
  \<open>None\<close>, which the commands report as \<open>Diverges\<close>.
\<close>

section \<open>Path names\<close>

definition dotdot_name :: "u8 list" where "dotdot_name = [46, 46, 0]"
definition dot_name :: "u8 list" where "dot_name = [46, 0]"
definition slash_str :: "u8 list" where "slash_str = [47, 0]"

text \<open>What one name does to the path built so far.\<close>

definition wash_name :: "u8 list \<Rightarrow> u8 list \<Rightarrow> u8 list res" where
  "wash_name name new_abs_path =
     bind_res (strcmp dotdot_name name) (\<lambda>up.
     if up = 0 then
       bind_res (strrchr new_abs_path 47) (\<lambda>slash_ptr.
       case slash_ptr of
         None \<Rightarrow> Inl Bad_Access
       | Some i \<Rightarrow> if i \<noteq> 0 then store new_abs_path i 0 else store new_abs_path (i + 1) 0)
     else
       bind_res (strcmp dot_name name) (\<lambda>here.
       if here \<noteq> 0 then
         bind_res (strcmp new_abs_path slash_str) (\<lambda>root.
         bind_res (if root \<noteq> 0 then strcat new_abs_path slash_str else Inr new_abs_path) (\<lambda>new_abs_path.
         strcat new_abs_path name))
       else Inr new_abs_path))"

text \<open>With \<^verbatim>\<open>sub_path\<close> \<^verbatim>\<open>NULL\<close> the cleared name ends the loop.\<close>

function wash_loop :: "u8 list option \<Rightarrow> u8 list \<Rightarrow> u8 list \<Rightarrow> u8 list res" where
  "wash_loop sub_path name new_abs_path =
     bind_res (load name 0) (\<lambda>c.
     if c \<noteq> 0 then
       bind_res (wash_name name new_abs_path) (\<lambda>new_abs_path.
       case sub_path of
         None \<Rightarrow> Inr new_abs_path
       | Some p \<Rightarrow> bind_res (path_parse p zero_name) (\<lambda>(sub_path, name). wash_loop sub_path name new_abs_path))
     else Inr new_abs_path)"
  by pat_completeness auto
termination
proof (relation "measure (\<lambda>(p, name, d). case p of None \<Rightarrow> 0 | Some q \<Rightarrow> length q + 1)", goal_cases)
  case (2 p name d c d' q x r name')
  then show ?case using path_parse_shorter [of q zero_name _ name'] by (auto split: option.splits)
qed simp

declare wash_loop.simps [simp del]

definition wash_path :: "u8 list \<Rightarrow> u8 list \<Rightarrow> u8 list res" where
  "wash_path old_abs_path new_abs_path =
     bind_res (load old_abs_path 0) (\<lambda>c.
     bind_res (ASSERT (c = 47) (''old_abs_path[0] == '' @ [CHR 0x27, CHR 0x2F, CHR 0x27])) (\<lambda>_.
     bind_res (path_parse old_abs_path zero_name) (\<lambda>(sub_path, name).
     bind_res (load name 0) (\<lambda>c.
     if c = 0 then
       bind_res (store new_abs_path 0 47) (\<lambda>new_abs_path. store new_abs_path 1 0)
     else
       bind_res (store new_abs_path 0 0) (\<lambda>new_abs_path.
       bind_res (strcat new_abs_path slash_str) (\<lambda>new_abs_path.
       wash_loop sub_path name new_abs_path))))))"

text \<open>\<open>getcwd\<close> reads the working directory; \<open>final_path\<close> is the caller's buffer.\<close>

definition make_clear_abs_path :: "u8 list \<Rightarrow> u8 list \<Rightarrow> fsys \<Rightarrow> (u8 list \<times> fsys) res" where
  "make_clear_abs_path path final_path s =
     bind_res (load path 0) (\<lambda>c.
     bind_res
       (if c \<noteq> 47 then
          bind_res (sys_getcwd (replicate MAX_PATH_LEN 0) (of_nat MAX_PATH_LEN) s) (\<lambda>(r, s).
          case r of
            None \<Rightarrow> Inr (replicate MAX_PATH_LEN 0, s)
          | Some abs_path \<Rightarrow>
              if \<not> (abs_path ! 0 = 47 \<and> abs_path ! 1 = 0)
              then bind_res (strcat abs_path slash_str) (\<lambda>abs_path. Inr (abs_path, s))
              else Inr (abs_path, s))
        else Inr (replicate MAX_PATH_LEN 0, s)) (\<lambda>(abs_path, s).
     bind_res (strcat abs_path path) (\<lambda>abs_path.
     bind_res (wash_path abs_path final_path) (\<lambda>final_path. Inr (final_path, s)))))"

section \<open>State and output\<close>

datatype argptr = Cmd nat | Final

record shell =
  cmd_line :: "u8 list"
  cwd_cache :: "u8 list"
  final_path :: "u8 list"
  argv :: "argptr option list"
  out :: "u8 list"
  sfs :: fsys

record env =
  fork_ret :: int
  program :: "u8 list list \<Rightarrow> fsys \<Rightarrow> (u8 \<times> u8 list \<times> fsys) res"
  ps_text :: "u8 list"
  help_text :: "u8 list"
  pipe_page :: ptr
  junk_name0 :: "u8 list"
  junk_name1 :: "u8 list"
  junk_de :: dir_entry

text \<open>\<^verbatim>\<open>printf\<close> of \<^verbatim>\<open>lib/stdio.c\<close>: a buffer of 1024 bytes, written to descriptor 1. \<open>say\<close> is a format
  and a line feed.\<close>

definition printf :: "u8 list \<Rightarrow> vararg list \<Rightarrow> shell \<Rightarrow> shell res" where
  "printf fmt args sh =
     bind_res (vsprintf (fmt @ [0]) args) (\<lambda>txt.
     bind_res (memcpy (replicate 1024 0) txt (length txt)) (\<lambda>b.
     bind_res (strlen b) (\<lambda>n.
     bind_res (sys_write 1 (take n b) (sfs sh)) (\<lambda>(r, con, s).
     Inr (sh\<lparr>sfs := s, out := out sh @ con\<rparr>)))))"

definition say :: "string \<Rightarrow> vararg list \<Rightarrow> shell \<Rightarrow> shell res" where
  "say txt args sh = printf (bytes_of txt @ [10]) args sh"

definition arg_bytes :: "argptr \<Rightarrow> shell \<Rightarrow> u8 list" where
  "arg_bytes p sh = (case p of Cmd i \<Rightarrow> drop i (cmd_line sh) | Final \<Rightarrow> final_path sh)"

text \<open>The string \<^verbatim>\<open>argv[i]\<close>; \<^verbatim>\<open>NULL\<close> fails the assertion of the string routine it is passed to.\<close>

definition arg :: "nat \<Rightarrow> shell \<Rightarrow> u8 list res" where
  "arg i sh =
     bind_res (load (argv sh) i) (\<lambda>p.
     case p of None \<Rightarrow> Inl (Panic ''a != NULL && b != NULL'') | Some p \<Rightarrow> Inr (arg_bytes p sh))"

definition set_final :: "u8 list \<Rightarrow> shell \<Rightarrow> shell res" where
  "set_final path sh =
     bind_res (make_clear_abs_path path (final_path sh) (sfs sh)) (\<lambda>(fp, s).
     Inr (sh\<lparr>final_path := fp, sfs := s\<rparr>))"

definition getcwd_final :: "shell \<Rightarrow> (bool \<times> shell) res" where
  "getcwd_final sh =
     bind_res (sys_getcwd (final_path sh) (of_nat MAX_PATH_LEN) (sfs sh)) (\<lambda>(r, s).
     case r of None \<Rightarrow> Inr (False, sh\<lparr>sfs := s\<rparr>) | Some fp \<Rightarrow> Inr (True, sh\<lparr>final_path := fp, sfs := s\<rparr>))"

section \<open>Built-in commands\<close>

definition buildin_pwd :: "nat \<Rightarrow> shell \<Rightarrow> shell res" where
  "buildin_pwd argc sh =
     (if argc \<noteq> 1 then say ''pwd: no argument support!'' [] sh
      else
        bind_res (getcwd_final sh) (\<lambda>(ok, sh).
        if ok then say ''%s'' [Arg_Str (final_path sh)] sh
        else say ''pwd: get current work directory failed.'' [] sh))"

text \<open>The result is whether the pointer returned is not \<^verbatim>\<open>NULL\<close>.\<close>

definition buildin_cd :: "env \<Rightarrow> nat \<Rightarrow> shell \<Rightarrow> (bool \<times> shell) res" where
  "buildin_cd e argc sh =
     (if argc > 2 then bind_res (say ''cd: only support 1 argument!'' [] sh) (\<lambda>sh. Inr (False, sh))
      else
        bind_res
          (if argc = 1 then
             bind_res (store (final_path sh) 0 47) (\<lambda>fp.
             bind_res (store fp 1 0) (\<lambda>fp. Inr (sh\<lparr>final_path := fp\<rparr>)))
           else bind_res (arg 1 sh) (\<lambda>path. set_final path sh)) (\<lambda>sh.
        bind_res (sys_chdir (junk_de e) (final_path sh) (sfs sh)) (\<lambda>(r, s).
        let sh = sh\<lparr>sfs := s\<rparr> in
        if r = -1 then bind_res (say ''cd: no such directory %s'' [Arg_Str (final_path sh)] sh) (\<lambda>sh. Inr (False, sh))
        else Inr (True, sh))))"

text \<open>The options of \<^verbatim>\<open>ls\<close>: \<open>None\<close> if the command ended, otherwise the option \<^verbatim>\<open>-l\<close> and the path.\<close>

fun ls_args :: "nat list \<Rightarrow> bool \<Rightarrow> u8 list option \<Rightarrow> shell \<Rightarrow> ((bool \<times> u8 list option) option \<times> shell) res" where
  "ls_args [] long_info pathname sh = Inr (Some (long_info, pathname), sh)"
| "ls_args (arg_idx # rest) long_info pathname sh =
     bind_res (arg arg_idx sh) (\<lambda>a.
     bind_res (load a 0) (\<lambda>c.
     if c = 45 then
       bind_res (strcmp (bytes_of ''-l'' @ [0]) a) (\<lambda>l.
       if l = 0 then ls_args rest True pathname sh
       else
         bind_res (strcmp (bytes_of ''-h'' @ [0]) a) (\<lambda>h.
         bind_res
           (if h = 0 then
              printf (bytes_of ''usage: -l list all infomation about the file.'' @ [10] @ bytes_of ''-h for help'' @ [10]
                @ bytes_of ''list all files in the current dirctory if no option'' @ [10]) [] sh
            else
              printf (bytes_of ''ls: invalid option %s'' @ [10] @ bytes_of ''Try `ls -h' for more information.'' @ [10])
                [Arg_Str a] sh) (\<lambda>sh.
         Inr (None, sh))))
     else
       (case pathname of
          None \<Rightarrow> ls_args rest long_info (Some a) sh
        | Some _ \<Rightarrow> bind_res (say ''ls: only support one path'' [] sh) (\<lambda>sh. Inr (None, sh)))))"

partial_function (option) ls_short_loop :: "ptr \<Rightarrow> shell \<Rightarrow> shell res option" where
  "ls_short_loop d sh =
     (case sys_readdir d (sfs sh) of
        Inl e \<Rightarrow> Some (Inl e)
      | Inr (None, s) \<Rightarrow> Some (Inr (sh\<lparr>sfs := s\<rparr>))
      | Inr (Some dir_e, s) \<Rightarrow>
          (case printf (bytes_of ''%s '') [Arg_Str (filename dir_e)] (sh\<lparr>sfs := s\<rparr>) of
             Inl e \<Rightarrow> Some (Inl e)
           | Inr sh \<Rightarrow> ls_short_loop d sh))"

definition empty_stat :: stat where
  "empty_stat = \<lparr>st_ino = 0, st_size = 0, st_filetype = 0\<rparr>"

text \<open>One line of \<^verbatim>\<open>ls -l\<close>; the result is whether the loop goes on. \<open>sub_pathname\<close> is the buffer,
  \<open>n\<close> the length of the directory's own name in it.\<close>

definition ls_long_entry :: "env \<Rightarrow> u8 list \<Rightarrow> nat \<Rightarrow> dir_entry \<Rightarrow> shell \<Rightarrow> (bool \<times> u8 list \<times> shell) res" where
  "ls_long_entry e sub_pathname n dir_e sh =
     bind_res (store sub_pathname n 0) (\<lambda>sp.
     bind_res (strcat sp (filename dir_e)) (\<lambda>sp.
     bind_res (sys_stat (junk_de e) sp empty_stat (sfs sh)) (\<lambda>(r, file_stat, s).
     let sh = sh\<lparr>sfs := s\<rparr> in
     if r = -1 then
       bind_res (say ''ls: cannot access %s: No such file or directory'' [Arg_Str (filename dir_e)] sh) (\<lambda>sh. Inr (False, sp, sh))
     else
       bind_res (say ''%c  %d  %d  %s''
         [Arg_Char (if f_type dir_e = FT_REGULAR then 45 else 100), Arg_Int (de_no dir_e), Arg_Int (st_size file_stat), Arg_Str (filename dir_e)] sh) (\<lambda>sh.
       Inr (True, sp, sh)))))"

text \<open>The result is whether the loop ended with the last entry (then the directory is closed).\<close>

partial_function (option) ls_long_loop :: "env \<Rightarrow> ptr \<Rightarrow> u8 list \<Rightarrow> nat \<Rightarrow> shell \<Rightarrow> (bool \<times> shell) res option" where
  "ls_long_loop e d sub_pathname n sh =
     (case sys_readdir d (sfs sh) of
        Inl x \<Rightarrow> Some (Inl x)
      | Inr (None, s) \<Rightarrow> Some (Inr (True, sh\<lparr>sfs := s\<rparr>))
      | Inr (Some dir_e, s) \<Rightarrow>
          (case ls_long_entry e sub_pathname n dir_e (sh\<lparr>sfs := s\<rparr>) of
             Inl x \<Rightarrow> Some (Inl x)
           | Inr (go_on, sp, sh) \<Rightarrow> if go_on then ls_long_loop e d sp n sh else Some (Inr (False, sh))))"

definition close_dir :: "ptr \<Rightarrow> shell \<Rightarrow> shell" where
  "close_dir d sh = sh\<lparr>sfs := snd (sys_closedir d (sfs sh))\<rparr>"

definition ls_directory :: "env \<Rightarrow> bool \<Rightarrow> stat \<Rightarrow> shell \<Rightarrow> shell res" where
  "ls_directory e long_info file_stat sh =
     bind_res (sys_opendir (junk_de e) (final_path sh) (sfs sh)) (\<lambda>(d, s).
     bind_res (strlen (final_path sh)) (\<lambda>len.
     bind_res (memcpy (replicate MAX_PATH_LEN 0) (final_path sh) len) (\<lambda>sp.
     if len = 0 then Inl Bad_Access
     else
       bind_res (if sp ! (len - 1) \<noteq> 47 then bind_res (store sp len 47) (\<lambda>sp. Inr (sp, len + 1)) else Inr (sp, len)) (\<lambda>(sp, n).
       let sh = sh\<lparr>sfs := sys_rewinddir d s\<rparr> in
       if long_info then
         bind_res (say ''total: %d'' [Arg_Int (st_size file_stat)] sh) (\<lambda>sh.
         bind_res (loop_end (ls_long_loop e d sp n sh)) (\<lambda>(ended, sh).
         Inr (if ended then close_dir d sh else sh)))
       else
         bind_res (loop_end (ls_short_loop d sh)) (\<lambda>sh.
         bind_res (printf [10] [] sh) (\<lambda>sh. Inr (close_dir d sh)))))))"

definition buildin_ls :: "env \<Rightarrow> nat \<Rightarrow> shell \<Rightarrow> shell res" where
  "buildin_ls e argc sh =
     bind_res (ls_args [1..<argc] False None sh) (\<lambda>(opts, sh).
     case opts of
       None \<Rightarrow> Inr sh
     | Some (long_info, pathname) \<Rightarrow>
         bind_res
           (case pathname of
              None \<Rightarrow> getcwd_final sh
            | Some p \<Rightarrow> bind_res (set_final p sh) (\<lambda>sh. Inr (True, sh))) (\<lambda>(ok, sh).
         if \<not> ok then say ''ls: getcwd for default path failed'' [] sh
         else
           bind_res (sys_stat (junk_de e) (final_path sh) empty_stat (sfs sh)) (\<lambda>(r, file_stat, s).
           let sh = sh\<lparr>sfs := s\<rparr> in
           if r = -1 then say ''ls: cannot access %s: No such file or directory'' [Arg_Str (final_path sh)] sh
           else if st_filetype file_stat = FT_DIRECTORY then ls_directory e long_info file_stat sh
           else if long_info then
             say ''-  %d  %d  %s'' [Arg_Int (st_ino file_stat), Arg_Int (st_size file_stat), Arg_Str (final_path sh)] sh
           else say ''%s'' [Arg_Str (final_path sh)] sh)))"

definition buildin_ps :: "env \<Rightarrow> nat \<Rightarrow> shell \<Rightarrow> shell res" where
  "buildin_ps e argc sh =
     (if argc \<noteq> 1 then say ''ps: no argument support!'' [] sh else Inr (sh\<lparr>out := out sh @ ps_text e\<rparr>))"

definition buildin_clear :: "nat \<Rightarrow> shell \<Rightarrow> shell res" where
  "buildin_clear argc sh =
     (if argc \<noteq> 1 then say ''clear: no argument support!'' [] sh else Inr (sh\<lparr>out := []\<rparr>))"

text \<open>\<^verbatim>\<open>mkdir\<close>, \<^verbatim>\<open>rmdir\<close> and \<^verbatim>\<open>rm\<close> have the same shape: one path argument, which must not be the root,
  and a system call.\<close>

definition path_command ::
  "string \<Rightarrow> string \<Rightarrow> (u8 list \<Rightarrow> fsys \<Rightarrow> (int \<times> fsys) res) \<Rightarrow> nat \<Rightarrow> shell \<Rightarrow> (int \<times> shell) res" where
  "path_command usage failed call argc sh =
     (if argc \<noteq> 2 then bind_res (say usage [] sh) (\<lambda>sh. Inr (-1, sh))
      else
        bind_res (arg 1 sh) (\<lambda>path.
        bind_res (set_final path sh) (\<lambda>sh.
        bind_res (strcmp slash_str (final_path sh)) (\<lambda>root.
        if root \<noteq> 0 then
          bind_res (call (final_path sh) (sfs sh)) (\<lambda>(r, s).
          let sh = sh\<lparr>sfs := s\<rparr> in
          if r = 0 then Inr (0, sh) else bind_res (say failed [Arg_Str path] sh) (\<lambda>sh. Inr (-1, sh)))
        else Inr (-1, sh)))))"

definition buildin_mkdir :: "env \<Rightarrow> nat \<Rightarrow> shell \<Rightarrow> (int \<times> shell) res" where
  "buildin_mkdir e = path_command ''mkdir: only support 1 argument!'' ''mkdir: create directory %s failed.''
     (sys_mkdir (junk_name0 e) (junk_name1 e) (junk_de e))"

definition buildin_rmdir :: "env \<Rightarrow> nat \<Rightarrow> shell \<Rightarrow> (int \<times> shell) res" where
  "buildin_rmdir e = path_command ''rmdir: only support 1 argument!'' ''rmdir: remove %s failed.'' (sys_rmdir (junk_de e))"

definition buildin_rm :: "env \<Rightarrow> nat \<Rightarrow> shell \<Rightarrow> (int \<times> shell) res" where
  "buildin_rm e = path_command ''rm: only support 1 argument!'' ''rm: delete %s failed.'' (sys_unlink (junk_de e))"

definition buildin_help :: "env \<Rightarrow> shell \<Rightarrow> shell res" where
  "buildin_help e sh = Inr (sh\<lparr>out := out sh @ help_text e\<rparr>)"

section \<open>The main loop\<close>

text \<open>The strings of \<^verbatim>\<open>argv\<close> up to the first \<^verbatim>\<open>NULL\<close>, as a loaded program sees them.\<close>

fun arg_strings :: "argptr option list \<Rightarrow> shell \<Rightarrow> u8 list list" where
  "arg_strings (Some p # ps) sh = arg_bytes p sh # arg_strings ps sh"
| "arg_strings ps sh = []"

text \<open>
  An external command. The child works on its own copy of the shell's memory: of what it does only
  the file system and the console output reach the parent. A missing file makes it exit with
  \<open>-1\<close>. The parent gets \<^verbatim>\<open>fork\<close>'s result from \<^verbatim>\<open>wait\<close>; if \<^verbatim>\<open>fork\<close> failed, no child is found.
\<close>

definition child_part :: "env \<Rightarrow> shell \<Rightarrow> (u8 \<times> u8 list \<times> fsys) res" where
  "child_part e sh =
     bind_res (arg 0 sh) (\<lambda>path.
     bind_res (set_final path sh) (\<lambda>sh.
     let sh = sh\<lparr>argv := (argv sh)[0 := Some Final]\<rparr> in
     bind_res (sys_stat (junk_de e) (final_path sh) empty_stat (sfs sh)) (\<lambda>(r, file_stat, s).
     let sh = sh\<lparr>sfs := s\<rparr> in
     if r = -1 then
       bind_res (say ''my_shell: cannot access %s: No such file or directory'' [Arg_Str (final_path sh)] sh) (\<lambda>sh.
       Inr (-1, out sh, sfs sh))
     else
       bind_res (program e (arg_strings (argv sh) sh) (sfs sh)) (\<lambda>(st, con, s). Inr (st, out sh @ con, s)))))"

definition run_external :: "env \<Rightarrow> shell \<Rightarrow> shell res" where
  "run_external e sh =
     (if fork_ret e = -1 then Inl (Panic ''my_shell: no child'')
      else
        bind_res (child_part e sh) (\<lambda>(st, con, s).
        say ''child_pid %d, it's status: %d'' [Arg_Int (of_int (fork_ret e)), Arg_Int (scast st)]
          (sh\<lparr>out := con, sfs := s\<rparr>)))"

definition is_cmd :: "string \<Rightarrow> shell \<Rightarrow> bool res" where
  "is_cmd c sh = bind_res (arg 0 sh) (\<lambda>a. bind_res (strcmp (bytes_of c @ [0]) a) (\<lambda>r. Inr (r = 0)))"

definition drop_ret :: "(int \<times> shell) res \<Rightarrow> shell res" where
  "drop_ret m = bind_res m (\<lambda>(r, sh). Inr sh)"

definition run_cd :: "env \<Rightarrow> nat \<Rightarrow> shell \<Rightarrow> shell res" where
  "run_cd e argc sh =
     bind_res (buildin_cd e argc sh) (\<lambda>(ok, sh).
     if ok then
       bind_res (memset (cwd_cache sh) 0 MAX_PATH_LEN) (\<lambda>cc.
       bind_res (strcpy cc (final_path sh)) (\<lambda>cc. Inr (sh\<lparr>cwd_cache := cc\<rparr>)))
     else Inr sh)"

definition cmd_execute :: "env \<Rightarrow> nat \<Rightarrow> shell \<Rightarrow> shell res" where
  "cmd_execute e argc sh =
     bind_res (is_cmd ''ls'' sh) (\<lambda>c. if c then buildin_ls e argc sh else
     bind_res (is_cmd ''cd'' sh) (\<lambda>c. if c then run_cd e argc sh else
     bind_res (is_cmd ''pwd'' sh) (\<lambda>c. if c then buildin_pwd argc sh else
     bind_res (is_cmd ''ps'' sh) (\<lambda>c. if c then buildin_ps e argc sh else
     bind_res (is_cmd ''clear'' sh) (\<lambda>c. if c then buildin_clear argc sh else
     bind_res (is_cmd ''mkdir'' sh) (\<lambda>c. if c then drop_ret (buildin_mkdir e argc sh) else
     bind_res (is_cmd ''rmdir'' sh) (\<lambda>c. if c then drop_ret (buildin_rmdir e argc sh) else
     bind_res (is_cmd ''rm'' sh) (\<lambda>c. if c then drop_ret (buildin_rm e argc sh) else
     bind_res (is_cmd ''help'' sh) (\<lambda>c. if c then buildin_help e sh else run_external e sh)))))))))"

text \<open>Parsing and executing the command at \<open>each_cmd\<close>; \<^verbatim>\<open>argc\<close> is passed as an unsigned number.\<close>

definition parse_cmd :: "nat \<Rightarrow> shell \<Rightarrow> (int \<times> shell) res" where
  "parse_cmd each_cmd sh =
     bind_res (cmd_parse each_cmd 32 (cmd_line sh)) (\<lambda>(argc, av, b).
     Inr (argc, sh\<lparr>argv := map (map_option Cmd) av, cmd_line := b\<rparr>))"

definition exec_at :: "env \<Rightarrow> nat \<Rightarrow> shell \<Rightarrow> shell res" where
  "exec_at e each_cmd sh =
     bind_res (parse_cmd each_cmd sh) (\<lambda>(argc, sh). cmd_execute e (unat (of_int argc :: u32)) sh)"

definition redirect :: "nat \<Rightarrow> int \<Rightarrow> shell \<Rightarrow> shell res" where
  "redirect old new sh =
     bind_res (sys_fd_redirect old (unat (of_int new :: u32)) (io (sfs sh))) (\<lambda>st.
     Inr (sh\<lparr>sfs := (sfs sh)\<lparr>io := st\<rparr>\<rparr>))"

text \<open>The next bar from \<open>each_cmd\<close> on, which is overwritten with a terminator.\<close>

definition cut_bar :: "nat \<Rightarrow> shell \<Rightarrow> (nat option \<times> shell) res" where
  "cut_bar each_cmd sh =
     bind_res (strchr (drop each_cmd (cmd_line sh)) 124) (\<lambda>pipe_symbol.
     case pipe_symbol of
       None \<Rightarrow> Inr (None, sh)
     | Some i \<Rightarrow> Inr (Some (each_cmd + i), sh\<lparr>cmd_line := (cmd_line sh)[each_cmd + i := 0]\<rparr>))"

partial_function (option) middle_loop :: "env \<Rightarrow> nat \<Rightarrow> shell \<Rightarrow> (nat \<times> shell) res option" where
  "middle_loop e each_cmd sh =
     (case cut_bar each_cmd sh of
        Inl x \<Rightarrow> Some (Inl x)
      | Inr (None, sh) \<Rightarrow> Some (Inr (each_cmd, sh))
      | Inr (Some p, sh) \<Rightarrow>
          (case exec_at e each_cmd sh of
             Inl x \<Rightarrow> Some (Inl x)
           | Inr sh \<Rightarrow> middle_loop e (p + 1) sh))"

text \<open>The array \<^verbatim>\<open>fd\<close> starts as \<open>{-1}\<close>, that is \<open>-1, 0\<close>; \<^verbatim>\<open>pipe\<close>'s result is not looked at.\<close>

definition run_pipeline :: "env \<Rightarrow> shell \<Rightarrow> shell res" where
  "run_pipeline e sh =
     bind_res (sys_pipe (pipe_page e) (io (sfs sh))) (\<lambda>((r, p0, p1), st).
     let sh = sh\<lparr>sfs := (sfs sh)\<lparr>io := st\<rparr>\<rparr>;
         fd0 = (if r = -1 then -1 else p0);
         fd1 = (if r = -1 then 0 else p1)
     in bind_res (redirect 1 fd1 sh) (\<lambda>sh.
        bind_res (cut_bar 0 sh) (\<lambda>(p, sh).
        bind_res (exec_at e 0 sh) (\<lambda>sh.
        bind_res (redirect 0 fd0 sh) (\<lambda>sh.
        bind_res (loop_end (middle_loop e (case p of None \<Rightarrow> 0 | Some p \<Rightarrow> p + 1) sh)) (\<lambda>(each_cmd, sh).
        bind_res (redirect 1 1 sh) (\<lambda>sh.
        bind_res (exec_at e each_cmd sh) (\<lambda>sh.
        bind_res (redirect 0 0 sh) (\<lambda>sh.
        bind_res (sys_close fd0 (sfs sh)) (\<lambda>(_, s).
        bind_res (sys_close fd1 s) (\<lambda>(_, s).
        Inr (sh\<lparr>sfs := s\<rparr>))))))))))))"

text \<open>One round of the loop of \<^verbatim>\<open>my_shell\<close>, on the keys typed; the result is the keys left.\<close>

definition my_shell_round :: "env \<Rightarrow> u8 list \<Rightarrow> shell \<Rightarrow> (u8 list \<times> shell) res" where
  "my_shell_round e keys sh =
     bind_res (printf (bytes_of ''[rabbit@localhost %s]$ '') [Arg_Str (cwd_cache sh)] sh) (\<lambda>sh.
     bind_res (memset (final_path sh) 0 MAX_PATH_LEN) (\<lambda>fp.
     bind_res (memset (cmd_line sh) 0 cmd_len) (\<lambda>b.
     bind_res (readline (cwd_cache sh) keys cmd_len b (out sh)) (\<lambda>(keys, b, out').
     let sh = sh\<lparr>final_path := fp, cmd_line := b, out := out'\<rparr> in
     bind_res (load b 0) (\<lambda>c.
     if c = 0 then Inr (keys, sh)
     else
       bind_res (strchr b 124) (\<lambda>pipe_symbol.
       bind_res
         (if pipe_symbol \<noteq> None then run_pipeline e sh
          else
            bind_res (parse_cmd 0 sh) (\<lambda>(argc, sh).
            if argc = -1 then say ''number of arguments exceed %d'' [Arg_Int (of_nat MAX_ARG_NR)] sh
            else cmd_execute e (unat (of_int argc :: u32)) sh)) (\<lambda>sh.
       Inr (keys, sh))))))))"

definition my_shell_start :: "shell \<Rightarrow> shell res" where
  "my_shell_start sh =
     bind_res (store (cwd_cache sh) 0 47) (\<lambda>cc. bind_res (store cc 1 0) (\<lambda>cc. Inr (sh\<lparr>cwd_cache := cc\<rparr>)))"

section \<open>Cleaned paths\<close>

text \<open>\<open>abs_str segs j\<close>: names behind one or more slashes each, and \<open>j\<close> slashes at the end.\<close>

definition abs_str :: "(nat \<times> u8 list) list \<Rightarrow> nat \<Rightarrow> u8 list" where
  "abs_str segs j = concat (map (\<lambda>(k, n). replicate (Suc k) 47 @ n) segs) @ replicate j 47 @ [0]"

lemma abs_str_simps [simp]:
  "abs_str [] j = replicate j 47 @ [0]" "abs_str ((k, n) # segs) j = replicate (Suc k) 47 @ n @ abs_str segs j"
  by (simp_all add: abs_str_def)

lemma abs_str_hd: "abs_str segs j \<noteq> []" "hd (abs_str segs j) = (if segs = [] \<and> j = 0 then 0 else 47)"
  by (cases segs; cases j; auto)+

lemma path_parse_abs:
  assumes "valid_name n" and "length nm = MAX_FILE_NAME_LEN"
  shows "path_parse (abs_str ((k, n) # segs) j) nm =
     Inr (if segs = [] \<and> j = 0 then None else Some (abs_str segs j), n @ drop (length n) nm)"
proof -
  from assms(1) obtain c cs where n: "n = c # cs" "c \<noteq> 47" by (cases n) (auto simp: valid_name_def)
  have "tl (abs_str ((k, n) # segs) j) = replicate k 47 @ c # cs @ abs_str segs j" using n by simp
  then have s: "skip_slashes (tl (abs_str ((k, n) # segs) j)) = Inr (n @ abs_str segs j)"
    using skip_slashes_replicate [OF n(2), of k "cs @ abs_str segs j"] n(1) by simp
  have "parse_name (n @ abs_str segs j) 0 nm = Inr (abs_str segs j, take 0 nm @ n @ drop (0 + length n) nm)"
    by (rule parse_name_eq) (use assms abs_str_hd in \<open>auto simp: valid_name_def\<close>)
  then show ?thesis using s abs_str_hd(2) [of segs j] unfolding path_parse_def by simp
qed

lemma path_parse_slashes: "path_parse (abs_str [] (Suc j)) nm = Inr (None, nm)"
  using skip_slashes_replicate [of 0 j "[]"] by (simp add: path_parse_def)

text \<open>The directories a path stands for: \<^verbatim>\<open>..\<close> goes up (and stays at the root), \<^verbatim>\<open>.\<close> stays.\<close>

definition walk_name :: "u8 list list \<Rightarrow> u8 list \<Rightarrow> u8 list list" where
  "walk_name st n = (if n = [46, 46] then butlast st else if n = [46] then st else st @ [n])"

definition render :: "u8 list list \<Rightarrow> u8 list" where
  "render st = (if st = [] then [47] else slashed st)"

definition proper :: "u8 list \<Rightarrow> bool" where
  "proper n \<longleftrightarrow> valid_name n \<and> length n < MAX_FILE_NAME_LEN"

lemma proper_plain: "proper n \<Longrightarrow> plain n \<and> n \<noteq> []"
  by (auto simp: proper_def valid_name_def plain_def list_all_iff)

lemma slashed_simps [simp]: "slashed [] = []" "slashed (st @ [n]) = slashed st @ 47 # n"
  by (simp_all add: slashed_def)

lemma slashed_root: "list_all proper st \<Longrightarrow> st \<noteq> [] \<Longrightarrow> slashed st \<noteq> [47]"
  using proper_plain by (cases st; cases "tl st") (auto simp: slashed_def)

lemma render_nz: "list_all proper st \<Longrightarrow> 0 \<notin> set (render st)"
  using slashed_nz [of st] proper_plain by (auto simp: render_def list_all_iff)

lemma walk_name_proper: "list_all proper st \<Longrightarrow> proper n \<Longrightarrow> list_all proper (walk_name st n)"
  by (auto simp: walk_name_def list_all_iff dest: in_set_butlastD)

lemma wash_up:
  assumes "list_all proper st"
  shows "\<exists>r'. wash_name (cstr [46, 46] z) (cstr (render st) r) = Inr (cstr (render (butlast st)) r') \<and>
     length (render (butlast st)) + length r' = length (render st) + length r"
proof -
  obtain c where c: "strcmp dotdot_name (cstr [46, 46] z) = Inr c" "c = 0"
    using strcmp_cstr [of "[46, 46]" "[46, 46]" "[]" z] by (auto simp: dotdot_name_def)
  show ?thesis
  proof (cases st rule: rev_cases)
    case Nil
    have "strrchr (cstr [47] r) 47 = Inr (Some 0)" using strrchr_last [of "[]" "[]" r] by simp
    then show ?thesis using Nil c by (simp add: wash_name_def render_def store_def)
  next
    case (snoc st' m)
    have pr: "list_all proper st'" "proper m" using assms snoc by simp_all
    have m: "plain m" "m \<noteq> []" using proper_plain [OF pr(2)] by simp_all
    have nz: "0 \<notin> set (slashed st')" using slashed_nz [of st'] proper_plain pr(1) by (auto simp: list_all_iff)
    have eq: "cstr (render st) r = slashed st' @ 47 # m @ 0 # r" using snoc by (simp add: render_def)
    have sl: "strrchr (cstr (render st) r) 47 = Inr (Some (length (slashed st')))"
      unfolding eq by (rule strrchr_last [OF nz]) (use m in \<open>auto simp: plain_def\<close>)
    show ?thesis
    proof (cases "st' = []")
      case True
      obtain a m' where a: "m = a # m'" using m(2) by (cases m) auto
      have "wash_name (cstr [46, 46] z) (cstr (render st) r) = Inr (cstr [47] (m' @ 0 # r))"
        unfolding wash_name_def using c sl True a eq by (simp add: store_def)
      then show ?thesis using True snoc a by (simp add: render_def slashed_def)
    next
      case False
      then have i: "length (slashed st') \<noteq> 0" by (cases st') (simp_all add: slashed_def)
      have "wash_name (cstr [46, 46] z) (cstr (render st) r) = Inr (cstr (slashed st') (m @ 0 # r))"
        unfolding wash_name_def using c sl i eq by (simp add: store_def)
      then show ?thesis using False snoc by (simp add: render_def)
    qed
  qed
qed

lemma wash_push:
  assumes "list_all proper st" and "proper n" and "n \<noteq> [46, 46]" and "n \<noteq> [46]" and "length n < length r"
  shows "\<exists>r'. wash_name (cstr n z) (cstr (render st) r) = Inr (cstr (render (st @ [n])) r') \<and>
     length (render (st @ [n])) + length r' = length (render st) + length r"
proof -
  have n: "0 \<notin> set n" using proper_plain [OF assms(2)] by (simp add: plain_def)
  obtain c d e where c: "strcmp dotdot_name (cstr n z) = Inr c" "c \<noteq> 0" and d: "strcmp dot_name (cstr n z) = Inr d" "d \<noteq> 0"
    and e: "strcmp (cstr (render st) r) slash_str = Inr e" "(e = 0) = (render st = [47])"
    using strcmp_cstr [of "[46, 46]" n "[]" z] strcmp_cstr [of "[46]" n "[]" z]
      strcmp_cstr [of "render st" "[47]" r "[]"] n assms(3,4) render_nz [OF assms(1)]
    unfolding dotdot_name_def dot_name_def slash_str_def by auto
  show ?thesis
  proof (cases "st = []")
    case True
    have "strcat (cstr [47] r) (cstr n z) = Inr (cstr ([47] @ n) (drop (length n) r))"
      by (rule strcat_cstr) (use n assms(5) in auto)
    then show ?thesis using True c d e n assms(5) unfolding wash_name_def by (simp add: render_def slashed_def)
  next
    case False
    then have r: "render st = slashed st" "slashed st \<noteq> [47]" "0 \<notin> set (slashed st)"
      using slashed_root [OF assms(1)] render_nz [OF assms(1)] by (simp_all add: render_def)
    have s1: "strcat (cstr (slashed st) r) slash_str = Inr (cstr (slashed st @ [47]) (drop 1 r))"
      using strcat_cstr [of "slashed st" "[47]" r "[]"] r(3) assms(5) by (cases r) (simp_all add: slash_str_def)
    have s2: "strcat (cstr (slashed st @ [47]) (drop 1 r)) (cstr n z) = Inr (cstr ((slashed st @ [47]) @ n) (drop (length n) (drop 1 r)))"
      by (rule strcat_cstr) (use r n assms(5) in auto)
    have "wash_name (cstr n z) (cstr (render st) r) = Inr (cstr (slashed st @ 47 # n) (drop (length n) (drop 1 r)))"
      unfolding wash_name_def using c d e r s1 s2 by simp
    then show ?thesis using assms(5) False r(1) by (simp add: render_def)
  qed
qed

lemma wash_name_walks:
  assumes "list_all proper st" and "proper n" and "length n < length r"
  shows "\<exists>r'. wash_name (cstr n z) (cstr (render st) r) = Inr (cstr (render (walk_name st n)) r') \<and>
     length (render (walk_name st n)) + length r' = length (render st) + length r"
proof -
  consider "n = [46, 46]" | "n = [46]" | "n \<noteq> [46, 46]" "n \<noteq> [46]" by blast
  then show ?thesis
  proof cases
    case 2
    then show ?thesis by (simp add: wash_name_def walk_name_def dotdot_name_def dot_name_def)
  qed (use wash_up [OF assms(1)] wash_push [OF assms(1,2) _ _ assms(3)] in \<open>simp_all add: walk_name_def\<close>)
qed

lemma zero_name_cstr: "proper n \<Longrightarrow> \<exists>z. n @ drop (length n) zero_name = cstr n z"
proof (rule exI [of _ "replicate (15 - length n) 0"])
  assume "proper n"
  then have "16 - length n = Suc (15 - length n)" by (auto simp: proper_def MAX_FILE_NAME_LEN_def)
  then show "n @ drop (length n) zero_name = cstr n (replicate (15 - length n) 0)"
    by (simp add: zero_name_def MAX_FILE_NAME_LEN_def)
qed

lemma wash_loop_walks:
  assumes "list_all proper st" and "proper n" and "list_all (\<lambda>(k, n). proper n) segs"
    and "length n + length (abs_str segs j) \<le> length r"
  shows "\<exists>r'. wash_loop (if segs = [] \<and> j = 0 then None else Some (abs_str segs j)) (n @ drop (length n) zero_name) (cstr (render st) r)
     = Inr (cstr (render (foldl walk_name st (n # map snd segs))) r')"
  using assms
proof (induction segs arbitrary: st n r)
  case Nil
  obtain z where z: "n @ drop (length n) zero_name = cstr n z" using zero_name_cstr [OF Nil.prems(2)] by blast
  have h: "load (cstr n z) 0 = Inr (hd n)" "hd n \<noteq> 0"
    using proper_plain [OF Nil.prems(2)] by (cases n; auto simp: plain_def)+
  obtain r' where "wash_name (cstr n z) (cstr (render st) r) = Inr (cstr (render (walk_name st n)) r')"
    using wash_name_walks [OF Nil.prems(1,2), of r z] Nil.prems(4) by auto
  moreover have "wash_loop None zero_name x = Inr x" for x
    by (subst wash_loop.simps) (simp add: zero_name_def MAX_FILE_NAME_LEN_def)
  moreover have "path_parse (abs_str [] j) zero_name = Inr (None, zero_name)" if "j \<noteq> 0"
    using path_parse_slashes [of "j - 1"] that by simp
  ultimately show ?case unfolding z using h by (subst wash_loop.simps) auto
next
  case (Cons a segs)
  obtain k m where a: "a = (k, m)" by (cases a)
  have m: "proper m" "valid_name m" using Cons.prems(3) a by (simp_all add: proper_def)
  obtain z where z: "n @ drop (length n) zero_name = cstr n z" using zero_name_cstr [OF Cons.prems(2)] by blast
  have h: "load (cstr n z) 0 = Inr (hd n)" "hd n \<noteq> 0"
    using proper_plain [OF Cons.prems(2)] by (cases n; auto simp: plain_def)+
  obtain r1 where w: "wash_name (cstr n z) (cstr (render st) r) = Inr (cstr (render (walk_name st n)) r1)"
      "length (render (walk_name st n)) + length r1 = length (render st) + length r"
    using wash_name_walks [OF Cons.prems(1,2), of r z] Cons.prems(4) abs_str_hd(1) [of "a # segs" j]
    by (auto simp: neq_Nil_conv)
  have pp: "path_parse (abs_str (a # segs) j) zero_name =
      Inr (if segs = [] \<and> j = 0 then None else Some (abs_str segs j), m @ drop (length m) zero_name)"
    unfolding a by (rule path_parse_abs [OF m(2)]) (simp add: zero_name_def)
  have "length (render (walk_name st n)) \<le> length (render st) + length n + 1"
    by (cases st rule: rev_cases) (auto simp: walk_name_def render_def slashed_def)
  then have "length m + length (abs_str segs j) \<le> length r1" using w(2) Cons.prems(4) a by simp
  then obtain r' where "wash_loop (if segs = [] \<and> j = 0 then None else Some (abs_str segs j)) (m @ drop (length m) zero_name)
       (cstr (render (walk_name st n)) r1) = Inr (cstr (render (foldl walk_name (walk_name st n) (m # map snd segs))) r')"
    using Cons.IH [OF walk_name_proper [OF Cons.prems(1,2)] m(1), of r1] Cons.prems(3) by auto
  then show ?case unfolding z using h w(1) pp a by (subst wash_loop.simps) simp
qed

lemma walked_proper:
  "list_all (\<lambda>n. n \<noteq> [46] \<and> n \<noteq> [46, 46]) st \<Longrightarrow> list_all (\<lambda>n. n \<noteq> [46] \<and> n \<noteq> [46, 46]) (foldl walk_name st ns)"
proof (induction ns arbitrary: st)
  case (Cons n ns)
  have "list_all (\<lambda>n. n \<noteq> [46] \<and> n \<noteq> [46, 46]) (walk_name st n)"
    using Cons.prems by (auto simp: walk_name_def list_all_iff dest: in_set_butlastD)
  then show ?case using Cons.IH by simp
qed simp

text \<open>C26: Cleaned paths: \<^verbatim>\<open>wash_path\<close> turns an absolute path into the path of the directory that its names
  lead to when \<^verbatim>\<open>..\<close> goes up (and stays at the root) and \<^verbatim>\<open>.\<close> stays; repeated and trailing slashes
  disappear and no \<^verbatim>\<open>.\<close> or \<^verbatim>\<open>..\<close> is left.\<close>

theorem wash_path_canonical:
  assumes "list_all (\<lambda>(k, n). proper n) segs" and "segs \<noteq> [] \<or> 0 < j"
    and "length (abs_str segs j) < length new_abs_path"
  shows "\<exists>r. wash_path (abs_str segs j) new_abs_path = Inr (cstr (render (foldl walk_name [] (map snd segs))) r) \<and>
     list_all (\<lambda>n. n \<noteq> [46] \<and> n \<noteq> [46, 46]) (foldl walk_name [] (map snd segs))"
proof -
  have l: "load (abs_str segs j) 0 = Inr 47"
    using abs_str_hd [of segs j] assms(2) by (cases "abs_str segs j") (auto split: if_splits)
  obtain x y d where d: "new_abs_path = x # y # d" 
    using assms(3) abs_str_hd(1) [of segs j] by (cases new_abs_path; cases "tl new_abs_path") auto
  have "\<exists>r. wash_path (abs_str segs j) new_abs_path = Inr (cstr (render (foldl walk_name [] (map snd segs))) r)"
  proof (cases segs)
    case Nil
    then obtain j' where j: "j = Suc j'" using assms(2) by (cases j) auto
    show ?thesis using path_parse_slashes [of j' zero_name] l Nil j d
      by (simp add: wash_path_def zero_name_def MAX_FILE_NAME_LEN_def render_def store_def del: abs_str_simps)
  next
    case (Cons a segs')
    obtain k n where a: "a = (k, n)" by (cases a)
    have n: "proper n" "valid_name n" using assms(1) a Cons by (simp_all add: proper_def)
    obtain z where z: "n @ drop (length n) zero_name = cstr n z" using zero_name_cstr [OF n(1)] by blast
    have h: "load (cstr n z) 0 = Inr (hd n)" "hd n \<noteq> 0"
      using proper_plain [OF n(1)] by (cases n; auto simp: plain_def)+
    have pp: "path_parse (abs_str segs j) zero_name =
        Inr (if segs' = [] \<and> j = 0 then None else Some (abs_str segs' j), cstr n z)"
      unfolding Cons a z [symmetric] by (rule path_parse_abs [OF n(2)]) (simp add: zero_name_def)
    have "length n + length (abs_str segs' j) \<le> length d" using assms(3) Cons a d by simp
    then obtain r' where "wash_loop (if segs' = [] \<and> j = 0 then None else Some (abs_str segs' j)) (cstr n z) (cstr (render []) d)
        = Inr (cstr (render (foldl walk_name [] (n # map snd segs'))) r')"
      using wash_loop_walks [of "[]" n segs' j d] n(1) assms(1) Cons z by auto
    then show ?thesis using l pp h d Cons a
      by (simp add: wash_path_def store_def slash_str_def render_def [of "[]"] del: abs_str_simps)
  qed
  then show ?thesis using walked_proper [of "[]"] by auto
qed

theorem wash_path_canonical_witness:
  "\<exists>r. wash_path [47, 97, 47, 47, 46, 47, 98, 47, 46, 46, 47, 99, 47, 0] (replicate 512 7) = Inr (cstr [47, 97, 47, 99] r) \<and>
     list_all (\<lambda>n. n \<noteq> [46] \<and> n \<noteq> [46, 46]) [[97], [99 :: u8]]"
  using wash_path_canonical [of "[(0, [97]), (1, [46]), (0, [98]), (0, [46, 46]), (0, [99])]" 1 "replicate 512 7"]
  by (simp add: proper_def valid_name_def MAX_FILE_NAME_LEN_def walk_name_def render_def slashed_def)

text \<open>A line of blanks has no words: \<^verbatim>\<open>argv[0]\<close> is \<^verbatim>\<open>NULL\<close> and the first comparison spins.\<close>

lemma blank_line_spins:
  assumes "cmd_line sh = 32 # replicate n 32 @ 0 # r"
  shows "bind_res (parse_cmd 0 sh) (\<lambda>(argc, sh). cmd_execute e (unat (of_int argc :: u32)) sh) =
     Inl (Panic ''a != NULL && b != NULL'')"
proof -
  have "skip_tokens (cmd_line sh) 32 0 = Inr (Suc n)" "cmd_line sh ! Suc n = 0"
    using skip_tokens_eq [of 0 32 "[]" "Suc n" r] assms by (simp_all add: nth_append)
  then have "cmd_parse 0 32 (cmd_line sh) = Inr (0, replicate MAX_ARG_NR None, cmd_line sh)"
    unfolding cmd_parse_def using assms by (subst parse_loop.simps) simp
  then show ?thesis by (simp add: parse_cmd_def cmd_execute_def is_cmd_def arg_def MAX_ARG_NR_def)
qed

end
