(* ===== verification/Traps.thy ===== *)
theory Traps
  imports Sched
begin

text \<open>
  Interrupt set-up, exceptions and system calls: the rest of \<^verbatim>\<open>kernel/interrupt.c\<close>, \<^verbatim>\<open>tss_init\<close> of
  \<^verbatim>\<open>userprog/tss.c\<close>, \<^verbatim>\<open>userprog/syscall-init.c\<close>, the user stubs of \<^verbatim>\<open>lib/user/syscall.c\<close> and the entry
  0x80 of \<^verbatim>\<open>kernel.S\<close>.

  Port writes are lists of (port, byte). What goes to the screen is a list of \<open>scr\<close> events. Handlers are
  named, not addressed. A stub is the change it makes to the registers before \<^verbatim>\<open>int $0x80\<close>; what it
  returns is the register \<^verbatim>\<open>eax\<close> afterwards (\<^verbatim>\<open>fork\<close> and \<^verbatim>\<open>wait\<close> cut it to 16 bits).
\<close>

section \<open>The interrupt controller\<close>

definition pic_init :: "(u16 \<times> u8) list" where
  "pic_init =
     [(0x20, 0x11), (0x21, 0x20), (0x21, 0x04), (0x21, 0x01),
      (0xa0, 0x11), (0xa1, 0x28), (0xa1, 0x02), (0xa1, 0x01),
      (0x21, 0xf8), (0xa1, 0xbf)]"

section \<open>Exceptions\<close>

datatype scr = Set_cursor u32 | Put_char char | Put_str string | Put_int u32

text \<open>The handler either returns (spurious interrupts) or prints and spins. \<^verbatim>\<open>cr2\<close> is the address that
  caused a page fault.\<close>

datatype trap_end = Trap_Return | Trap_Spin "scr list"

definition general_intr_handler :: "string list \<Rightarrow> u32 \<Rightarrow> u8 \<Rightarrow> trap_end res" where
  "general_intr_handler intr_name cr2 vec_nr =
     (if vec_nr = 0x27 \<or> vec_nr = 0x2f then Inr Trap_Return
      else
        bind_res (load intr_name (unat vec_nr)) (\<lambda>name.
        Inr (Trap_Spin ([Set_cursor 0] @ replicate 320 (Put_char CHR 32) @
          [Set_cursor 0, Put_str (''!!!!!!      exception message begin      !!!!!!'' @ [CHR 10]), Set_cursor 88, Put_str name] @
          (if vec_nr = 14 then [Put_str ([CHR 10] @ ''page fault address is ''), Put_int cr2] else []) @
          [Put_str ([CHR 10] @ ''!!!!!!      exception message end      !!!!!'' @ [CHR 10])]))))"

datatype handler = General_Intr_Handler | Handler string

definition exception_names :: "(nat \<times> string) list" where
  "exception_names =
     [(0, ''#DE Divide Error''),
      (1, ''#DB Debug Exception''),
      (2, ''NMI Interrupt''),
      (3, ''#BP Breakpoint Exception''),
      (4, ''#OF Overflow Exception''),
      (5, ''#BR BOUND Range Exceeded Exception''),
      (6, ''#UD Invalid Opcode Exception''),
      (7, ''#NM Device Not Available Exception''),
      (8, ''#DF Double Fault Exception''),
      (9, ''Coprocessor Segment Overrun''),
      (10, ''#TS Invalid TSS Exception''),
      (11, ''#NP Segment Not Present''),
      (12, ''#SS Stack Fault Exception''),
      (13, ''#GP General Protection Exception''),
      (14, ''#PF Page-Fault Exception''),
      (16, ''#MF x87 FPU Floating-Point Error''),
      (17, ''#AC Alignment Check Exception''),
      (18, ''#MC Machine-Check Exception''),
      (19, ''#XF SIMD Floating-Point Exception'')]"

definition exception_init :: "handler list \<times> string list" where
  "exception_init =
     (replicate IDT_DESC_CNT General_Intr_Handler,
      foldl (\<lambda>ns (i, s). ns[i := s]) (replicate IDT_DESC_CNT ''unknown'') exception_names)"

text \<open>The operands of \<^verbatim>\<open>lidt\<close> and \<^verbatim>\<open>lgdt\<close>: a 16-bit limit and a 32-bit base.\<close>

definition table_operand :: "u32 \<Rightarrow> u32 \<Rightarrow> 64 word" where
  "table_operand limit base = ucast limit OR push_bit 16 (ucast base)"

definition idt_init :: "u32 list \<Rightarrow> u32 \<Rightarrow> u32 \<Rightarrow> (gate_desc list \<times> handler list \<times> string list \<times> (u16 \<times> u8) list \<times> 64 word) res" where
  "idt_init intr_entry_table sys_handler idt_addr =
     bind_res (idt_desc_init intr_entry_table sys_handler) (\<lambda>idt.
     let (idt_table, intr_name) = exception_init
     in Inr (idt, idt_table, intr_name, pic_init, table_operand (of_nat (IDT_DESC_CNT * 8) - 1) idt_addr))"

section \<open>The task state segment\<close>

text \<open>The fields of \<^verbatim>\<open>struct tss\<close> the kernel sets; \<^verbatim>\<open>memset\<close> clears the others. 27 words make 108 bytes.\<close>

record tss =
  esp0 :: u32
  ss0 :: u32
  io_base :: u32

definition sizeof_tss :: u32 where [layout_simps]: "sizeof_tss = 108"
definition SELECTOR_K_STACK :: u32 where [layout_simps]: "SELECTOR_K_STACK = push_bit 3 2 + push_bit 2 0 + 0"
definition SELECTOR_TSS :: u32 where [layout_simps]: "SELECTOR_TSS = push_bit 3 4 + push_bit 2 0 + 0"
definition TSS_ATTR_LOW :: u8 where [layout_simps]: "TSS_ATTR_LOW = push_bit 7 1 + push_bit 5 0 + push_bit 4 0 + 9"
definition TSS_ATTR_HIGH :: u8 where [layout_simps]: "TSS_ATTR_HIGH = push_bit 7 1 + push_bit 6 0 + push_bit 5 0 + push_bit 4 0"
definition GDT_ATTR_HIGH :: u8 where [layout_simps]: "GDT_ATTR_HIGH = push_bit 7 1 + push_bit 6 1 + push_bit 5 0 + push_bit 4 0"
definition GDT_CODE_ATTR_LOW_DPL3 :: u8 where [layout_simps]:
  "GDT_CODE_ATTR_LOW_DPL3 = push_bit 7 1 + push_bit 5 3 + push_bit 4 1 + 8"
definition GDT_DATA_ATTR_LOW_DPL3 :: u8 where [layout_simps]:
  "GDT_DATA_ATTR_LOW_DPL3 = push_bit 7 1 + push_bit 5 3 + push_bit 4 1 + 2"

text \<open>The descriptors written, by address, the operand of \<^verbatim>\<open>lgdt\<close> and the selector loaded into TR.\<close>

definition tss_init :: "u32 \<Rightarrow> tss \<times> (u32 \<times> gdt_desc) list \<times> 64 word \<times> u32" where
  "tss_init tss_addr =
     (\<lparr>esp0 = 0, ss0 = SELECTOR_K_STACK, io_base = sizeof_tss\<rparr>,
      [(0xc0000920, make_gdt_desc tss_addr (sizeof_tss - 1) TSS_ATTR_LOW TSS_ATTR_HIGH),
       (0xc0000928, make_gdt_desc 0 0xfffff GDT_CODE_ATTR_LOW_DPL3 GDT_ATTR_HIGH),
       (0xc0000930, make_gdt_desc 0 0xfffff GDT_DATA_ATTR_LOW_DPL3 GDT_ATTR_HIGH)],
      table_operand (8 * 7 - 1) 0xc0000900, SELECTOR_TSS)"

section \<open>System calls: the user's side\<close>

datatype SYSCALL_NR =
  SYS_GETPID | SYS_WRITE | SYS_MALLOC | SYS_FREE | SYS_FORK | SYS_READ | SYS_PUTCHAR | SYS_CLEAR | SYS_GETCWD
| SYS_OPEN | SYS_CLOSE | SYS_LSEEK | SYS_UNLINK | SYS_MKDIR | SYS_OPENDIR | SYS_CLOSEDIR | SYS_CHDIR | SYS_RMDIR
| SYS_READDIR | SYS_REWINDDIR | SYS_STAT | SYS_PS | SYS_EXECV | SYS_EXIT | SYS_WAIT | SYS_PIPE | SYS_FD_REDIRECT | SYS_HELP

text \<open>The numbers of the enumeration, in the order it lists the names.\<close>

definition all_syscalls :: "SYSCALL_NR list" where
  "all_syscalls =
     [SYS_GETPID, SYS_WRITE, SYS_MALLOC, SYS_FREE, SYS_FORK, SYS_READ, SYS_PUTCHAR, SYS_CLEAR, SYS_GETCWD,
      SYS_OPEN, SYS_CLOSE, SYS_LSEEK, SYS_UNLINK, SYS_MKDIR, SYS_OPENDIR, SYS_CLOSEDIR, SYS_CHDIR, SYS_RMDIR,
      SYS_READDIR, SYS_REWINDDIR, SYS_STAT, SYS_PS, SYS_EXECV, SYS_EXIT, SYS_WAIT, SYS_PIPE, SYS_FD_REDIRECT, SYS_HELP]"

definition syscall_no :: "SYSCALL_NR \<Rightarrow> u32" where
  "syscall_no n = of_nat (length (takeWhile (\<lambda>x. x \<noteq> n) all_syscalls))"

record regs =
  reg_eax :: u32
  reg_ebx :: u32
  reg_ecx :: u32
  reg_edx :: u32

text \<open>The registers at \<^verbatim>\<open>int $0x80\<close>. Pointers are addresses; narrower arguments are widened.\<close>

definition syscall0 :: "SYSCALL_NR \<Rightarrow> regs \<Rightarrow> regs" where
  "syscall0 n r = r\<lparr>reg_eax := syscall_no n\<rparr>"

definition syscall1 :: "SYSCALL_NR \<Rightarrow> u32 \<Rightarrow> regs \<Rightarrow> regs" where
  "syscall1 n a1 r = r\<lparr>reg_eax := syscall_no n, reg_ebx := a1\<rparr>"

definition syscall2 :: "SYSCALL_NR \<Rightarrow> u32 \<Rightarrow> u32 \<Rightarrow> regs \<Rightarrow> regs" where
  "syscall2 n a1 a2 r = r\<lparr>reg_eax := syscall_no n, reg_ebx := a1, reg_ecx := a2\<rparr>"

definition syscall3 :: "SYSCALL_NR \<Rightarrow> u32 \<Rightarrow> u32 \<Rightarrow> u32 \<Rightarrow> regs \<Rightarrow> regs" where
  "syscall3 n a1 a2 a3 r = r\<lparr>reg_eax := syscall_no n, reg_ebx := a1, reg_ecx := a2, reg_edx := a3\<rparr>"

definition getpid :: "regs \<Rightarrow> regs" where
  "getpid = syscall0 SYS_GETPID"

definition write_call :: "u32 \<Rightarrow> u32 \<Rightarrow> u32 \<Rightarrow> regs \<Rightarrow> regs" where
  "write_call a_fd a_buf count = syscall3 SYS_WRITE a_fd a_buf count"

definition malloc :: "u32 \<Rightarrow> regs \<Rightarrow> regs" where
  "malloc a_size = syscall1 SYS_MALLOC a_size"

definition free :: "u32 \<Rightarrow> regs \<Rightarrow> regs" where
  "free ptr = syscall1 SYS_FREE ptr"

definition fork :: "regs \<Rightarrow> regs" where
  "fork = syscall0 SYS_FORK"

definition read :: "u32 \<Rightarrow> u32 \<Rightarrow> u32 \<Rightarrow> regs \<Rightarrow> regs" where
  "read a_fd a_buf count = syscall3 SYS_READ a_fd a_buf count"

definition putchar :: "u8 \<Rightarrow> regs \<Rightarrow> regs" where
  "putchar char_asci = syscall1 SYS_PUTCHAR (scast char_asci)"

definition clear :: "regs \<Rightarrow> regs" where
  "clear = syscall0 SYS_CLEAR"

definition getcwd :: "u32 \<Rightarrow> u32 \<Rightarrow> regs \<Rightarrow> regs" where
  "getcwd a_buf a_size = syscall2 SYS_GETCWD a_buf a_size"

definition open_call :: "u32 \<Rightarrow> u8 \<Rightarrow> regs \<Rightarrow> regs" where
  "open_call pathname flag = syscall2 SYS_OPEN pathname (ucast flag)"

definition close :: "u32 \<Rightarrow> regs \<Rightarrow> regs" where
  "close a_fd = syscall1 SYS_CLOSE a_fd"

definition lseek :: "u32 \<Rightarrow> u32 \<Rightarrow> u8 \<Rightarrow> regs \<Rightarrow> regs" where
  "lseek a_fd offset whence = syscall3 SYS_LSEEK a_fd offset (ucast whence)"

definition unlink :: "u32 \<Rightarrow> regs \<Rightarrow> regs" where
  "unlink pathname = syscall1 SYS_UNLINK pathname"

definition mkdir :: "u32 \<Rightarrow> regs \<Rightarrow> regs" where
  "mkdir pathname = syscall1 SYS_MKDIR pathname"

definition opendir :: "u32 \<Rightarrow> regs \<Rightarrow> regs" where
  "opendir a_name = syscall1 SYS_OPENDIR a_name"

definition closedir :: "u32 \<Rightarrow> regs \<Rightarrow> regs" where
  "closedir dir = syscall1 SYS_CLOSEDIR dir"

definition rmdir :: "u32 \<Rightarrow> regs \<Rightarrow> regs" where
  "rmdir pathname = syscall1 SYS_RMDIR pathname"

definition readdir :: "u32 \<Rightarrow> regs \<Rightarrow> regs" where
  "readdir dir = syscall1 SYS_READDIR dir"

definition rewinddir :: "u32 \<Rightarrow> regs \<Rightarrow> regs" where
  "rewinddir dir = syscall1 SYS_REWINDDIR dir"

definition stat :: "u32 \<Rightarrow> u32 \<Rightarrow> regs \<Rightarrow> regs" where
  "stat path a_buf = syscall2 SYS_STAT path a_buf"

definition chdir :: "u32 \<Rightarrow> regs \<Rightarrow> regs" where
  "chdir path = syscall1 SYS_CHDIR path"

definition ps :: "regs \<Rightarrow> regs" where
  "ps = syscall0 SYS_PS"

definition execv :: "u32 \<Rightarrow> u32 \<Rightarrow> regs \<Rightarrow> regs" where
  "execv pathname argv = syscall2 SYS_EXECV pathname argv"

definition exit :: "u32 \<Rightarrow> regs \<Rightarrow> regs" where
  "exit a_status = syscall1 SYS_EXIT a_status"

definition wait :: "u32 \<Rightarrow> regs \<Rightarrow> regs" where
  "wait a_status = syscall1 SYS_WAIT a_status"

definition pipe :: "u32 \<Rightarrow> regs \<Rightarrow> regs" where
  "pipe pipefd = syscall1 SYS_PIPE pipefd"

definition fd_redirect :: "u32 \<Rightarrow> u32 \<Rightarrow> regs \<Rightarrow> regs" where
  "fd_redirect old_local_fd new_local_fd = syscall2 SYS_FD_REDIRECT old_local_fd new_local_fd"

definition help_call :: "regs \<Rightarrow> regs" where
  "help_call = syscall0 SYS_HELP"

section \<open>System calls: the kernel's side\<close>

text \<open>The routines by name.\<close>

datatype syscall =
  Sys_getpid | Sys_write | Sys_malloc | Sys_free | Sys_fork | Sys_read | Sys_putchar | Cls_screen | Sys_getcwd
| Sys_open | Sys_close | Sys_lseek | Sys_unlink | Sys_mkdir | Sys_opendir | Sys_closedir | Sys_chdir | Sys_rmdir
| Sys_readdir | Sys_rewinddir | Sys_stat | Sys_ps | Sys_execv | Sys_exit | Sys_wait | Sys_pipe | Sys_fd_redirect | Sys_help

definition syscall_nr :: nat where [layout_simps]: "syscall_nr = 32"

definition syscall_entries :: "(SYSCALL_NR \<times> syscall) list" where
  "syscall_entries =
     [(SYS_GETPID, Sys_getpid), (SYS_WRITE, Sys_write), (SYS_MALLOC, Sys_malloc), (SYS_FREE, Sys_free),
      (SYS_FORK, Sys_fork), (SYS_READ, Sys_read), (SYS_PUTCHAR, Sys_putchar), (SYS_CLEAR, Cls_screen),
      (SYS_GETCWD, Sys_getcwd), (SYS_OPEN, Sys_open), (SYS_CLOSE, Sys_close), (SYS_LSEEK, Sys_lseek),
      (SYS_UNLINK, Sys_unlink), (SYS_MKDIR, Sys_mkdir), (SYS_OPENDIR, Sys_opendir), (SYS_CLOSEDIR, Sys_closedir),
      (SYS_CHDIR, Sys_chdir), (SYS_RMDIR, Sys_rmdir), (SYS_READDIR, Sys_readdir), (SYS_REWINDDIR, Sys_rewinddir),
      (SYS_STAT, Sys_stat), (SYS_PS, Sys_ps), (SYS_EXECV, Sys_execv), (SYS_EXIT, Sys_exit),
      (SYS_WAIT, Sys_wait), (SYS_PIPE, Sys_pipe), (SYS_FD_REDIRECT, Sys_fd_redirect), (SYS_HELP, Sys_help)]"

definition syscall_init :: "syscall option list" where
  "syscall_init = foldl (\<lambda>t (n, r). t[unat (syscall_no n) := Some r]) (replicate syscall_nr None) syscall_entries"

text \<open>The entry in \<^verbatim>\<open>kernel.S\<close>: it pushes the three argument registers and calls through the table. The
  number is not checked; calling a null pointer or what lies behind the table is \<open>Bad_Access\<close>.\<close>

definition syscall_handler :: "syscall option list \<Rightarrow> regs \<Rightarrow> (syscall \<times> u32 \<times> u32 \<times> u32) res" where
  "syscall_handler table r =
     bind_res (load table (unat (reg_eax r))) (\<lambda>e.
     case e of None \<Rightarrow> Inl Bad_Access | Some f \<Rightarrow> Inr (f, reg_ebx r, reg_ecx r, reg_edx r))"

definition sys_getpid :: "'a sched_scheme \<Rightarrow> u32" where
  "sys_getpid s = scast (pid (tasks s (cur s)))"

section \<open>Lemmas\<close>

text \<open>The interrupts left open: those of the clock, the keyboard, the cascade and the disk.\<close>

definition irq_open :: "(u16 \<times> u8) list \<Rightarrow> nat \<Rightarrow> bool" where
  "irq_open ws irq \<longleftrightarrow>
     (case map_of (rev ws) (if irq < 8 then 0x21 else 0xa1) of None \<Rightarrow> False | Some m \<Rightarrow> \<not> bit m (irq mod 8))"

lemma pic_init_open: "filter (irq_open pic_init) [0 ..< 16] = [0, 1, 2, 14]"
  by code_simp

text \<open>The limit of a segment counts 4 KB units when the granularity bit is set: the segment of the TSS
  reaches far behind the 108 bytes of the structure, so the offset \<^verbatim>\<open>io_base\<close> is inside it.\<close>

definition seg_limit :: "gdt_desc \<Rightarrow> nat" where
  "seg_limit d =
     (let l = unat (limit_low_word d) + unat (limit_high_attr_high d AND 0x0f) * 65536
      in if bit (limit_high_attr_high d) 7 then l * 4096 + 4095 else l)"

lemma tss_has_io_map:
  "(case tss_init a of (t, ds, _) \<Rightarrow> unat (io_base t) \<le> seg_limit (snd (hd ds)) \<and> seg_limit (snd (hd ds)) = 442367)"
  by (simp add: tss_init_def seg_limit_def make_gdt_desc_def layout_simps)

lemma syscall_no_eqs:
  "syscall_no SYS_GETPID = 0"
  "syscall_no SYS_WRITE = 1"
  "syscall_no SYS_MALLOC = 2"
  "syscall_no SYS_FREE = 3"
  "syscall_no SYS_FORK = 4"
  "syscall_no SYS_READ = 5"
  "syscall_no SYS_PUTCHAR = 6"
  "syscall_no SYS_CLEAR = 7"
  "syscall_no SYS_GETCWD = 8"
  "syscall_no SYS_OPEN = 9"
  "syscall_no SYS_CLOSE = 10"
  "syscall_no SYS_LSEEK = 11"
  "syscall_no SYS_UNLINK = 12"
  "syscall_no SYS_MKDIR = 13"
  "syscall_no SYS_OPENDIR = 14"
  "syscall_no SYS_CLOSEDIR = 15"
  "syscall_no SYS_CHDIR = 16"
  "syscall_no SYS_RMDIR = 17"
  "syscall_no SYS_READDIR = 18"
  "syscall_no SYS_REWINDDIR = 19"
  "syscall_no SYS_STAT = 20"
  "syscall_no SYS_PS = 21"
  "syscall_no SYS_EXECV = 22"
  "syscall_no SYS_EXIT = 23"
  "syscall_no SYS_WAIT = 24"
  "syscall_no SYS_PIPE = 25"
  "syscall_no SYS_FD_REDIRECT = 26"
  "syscall_no SYS_HELP = 27"
  by (simp_all add: syscall_no_def all_syscalls_def)

text \<open>The table that \<open>syscall_init\<close> fills.\<close>

lemma syscall_init_eq: "syscall_init = map (Some \<circ> snd) syscall_entries @ replicate 4 None"
  by code_simp

text \<open>The number is not checked: the four empty slots and everything behind the table are bad accesses.\<close>

lemma syscall_unchecked:
  assumes "28 \<le> unat (reg_eax r)"
  shows "syscall_handler syscall_init r = Inl Bad_Access"
proof -
  have l: "length syscall_entries = 28" by (simp add: syscall_entries_def)
  have "load syscall_init (unat (reg_eax r)) \<in> {Inl Bad_Access, Inr None}"
    using assms by (simp add: load_def syscall_init_eq nth_append l)
  then show ?thesis by (auto simp: syscall_handler_def)
qed

lemmas stub_defs = syscall0_def syscall1_def syscall2_def syscall3_def getpid_def write_call_def malloc_def free_def fork_def read_def putchar_def clear_def getcwd_def open_call_def
  close_def lseek_def unlink_def mkdir_def opendir_def closedir_def rmdir_def readdir_def rewinddir_def stat_def chdir_def ps_def execv_def exit_def wait_def pipe_def fd_redirect_def help_call_def
  syscall_handler_def load_def

section \<open>Properties\<close>

text \<open>C24: Every stub of the user library reaches the kernel routine of its name, with its arguments in order:
  the numbers of the enumeration, the order in which \<^verbatim>\<open>syscall_init\<close> fills the table and the registers
  used by the stubs and by the entry agree.\<close>

theorem stubs_reach_routines:
  "syscall_handler syscall_init (getpid r) = Inr (Sys_getpid, reg_ebx r, reg_ecx r, reg_edx r) \<and>
   syscall_handler syscall_init (write_call a_fd a_buf count r) = Inr (Sys_write, a_fd, a_buf, count) \<and>
   syscall_handler syscall_init (malloc a_size r) = Inr (Sys_malloc, a_size, reg_ecx r, reg_edx r) \<and>
   syscall_handler syscall_init (free ptr r) = Inr (Sys_free, ptr, reg_ecx r, reg_edx r) \<and>
   syscall_handler syscall_init (fork r) = Inr (Sys_fork, reg_ebx r, reg_ecx r, reg_edx r) \<and>
   syscall_handler syscall_init (read a_fd a_buf count r) = Inr (Sys_read, a_fd, a_buf, count) \<and>
   syscall_handler syscall_init (putchar char_asci r) = Inr (Sys_putchar, scast char_asci, reg_ecx r, reg_edx r) \<and>
   syscall_handler syscall_init (clear r) = Inr (Cls_screen, reg_ebx r, reg_ecx r, reg_edx r) \<and>
   syscall_handler syscall_init (getcwd a_buf a_size r) = Inr (Sys_getcwd, a_buf, a_size, reg_edx r) \<and>
   syscall_handler syscall_init (open_call pathname flag r) = Inr (Sys_open, pathname, ucast flag, reg_edx r) \<and>
   syscall_handler syscall_init (close a_fd r) = Inr (Sys_close, a_fd, reg_ecx r, reg_edx r) \<and>
   syscall_handler syscall_init (lseek a_fd offset whence r) = Inr (Sys_lseek, a_fd, offset, ucast whence) \<and>
   syscall_handler syscall_init (unlink pathname r) = Inr (Sys_unlink, pathname, reg_ecx r, reg_edx r) \<and>
   syscall_handler syscall_init (mkdir pathname r) = Inr (Sys_mkdir, pathname, reg_ecx r, reg_edx r) \<and>
   syscall_handler syscall_init (opendir a_name r) = Inr (Sys_opendir, a_name, reg_ecx r, reg_edx r) \<and>
   syscall_handler syscall_init (closedir dir r) = Inr (Sys_closedir, dir, reg_ecx r, reg_edx r) \<and>
   syscall_handler syscall_init (rmdir pathname r) = Inr (Sys_rmdir, pathname, reg_ecx r, reg_edx r) \<and>
   syscall_handler syscall_init (readdir dir r) = Inr (Sys_readdir, dir, reg_ecx r, reg_edx r) \<and>
   syscall_handler syscall_init (rewinddir dir r) = Inr (Sys_rewinddir, dir, reg_ecx r, reg_edx r) \<and>
   syscall_handler syscall_init (stat path a_buf r) = Inr (Sys_stat, path, a_buf, reg_edx r) \<and>
   syscall_handler syscall_init (chdir path r) = Inr (Sys_chdir, path, reg_ecx r, reg_edx r) \<and>
   syscall_handler syscall_init (ps r) = Inr (Sys_ps, reg_ebx r, reg_ecx r, reg_edx r) \<and>
   syscall_handler syscall_init (execv pathname argv r) = Inr (Sys_execv, pathname, argv, reg_edx r) \<and>
   syscall_handler syscall_init (exit a_status r) = Inr (Sys_exit, a_status, reg_ecx r, reg_edx r) \<and>
   syscall_handler syscall_init (wait a_status r) = Inr (Sys_wait, a_status, reg_ecx r, reg_edx r) \<and>
   syscall_handler syscall_init (pipe pipefd r) = Inr (Sys_pipe, pipefd, reg_ecx r, reg_edx r) \<and>
   syscall_handler syscall_init (fd_redirect old_local_fd new_local_fd r) = Inr (Sys_fd_redirect, old_local_fd, new_local_fd, reg_edx r) \<and>
   syscall_handler syscall_init (help_call r) = Inr (Sys_help, reg_ebx r, reg_ecx r, reg_edx r)"
  by (intro conjI; simp add: stub_defs syscall_no_eqs syscall_init_eq syscall_entries_def)

end
