(* ===== verification/Spec2Isabelle.thy ===== *)
theory Spec2Isabelle
  imports Prelude Bitmap Interrupts KList Paging Memory MemPages MemHeap Sched Sync IoQueue Pipe Keyboard CString Ide FsLayout Inode Dir Blocks File FileSpec Path Format Fs MemFree Thread PageDir Process ThreadSpec ExitSpec Partition Shell Traps
begin

text \<open>
  SparrowOS, a 32-bit x86 teaching kernel in C: this library models its parts as HOL functions on
  explicit state and proves what makes each of them correct.

  \<^bold>\<open>The program and how its parts interact.\<close> The scheduler (\<^verbatim>\<open>thread/thread.c\<close>, \<^verbatim>\<open>device/timer.c\<close>) runs
  tasks from a ready queue; semaphores and locks (\<^verbatim>\<open>thread/sync.c\<close>) block and wake tasks on it; ring
  buffers (\<^verbatim>\<open>device/ioqueue.c\<close>) use locks and blocking, the keyboard handler and pipes
  (\<^verbatim>\<open>device/keyboard.c\<close>, \<^verbatim>\<open>shell/pipe.c\<close>) use ring buffers. Memory management (\<^verbatim>\<open>kernel/memory.c\<close>)
  keeps page pools as bitmaps, edits page tables through their recursive mapping and cuts pages into
  blocks kept on kernel lists. The disk driver (\<^verbatim>\<open>device/ide.c\<close>) reads and writes sectors; the file
  system (\<^verbatim>\<open>fs/\<close>) keeps bitmaps, i-nodes, directories and files on them and offers the system calls.
  Threads and processes (\<^verbatim>\<open>thread/thread.c\<close>, \<^verbatim>\<open>userprog/\<close>) are tasks of the scheduler with pages, an address
  space and open files; the shell (\<^verbatim>\<open>shell/\<close>) runs on the system calls (\<^verbatim>\<open>lib/user/syscall.c\<close>,
  \<^verbatim>\<open>userprog/syscall-init.c\<close>).

  \<^bold>\<open>Conventions.\<close> Machine integers are words of their width. A routine that can hit an \<^verbatim>\<open>ASSERT\<close> or
  \<^verbatim>\<open>PANIC\<close>, leave the object it works on, block or loop for ever returns \<open>'a res\<close> (\<open>Inl\<close> the reason);
  state is passed and returned. Names are those of the source. Local variables the code reads before
  it sets them are arguments. \<^verbatim>\<open>printk\<close> and \<^verbatim>\<open>sys_free\<close> of a buffer have no counterpart.

  \<^bold>\<open>Theories.\<close>

  \<^item> \<open>Prelude\<close>: integer types, results, \<^verbatim>\<open>ASSERT\<close>, shared word and list facts (\<^verbatim>\<open>lib/stdint.h\<close>,
    \<^verbatim>\<open>kernel/debug.*\<close>, \<^verbatim>\<open>kernel/global.h\<close>).
  \<^item> \<open>Bitmap\<close>: \<^verbatim>\<open>lib/kernel/bitmap.c\<close>; scanning finds the lowest run, and where it runs over the end.
  \<^item> \<open>Interrupts\<close>: \<^verbatim>\<open>kernel/interrupt.c\<close> (flag, gates, 8259A), \<^verbatim>\<open>userprog/tss.c\<close> descriptors.
  \<^item> \<open>KList\<close>: \<^verbatim>\<open>lib/kernel/list.c\<close> on a store of links, refined to HOL lists through a locale; the
    later theories use HOL lists for these queues.
  \<^item> \<open>Paging\<close>: address translation; the recursive mapping agrees with the page walk.
  \<^item> \<open>Memory\<close>, \<open>MemPages\<close>, \<open>MemFree\<close>, \<open>MemHeap\<close>: \<^verbatim>\<open>kernel/memory.c\<close>; pages get fresh frames and only their
    own mappings, pages given back are free again, blocks of an arena do not overlap, start-up makes
    disjoint free pools. \<open>mphys\<close> is physical memory, \<open>mtlb\<close> the translations the processor has cached, of
    which \<^verbatim>\<open>invlpg\<close> drops one and the loading of \<^verbatim>\<open>cr3\<close> all. The invariant \<open>mem_wf\<close> holds in the directory
    that \<^verbatim>\<open>setup_page\<close> of \<^verbatim>\<open>loader.S\<close> builds, where entries 0 and 768 share a table; \<open>vpage\<close> takes two
    addresses 3 GB apart for one page there.
  \<^item> \<open>Sched\<close>: scheduler and clock as operations and as a step relation; invariant, no panic, every
    ready task runs within a bounded number of ticks.
  \<^item> \<open>Thread\<close>, \<open>PageDir\<close>, \<open>ThreadSpec\<close>: creation and end of threads, identifiers, \<^verbatim>\<open>ps\<close>, creation of processes
    (\<^verbatim>\<open>userprog/process.c\<close>); a new directory shares the kernel half, a started thread is registered in
    lists and pid pool.
  \<^item> \<open>Process\<close>, \<open>ExitSpec\<close>: \<^verbatim>\<open>userprog/fork.c\<close>, \<^verbatim>\<open>wait_exit.c\<close>, \<^verbatim>\<open>exec.c\<close>; an exit hands the process to the
    parent that waits, a segment gets exactly the pages it touches.
  \<^item> \<open>Traps\<close>: 8259A, exceptions, TSS, and system calls from the stub of the user library to the routine.
  \<^item> \<open>CmdLine\<close>, \<open>Shell\<close>: line editing, splitting, path clean-up, built-in commands and the loop of \<^verbatim>\<open>shell/\<close>.
  \<^item> \<open>Sync\<close>: semaphores and locks in any interleaving; mutual exclusion, no lost wake-up, no panic.
  \<^item> \<open>IoQueue\<close>, \<open>Pipe\<close>, \<open>Keyboard\<close>: ring buffers as queues, descriptors and pipes, the key handler.
  \<^item> \<open>CString\<close>: \<^verbatim>\<open>lib/string.c\<close>, number output of \<^verbatim>\<open>lib/stdio.c\<close>.
  \<^item> \<open>Ide\<close>: \<^verbatim>\<open>device/ide.c\<close> with the registers it programs and, behind them, a drive that follows the PIO
    protocols of ATA: a command byte starts a phase (reading, writing, identification), the drive is busy
    for an unknown time after the command and after every sector, and touching its data while it is busy
    is an error. The driver waits once per command, so its contract is for single sectors, and for
    more only with a drive that needs no time between sectors (\<open>serves\<close>). The locale \<open>sector_disk\<close> is that
    contract, interpreted by the driver and by the disk of the file system.
  \<^item> \<open>Partition\<close>: identification, partition tables and start of the driver; the scan lists the partitions.
  \<^item> \<open>FsLayout\<close>, \<open>Inode\<close>, \<open>Dir\<close>, \<open>File\<close>, \<open>Path\<close>, \<open>Format\<close>, \<open>Fs\<close>: structures and their bytes, and
    every operation of \<^verbatim>\<open>fs/inode.c\<close>, \<^verbatim>\<open>fs/dir.c\<close>, \<^verbatim>\<open>fs/file.c\<close>, \<^verbatim>\<open>fs/fs.c\<close>.
  \<^item> \<open>Blocks\<close>, \<open>FileSpec\<close>: which blocks are in use and what allocation does to them; a write appends
    to the contents of a file, a read returns them, through the twelve direct blocks and the table of
    indirect ones. Where the code fails (an i-node across two sectors, i-node numbers from 256 on, the last
    of the 140 blocks) is stated as lemmas.

  \<^bold>\<open>Bounds and fuel.\<close> No definition uses fuel. Loops are structural recursions or functions with a
  termination proof; a loop of the source that never ends is the value \<open>Inl Diverges\<close>.

  \<^bold>\<open>Not modelled.\<close> Assembly other than \<^verbatim>\<open>setup_page\<close> and the system call entry (\<^verbatim>\<open>mbr.S\<close>, \<^verbatim>\<open>loader.S\<close>,
  \<^verbatim>\<open>kernel/kernel.S\<close>, \<^verbatim>\<open>lib/kernel/print.S\<close>, \<^verbatim>\<open>thread/switch.S\<close>, whose effect is the change of the current task in
  \<open>Sched\<close>), the console and port wrappers, which only do I/O, \<^verbatim>\<open>init_all\<close> and \<^verbatim>\<open>main\<close>, and the user programs under
  \<^verbatim>\<open>command/\<close>. When the processor fills its cache of translations is not modelled: what it holds is
  arbitrary. Interleavings are explicit for semaphores, locks and the scheduler; elsewhere an operation runs to its
  end, and a lock found held or a sleep is an error value.
\<close>

end
